(* ===== verification/Base.thy ===== *)
theory Base
  imports Main "HOL-Library.Word" "HOL-Library.Monad_Syntax"
begin

text \<open>
  What every component shares: the machine types of the C code (32-bit targets: the kernel
  modules and drivers are i386 code, so \<open>unsigned long\<close> and pointers have 32 bits), the
  collections of rewrite rules the component proofs use, little-endian byte images, byte stores
  indexed by address, and generic facts about lists.
\<close>

unbundle bit_operations_syntax

section \<open>Machine types\<close>

type_synonym u8 = "8 word"
type_synonym u16 = "16 word"
type_synonym u32 = "32 word"
type_synonym bytes = "u8 list"
type_synonym store = "nat \<Rightarrow> u8"
type_synonym addr = u32

text \<open>The \<open>NTSTATUS\<close> values the Windows drivers return or compare with; a lower driver may
  answer any other value.\<close>

datatype ntstatus =
    STATUS_SUCCESS
  | STATUS_INSUFFICIENT_RESOURCES
  | STATUS_INVALID_PARAMETER
  | STATUS_NO_MEMORY
  | STATUS_ACCESS_DENIED
  | STATUS_DEVICE_BUSY
  | STATUS_ILLEGAL_FUNCTION
  | STATUS_OTHER u32

section \<open>Rule collections\<close>

named_theorems frame_simps \<open>what an operation leaves unchanged\<close>
named_theorems store_simps \<open>reading a byte store after a write\<close>

section \<open>Byte stores\<close>

text \<open>A block of memory or of a disk: \<open>peek\<close> reads \<open>n\<close> bytes from an address, \<open>poke\<close> stores
  a byte list at an address.\<close>

definition peek :: "store \<Rightarrow> nat \<Rightarrow> nat \<Rightarrow> bytes" where
  "peek m a n = map m [a..<a + n]"

definition poke :: "store \<Rightarrow> nat \<Rightarrow> bytes \<Rightarrow> store" where
  "poke m a bs = (\<lambda>i. if a \<le> i \<and> i < a + length bs then bs ! (i - a) else m i)"

lemma length_peek [simp]: "length (peek m a n) = n"
  by (simp add: peek_def)

lemma nth_peek [simp]: "i < n \<Longrightarrow> peek m a n ! i = m (a + i)"
  by (simp add: peek_def)

lemma peek_0 [simp]: "peek m a 0 = []"
  by (simp add: peek_def)

lemma peek_eq_iff: "peek m a n = peek m' b n \<longleftrightarrow> (\<forall>i<n. m (a + i) = m' (b + i))"
  by (auto simp: list_eq_iff_nth_eq)

lemma take_peek [simp]: "n \<le> m \<Longrightarrow> take n (peek s a m) = peek s a n"
  by (rule nth_equalityI) simp_all

lemma poke_Nil [simp]: "poke m a [] = m"
  by (auto simp: poke_def fun_eq_iff)

lemma poke_in [store_simps]: "i < length bs \<Longrightarrow> poke m a bs (a + i) = bs ! i"
  by (simp add: poke_def)

lemma poke_out [store_simps]: "i < a \<or> a + length bs \<le> i \<Longrightarrow> poke m a bs i = m i"
  by (auto simp: poke_def)

lemma peek_poke_same [store_simps]: "n = length bs \<Longrightarrow> peek (poke m a bs) a n = bs"
  by (rule nth_equalityI) (simp_all add: store_simps)

lemma peek_poke_prefix: "n \<le> length bs \<Longrightarrow> peek (poke m a bs) a n = take n bs"
  by (rule nth_equalityI) (simp_all add: store_simps)

lemma peek_poke_disjoint [store_simps]:
  "b + n \<le> a \<or> a + length bs \<le> b \<Longrightarrow> peek (poke m a bs) b n = peek m b n"
  by (rule nth_equalityI) (auto simp: poke_def)

lemma poke_peek_same [simp]: "poke m a (peek m a n) = m"
proof (rule ext)
  fix i show "poke m a (peek m a n) i = m i"
    using nth_peek [of "i - a" n m a] by (auto simp: poke_def simp del: nth_peek)
qed

lemma poke_poke_same [store_simps]:
  "length bs = length cs \<Longrightarrow> poke (poke m a bs) a cs = poke m a cs"
  by (rule ext) (simp add: poke_def)

lemma poke_append: "poke (poke m a bs) (a + length bs) cs = poke m a (bs @ cs)"
  by (rule ext) (auto simp: poke_def nth_append diff_diff_left)

lemma poke_cong_at: "m i = m' i \<Longrightarrow> poke m a bs i = poke m' a bs i"
  by (simp add: poke_def)

lemma poke_poke_overlay:
  assumes "j + length w \<le> n"
  shows "poke d a (peek (poke (poke b 0 (peek d a n)) j w) 0 n) = poke d (a + j) w"
proof (rule ext)
  fix i
  have "peek d a n ! k = d (a + k)" if "k < n" for k using that by simp
  then show "poke d a (peek (poke (poke b 0 (peek d a n)) j w) 0 n) i = poke d (a + j) w i"
    using assms nth_peek [of "i - a" n d a]
    by (auto simp: poke_def diff_diff_eq add.commute less_diff_conv2)
qed

section \<open>Little-endian images\<close>

text \<open>The four bytes of a 32-bit word in memory on a little-endian machine, and back.\<close>

definition le32 :: "u32 \<Rightarrow> bytes" where
  "le32 w = [ucast w, ucast (drop_bit 8 w), ucast (drop_bit 16 w), ucast (drop_bit 24 w)]"

definition un_le32 :: "bytes \<Rightarrow> u32" where
  "un_le32 bs = ucast (bs ! 0) OR push_bit 8 (ucast (bs ! 1)) OR
     push_bit 16 (ucast (bs ! 2)) OR push_bit 24 (ucast (bs ! 3))"

lemma length_le32 [simp]: "length (le32 w) = 4"
  by (simp add: le32_def)

lemma un_le32_le32 [simp]: "un_le32 (le32 w) = w"
proof (rule bit_word_eqI)
  fix n assume "n < LENGTH(32)"
  then consider "n < 8" | "8 \<le> n" "n < 16" | "16 \<le> n" "n < 24" | "24 \<le> n" "n < 32"
    by fastforce
  then show "bit (un_le32 (le32 w)) n \<longleftrightarrow> bit w n"
    by cases (auto simp: un_le32_def le32_def bit_simps)
qed

lemma le32_inject [simp]: "le32 v = le32 w \<longleftrightarrow> v = w"
  by (metis un_le32_le32)

definition le16 :: "u16 \<Rightarrow> bytes" where
  "le16 w = [ucast w, ucast (drop_bit 8 w)]"

definition un_le16 :: "bytes \<Rightarrow> u16" where
  "un_le16 bs = ucast (bs ! 0) OR push_bit 8 (ucast (bs ! 1))"

lemma length_le16 [simp]: "length (le16 w) = 2"
  by (simp add: le16_def)

lemma un_le16_le16 [simp]: "un_le16 (le16 w) = w"
proof (rule bit_word_eqI)
  fix n assume "n < LENGTH(16)"
  then consider "n < 8" | "8 \<le> n" "n < 16"
    by fastforce
  then show "bit (un_le16 (le16 w)) n \<longleftrightarrow> bit w n"
    by cases (auto simp: un_le16_def le16_def bit_simps)
qed

section \<open>Exclusive or\<close>

lemma xor_cancel_right [simp]: "(a :: u32) XOR m = b XOR m \<longleftrightarrow> a = b"
  by (simp add: bit_eq_iff bit_xor_iff) blast

lemma xor_cancel_left [simp]: "(m :: u32) XOR a = m XOR b \<longleftrightarrow> a = b"
  by (simp add: bit_eq_iff bit_xor_iff) blast

lemma xor_eq_0 [simp]: "(a :: u32) XOR b = 0 \<longleftrightarrow> a = b"
  by (metis xor_cancel_right xor_self_eq)

section \<open>Lists\<close>

lemma length_concat_const: "\<forall>x\<in>set xs. length (f x) = n \<Longrightarrow> length (concat (map f xs)) = n * length xs"
  by (induction xs) auto

lemma in_set_remove1_distinct:
  "distinct xs \<Longrightarrow> x \<in> set (remove1 y xs) \<longleftrightarrow> x \<in> set xs \<and> x \<noteq> y"
  by auto

lemma find_eq_hd_filter: "List.find P xs = (case filter P xs of [] \<Rightarrow> None | x # _ \<Rightarrow> Some x)"
  by (induction xs) auto

lemma find_None: "List.find P xs = None \<longleftrightarrow> (\<forall>x\<in>set xs. \<not> P x)"
  by (induction xs) auto

lemma find_SomeD: "List.find P xs = Some x \<Longrightarrow> P x \<and> x \<in> set xs"
  by (induction xs) (auto split: if_splits)

lemma list_update_id_if: "i < length xs \<Longrightarrow> xs ! i = x \<Longrightarrow> xs[i := x] = xs"
  by auto

end
