(* ===== verification/Crc32.thy ===== *)
theory Crc32
  imports Base
begin

text \<open>
  The checksum routine of the RAID driver, \<open>src/SimpleRAIDDriverWindows/crc32.c\<close>: the table
  \<open>crc_table\<close>, the macros \<open>DO1\<close>, \<open>DO2\<close>, \<open>DO4\<close>, \<open>DO8\<close> and
  the function \<open>update_crc\<close>, with its unrolled loop. A buffer pointer is the list of the bytes from
  it to the end of its allocation; reading past the end is \<open>None\<close>.

  The lemmas compare the table-driven code with the bit-serial definition of the checksum
  (polynomial \<open>0xEDB88320\<close>, reflected): the table is the one of that polynomial, the unrolled
  loop computes the bit-serial checksum, checksums of consecutive pieces compose, and a change
  inside a window of four bytes is always seen.
\<close>

section \<open>The code\<close>

definition crc_table :: "u32 list" where
  "crc_table = [
     0x00000000, 0x77073096, 0xee0e612c, 0x990951ba, 0x076dc419,
     0x706af48f, 0xe963a535, 0x9e6495a3, 0x0edb8832, 0x79dcb8a4,
     0xe0d5e91e, 0x97d2d988, 0x09b64c2b, 0x7eb17cbd, 0xe7b82d07,
     0x90bf1d91, 0x1db71064, 0x6ab020f2, 0xf3b97148, 0x84be41de,
     0x1adad47d, 0x6ddde4eb, 0xf4d4b551, 0x83d385c7, 0x136c9856,
     0x646ba8c0, 0xfd62f97a, 0x8a65c9ec, 0x14015c4f, 0x63066cd9,
     0xfa0f3d63, 0x8d080df5, 0x3b6e20c8, 0x4c69105e, 0xd56041e4,
     0xa2677172, 0x3c03e4d1, 0x4b04d447, 0xd20d85fd, 0xa50ab56b,
     0x35b5a8fa, 0x42b2986c, 0xdbbbc9d6, 0xacbcf940, 0x32d86ce3,
     0x45df5c75, 0xdcd60dcf, 0xabd13d59, 0x26d930ac, 0x51de003a,
     0xc8d75180, 0xbfd06116, 0x21b4f4b5, 0x56b3c423, 0xcfba9599,
     0xb8bda50f, 0x2802b89e, 0x5f058808, 0xc60cd9b2, 0xb10be924,
     0x2f6f7c87, 0x58684c11, 0xc1611dab, 0xb6662d3d, 0x76dc4190,
     0x01db7106, 0x98d220bc, 0xefd5102a, 0x71b18589, 0x06b6b51f,
     0x9fbfe4a5, 0xe8b8d433, 0x7807c9a2, 0x0f00f934, 0x9609a88e,
     0xe10e9818, 0x7f6a0dbb, 0x086d3d2d, 0x91646c97, 0xe6635c01,
     0x6b6b51f4, 0x1c6c6162, 0x856530d8, 0xf262004e, 0x6c0695ed,
     0x1b01a57b, 0x8208f4c1, 0xf50fc457, 0x65b0d9c6, 0x12b7e950,
     0x8bbeb8ea, 0xfcb9887c, 0x62dd1ddf, 0x15da2d49, 0x8cd37cf3,
     0xfbd44c65, 0x4db26158, 0x3ab551ce, 0xa3bc0074, 0xd4bb30e2,
     0x4adfa541, 0x3dd895d7, 0xa4d1c46d, 0xd3d6f4fb, 0x4369e96a,
     0x346ed9fc, 0xad678846, 0xda60b8d0, 0x44042d73, 0x33031de5,
     0xaa0a4c5f, 0xdd0d7cc9, 0x5005713c, 0x270241aa, 0xbe0b1010,
     0xc90c2086, 0x5768b525, 0x206f85b3, 0xb966d409, 0xce61e49f,
     0x5edef90e, 0x29d9c998, 0xb0d09822, 0xc7d7a8b4, 0x59b33d17,
     0x2eb40d81, 0xb7bd5c3b, 0xc0ba6cad, 0xedb88320, 0x9abfb3b6,
     0x03b6e20c, 0x74b1d29a, 0xead54739, 0x9dd277af, 0x04db2615,
     0x73dc1683, 0xe3630b12, 0x94643b84, 0x0d6d6a3e, 0x7a6a5aa8,
     0xe40ecf0b, 0x9309ff9d, 0x0a00ae27, 0x7d079eb1, 0xf00f9344,
     0x8708a3d2, 0x1e01f268, 0x6906c2fe, 0xf762575d, 0x806567cb,
     0x196c3671, 0x6e6b06e7, 0xfed41b76, 0x89d32be0, 0x10da7a5a,
     0x67dd4acc, 0xf9b9df6f, 0x8ebeeff9, 0x17b7be43, 0x60b08ed5,
     0xd6d6a3e8, 0xa1d1937e, 0x38d8c2c4, 0x4fdff252, 0xd1bb67f1,
     0xa6bc5767, 0x3fb506dd, 0x48b2364b, 0xd80d2bda, 0xaf0a1b4c,
     0x36034af6, 0x41047a60, 0xdf60efc3, 0xa867df55, 0x316e8eef,
     0x4669be79, 0xcb61b38c, 0xbc66831a, 0x256fd2a0, 0x5268e236,
     0xcc0c7795, 0xbb0b4703, 0x220216b9, 0x5505262f, 0xc5ba3bbe,
     0xb2bd0b28, 0x2bb45a92, 0x5cb36a04, 0xc2d7ffa7, 0xb5d0cf31,
     0x2cd99e8b, 0x5bdeae1d, 0x9b64c2b0, 0xec63f226, 0x756aa39c,
     0x026d930a, 0x9c0906a9, 0xeb0e363f, 0x72076785, 0x05005713,
     0x95bf4a82, 0xe2b87a14, 0x7bb12bae, 0x0cb61b38, 0x92d28e9b,
     0xe5d5be0d, 0x7cdcefb7, 0x0bdbdf21, 0x86d3d2d4, 0xf1d4e242,
     0x68ddb3f8, 0x1fda836e, 0x81be16cd, 0xf6b9265b, 0x6fb077e1,
     0x18b74777, 0x88085ae6, 0xff0f6a70, 0x66063bca, 0x11010b5c,
     0x8f659eff, 0xf862ae69, 0x616bffd3, 0x166ccf45, 0xa00ae278,
     0xd70dd2ee, 0x4e048354, 0x3903b3c2, 0xa7672661, 0xd06016f7,
     0x4969474d, 0x3e6e77db, 0xaed16a4a, 0xd9d65adc, 0x40df0b66,
     0x37d83bf0, 0xa9bcae53, 0xdebb9ec5, 0x47b2cf7f, 0x30b5ffe9,
     0xbdbdf21c, 0xcabac28a, 0x53b39330, 0x24b4a3a6, 0xbad03605,
     0xcdd70693, 0x54de5729, 0x23d967bf, 0xb3667a2e, 0xc4614ab8,
     0x5d681b02, 0x2a6f2b94, 0xb40bbe37, 0xc30c8ea1, 0x5a05df1b,
     0x2d02ef8d
  ]"

text \<open>One table step: \<open>crc = crc_table[((int)crc ^ (*buf++)) & 0xff] ^ (crc >> 8)\<close>.\<close>

definition crc_step :: "u32 \<Rightarrow> u8 \<Rightarrow> u32" where
  "crc_step crc b = crc_table ! unat ((crc XOR ucast b) AND 0xff) XOR drop_bit 8 crc"

fun DO1 :: "u32 \<times> bytes \<Rightarrow> (u32 \<times> bytes) option" where
  "DO1 (crc, []) = None"
| "DO1 (crc, b # buf) = Some (crc_step crc b, buf)"

definition DO2 :: "u32 \<times> bytes \<Rightarrow> (u32 \<times> bytes) option" where
  "DO2 p = DO1 p \<bind> DO1"

definition DO4 :: "u32 \<times> bytes \<Rightarrow> (u32 \<times> bytes) option" where
  "DO4 p = DO2 p \<bind> DO2"

definition DO8 :: "u32 \<times> bytes \<Rightarrow> (u32 \<times> bytes) option" where
  "DO8 p = DO4 p \<bind> DO4"

text \<open>\<open>while (len >= 8) { DO8(buf); len -= 8; }\<close> and \<open>do { DO1(buf); } while (--len)\<close>.\<close>

fun crc_while8 :: "u32 \<times> bytes \<Rightarrow> nat \<Rightarrow> ((u32 \<times> bytes) \<times> nat) option" where
  "crc_while8 p len =
     (if len \<ge> 8 then DO8 p \<bind> (\<lambda>p. crc_while8 p (len - 8)) else Some (p, len))"

declare crc_while8.simps [simp del]

fun crc_dowhile1 :: "u32 \<times> bytes \<Rightarrow> nat \<Rightarrow> (u32 \<times> bytes) option" where
  "crc_dowhile1 p len =
     DO1 p \<bind> (\<lambda>p. if len - 1 \<noteq> 0 then crc_dowhile1 p (len - 1) else Some p)"

declare crc_dowhile1.simps [simp del]

definition update_crc :: "u32 \<Rightarrow> bytes option \<Rightarrow> u32 \<Rightarrow> u32 option" where
  "update_crc crc buf len =
     (case buf of
        None \<Rightarrow> Some 0
      | Some bs \<Rightarrow> do {
          (p, n) \<leftarrow> crc_while8 (crc XOR 0xffffffff, bs) (unat len);
          (crc, _) \<leftarrow> (if n \<noteq> 0 then crc_dowhile1 p n else Some p);
          Some (crc XOR 0xffffffff)
        })"

section \<open>The bit-serial checksum\<close>

definition crc_bit :: "u32 \<Rightarrow> u32" where
  "crc_bit c = (if bit c 0 then 0xEDB88320 XOR drop_bit 1 c else drop_bit 1 c)"

definition crc_byte :: "u32 \<Rightarrow> u8 \<Rightarrow> u32" where
  "crc_byte c b = (crc_bit ^^ 8) (c XOR ucast b)"

definition crc_ref :: "u32 \<Rightarrow> bytes \<Rightarrow> u32" where
  "crc_ref c bs = foldl crc_byte (c XOR 0xffffffff) bs XOR 0xffffffff"


lemma crc_bit_XOR: "crc_bit (a XOR b) = crc_bit a XOR crc_bit b"
  by (auto simp: crc_bit_def bit_xor_iff drop_bit_xor xor.assoc xor.left_commute)

lemma crc_bits_XOR: "(crc_bit ^^ n) (a XOR b) = (crc_bit ^^ n) a XOR (crc_bit ^^ n) b"
  by (induction n) (simp_all add: crc_bit_XOR)

lemma crc_bits_0 [simp]: "(crc_bit ^^ n) 0 = 0"
  by (induction n) (simp_all add: crc_bit_def)

text \<open>On a word whose low \<open>n\<close> bits are clear, \<open>n\<close> bit steps only shift.\<close>

lemma crc_bits_shift: "(\<And>i. i < n \<Longrightarrow> \<not> bit x i) \<Longrightarrow> (crc_bit ^^ n) x = drop_bit n x"
proof (induction n arbitrary: x)
  case 0
  then show ?case by simp
next
  case (Suc n)
  from Suc.prems [of 0] have "crc_bit x = drop_bit 1 x"
    by (simp add: crc_bit_def)
  moreover have "(crc_bit ^^ n) (drop_bit 1 x) = drop_bit n (drop_bit 1 x)"
    using Suc.prems by (intro Suc.IH) (simp add: bit_drop_bit_eq)
  ultimately show ?case
    by (simp add: funpow_Suc_right del: funpow.simps)
qed

lemma crc_bit_eq_0: "crc_bit x = 0 \<Longrightarrow> x = 0"
proof -
  assume eq: "crc_bit x = 0"
  have "\<not> bit x 0"
  proof
    assume "bit x 0"
    with eq have "bit (0xEDB88320 XOR drop_bit 1 x :: u32) 31 = bit (0 :: u32) 31"
      by (simp only: crc_bit_def if_True)
    then show False
      using bit_imp_le_length [of x 32] by (auto simp: bit_xor_iff bit_drop_bit_eq)
  qed
  with eq have "drop_bit 1 x = 0" by (simp add: crc_bit_def)
  show "x = 0"
  proof (rule bit_word_eqI)
    fix n
    show "bit x n \<longleftrightarrow> bit (0 :: u32) n"
    proof (cases n)
      case 0
      with \<open>\<not> bit x 0\<close> show ?thesis by simp
    next
      case (Suc m)
      have "bit (drop_bit 1 x) m = bit (0 :: u32) m"
        by (simp only: \<open>drop_bit 1 x = 0\<close>)
      with Suc show ?thesis by (simp add: bit_drop_bit_eq)
    qed
  qed
qed

lemma crc_bits_inject [simp]: "(crc_bit ^^ n) a = (crc_bit ^^ n) b \<longleftrightarrow> a = b"
proof
  assume "(crc_bit ^^ n) a = (crc_bit ^^ n) b"
  then have "(crc_bit ^^ n) (a XOR b) = 0"
    by (simp add: crc_bits_XOR)
  then have "a XOR b = 0"
    by (induction n) (auto dest: crc_bit_eq_0 simp del: xor_eq_0)
  then show "a = b" by simp
qed simp

section \<open>The table is the table of the polynomial\<close>

definition crc_entry :: "nat \<Rightarrow> u32" where
  "crc_entry i = (crc_bit ^^ 8) (word_of_nat i)"

text \<open>The table doubles: the entries from \<open>2^k\<close> on are the first \<open>2^k\<close> ones XOR the entry of
  \<open>2^k\<close>. This turns the check of 256 entries into eight steps.\<close>

definition crc_double :: "u32 \<Rightarrow> u32 list \<Rightarrow> u32 list" where
  "crc_double b xs = xs @ map (\<lambda>x. b XOR x) xs"

lemma word_of_nat_add_power:
  assumes "i < 2 ^ k"
  shows "(word_of_nat (2 ^ k + i) :: u32) = word_of_nat (2 ^ k) XOR word_of_nat i"
proof -
  have "take_bit k i = i" using assms by (simp add: take_bit_nat_eq_self_iff)
  then have "\<not> bit i k" by (metis bit_take_bit_iff less_irrefl)
  then have "(2 ^ k :: u32) AND word_of_nat i = 0"
    by (intro bit_word_eqI) (auto simp: bit_simps)
  then show ?thesis by (simp add: disjunctive_add_eq_xor)
qed

lemma crc_entries_double:
  "map crc_entry [0..<2 ^ Suc k] = crc_double (crc_entry (2 ^ k)) (map crc_entry [0..<2 ^ k])"
proof -
  have "[0..<2 ^ Suc k] = [0..<2 ^ k] @ map (\<lambda>i. 2 ^ k + i) [0..<2 ^ k]"
    using map_add_upt [of "2 ^ k" "2 ^ k"]
    by (simp add: upt_add_eq_append [symmetric] mult_2 add.commute)
  then show ?thesis
    by (auto simp: crc_double_def crc_entry_def word_of_nat_add_power crc_bits_XOR
      simp del: of_nat_add)
qed

lemma funpow_8: "(f ^^ 8) x = f (f (f (f (f (f (f (f x)))))))"
  by (simp add: numeral_eq_Suc)

lemma crc_basis:
  "crc_entry 0 = 0"
  "crc_entry 1 = 0x77073096" "crc_entry 2 = 0xee0e612c" "crc_entry 4 = 0x076dc419"
  "crc_entry 8 = 0x0edb8832" "crc_entry 16 = 0x1db71064" "crc_entry 32 = 0x3b6e20c8"
  "crc_entry 64 = 0x76dc4190" "crc_entry 128 = 0xedb88320"
  unfolding crc_entry_def funpow_8 by (simp_all add: crc_bit_def)

lemma crc_table_entries: "crc_table = map crc_entry [0..<256]"
proof -
  define P where "P k = map crc_entry [0..<2 ^ k]" for k :: nat
  have double: "P (k + 1) = crc_double (crc_entry (2 ^ k)) (P k)" for k
    unfolding P_def Suc_eq_plus1 [symmetric] by (rule crc_entries_double)
  have "P 0 = [0]" by (simp add: P_def crc_basis)
  then have "P 2 = crc_double 0xee0e612c (crc_double 0x77073096 [0])"
    using double [of 0] double [of 1]
    by (simp add: crc_basis crc_basis [unfolded One_nat_def numeral_2_eq_2]
      numeral_2_eq_2)
  then have "P 8 = crc_double 0xedb88320 (crc_double 0x76dc4190 (crc_double 0x3b6e20c8
      (crc_double 0x1db71064 (crc_double 0x0edb8832 (crc_double 0x076dc419
      (crc_double 0xee0e612c (crc_double 0x77073096 [0])))))))"
    using double [of 2] double [of 3] double [of 4] double [of 5] double [of 6] double [of 7]
    by (simp add: crc_basis)
  also have "\<dots> = crc_table"
    by (simp add: crc_table_def crc_double_def)
  finally have "crc_table = map crc_entry [0..<2 ^ 8]"
    unfolding P_def by (rule sym)
  moreover have "(2 :: nat) ^ 8 = 256" by simp
  ultimately show ?thesis by (simp only:)
qed

text \<open>One table step is eight bit steps on the byte XORed in.\<close>

lemma crc_step_eq_byte: "crc_step c b = crc_byte c b"
proof -
  define m :: u32 where "m = 0xff"
  let ?x = "c XOR ucast b"
  have "m = mask 8" by (simp add: m_def mask_eq_exp_minus_1)
  then have m: "bit m i \<longleftrightarrow> i < 8" for i by (auto simp: bit_mask_iff)
  have "?x AND m \<le> m" by (rule word_and_le1)
  then have lt: "unat (?x AND m) < 256" by (simp add: word_le_nat_alt m_def)
  have split: "?x = (?x AND m) XOR (?x AND NOT m)"
    by (rule bit_word_eqI) (auto simp: bit_simps)
  have "(crc_bit ^^ 8) (?x AND NOT m) = drop_bit 8 (?x AND NOT m)"
    by (rule crc_bits_shift) (simp add: bit_and_iff bit_not_iff m)
  also have "\<dots> = drop_bit 8 c"
    by (rule bit_word_eqI)
      (auto simp: bit_drop_bit_eq bit_and_iff bit_xor_iff bit_not_iff bit_ucast_iff m
        dest: bit_imp_le_length)
  finally have high: "(crc_bit ^^ 8) (?x AND NOT m) = drop_bit 8 c" .
  have "crc_byte c b = (crc_bit ^^ 8) (?x AND m) XOR (crc_bit ^^ 8) (?x AND NOT m)"
    unfolding crc_byte_def crc_bits_XOR [symmetric] split [symmetric] by (rule refl)
  also have "\<dots> = crc_table ! unat (?x AND m) XOR drop_bit 8 c"
    using lt by (simp add: high crc_table_entries crc_entry_def del: upt_rec_numeral)
  finally show ?thesis by (simp add: crc_step_def m_def)
qed

section \<open>The unrolled loop\<close>

text \<open>Taking \<open>k\<close> steps, or failing when the buffer is too short.\<close>

definition crc_steps :: "nat \<Rightarrow> u32 \<times> bytes \<Rightarrow> (u32 \<times> bytes) option" where
  "crc_steps k p = (if k \<le> length (snd p)
     then Some (foldl crc_byte (fst p) (take k (snd p)), drop k (snd p)) else None)"

lemma crc_steps_add: "crc_steps j p \<bind> crc_steps k = crc_steps (j + k) p"
  by (auto simp: crc_steps_def take_add add.commute)

lemma DO1_steps: "DO1 = crc_steps 1"
proof (rule ext)
  fix p :: "u32 \<times> bytes"
  show "DO1 p = crc_steps 1 p"
    by (cases p rule: DO1.cases) (simp_all add: crc_steps_def crc_step_eq_byte)
qed

lemma DO8_steps: "DO8 = crc_steps 8"
proof (rule ext)
  have DO2: "DO2 = crc_steps 2"
    by (rule ext) (simp only: DO2_def DO1_steps crc_steps_add one_add_one)
  have DO4: "DO4 = crc_steps 4"
    by (rule ext) (simp add: DO4_def DO2 crc_steps_add)
  show "DO8 p = crc_steps 8 p" for p
    by (simp add: DO8_def DO4 crc_steps_add)
qed

lemma crc_while8_steps:
  "crc_while8 p n = map_option (\<lambda>q. (q, n mod 8)) (crc_steps (8 * (n div 8)) p)"
proof (induction n arbitrary: p rule: less_induct)
  case (less n)
  show ?case
  proof (cases "n \<ge> 8")
    case True
    then have n: "8 * (n div 8) = 8 + 8 * ((n - 8) div 8)" "(n - 8) mod 8 = n mod 8"
      by (simp_all add: le_div_geq le_mod_geq)
    have "crc_while8 p n = crc_steps 8 p \<bind> (\<lambda>q. crc_while8 q (n - 8))"
      using True by (simp add: crc_while8.simps [of p n] DO8_steps)
    also have "\<dots> = map_option (\<lambda>q. (q, n mod 8))
        (crc_steps 8 p \<bind> crc_steps (8 * ((n - 8) div 8)))"
      using True less.IH [of "n - 8"] by (simp add: n map_option_bind o_def)
    finally show ?thesis by (simp add: crc_steps_add n)
  next
    case False
    then show ?thesis by (simp add: crc_while8.simps [of p n] crc_steps_def)
  qed
qed

lemma crc_dowhile1_steps: "0 < n \<Longrightarrow> crc_dowhile1 p n = crc_steps n p"
proof (induction n arbitrary: p)
  case 0
  then show ?case by simp
next
  case (Suc n)
  show ?case
  proof (cases "n = 0")
    case True
    then show ?thesis
      by (simp add: crc_dowhile1.simps [of p "Suc n"] crc_dowhile1.simps [of p "Suc 0"]
        DO1_steps)
  next
    case False
    then show ?thesis
      using Suc.IH crc_steps_add [of 1 p n]
      by (simp add: crc_dowhile1.simps [of p "Suc n"] DO1_steps)
  qed
qed

lemma update_crc_eq:
  "update_crc c (Some bs) len =
     (if unat len \<le> length bs then Some (crc_ref c (take (unat len) bs)) else None)"
proof -
  let ?n = "unat len" and ?p = "(c XOR 0xffffffff, bs)"
  have "crc_steps (?n mod 8) q = Some q" if "?n mod 8 = 0" for q
    using that by (simp add: crc_steps_def)
  then have "crc_while8 ?p ?n \<bind> (\<lambda>(p, n). if n \<noteq> 0 then crc_dowhile1 p n else Some p)
      = crc_steps (8 * (?n div 8)) ?p \<bind> crc_steps (?n mod 8)"
    by (auto simp: crc_while8_steps crc_dowhile1_steps split: bind_splits)
  then have "crc_while8 ?p ?n \<bind> (\<lambda>(p, n). if n \<noteq> 0 then crc_dowhile1 p n else Some p)
      = crc_steps ?n ?p"
    by (simp add: crc_steps_add)
  moreover have "update_crc c (Some bs) len =
      (crc_while8 ?p ?n \<bind> (\<lambda>(p, n). if n \<noteq> 0 then crc_dowhile1 p n else Some p))
        \<bind> (\<lambda>(c, _). Some (c XOR 0xffffffff))"
    by (simp add: update_crc_def case_prod_beta')
  ultimately show ?thesis
    by (simp add: crc_steps_def crc_ref_def)
qed

lemma update_crc_NULL: "update_crc c None len = Some 0"
  by (simp add: update_crc_def)

lemma crc_ref_Nil [simp]: "crc_ref c [] = c"
  by (simp add: crc_ref_def xor.assoc)

lemma crc_ref_append: "crc_ref c (xs @ ys) = crc_ref (crc_ref c xs) ys"
  by (simp add: crc_ref_def xor.assoc)

section \<open>What the checksum detects\<close>

lemma crc_byte_inject [simp]: "crc_byte c b = crc_byte c' b \<longleftrightarrow> c = c'"
  by (simp add: crc_byte_def)

lemma crc_bytes_inject: "foldl crc_byte c bs = foldl crc_byte c' bs \<longleftrightarrow> c = c'"
  by (induction bs arbitrary: c c') simp_all

text \<open>The bytes of a window as one word, the first byte lowest.\<close>

fun crc_window :: "bytes \<Rightarrow> u32" where
  "crc_window [] = 0"
| "crc_window (b # bs) = ucast b XOR push_bit 8 (crc_window bs)"

lemma crc_window_bound: "bit (crc_window bs) i \<Longrightarrow> i < 8 * length bs"
proof (induction bs arbitrary: i)
  case (Cons b bs)
  show ?case
  proof (cases "i < 8")
    case False
    with Cons.prems have "bit (crc_window bs) (i - 8)"
      by (auto simp: bit_xor_iff bit_push_bit_iff bit_ucast_iff dest: bit_imp_le_length)
    from Cons.IH [OF this] show ?thesis by simp
  qed simp
qed simp

lemma crc_window_Cons_shift:
  assumes "length bs \<le> 3"
  shows "drop_bit 8 (push_bit 8 (crc_window bs)) = crc_window bs"
proof (rule bit_word_eqI)
  fix i
  show "bit (drop_bit 8 (push_bit 8 (crc_window bs))) i \<longleftrightarrow> bit (crc_window bs) i"
    using assms crc_window_bound [of bs i]
    by (auto simp: bit_drop_bit_eq bit_push_bit_iff)
qed

lemma crc_bytes_window:
  "length bs \<le> 4 \<Longrightarrow>
     foldl crc_byte c bs = (crc_bit ^^ (8 * length bs)) (c XOR crc_window bs)"
proof (induction bs arbitrary: c)
  case Nil
  then show ?case by simp
next
  case (Cons b bs)
  have "(crc_bit ^^ 8) (push_bit 8 (crc_window bs)) = drop_bit 8 (push_bit 8 (crc_window bs))"
    by (rule crc_bits_shift) (simp add: bit_push_bit_iff)
  with Cons.prems have "crc_byte c b XOR crc_window bs
      = (crc_bit ^^ 8) (c XOR crc_window (b # bs))"
    by (simp add: crc_byte_def crc_bits_XOR crc_window_Cons_shift xor.assoc)
  moreover have "(crc_bit ^^ (8 * length (b # bs))) x
      = (crc_bit ^^ (8 * length bs)) ((crc_bit ^^ 8) x)" for x
  proof -
    have "8 * length (b # bs) = 8 * length bs + 8" by simp
    then show ?thesis by (simp only: funpow_add comp_apply)
  qed
  moreover have "length bs \<le> 4" using Cons.prems by simp
  ultimately show ?case by (simp only: foldl.simps Cons.IH)
qed

lemma crc_window_inject:
  "length bs = length cs \<Longrightarrow> length bs \<le> 4 \<Longrightarrow> crc_window bs = crc_window cs \<Longrightarrow> bs = cs"
proof (induction bs cs rule: list_induct2)
  case (Cons b bs c cs)
  have low: "b = c"
  proof (rule bit_word_eqI)
    fix i assume "i < LENGTH(8)"
    then show "bit b i \<longleftrightarrow> bit c i"
      using arg_cong [OF Cons.prems(2), of "\<lambda>w. bit w i"]
      by (simp add: bit_xor_iff bit_push_bit_iff bit_ucast_iff)
  qed
  have "push_bit 8 (crc_window bs) = push_bit 8 (crc_window cs)"
    using Cons.prems(2) unfolding low crc_window.simps xor_cancel_left .
  moreover have "crc_window bs = drop_bit 8 (push_bit 8 (crc_window bs))"
    using Cons.prems by (simp add: crc_window_Cons_shift)
  ultimately have "crc_window bs = drop_bit 8 (push_bit 8 (crc_window cs))"
    by (simp only:)
  also have "\<dots> = crc_window cs"
    using Cons.prems Cons.hyps by (simp add: crc_window_Cons_shift)
  finally have tail: "crc_window bs = crc_window cs" .
  have "length bs \<le> 4" using Cons.prems(1) by simp
  from Cons.IH [OF this tail] low show ?case by (simp only:)
qed (rule refl)

lemma crc_ref_burst:
  assumes "length w = length w'" "length w \<le> 4" "w \<noteq> w'"
  shows "crc_ref c (pre @ w @ post) \<noteq> crc_ref c (pre @ w' @ post)"
proof
  let ?c = "foldl crc_byte (c XOR 0xffffffff) pre"
  assume "crc_ref c (pre @ w @ post) = crc_ref c (pre @ w' @ post)"
  then have "foldl crc_byte (foldl crc_byte ?c w) post
      = foldl crc_byte (foldl crc_byte ?c w') post"
    by (simp add: crc_ref_def)
  then have "crc_window w = crc_window w'"
    using assms by (simp add: crc_bytes_inject crc_bytes_window)
  with assms show False using crc_window_inject by blast
qed

section \<open>Properties\<close>

text \<open>
  C2: the table-driven, eight times unrolled \<open>update_crc\<close> computes the bit-serial CRC-32 of the
  first \<open>len\<close> bytes of the buffer, for every seed and length, and fails only by reading past the
  end of the buffer; a NULL buffer gives 0.
\<close>

theorem update_crc_correct:
  "update_crc c buf len =
     (case buf of
        None \<Rightarrow> Some 0
      | Some bs \<Rightarrow> if unat len \<le> length bs then Some (crc_ref c (take (unat len) bs)) else None)"
  by (cases buf) (simp_all add: update_crc_NULL update_crc_eq)

text \<open>
  Checksums compose: running \<open>update_crc\<close> on the first \<open>m\<close> bytes and then, with the result as
  seed, on the next \<open>n\<close> gives the checksum of the \<open>m + n\<close> bytes in one call.
\<close>

theorem update_crc_compose:
  assumes "unat m + unat n < 2 ^ 32" "unat m \<le> length bs"
  shows "update_crc c (Some bs) m \<bind> (\<lambda>c'. update_crc c' (Some (drop (unat m) bs)) n)
    = update_crc c (Some bs) (m + n)"
proof -
  have "unat (m + n) = unat m + unat n"
    using assms(1) by (simp add: unat_word_ariths)
  then show ?thesis
    using assms(2) by (auto simp: update_crc_eq take_add crc_ref_append)
qed

theorem update_crc_compose_witness:
  "update_crc 0 (Some [1, 2, 3]) 1 \<bind> (\<lambda>c'. update_crc c' (Some (drop (unat (1 :: u32)) [1, 2, 3])) 2)
    = update_crc 0 (Some [1, 2, 3]) (1 + 2)"
  by (rule update_crc_compose) simp_all

text \<open>
  C37: two buffers of the same length that differ only inside a window of at most four
  consecutive bytes never have the same checksum, so the driver sees every corruption of that kind.
\<close>

theorem update_crc_detects_burst:
  assumes "length w = length w'" "length w \<le> 4" "w \<noteq> w'"
    and "unat len = length (pre @ w @ post)"
  shows "update_crc c (Some (pre @ w @ post)) len \<noteq> update_crc c (Some (pre @ w' @ post)) len"
  using crc_ref_burst [OF assms(1-3)] assms by (simp add: update_crc_eq)

theorem update_crc_detects_burst_witness:
  "update_crc 0 (Some ([7] @ [1, 2] @ [9])) 4 \<noteq> update_crc 0 (Some ([7] @ [3, 2] @ [9])) 4"
  by (rule update_crc_detects_burst) simp_all

end
