(* ===== verification/SimpleRaid.thy ===== *)
theory SimpleRaid
  imports Crc32
begin

text \<open>
  The software RAID driver, \<open>src/SimpleRAIDDriverWindows/ssr.c\<close>: a logical disk kept on two
  physical disks. Each write goes to both, and the checksum of the sector's data is kept in a
  table of checksums behind the data area of each disk; each read compares both copies with
  their checksums and repairs a bad copy from the good one.

  The physical disks are byte stores. What the lower disk driver answers to an I/O request packet
  is not this code's: the state carries the answers still to come (\<open>io_plan\<close>), an answer being
  that no packet could be allocated, or a completion status with the number of bytes moved before
  it; when no answer is left every request succeeds and moves all its bytes.
\<close>

section \<open>State\<close>

definition KERNEL_SECTOR_SIZE :: nat where
  "KERNEL_SECTOR_SIZE = 512"

definition LOGICAL_DISK_SIZE :: nat where
  "LOGICAL_DISK_SIZE = 95 * 1024 * 1024"

definition LOGICAL_DISK_SECTORS :: nat where
  "LOGICAL_DISK_SECTORS = LOGICAL_DISK_SIZE div KERNEL_SECTOR_SIZE"

datatype irp_major = IRP_MJ_READ | IRP_MJ_WRITE

datatype irp_outcome = NoIrp | Done ntstatus nat

record ssr_physical_device =
  disk :: store
  ioStatus :: ntstatus

record raid =
  physicalDevice :: "nat \<Rightarrow> ssr_physical_device"
  crcBuffer :: store
  writeBuffer :: store
  readBuffer :: "nat \<Rightarrow> store"
  writeBufferSize :: u32
  io_plan :: "irp_outcome list"

text \<open>A read or write request: the parameters in the stack location, and the caller's buffer; and what
  the driver leaves in the packet: status, byte count and the caller's buffer.\<close>

record io_request =
  Length :: u32
  ByteOffset :: int
  Buffer :: store

record io_reply =
  Status :: ntstatus
  Information :: u32
  Buffer_out :: store

section \<open>Requests to a physical disk\<close>

definition next_outcome :: "nat \<Rightarrow> raid \<Rightarrow> irp_outcome \<times> raid" where
  "next_outcome len s = (case io_plan s of
     [] \<Rightarrow> (Done STATUS_SUCCESS len, s)
   | x # xs \<Rightarrow> (x, s\<lparr>io_plan := xs\<rparr>))"

text \<open>\<open>IoBuildSynchronousFsdRequest\<close>, \<open>IoCallDriver\<close> and \<open>KeWaitForSingleObject\<close>: no packet, or the
  request done with its status in the device's status block. The buffer goes in and comes back.\<close>

definition lower_irp ::
  "nat \<Rightarrow> irp_major \<Rightarrow> store \<Rightarrow> nat \<Rightarrow> nat \<Rightarrow> raid \<Rightarrow> bool \<times> store \<times> raid" where
  "lower_irp i major buf len off s = (case next_outcome len s of
     (NoIrp, s) \<Rightarrow> (False, buf, s)
   | (Done st n, s) \<Rightarrow>
       (let d = physicalDevice s i; m = min n len in
        case major of
          IRP_MJ_READ \<Rightarrow> (True, poke buf 0 (peek (disk d) off m),
            s\<lparr>physicalDevice := (physicalDevice s)(i := d\<lparr>ioStatus := st\<rparr>)\<rparr>)
        | IRP_MJ_WRITE \<Rightarrow> (True, buf,
            s\<lparr>physicalDevice := (physicalDevice s)
                (i := d\<lparr>disk := poke (disk d) off (peek buf 0 m), ioStatus := st\<rparr>)\<rparr>)))"

definition SendIrp ::
  "nat \<Rightarrow> irp_major \<Rightarrow> store \<Rightarrow> nat \<Rightarrow> nat \<Rightarrow> raid \<Rightarrow> ntstatus \<times> store \<times> raid" where
  "SendIrp i major buf len off s =
     (let (built, buf, s) = lower_irp i major buf len off s in
      if \<not> built then (STATUS_INSUFFICIENT_RESOURCES, buf, s)
      else (ioStatus (physicalDevice s i), buf, s))"

text \<open>Where the checksum of the sector at an offset is kept.\<close>

definition nCRCPerSector :: u32 where
  "nCRCPerSector = 512 div 4"

definition sectorID :: "int \<Rightarrow> u32" where
  "sectorID off = word_of_int off div 512"

definition crcSegment :: "int \<Rightarrow> u32" where
  "crcSegment off = sectorID off div nCRCPerSector"

definition crcSegmentOffset :: "int \<Rightarrow> u32" where
  "crcSegmentOffset off = (sectorID off mod nCRCPerSector) * 4"

definition crcOffset :: "int \<Rightarrow> u32" where
  "crcOffset off = of_nat LOGICAL_DISK_SIZE + crcSegment off * 512"

definition SendCRCIrp ::
  "nat \<Rightarrow> irp_major \<Rightarrow> int \<Rightarrow> u32 \<Rightarrow> raid \<Rightarrow> ntstatus \<times> u32 \<times> raid" where
  "SendCRCIrp i major off crc s =
     (let seg = unat (crcOffset off); o4 = unat (crcSegmentOffset off);
        (st, s) = (if major = IRP_MJ_WRITE then
            (let (st, buf, s) = SendIrp i IRP_MJ_READ (crcBuffer s) KERNEL_SECTOR_SIZE seg s;
                 s = s\<lparr>crcBuffer := buf\<rparr> in
             if st \<noteq> STATUS_SUCCESS then (st, s)
             else (st, s\<lparr>crcBuffer := poke (crcBuffer s) o4 (le32 crc)\<rparr>))
          else (STATUS_SUCCESS, s))
      in if st \<noteq> STATUS_SUCCESS then (st, crc, s)
      else
        (let (built, buf, s) = lower_irp i major (crcBuffer s) KERNEL_SECTOR_SIZE seg s;
             s = s\<lparr>crcBuffer := buf\<rparr> in
         if \<not> built then (STATUS_INSUFFICIENT_RESOURCES, crc, s)
         else (ioStatus (physicalDevice s i),
               (if major = IRP_MJ_READ then un_le32 (peek (crcBuffer s) o4 4) else crc), s)))"

section \<open>Operations on the logical disk\<close>

definition MyOpen :: "io_request \<Rightarrow> raid \<Rightarrow> io_reply \<times> raid" where
  "MyOpen irp s = (\<lparr>Status = STATUS_SUCCESS, Information = 0, Buffer_out = Buffer irp\<rparr>, s)"

definition MyClose :: "io_request \<Rightarrow> raid \<Rightarrow> io_reply \<times> raid" where
  "MyClose irp s = (\<lparr>Status = STATUS_SUCCESS, Information = 0, Buffer_out = Buffer irp\<rparr>, s)"

definition MyDeviceIoControl :: "io_request \<Rightarrow> raid \<Rightarrow> io_reply \<times> raid" where
  "MyDeviceIoControl irp s =
     (\<lparr>Status = STATUS_SUCCESS, Information = 0, Buffer_out = Buffer irp\<rparr>, s)"

definition bad_offset :: "int \<Rightarrow> bool" where
  "bad_offset off \<longleftrightarrow> off < 0 \<or> off \<ge> int LOGICAL_DISK_SIZE"

text \<open>One turn of the loop of \<open>MyRead\<close>: the data of disk \<open>i\<close> into its buffer, then its stored
  checksum; \<open>None\<close> when either request fails.\<close>

definition read_copy :: "nat \<Rightarrow> u32 \<Rightarrow> int \<Rightarrow> raid \<Rightarrow> u32 option \<times> raid" where
  "read_copy i sizeRead off s =
     (let (st, buf, s) = SendIrp i IRP_MJ_READ (readBuffer s i) (unat sizeRead) (nat off) s;
          s = s\<lparr>readBuffer := (readBuffer s)(i := buf)\<rparr> in
      if st \<noteq> STATUS_SUCCESS then (None, s)
      else
        (let (st, crc, s) = SendCRCIrp i IRP_MJ_READ off 0 s in
         if st \<noteq> STATUS_SUCCESS then (None, s) else (Some crc, s)))"

text \<open>The repair of \<open>MyRead\<close>: the data read from disk \<open>src\<close> and its checksum written to disk \<open>dst\<close>.\<close>

definition recover_copy :: "nat \<Rightarrow> nat \<Rightarrow> u32 \<Rightarrow> u32 \<Rightarrow> int \<Rightarrow> raid \<Rightarrow> ntstatus \<times> u32 \<times> raid" where
  "recover_copy src dst crc sizeRead off s =
     (let (st, _, s) = SendIrp dst IRP_MJ_WRITE (readBuffer s src) (unat sizeRead) (nat off) s in
      if st \<noteq> STATUS_SUCCESS then (st, 0, s)
      else
        (let (st, _, s) = SendCRCIrp dst IRP_MJ_WRITE off crc s in
         if st \<noteq> STATUS_SUCCESS then (st, 0, s) else (st, sizeRead, s)))"

definition MyRead :: "io_request \<Rightarrow> raid \<Rightarrow> io_reply \<times> raid" where
  "MyRead irp s =
     (let sizeToRead = Length irp; off = ByteOffset irp; user = Buffer irp;
          sizeRead = (if sizeToRead < 512 then sizeToRead else 512);
          failed = \<lparr>Status = STATUS_INSUFFICIENT_RESOURCES, Information = 0, Buffer_out = user\<rparr>
      in if bad_offset off then (failed, s)
      else case read_copy 0 sizeRead off s of
        (None, s) \<Rightarrow> (failed, s)
      | (Some crc0, s) \<Rightarrow>
        (case read_copy 1 sizeRead off s of
           (None, s) \<Rightarrow> (failed, s)
         | (Some crc1, s) \<Rightarrow>
           (let crcReal0 = update_crc 0 (Some (peek (readBuffer s 0) 0 KERNEL_SECTOR_SIZE)) sizeRead;
                crcReal1 = update_crc 0 (Some (peek (readBuffer s 1) 0 KERNEL_SECTOR_SIZE)) sizeRead
            in if Some crc0 = crcReal0 \<and> Some crc1 = crcReal1 \<and> crcReal0 = crcReal1 then
                 (\<lparr>Status = STATUS_SUCCESS, Information = sizeRead,
                   Buffer_out = poke user 0 (peek (readBuffer s 0) 0 (unat sizeRead))\<rparr>, s)
               else if Some crc0 = crcReal0 then
                 (let (st, n, s) = recover_copy 0 1 crc0 sizeRead off s in
                  (\<lparr>Status = st, Information = n, Buffer_out = user\<rparr>, s))
               else if Some crc1 = crcReal1 then
                 (let (st, n, s) = recover_copy 1 0 crc1 sizeRead off s in
                  (\<lparr>Status = st, Information = n, Buffer_out = user\<rparr>, s))
               else (failed, s))))"

text \<open>One turn of the loop of \<open>MyWrite\<close>: the data, then the checksum, to disk \<open>i\<close>.\<close>

definition write_copy :: "nat \<Rightarrow> u32 \<Rightarrow> u32 \<Rightarrow> int \<Rightarrow> raid \<Rightarrow> ntstatus \<times> raid" where
  "write_copy i crc sizeWritten off s =
     (let (st, _, s) = SendIrp i IRP_MJ_WRITE (writeBuffer s) (unat sizeWritten) (nat off) s in
      if st \<noteq> STATUS_SUCCESS then (st, s)
      else (let (st, _, s) = SendCRCIrp i IRP_MJ_WRITE off crc s in (st, s)))"

definition MyWrite :: "io_request \<Rightarrow> raid \<Rightarrow> (io_reply \<times> raid) option" where
  "MyWrite irp s =
     (let sizeToWrite = Length irp; off = ByteOffset irp; user = Buffer irp;
          sizeWritten = (if sizeToWrite \<le> 512 then sizeToWrite else 512);
          reply = (\<lambda>st n. \<lparr>Status = st, Information = n, Buffer_out = user\<rparr>)
      in if bad_offset off then Some (reply STATUS_INSUFFICIENT_RESOURCES 0, s)
      else
        (let s = s\<lparr>writeBuffer := poke (poke (writeBuffer s) 0 (replicate KERNEL_SECTOR_SIZE 0))
                     0 (peek user 0 (unat sizeWritten)), writeBufferSize := sizeWritten\<rparr>
         in do {
           crc \<leftarrow> update_crc 0 (Some (peek (writeBuffer s) 0 KERNEL_SECTOR_SIZE)) sizeWritten;
           let (st, s) = write_copy 0 crc sizeWritten off s;
           if st \<noteq> STATUS_SUCCESS then Some (reply st 0, s)
           else (let (st, s) = write_copy 1 crc sizeWritten off s in
             Some (reply st (if st \<noteq> STATUS_SUCCESS then 0 else sizeWritten), s))
         }))"

section \<open>Where the checksums are\<close>

lemma LOGICAL_DISK_SIZE_num [simp]: "LOGICAL_DISK_SIZE = 99614720"
  by (simp add: LOGICAL_DISK_SIZE_def)

lemma LOGICAL_DISK_SECTORS_num [simp]: "LOGICAL_DISK_SECTORS = 194560"
  by (simp add: LOGICAL_DISK_SECTORS_def KERNEL_SECTOR_SIZE_def)

lemma KERNEL_SECTOR_SIZE_num [simp]: "KERNEL_SECTOR_SIZE = 512"
  by (simp add: KERNEL_SECTOR_SIZE_def)

definition crc_slot :: "int \<Rightarrow> nat" where
  "crc_slot off = unat (crcOffset off) + unat (crcSegmentOffset off)"

lemma unat_sectorID: "\<not> bad_offset off \<Longrightarrow> unat (sectorID off) = nat off div 512"
  by (simp add: sectorID_def bad_offset_def unat_div uint_word_of_int_eq take_bit_int_eq_self
    unat_eq_nat_uint [of "word_of_int off"])

lemma unat_crcSegment: "\<not> bad_offset off \<Longrightarrow> unat (crcSegment off) = nat off div 512 div 128"
  by (simp add: crcSegment_def nCRCPerSector_def unat_div unat_sectorID)

lemma unat_crcSegmentOffset:
  "\<not> bad_offset off \<Longrightarrow> unat (crcSegmentOffset off) = (nat off div 512) mod 128 * 4"
  by (simp add: crcSegmentOffset_def nCRCPerSector_def unat_word_ariths unat_mod unat_sectorID)

lemma unat_crcOffset:
  assumes "\<not> bad_offset off"
  shows "unat (crcOffset off) = LOGICAL_DISK_SIZE + nat off div 512 div 128 * 512"
proof -
  have "nat off div 512 div 128 < 1520"
    using assms by (simp add: bad_offset_def div_mult2_eq [symmetric] less_mult_imp_div_less nat_less_iff)
  then show ?thesis
    using assms by (simp add: crcOffset_def unat_word_ariths unat_crcSegment)
qed

lemma crcSegmentOffset_bound: "unat (crcSegmentOffset off) + 4 \<le> 512"
proof -
  have "unat (sectorID off mod 128) < 128"
    using unat_mod [of "sectorID off" 128] by simp
  then show ?thesis
    by (simp add: crcSegmentOffset_def nCRCPerSector_def unat_word_ariths)
qed

lemma crc_slot_eq:
  assumes "\<not> bad_offset off"
  shows "crc_slot off = LOGICAL_DISK_SIZE + 4 * (nat off div 512)"
proof -
  have "q div 128 * 512 + q mod 128 * 4 = 4 * q" for q :: nat
  proof -
    have "q div 128 * 512 + q mod 128 * 4 = 4 * (128 * (q div 128) + q mod 128)"
      by (simp only: distrib_left mult.assoc [symmetric])
    then show ?thesis by (simp only: mult_div_mod_eq)
  qed
  from this [of "nat off div 512"] show ?thesis
    unfolding crc_slot_def unat_crcOffset [OF assms] unat_crcSegmentOffset [OF assms] by simp
qed

section \<open>Requests without faults\<close>

definition dsk :: "raid \<Rightarrow> nat \<Rightarrow> store" where
  "dsk s i = disk (physicalDevice s i)"

lemma dsk_update [simp]:
  "dsk (s\<lparr>crcBuffer := c\<rparr>) = dsk s" "dsk (s\<lparr>readBuffer := r\<rparr>) = dsk s"
  "dsk (s\<lparr>writeBuffer := w\<rparr>) = dsk s" "dsk (s\<lparr>writeBufferSize := z\<rparr>) = dsk s"
  "dsk (s\<lparr>io_plan := xs\<rparr>) = dsk s"
  by (simp_all add: dsk_def fun_eq_iff)

definition set_disk :: "nat \<Rightarrow> store \<Rightarrow> raid \<Rightarrow> raid" where
  "set_disk i d s = s\<lparr>physicalDevice :=
     (physicalDevice s)(i := \<lparr>disk = d, ioStatus = STATUS_SUCCESS\<rparr>)\<rparr>"

lemma set_disk_simps [simp]:
  "dsk (set_disk i d s) = (dsk s)(i := d)"
  "ioStatus (physicalDevice (set_disk i d s) i) = STATUS_SUCCESS"
  "io_plan (set_disk i d s) = io_plan s"
  "readBuffer (set_disk i d s) = readBuffer s"
  "writeBuffer (set_disk i d s) = writeBuffer s"
  "crcBuffer (set_disk i d s) = crcBuffer s"
  by (simp_all add: set_disk_def dsk_def fun_eq_iff)

lemma set_disk_readBuffer [simp]:
  "set_disk i d (s\<lparr>readBuffer := r\<rparr>) = (set_disk i d s)\<lparr>readBuffer := r\<rparr>"
  by (simp add: set_disk_def)

lemma lower_irp_ok:
  assumes "io_plan s = []"
  shows "lower_irp i IRP_MJ_READ buf len off s =
      (True, poke buf 0 (peek (dsk s i) off len), set_disk i (dsk s i) s)"
    and "lower_irp i IRP_MJ_WRITE buf len off s =
      (True, buf, set_disk i (poke (dsk s i) off (peek buf 0 len)) s)"
  using assms
  by (cases "physicalDevice s i";
      simp add: lower_irp_def next_outcome_def set_disk_def dsk_def Let_def)+

lemma SendIrp_ok:
  assumes "io_plan s = []"
  shows "SendIrp i IRP_MJ_READ buf len off s =
      (STATUS_SUCCESS, poke buf 0 (peek (dsk s i) off len), set_disk i (dsk s i) s)"
    and "SendIrp i IRP_MJ_WRITE buf len off s =
      (STATUS_SUCCESS, buf, set_disk i (poke (dsk s i) off (peek buf 0 len)) s)"
  using assms by (simp_all add: SendIrp_def lower_irp_ok)

text \<open>The checksum stored for the sector at an offset, and the checksum of the data there.\<close>

type_synonym disks = "nat \<Rightarrow> store"

definition stored_crc :: "disks \<Rightarrow> nat \<Rightarrow> int \<Rightarrow> u32" where
  "stored_crc d i off = un_le32 (peek (d i) (crc_slot off) 4)"

definition copy_data :: "disks \<Rightarrow> nat \<Rightarrow> int \<Rightarrow> nat \<Rightarrow> bytes" where
  "copy_data d i off n = peek (d i) (nat off) n"

definition data_crc :: "disks \<Rightarrow> nat \<Rightarrow> int \<Rightarrow> nat \<Rightarrow> u32" where
  "data_crc d i off n = crc_ref 0 (copy_data d i off n)"

lemma SendCRCIrp_read_ok:
  assumes "io_plan s = []"
  obtains buf where "SendCRCIrp i IRP_MJ_READ off crc s =
      (STATUS_SUCCESS, stored_crc (dsk s) i off, (set_disk i (dsk s i) s)\<lparr>crcBuffer := buf\<rparr>)"
proof -
  let ?b = "poke (crcBuffer s) 0 (peek (dsk s i) (unat (crcOffset off)) 512)"
  have "peek ?b (unat (crcSegmentOffset off)) 4 = peek (dsk s i) (crc_slot off) 4"
    using crcSegmentOffset_bound [of off]
    by (intro nth_equalityI) (auto simp: poke_def crc_slot_def ac_simps)
  then show thesis
    using that [of ?b] assms
    by (simp add: SendCRCIrp_def lower_irp_ok stored_crc_def Let_def)
qed

lemma SendCRCIrp_write_ok:
  assumes "io_plan s = []"
  obtains buf where "SendCRCIrp i IRP_MJ_WRITE off crc s =
      (STATUS_SUCCESS, crc,
       (set_disk i (poke (dsk s i) (crc_slot off) (le32 crc)) s)\<lparr>crcBuffer := buf\<rparr>)"
proof -
  let ?b = "poke (poke (crcBuffer s) 0 (peek (dsk s i) (unat (crcOffset off)) 512))
    (unat (crcSegmentOffset off)) (le32 crc)"
  have "poke (dsk s i) (unat (crcOffset off)) (peek ?b 0 512)
      = poke (dsk s i) (crc_slot off) (le32 crc)"
    using poke_poke_overlay [of "unat (crcSegmentOffset off)" "le32 crc" 512]
      crcSegmentOffset_bound [of off] by (simp add: crc_slot_def)
  moreover have "set_disk i d (set_disk i d' t) = set_disk i d t"
    "set_disk i d (t\<lparr>crcBuffer := b\<rparr>) = (set_disk i d t)\<lparr>crcBuffer := b\<rparr>" for d d' t b
    by (simp_all add: set_disk_def)
  ultimately show thesis
    using that [of ?b] assms
    by (simp add: SendCRCIrp_def SendIrp_ok lower_irp_ok Let_def)
qed

section \<open>Operations without faults\<close>

lemma read_copy_ok:
  assumes "io_plan s = []" "\<not> bad_offset off"
  obtains s' where "read_copy i n off s = (Some (stored_crc (dsk s) i off), s')"
    "dsk s' = dsk s" "io_plan s' = []"
    "\<And>j. j \<noteq> i \<Longrightarrow> readBuffer s' j = readBuffer s j"
    "unat n \<le> 512 \<Longrightarrow> peek (readBuffer s' i) 0 (unat n) = peek (dsk s i) (nat off) (unat n)"
proof -
  let ?b = "poke (readBuffer s i) 0 (peek (dsk s i) (nat off) (unat n))"
  let ?t = "(set_disk i (dsk s i) s)\<lparr>readBuffer := (readBuffer s)(i := ?b)\<rparr>"
  have t: "io_plan ?t = []" "stored_crc (dsk ?t) i off = stored_crc (dsk s) i off"
    using assms by (simp_all add: stored_crc_def)
  from SendCRCIrp_read_ok [OF t(1), of i off 0] obtain buf where
    "SendCRCIrp i IRP_MJ_READ off 0 ?t =
      (STATUS_SUCCESS, stored_crc (dsk s) i off, (set_disk i (dsk ?t i) ?t)\<lparr>crcBuffer := buf\<rparr>)"
    unfolding t(2) by blast
  then have "read_copy i n off s
      = (Some (stored_crc (dsk s) i off), (set_disk i (dsk ?t i) ?t)\<lparr>crcBuffer := buf\<rparr>)"
    using assms by (simp add: read_copy_def SendIrp_ok Let_def)
  then show thesis
    by (rule that) (use assms in \<open>auto simp: store_simps\<close>)
qed

lemma recover_copy_ok:
  assumes "io_plan s = []"
  obtains s' where "recover_copy i j crc n off s = (STATUS_SUCCESS, n, s')"
    "dsk s' = (dsk s)(j := poke (poke (dsk s j) (nat off) (peek (readBuffer s i) 0 (unat n)))
       (crc_slot off) (le32 crc))" "io_plan s' = []"
proof -
  let ?t = "set_disk j (poke (dsk s j) (nat off) (peek (readBuffer s i) 0 (unat n))) s"
  have t: "io_plan ?t = []" using assms by simp
  from SendCRCIrp_write_ok [OF t, of j off crc] obtain buf where
    "SendCRCIrp j IRP_MJ_WRITE off crc ?t = (STATUS_SUCCESS, crc,
       (set_disk j (poke (dsk ?t j) (crc_slot off) (le32 crc)) ?t)\<lparr>crcBuffer := buf\<rparr>)"
    by blast
  then have "recover_copy i j crc n off s = (STATUS_SUCCESS, n,
      (set_disk j (poke (dsk ?t j) (crc_slot off) (le32 crc)) ?t)\<lparr>crcBuffer := buf\<rparr>)"
    using assms by (simp add: recover_copy_def SendIrp_ok)
  then show thesis
    by (rule that) (use assms in simp_all)
qed

lemma write_copy_ok:
  assumes "io_plan s = []"
  obtains s' where "write_copy i crc n off s = (STATUS_SUCCESS, s')"
    "dsk s' = (dsk s)(i := poke (poke (dsk s i) (nat off) (peek (writeBuffer s) 0 (unat n)))
       (crc_slot off) (le32 crc))" "io_plan s' = []" "writeBuffer s' = writeBuffer s"
proof -
  let ?t = "set_disk i (poke (dsk s i) (nat off) (peek (writeBuffer s) 0 (unat n))) s"
  have t: "io_plan ?t = []" using assms by simp
  from SendCRCIrp_write_ok [OF t, of i off crc] obtain buf where
    "SendCRCIrp i IRP_MJ_WRITE off crc ?t = (STATUS_SUCCESS, crc,
       (set_disk i (poke (dsk ?t i) (crc_slot off) (le32 crc)) ?t)\<lparr>crcBuffer := buf\<rparr>)"
    by blast
  then have "write_copy i crc n off s = (STATUS_SUCCESS,
      (set_disk i (poke (dsk ?t i) (crc_slot off) (le32 crc)) ?t)\<lparr>crcBuffer := buf\<rparr>)"
    using assms by (simp add: write_copy_def SendIrp_ok)
  then show thesis
    by (rule that) (use assms in simp_all)
qed

text \<open>The number of bytes a request moves: at most one sector.\<close>

definition clip :: "u32 \<Rightarrow> u32" where
  "clip n = (if n \<le> 512 then n else 512)"

lemma clip_less: "(if n < 512 then n else 512) = clip n"
  by (auto simp: clip_def)

lemma unat_clip: "unat (clip n) \<le> 512"
  by (auto simp: clip_def word_le_nat_alt)

lemma update_crc_buffer:
  "unat n \<le> 512 \<Longrightarrow> update_crc 0 (Some (peek b 0 KERNEL_SECTOR_SIZE)) n
     = Some (crc_ref 0 (peek b 0 (unat n)))"
  by (simp add: update_crc_eq)

text \<open>One copy of a sector in the shape a write leaves it in.\<close>

definition put_sector :: "int \<Rightarrow> bytes \<Rightarrow> store \<Rightarrow> store" where
  "put_sector off bs d = poke (poke d (nat off) bs) (crc_slot off) (le32 (crc_ref 0 bs))"

lemma MyWrite_ok:
  assumes "io_plan s = []" "\<not> bad_offset (ByteOffset irp)"
    and bs: "bs = peek (Buffer irp) 0 (unat (clip (Length irp)))"
  obtains s' where
    "MyWrite irp s = Some (\<lparr>Status = STATUS_SUCCESS, Information = clip (Length irp),
       Buffer_out = Buffer irp\<rparr>, s')"
    "dsk s' = (dsk s)(0 := put_sector (ByteOffset irp) bs (dsk s 0),
       1 := put_sector (ByteOffset irp) bs (dsk s 1))" "io_plan s' = []"
proof -
  let ?n = "clip (Length irp)" and ?off = "ByteOffset irp"
  let ?s = "s\<lparr>writeBuffer := poke (poke (writeBuffer s) 0 (replicate KERNEL_SECTOR_SIZE 0))
     0 bs, writeBufferSize := ?n\<rparr>"
  have len: "length bs = unat ?n" by (simp add: bs)
  have w: "peek (writeBuffer ?s) 0 (unat ?n) = bs"
    by (simp add: store_simps len)
  have crc: "update_crc 0 (Some (peek (writeBuffer ?s) 0 KERNEL_SECTOR_SIZE)) ?n
      = Some (crc_ref 0 bs)"
    by (simp only: update_crc_buffer [OF unat_clip] w)
  obtain s1 where s1: "write_copy 0 (crc_ref 0 bs) ?n ?off ?s = (STATUS_SUCCESS, s1)"
    "dsk s1 = (dsk ?s)(0 := put_sector ?off bs (dsk ?s 0))" "io_plan s1 = []"
    "writeBuffer s1 = writeBuffer ?s"
    using write_copy_ok [of ?s 0 "crc_ref 0 bs" ?n ?off] assms(1) unfolding w put_sector_def by auto
  obtain s2 where s2: "write_copy 1 (crc_ref 0 bs) ?n ?off s1 = (STATUS_SUCCESS, s2)"
    "dsk s2 = (dsk s1)(1 := put_sector ?off bs (dsk s1 1))" "io_plan s2 = []"
    using write_copy_ok [OF s1(3), of 1 "crc_ref 0 bs" ?n ?off]
    unfolding s1(4) w put_sector_def by auto
  show thesis
  proof (rule that)
    show "MyWrite irp s = Some (\<lparr>Status = STATUS_SUCCESS, Information = ?n,
       Buffer_out = Buffer irp\<rparr>, s2)"
      using assms crc s1(1) s2(1)
      by (simp add: MyWrite_def Let_def clip_def [symmetric] bs [symmetric])
  qed (simp_all add: s1(2) s2(2,3))
qed

text \<open>Whether disk \<open>i\<close> holds, at an offset, \<open>n\<close> bytes that agree with their checksum.\<close>

definition copy_ok :: "disks \<Rightarrow> nat \<Rightarrow> int \<Rightarrow> nat \<Rightarrow> bool" where
  "copy_ok d i off n \<longleftrightarrow> stored_crc d i off = data_crc d i off n"

lemma read_both_ok:
  assumes "io_plan s = []" "\<not> bad_offset off" "unat n \<le> 512"
  obtains s1 s2 where
    "read_copy 0 n off s = (Some (stored_crc (dsk s) 0 off), s1)"
    "read_copy 1 n off s1 = (Some (stored_crc (dsk s) 1 off), s2)"
    "dsk s2 = dsk s" "io_plan s2 = []"
    "peek (readBuffer s2 0) 0 (unat n) = copy_data (dsk s) 0 off (unat n)"
    "peek (readBuffer s2 1) 0 (unat n) = copy_data (dsk s) 1 off (unat n)"
proof -
  obtain s1 where s1: "read_copy 0 n off s = (Some (stored_crc (dsk s) 0 off), s1)"
    "dsk s1 = dsk s" "io_plan s1 = []"
    "peek (readBuffer s1 0) 0 (unat n) = copy_data (dsk s) 0 off (unat n)"
    using read_copy_ok [OF assms(1,2), of 0 n] assms(3) unfolding copy_data_def by metis
  have st: "stored_crc (dsk s1) 1 off = stored_crc (dsk s) 1 off"
    by (simp add: stored_crc_def s1)
  obtain s2 where "read_copy 1 n off s1 = (Some (stored_crc (dsk s1) 1 off), s2)"
    "dsk s2 = dsk s1" "io_plan s2 = []" "readBuffer s2 0 = readBuffer s1 0"
    "peek (readBuffer s2 1) 0 (unat n) = copy_data (dsk s1) 1 off (unat n)"
    using read_copy_ok [OF s1(3) assms(2), of 1 n] assms(3) unfolding copy_data_def
    by (metis zero_neq_one)
  with s1 st that show thesis by (simp add: copy_data_def)
qed

lemma MyRead_bad_offset:
  "bad_offset (ByteOffset irp) \<Longrightarrow> MyRead irp s =
     (\<lparr>Status = STATUS_INSUFFICIENT_RESOURCES, Information = 0, Buffer_out = Buffer irp\<rparr>, s)"
  by (simp add: MyRead_def Let_def)

section \<open>Specification on the two disks\<close>

text \<open>What a write and a read do when no lower request fails, as functions of the contents of the
  disks alone: a write puts data and checksum on both; a read answers the data if both copies are
  good and equal, copies a good one over the other otherwise, and fails if there is none.\<close>

definition write_spec :: "io_request \<Rightarrow> disks \<Rightarrow> io_reply \<times> disks" where
  "write_spec irp d =
     (let off = ByteOffset irp; n = clip (Length irp);
          bs = peek (Buffer irp) 0 (unat n)
      in if bad_offset off
         then (\<lparr>Status = STATUS_INSUFFICIENT_RESOURCES, Information = 0,
                Buffer_out = Buffer irp\<rparr>, d)
         else (\<lparr>Status = STATUS_SUCCESS, Information = n, Buffer_out = Buffer irp\<rparr>,
               d(0 := put_sector off bs (d 0), 1 := put_sector off bs (d 1))))"

definition read_spec :: "io_request \<Rightarrow> disks \<Rightarrow> io_reply \<times> disks" where
  "read_spec irp d =
     (let off = ByteOffset irp; n = clip (Length irp); k = unat n;
          failed = \<lparr>Status = STATUS_INSUFFICIENT_RESOURCES, Information = 0,
                    Buffer_out = Buffer irp\<rparr>;
          repaired = \<lparr>Status = STATUS_SUCCESS, Information = n, Buffer_out = Buffer irp\<rparr>
      in if bad_offset off then (failed, d)
         else if copy_ok d 0 off k \<and> copy_ok d 1 off k \<and> data_crc d 0 off k = data_crc d 1 off k
         then (\<lparr>Status = STATUS_SUCCESS, Information = n,
                Buffer_out = poke (Buffer irp) 0 (copy_data d 0 off k)\<rparr>, d)
         else if copy_ok d 0 off k
         then (repaired, d(1 := put_sector off (copy_data d 0 off k) (d 1)))
         else if copy_ok d 1 off k
         then (repaired, d(0 := put_sector off (copy_data d 1 off k) (d 0)))
         else (failed, d))"

lemma MyWrite_spec:
  assumes "io_plan s = []"
  obtains s' where "MyWrite irp s = Some (fst (write_spec irp (dsk s)), s')"
    "dsk s' = snd (write_spec irp (dsk s))" "io_plan s' = []"
proof (cases "bad_offset (ByteOffset irp)")
  case True
  with assms that show thesis by (simp add: MyWrite_def write_spec_def Let_def)
next
  case False
  from MyWrite_ok [OF assms this refl] that False show thesis
    by (auto simp: write_spec_def Let_def)
qed

lemma MyRead_spec:
  assumes "io_plan s = []"
  obtains s' where "MyRead irp s = (fst (read_spec irp (dsk s)), s')"
    "dsk s' = snd (read_spec irp (dsk s))" "io_plan s' = []"
proof (cases "bad_offset (ByteOffset irp)")
  case True
  with assms that show thesis by (simp add: MyRead_bad_offset read_spec_def Let_def)
next
  case False
  define off where "off = ByteOffset irp"
  let ?n = "clip (Length irp)" and ?k = "unat (clip (Length irp))" and ?d = "dsk s"
  obtain s1 s2 where rd: "read_copy 0 ?n off s = (Some (stored_crc ?d 0 off), s1)"
    "read_copy 1 ?n off s1 = (Some (stored_crc ?d 1 off), s2)"
    and s2: "dsk s2 = ?d" "io_plan s2 = []"
      "peek (readBuffer s2 0) 0 ?k = copy_data ?d 0 off ?k"
      "peek (readBuffer s2 1) 0 ?k = copy_data ?d 1 off ?k"
    using read_both_ok [OF assms _ unat_clip] False unfolding off_def by blast
  have crc: "update_crc 0 (Some (peek (readBuffer s2 0) 0 KERNEL_SECTOR_SIZE)) ?n
      = Some (data_crc ?d 0 off ?k)"
    "update_crc 0 (Some (peek (readBuffer s2 1) 0 KERNEL_SECTOR_SIZE)) ?n
      = Some (data_crc ?d 1 off ?k)"
    by (simp_all only: update_crc_buffer [OF unat_clip] data_crc_def s2)
  obtain s3 where s3: "recover_copy 0 1 (data_crc ?d 0 off ?k) ?n off s2 = (STATUS_SUCCESS, ?n, s3)"
    "dsk s3 = ?d(1 := poke (poke (?d 1) (nat off) (copy_data ?d 0 off ?k))
       (crc_slot off) (le32 (data_crc ?d 0 off ?k)))" "io_plan s3 = []"
    using recover_copy_ok [OF s2(2), of 0 1 "data_crc ?d 0 off ?k" ?n off] unfolding s2 by blast
  obtain s4 where s4: "recover_copy 1 0 (data_crc ?d 1 off ?k) ?n off s2 = (STATUS_SUCCESS, ?n, s4)"
    "dsk s4 = ?d(0 := poke (poke (?d 0) (nat off) (copy_data ?d 1 off ?k))
       (crc_slot off) (le32 (data_crc ?d 1 off ?k)))" "io_plan s4 = []"
    using recover_copy_ok [OF s2(2), of 1 0 "data_crc ?d 1 off ?k" ?n off] unfolding s2 by blast
  have read: "MyRead irp s =
     (if copy_ok ?d 0 off ?k \<and> copy_ok ?d 1 off ?k \<and> data_crc ?d 0 off ?k = data_crc ?d 1 off ?k
      then (\<lparr>Status = STATUS_SUCCESS, Information = ?n,
             Buffer_out = poke (Buffer irp) 0 (copy_data ?d 0 off ?k)\<rparr>, s2)
      else if copy_ok ?d 0 off ?k
      then (\<lparr>Status = STATUS_SUCCESS, Information = ?n, Buffer_out = Buffer irp\<rparr>, s3)
      else if copy_ok ?d 1 off ?k
      then (\<lparr>Status = STATUS_SUCCESS, Information = ?n, Buffer_out = Buffer irp\<rparr>, s4)
      else (\<lparr>Status = STATUS_INSUFFICIENT_RESOURCES, Information = 0,
             Buffer_out = Buffer irp\<rparr>, s2))"
    using False rd crc s2(3) s3(1) s4(1)
    by (simp add: MyRead_def clip_less off_def [symmetric] copy_ok_def Let_def)
  with False show thesis
    by (intro that [of "snd (MyRead irp s)"])
      (auto simp: read read_spec_def off_def [symmetric] s2 s3 s4 put_sector_def data_crc_def
        Let_def)
qed

section \<open>What an operation may change, whatever the lower driver answers\<close>

definition same_outside :: "nat set \<Rightarrow> raid \<Rightarrow> raid \<Rightarrow> bool" where
  "same_outside A s s' \<longleftrightarrow> (\<forall>i a. a \<notin> A \<longrightarrow> dsk s' i a = dsk s i a)"

lemma same_outside_refl [simp]: "same_outside A s s"
  by (simp add: same_outside_def)

lemma same_outside_dsk: "dsk s' = dsk s \<Longrightarrow> same_outside A s s'"
  by (simp add: same_outside_def)

lemma same_outside_trans [trans]:
  "same_outside A s t \<Longrightarrow> same_outside A t u \<Longrightarrow> same_outside A s u"
  by (simp add: same_outside_def)

lemma same_outside_mono: "same_outside A s t \<Longrightarrow> A \<subseteq> B \<Longrightarrow> same_outside B s t"
  by (auto simp: same_outside_def)

lemma lower_irp_frame:
  "lower_irp i major buf len off s = (b, buf', s') \<Longrightarrow> same_outside {off..<off + len} s s'"
  by (auto simp: lower_irp_def next_outcome_def same_outside_def dsk_def Let_def poke_def
    split: list.splits irp_outcome.splits irp_major.splits)

lemma lower_irp_read_dsk:
  "lower_irp i IRP_MJ_READ buf len off s = (b, buf', s') \<Longrightarrow> dsk s' = dsk s"
  by (auto simp: lower_irp_def next_outcome_def dsk_def Let_def fun_eq_iff
    split: list.splits irp_outcome.splits)

lemma SendIrp_frame:
  "SendIrp i major buf len off s = (st, buf', s') \<Longrightarrow> same_outside {off..<off + len} s s'"
  by (auto simp: SendIrp_def dest!: lower_irp_frame split: prod.splits if_splits)

lemma SendIrp_read_dsk:
  "SendIrp i IRP_MJ_READ buf len off s = (st, buf', s') \<Longrightarrow> dsk s' = dsk s"
  by (auto simp: SendIrp_def dest!: lower_irp_read_dsk split: prod.splits if_splits)

abbreviation crc_sector :: "int \<Rightarrow> nat set" where
  "crc_sector off \<equiv> {unat (crcOffset off)..<unat (crcOffset off) + 512}"

lemma SendCRCIrp_read_dsk:
  "SendCRCIrp i IRP_MJ_READ off crc s = (st, c, s') \<Longrightarrow> dsk s' = dsk s"
  by (auto simp: SendCRCIrp_def Let_def dest!: lower_irp_read_dsk split: prod.splits if_splits)

lemma SendCRCIrp_frame:
  "SendCRCIrp i IRP_MJ_WRITE off crc s = (st, c, s') \<Longrightarrow> same_outside (crc_sector off) s s'"
  by (fastforce simp: SendCRCIrp_def Let_def same_outside_def
    dest!: lower_irp_frame SendIrp_read_dsk split: prod.splits if_splits)

abbreviation sector_area :: "int \<Rightarrow> nat \<Rightarrow> nat set" where
  "sector_area off n \<equiv> {nat off..<nat off + n} \<union> crc_sector off"

lemma write_copy_frame:
  assumes "write_copy i crc n off s = (st, s')"
  shows "same_outside (sector_area off (unat n)) s s'"
proof -
  obtain st1 b1 s1 where 1: "SendIrp i IRP_MJ_WRITE (writeBuffer s) (unat n) (nat off) s = (st1, b1, s1)"
    by (metis prod_cases3)
  have f1: "same_outside (sector_area off (unat n)) s s1"
    using SendIrp_frame [OF 1] by (rule same_outside_mono) simp
  obtain st2 c2 s2 where 2: "SendCRCIrp i IRP_MJ_WRITE off crc s1 = (st2, c2, s2)"
    by (metis prod_cases3)
  have "same_outside (sector_area off (unat n)) s1 s2"
    using SendCRCIrp_frame [OF 2] by (rule same_outside_mono) simp
  with f1 have "same_outside (sector_area off (unat n)) s s2"
    by (rule same_outside_trans)
  with f1 assms 1 2 show ?thesis by (auto simp: write_copy_def split: if_splits)
qed

lemma recover_copy_frame:
  assumes "recover_copy i j crc n off s = (st, k, s')"
  shows "same_outside (sector_area off (unat n)) s s'" and "st \<noteq> STATUS_SUCCESS \<Longrightarrow> k = 0"
    and "k = 0 \<or> k = n"
proof -
  obtain st1 b1 s1 where 1: "SendIrp j IRP_MJ_WRITE (readBuffer s i) (unat n) (nat off) s = (st1, b1, s1)"
    by (metis prod_cases3)
  have f1: "same_outside (sector_area off (unat n)) s s1"
    using SendIrp_frame [OF 1] by (rule same_outside_mono) simp
  obtain st2 c2 s2 where 2: "SendCRCIrp j IRP_MJ_WRITE off crc s1 = (st2, c2, s2)"
    by (metis prod_cases3)
  have "same_outside (sector_area off (unat n)) s1 s2"
    using SendCRCIrp_frame [OF 2] by (rule same_outside_mono) simp
  with f1 have "same_outside (sector_area off (unat n)) s s2"
    by (rule same_outside_trans)
  with f1 assms 1 2 show "same_outside (sector_area off (unat n)) s s'"
    by (auto simp: recover_copy_def split: if_splits)
  show "st \<noteq> STATUS_SUCCESS \<Longrightarrow> k = 0" "k = 0 \<or> k = n"
    using assms 1 2 by (auto simp: recover_copy_def split: if_splits)
qed

lemma read_copy_dsk:
  assumes "read_copy i n off s = (c, s')"
  shows "dsk s' = dsk s"
  using assms
  by (auto simp: read_copy_def Let_def dest!: SendIrp_read_dsk SendCRCIrp_read_dsk
    split: prod.splits if_splits)

lemma clip_le: "unat (clip n) \<le> min 512 (unat n)"
  by (auto simp: clip_def word_le_nat_alt)

text \<open>What holds of every reply to a read and to a write.\<close>

definition reply_safe :: "io_request \<Rightarrow> io_reply \<Rightarrow> bool" where
  "reply_safe irp r \<longleftrightarrow> unat (Information r) \<le> min 512 (unat (Length irp)) \<and>
     (Status r \<noteq> STATUS_SUCCESS \<longrightarrow> Information r = 0 \<and> Buffer_out r = Buffer irp)"

lemma reply_safeI:
  "reply_safe irp \<lparr>Status = st, Information = 0, Buffer_out = Buffer irp\<rparr>"
  "reply_safe irp \<lparr>Status = STATUS_SUCCESS, Information = clip (Length irp), Buffer_out = b\<rparr>"
  using clip_le [of "Length irp"] by (simp_all add: reply_safe_def)

lemma MyRead_safe:
  assumes "MyRead irp s = (r, s')"
  shows "reply_safe irp r \<and>
    same_outside (sector_area (ByteOffset irp) (unat (clip (Length irp)))) s s'"
proof (cases "bad_offset (ByteOffset irp)")
  case True
  with assms show ?thesis by (auto simp: MyRead_bad_offset reply_safeI)
next
  case False
  let ?n = "clip (Length irp)" and ?off = "ByteOffset irp"
  obtain c0 s1 where 0: "read_copy 0 ?n ?off s = (c0, s1)" by (metis prod.exhaust)
  obtain c1 s2 where 1: "read_copy 1 ?n ?off s1 = (c1, s2)" by (metis prod.exhaust)
  have dsk: "dsk s1 = dsk s" "dsk s2 = dsk s"
    using read_copy_dsk [OF 0] read_copy_dsk [OF 1] by simp_all
  consider (stop) "r = \<lparr>Status = STATUS_INSUFFICIENT_RESOURCES, Information = 0,
      Buffer_out = Buffer irp\<rparr>" "dsk s' = dsk s"
    | (good) b where "r = \<lparr>Status = STATUS_SUCCESS, Information = ?n, Buffer_out = b\<rparr>" "s' = s2"
    | (repair) i j c st k where "recover_copy i j c ?n ?off s2 = (st, k, s')"
      "r = \<lparr>Status = st, Information = k, Buffer_out = Buffer irp\<rparr>"
    using assms False 0 1 dsk
    by (auto simp: MyRead_def clip_less Let_def split: option.splits if_splits prod.splits)
  then show ?thesis
  proof cases
    case stop
    then show ?thesis by (simp add: reply_safeI same_outside_dsk)
  next
    case good
    then show ?thesis by (simp add: reply_safeI same_outside_dsk dsk)
  next
    case repair
    note f = recover_copy_frame [OF repair(1)]
    have "reply_safe irp r"
      using repair(2) f(2,3) clip_le [of "Length irp"] by (auto simp: reply_safe_def)
    moreover have "same_outside (sector_area ?off (unat ?n)) s s'"
      using same_outside_trans [OF same_outside_dsk [OF dsk(2)] f(1)] .
    ultimately show ?thesis ..
  qed
qed

lemma MyWrite_safe:
  "\<exists>r s'. MyWrite irp s = Some (r, s') \<and> reply_safe irp r \<and> Buffer_out r = Buffer irp \<and>
     same_outside (sector_area (ByteOffset irp) (unat (clip (Length irp)))) s s'"
proof (cases "bad_offset (ByteOffset irp)")
  case True
  then show ?thesis by (simp add: MyWrite_def reply_safe_def Let_def)
next
  case False
  let ?n = "clip (Length irp)" and ?off = "ByteOffset irp"
  define s0 where "s0 = s\<lparr>writeBuffer := poke (poke (writeBuffer s) 0 (replicate KERNEL_SECTOR_SIZE 0))
     0 (peek (Buffer irp) 0 (unat ?n)), writeBufferSize := ?n\<rparr>"
  define c where "c = crc_ref 0 (peek (writeBuffer s0) 0 (unat ?n))"
  have crc: "update_crc 0 (Some (peek (writeBuffer s0) 0 512)) ?n = Some c"
    using update_crc_buffer [OF unat_clip, of "writeBuffer s0" "Length irp"] by (simp add: c_def)
  obtain st1 s1 where 1: "write_copy 0 c ?n ?off s0 = (st1, s1)" by (metis prod.exhaust)
  obtain st2 s2 where 2: "write_copy 1 c ?n ?off s1 = (st2, s2)" by (metis prod.exhaust)
  have "MyWrite irp s = (if st1 \<noteq> STATUS_SUCCESS
      then Some (\<lparr>Status = st1, Information = 0, Buffer_out = Buffer irp\<rparr>, s1)
      else Some (\<lparr>Status = st2, Information = (if st2 \<noteq> STATUS_SUCCESS then 0 else ?n),
        Buffer_out = Buffer irp\<rparr>, s2))"
    using False 1 2 crc by (simp add: MyWrite_def clip_def [symmetric] s0_def Let_def)
  moreover have "same_outside (sector_area ?off (unat ?n)) s s1"
    using write_copy_frame [OF 1] by (simp add: s0_def same_outside_def)
  moreover from this have "same_outside (sector_area ?off (unat ?n)) s s2"
    using write_copy_frame [OF 2] same_outside_trans by blast
  ultimately show ?thesis
    using clip_le [of "Length irp"] by (auto simp: reply_safe_def split: if_splits)
qed

section \<open>The logical disk as a block device\<close>

text \<open>What a client of a disk relies on: writing a block makes it read back, and touches no other
  block. From this follows what a block reads as after any sequence of writes.\<close>

locale block_device =
  fixes wr :: "nat \<Rightarrow> 'b \<Rightarrow> 's \<Rightarrow> 's"
    and rd :: "nat \<Rightarrow> 's \<Rightarrow> 'b option"
    and inv :: "'s \<Rightarrow> bool"
    and block :: "nat \<Rightarrow> bool"
    and content :: "'b \<Rightarrow> bool"
  assumes wr_inv: "inv s \<Longrightarrow> block k \<Longrightarrow> content b \<Longrightarrow> inv (wr k b s)"
    and rd_wr_same: "inv s \<Longrightarrow> block k \<Longrightarrow> content b \<Longrightarrow> rd k (wr k b s) = Some b"
    and rd_wr_other:
      "inv s \<Longrightarrow> block k \<Longrightarrow> content b \<Longrightarrow> block j \<Longrightarrow> j \<noteq> k \<Longrightarrow> rd j (wr k b s) = rd j s"
begin

primrec run :: "(nat \<times> 'b) list \<Rightarrow> 's \<Rightarrow> 's" where
  "run [] s = s"
| "run (w # ws) s = run ws (wr (fst w) (snd w) s)"

lemma run_inv:
  "inv s \<Longrightarrow> \<forall>w \<in> set ws. block (fst w) \<and> content (snd w) \<Longrightarrow> inv (run ws s)"
  by (induction ws arbitrary: s) (simp_all add: wr_inv)

lemma rd_run:
  assumes "inv s" "\<forall>w \<in> set ws. block (fst w) \<and> content (snd w)" "block j"
  shows "rd j (run ws s) = (case map_of (rev ws) j of Some b \<Rightarrow> Some b | None \<Rightarrow> rd j s)"
  using assms
proof (induction ws arbitrary: s)
  case Nil
  then show ?case by simp
next
  case (Cons w ws)
  then have "rd j (run ws (wr (fst w) (snd w) s)) = (case map_of (rev ws) j of
      Some b \<Rightarrow> Some b | None \<Rightarrow> rd j (wr (fst w) (snd w) s))"
    by (intro Cons.IH) (simp_all add: wr_inv)
  then show ?case
    using Cons.prems
    by (cases "j = fst w") (auto simp: map_add_def rd_wr_same rd_wr_other split: option.splits)
qed

end

text \<open>Requests for one whole sector, and the client's view of their replies.\<close>

definition sector_off :: "nat \<Rightarrow> int" where
  "sector_off k = int (512 * k)"

definition sector_request :: "nat \<Rightarrow> bytes \<Rightarrow> io_request" where
  "sector_request k bs = \<lparr>Length = 512, ByteOffset = sector_off k, Buffer = poke (\<lambda>_. 0) 0 bs\<rparr>"

definition write_sector :: "nat \<Rightarrow> bytes \<Rightarrow> raid \<Rightarrow> raid" where
  "write_sector k bs s =
     (case MyWrite (sector_request k bs) s of Some (_, s') \<Rightarrow> s' | None \<Rightarrow> s)"

definition read_sector :: "nat \<Rightarrow> raid \<Rightarrow> bytes option" where
  "read_sector k s =
     (let r = fst (MyRead (sector_request k []) s) in
      if Status r = STATUS_SUCCESS \<and> Information r = 512
      then Some (peek (Buffer_out r) 0 512) else None)"

lemma sector_off_simps [simp]:
  "nat (sector_off k) = 512 * k"
  "k < 194560 \<Longrightarrow> \<not> bad_offset (sector_off k)"
  by (simp_all add: sector_off_def bad_offset_def)

lemma sector_request_simps [simp]:
  "clip (Length (sector_request k bs)) = 512"
  "ByteOffset (sector_request k bs) = sector_off k"
  "length bs = 512 \<Longrightarrow> peek (Buffer (sector_request k bs)) 0 512 = bs"
  "Buffer (sector_request k []) = (\<lambda>_. 0)"
  by (simp_all add: sector_request_def clip_def store_simps)

lemma crc_slot_sector: "k < 194560 \<Longrightarrow> crc_slot (sector_off k) = 99614720 + 4 * k"
  by (simp add: crc_slot_eq)

lemma write_sector_ok:
  assumes "io_plan s = []" "k < 194560" "length bs = 512"
  shows "dsk (write_sector k bs s) = (dsk s)(0 := put_sector (sector_off k) bs (dsk s 0),
      1 := put_sector (sector_off k) bs (dsk s 1))"
    and "io_plan (write_sector k bs s) = []"
proof -
  let ?irp = "sector_request k bs"
  have "\<not> bad_offset (ByteOffset ?irp)" "bs = peek (Buffer ?irp) 0 (unat (clip (Length ?irp)))"
    using assms by simp_all
  then obtain s' where "MyWrite ?irp s = Some (\<lparr>Status = STATUS_SUCCESS,
      Information = clip (Length ?irp), Buffer_out = Buffer ?irp\<rparr>, s')"
    "dsk s' = (dsk s)(0 := put_sector (ByteOffset ?irp) bs (dsk s 0),
      1 := put_sector (ByteOffset ?irp) bs (dsk s 1))" "io_plan s' = []"
    by (rule MyWrite_ok [OF assms(1)])
  then show "dsk (write_sector k bs s) = (dsk s)(0 := put_sector (sector_off k) bs (dsk s 0),
      1 := put_sector (sector_off k) bs (dsk s 1))"
    and "io_plan (write_sector k bs s) = []"
    by (simp_all add: write_sector_def)
qed

lemma put_sector_same:
  assumes "k < 194560" "length bs = 512"
  shows "peek (put_sector (sector_off k) bs d) (512 * k) 512 = bs"
    and "un_le32 (peek (put_sector (sector_off k) bs d) (crc_slot (sector_off k)) 4)
      = crc_ref 0 bs"
  using assms by (simp_all add: put_sector_def crc_slot_sector store_simps)

lemma put_sector_other:
  assumes "k < 194560" "j < 194560" "j \<noteq> k" "length bs = 512"
  shows "peek (put_sector (sector_off k) bs d) (512 * j) 512 = peek d (512 * j) 512"
    and "peek (put_sector (sector_off k) bs d) (crc_slot (sector_off j)) 4
      = peek d (crc_slot (sector_off j)) 4"
proof -
  have "512 * j + 512 \<le> 512 * k \<or> 512 * k + 512 \<le> 512 * j"
    "4 * j + 4 \<le> 4 * k \<or> 4 * k + 4 \<le> 4 * j" using assms(3) by linarith+
  then show "peek (put_sector (sector_off k) bs d) (512 * j) 512 = peek d (512 * j) 512"
    and "peek (put_sector (sector_off k) bs d) (crc_slot (sector_off j)) 4
      = peek d (crc_slot (sector_off j)) 4"
    using assms by (auto simp: put_sector_def crc_slot_sector peek_poke_disjoint)
qed

text \<open>The reply to a read depends only on the two copies of the sector and their checksums.\<close>

lemma read_sector_spec:
  "io_plan s = [] \<Longrightarrow> read_sector k s =
     (let r = fst (read_spec (sector_request k []) (dsk s)) in
      if Status r = STATUS_SUCCESS \<and> Information r = 512
      then Some (peek (Buffer_out r) 0 512) else None)"
  by (rule MyRead_spec [of s "sector_request k []"]) (auto simp: read_sector_def)

lemma read_spec_cong:
  assumes "\<And>i. stored_crc d i (ByteOffset irp) = stored_crc d' i (ByteOffset irp)"
    and "\<And>i. copy_data d i (ByteOffset irp) (unat (clip (Length irp)))
      = copy_data d' i (ByteOffset irp) (unat (clip (Length irp)))"
  shows "fst (read_spec irp d) = fst (read_spec irp d')"
  using assms by (simp add: read_spec_def copy_ok_def data_crc_def Let_def)

interpretation raid_disk: block_device write_sector read_sector
  "\<lambda>s. io_plan s = []" "\<lambda>k. k < 194560" "\<lambda>bs. length bs = 512"
proof unfold_locales
  fix s :: raid and k :: nat and b :: bytes
  assume a: "io_plan s = []" "k < 194560" "length b = 512"
  then show "io_plan (write_sector k b s) = []" by (rule write_sector_ok)
  let ?t = "write_sector k b s"
  note ok = write_sector_ok [OF a]
  have "stored_crc (dsk ?t) i (sector_off k) = crc_ref 0 b"
    "copy_data (dsk ?t) i (sector_off k) 512 = b" if "i < 2" for i
    using that put_sector_same [OF a(2,3)] by (auto simp: stored_crc_def copy_data_def ok)
  then show "read_sector k ?t = Some b"
    using a by (simp add: read_sector_spec read_spec_def ok(2) copy_ok_def data_crc_def
      store_simps Let_def)
  fix j assume j: "j < 194560" "j \<noteq> k"
  have "fst (read_spec (sector_request j []) (dsk ?t)) = fst (read_spec (sector_request j []) (dsk s))"
    using put_sector_other [OF a(2) j(1) j(2) a(3)]
    by (intro read_spec_cong) (simp_all add: stored_crc_def copy_data_def ok)
  then show "read_sector j ?t = read_sector j s"
    by (simp add: read_sector_spec ok(2) a(1))
qed

section \<open>A sector is settled by a read\<close>

text \<open>Both copies agree with their checksums, and the checksums agree.\<close>

definition settled :: "disks \<Rightarrow> int \<Rightarrow> nat \<Rightarrow> bool" where
  "settled d off n \<longleftrightarrow> copy_ok d 0 off n \<and> copy_ok d 1 off n \<and> data_crc d 0 off n = data_crc d 1 off n"

lemma put_sector_reads:
  assumes "\<not> bad_offset off" "nat off + length bs \<le> LOGICAL_DISK_SIZE"
  shows "peek (put_sector off bs d) (nat off) (length bs) = bs"
    and "un_le32 (peek (put_sector off bs d) (crc_slot off) 4) = crc_ref 0 bs"
  using assms by (simp_all add: put_sector_def crc_slot_eq store_simps)

lemma settled_put_sector:
  assumes "\<not> bad_offset off" "nat off + n \<le> LOGICAL_DISK_SIZE" "n = length bs"
    and "(i, j) \<in> {(0, 1), (1, 0)}" "copy_ok d i off n" "copy_data d i off n = bs"
  shows "settled (d(j := put_sector off bs (d j))) off n"
    and "copy_data (d(j := put_sector off bs (d j))) j off n = bs"
  using assms put_sector_reads [OF assms(1), of bs]
  by (auto simp: settled_def copy_ok_def data_crc_def stored_crc_def copy_data_def)

section \<open>Properties\<close>

text \<open>
  C1: after any sequence of whole-sector writes in which no lower request fails, a sector reads
  as the data last written to it, and a sector not written reads as before.
\<close>

theorem raid_reads_last_write:
  assumes "io_plan s = []" "\<forall>w \<in> set ws. fst w < LOGICAL_DISK_SECTORS \<and> length (snd w) = 512"
    and "j < LOGICAL_DISK_SECTORS"
  shows "read_sector j (foldl (\<lambda>s w. write_sector (fst w) (snd w) s) s ws)
    = (case map_of (rev ws) j of Some b \<Rightarrow> Some b | None \<Rightarrow> read_sector j s)"
proof -
  have "foldl (\<lambda>s w. write_sector (fst w) (snd w) s) s ws = raid_disk.run ws s" for s
    by (induction ws arbitrary: s) simp_all
  then show ?thesis
    using raid_disk.rd_run [of s ws j] assms by simp
qed

definition blank_raid :: "irp_outcome list \<Rightarrow> raid" where
  "blank_raid plan = \<lparr>physicalDevice = (\<lambda>_. \<lparr>disk = (\<lambda>_. 0), ioStatus = STATUS_SUCCESS\<rparr>),
     crcBuffer = (\<lambda>_. 0), writeBuffer = (\<lambda>_. 0), readBuffer = (\<lambda>_ _. 0), writeBufferSize = 0,
     io_plan = plan\<rparr>"

theorem raid_reads_last_write_witness:
  "read_sector 3 (write_sector 4 (replicate 512 1) (write_sector 3 (replicate 512 7)
     (blank_raid []))) = Some (replicate 512 7)"
  using raid_reads_last_write [of "blank_raid []"
    "[(3, replicate 512 7), (4, replicate 512 1)]" 3] by (simp add: blank_raid_def)



text \<open>
  C4: a read that finds exactly one good copy repairs the other: it succeeds, the good disk is
  unchanged, and the bad one now holds the good data with its checksum, and nothing else on it
  changed.
\<close>

theorem raid_read_repairs:
  assumes "io_plan s = []" "\<not> bad_offset off" "off = ByteOffset irp" "n = unat (clip (Length irp))"
    and "(good, bad) \<in> {(0, 1), (1, 0)}" "copy_ok (dsk s) good off n" "\<not> copy_ok (dsk s) bad off n"
  shows "Status (fst (MyRead irp s)) = STATUS_SUCCESS \<and>
    dsk (snd (MyRead irp s)) = (dsk s)(bad :=
      poke (poke (dsk s bad) (nat off) (copy_data (dsk s) good off n))
        (crc_slot off) (le32 (stored_crc (dsk s) good off)))"
  by (rule MyRead_spec [OF assms(1), of irp])
    (use assms in \<open>auto simp: read_spec_def copy_ok_def data_crc_def put_sector_def Let_def\<close>)

text \<open>A RAID whose disk 1 has a damaged byte in its first sector, and a request for that byte.\<close>

definition damaged_raid :: raid where
  "damaged_raid = (blank_raid [])\<lparr>physicalDevice := (\<lambda>i.
     \<lparr>disk = (if i = 1 then poke (put_sector 0 [0] (\<lambda>_. 0)) 0 [1] else put_sector 0 [0] (\<lambda>_. 0)),
      ioStatus = STATUS_SUCCESS\<rparr>)\<rparr>"

definition one_byte_request :: io_request where
  "one_byte_request = \<lparr>Length = 1, ByteOffset = 0, Buffer = (\<lambda>_. 9)\<rparr>"

lemma damaged_raid_simps:
  "io_plan damaged_raid = []" "\<not> bad_offset 0"
  "clip (Length one_byte_request) = 1" "ByteOffset one_byte_request = 0"
  "copy_ok (dsk damaged_raid) 0 0 1" "\<not> copy_ok (dsk damaged_raid) 1 0 1"
proof -
  show off: "\<not> bad_offset 0" by (simp add: bad_offset_def)
  have slot: "crc_slot 0 = 99614720" by (simp add: crc_slot_eq off)
  have "crc_ref 0 ([] @ [0] @ []) \<noteq> crc_ref 0 ([] @ [1] @ [])"
    by (rule crc_ref_burst) simp_all
  then show "copy_ok (dsk damaged_raid) 0 0 1" "\<not> copy_ok (dsk damaged_raid) 1 0 1"
    by (simp_all add: copy_ok_def stored_crc_def data_crc_def copy_data_def dsk_def
      damaged_raid_def put_sector_def slot store_simps)
qed (simp_all add: damaged_raid_def blank_raid_def clip_def one_byte_request_def)

theorem raid_read_repairs_witness:
  "Status (fst (MyRead one_byte_request damaged_raid)) = STATUS_SUCCESS"
  using raid_read_repairs [of damaged_raid 0 one_byte_request 1 0 1] damaged_raid_simps by simp

text \<open>
  Such a repairing read reports success and the full byte count, but hands the caller back the
  buffer it came with: the recovered data are never copied into it.
\<close>

theorem raid_repaired_read_returns_no_data:
  assumes "io_plan s = []" "\<not> bad_offset off" "off = ByteOffset irp" "n = unat (clip (Length irp))"
    and "(good, bad) \<in> {(0, 1), (1, 0)}" "copy_ok (dsk s) good off n" "\<not> copy_ok (dsk s) bad off n"
  shows "fst (MyRead irp s) = \<lparr>Status = STATUS_SUCCESS, Information = clip (Length irp),
    Buffer_out = Buffer irp\<rparr>"
  by (rule MyRead_spec [OF assms(1), of irp]) (use assms in \<open>auto simp: read_spec_def Let_def\<close>)

theorem raid_repaired_read_returns_no_data_witness:
  "fst (MyRead one_byte_request damaged_raid) = \<lparr>Status = STATUS_SUCCESS, Information = 1,
     Buffer_out = (\<lambda>_. 9)\<rparr> \<and> copy_data (dsk damaged_raid) 0 0 1 = [0]"
  using raid_repaired_read_returns_no_data [of damaged_raid 0 one_byte_request 1 0 1]
    damaged_raid_simps crc_slot_eq [of 0]
  by (simp add: one_byte_request_def clip_def copy_data_def dsk_def damaged_raid_def
    put_sector_def store_simps)

text \<open>
  A read that finds no good copy fails with no bytes reported and leaves both disks and the
  caller's buffer as they were.
\<close>

theorem raid_read_fails_on_two_bad_copies:
  assumes "io_plan s = []" "off = ByteOffset irp" "n = unat (clip (Length irp))"
    and "\<not> copy_ok (dsk s) 0 off n" "\<not> copy_ok (dsk s) 1 off n"
  shows "fst (MyRead irp s) = \<lparr>Status = STATUS_INSUFFICIENT_RESOURCES, Information = 0,
    Buffer_out = Buffer irp\<rparr> \<and> dsk (snd (MyRead irp s)) = dsk s"
  by (rule MyRead_spec [OF assms(1), of irp]) (use assms in \<open>auto simp: read_spec_def Let_def\<close>)

definition two_bad_raid :: raid where
  "two_bad_raid = (blank_raid [])\<lparr>physicalDevice := (\<lambda>i.
     \<lparr>disk = poke (put_sector 0 [0] (\<lambda>_. 0)) 0 [1], ioStatus = STATUS_SUCCESS\<rparr>)\<rparr>"

theorem raid_read_fails_on_two_bad_copies_witness:
  "Status (fst (MyRead one_byte_request two_bad_raid)) = STATUS_INSUFFICIENT_RESOURCES"
proof -
  have "stored_crc (dsk two_bad_raid) i 0 = stored_crc (dsk damaged_raid) 1 0"
    "copy_data (dsk two_bad_raid) i 0 1 = copy_data (dsk damaged_raid) 1 0 1" for i
    by (simp_all add: stored_crc_def copy_data_def dsk_def two_bad_raid_def damaged_raid_def)
  then have "\<not> copy_ok (dsk two_bad_raid) i 0 1" for i
    using damaged_raid_simps(6) by (simp add: copy_ok_def data_crc_def)
  moreover have "io_plan two_bad_raid = []" by (simp add: two_bad_raid_def blank_raid_def)
  ultimately show ?thesis
    using raid_read_fails_on_two_bad_copies [of two_bad_raid 0 one_byte_request 1]
    by (simp add: damaged_raid_simps)
qed

text \<open>
  Every successful read leaves the sector settled: both copies carry the same, correct
  checksum, and disk 0 holds the data of the copy that was good, its own copy winning when both were
  good but different (as after a write that reached only disk 0).
\<close>

theorem raid_read_settles:
  assumes "io_plan s = []" "n = unat (clip (Length irp))" "off = ByteOffset irp"
    and "nat off + n \<le> LOGICAL_DISK_SIZE" "Status (fst (MyRead irp s)) = STATUS_SUCCESS"
  shows "settled (dsk (snd (MyRead irp s))) off n \<and>
    copy_data (dsk (snd (MyRead irp s))) 0 off n =
      copy_data (dsk s) (if copy_ok (dsk s) 0 off n then 0 else 1) off n"
proof -
  obtain s' where s': "MyRead irp s = (fst (read_spec irp (dsk s)), s')"
    "dsk s' = snd (read_spec irp (dsk s))"
    by (rule MyRead_spec [OF assms(1)])
  have len: "n = length (copy_data (dsk s) i off n)" for i by (simp add: copy_data_def)
  have off: "\<not> bad_offset off"
    using assms(3,5) s' by (auto simp: read_spec_def)
  consider "settled (dsk s) off n" | "copy_ok (dsk s) 0 off n" "\<not> settled (dsk s) off n"
    | "\<not> copy_ok (dsk s) 0 off n" "copy_ok (dsk s) 1 off n"
    using assms(5) s' by (auto simp: read_spec_def settled_def assms(2,3) Let_def split: if_splits)
  then show ?thesis
  proof cases
    case 1
    then show ?thesis
      using s' off by (simp add: read_spec_def assms(2,3) settled_def Let_def)
  next
    case 2
    then have "dsk s' = (dsk s)(1 := put_sector off (copy_data (dsk s) 0 off n) (dsk s 1))"
      using s' off by (auto simp: read_spec_def assms(2,3) settled_def Let_def)
    with 2 settled_put_sector [OF off assms(4) len, of 0 1 "dsk s" 0] show ?thesis
      by (simp add: s'(1) copy_data_def)
  next
    case 3
    then have "dsk s' = (dsk s)(0 := put_sector off (copy_data (dsk s) 1 off n) (dsk s 0))"
      using s' off by (auto simp: read_spec_def assms(2,3) settled_def Let_def)
    with 3 settled_put_sector [OF off assms(4) len, of 1 0 "dsk s" 1] show ?thesis
      by (simp add: s'(1))
  qed
qed

theorem raid_read_settles_witness:
  "settled (dsk (snd (MyRead one_byte_request damaged_raid))) 0 1"
proof -
  have "Status (fst (MyRead one_byte_request damaged_raid)) = STATUS_SUCCESS"
    by (rule MyRead_spec [OF damaged_raid_simps(1), of one_byte_request])
      (use damaged_raid_simps in \<open>auto simp: read_spec_def Let_def\<close>)
  then show ?thesis
    using raid_read_settles [of damaged_raid 1 one_byte_request 0] by (simp add: damaged_raid_simps)
qed

text \<open>
  C38: whatever the lower driver answers, a read never reports more than one sector or than was
  asked for, a read that does not succeed reports 0 bytes and leaves the caller's buffer alone,
  and no read changes the disks outside the sector's data and the sector of its checksum.
\<close>

theorem raid_read_safe:
  "unat (Information (fst (MyRead irp s))) \<le> min 512 (unat (Length irp)) \<and>
   (Status (fst (MyRead irp s)) = STATUS_SUCCESS \<or>
     Information (fst (MyRead irp s)) = 0 \<and> Buffer_out (fst (MyRead irp s)) = Buffer irp) \<and>
   same_outside (sector_area (ByteOffset irp) (unat (clip (Length irp)))) s (snd (MyRead irp s))"
  using MyRead_safe [of irp s] by (cases "MyRead irp s") (auto simp: reply_safe_def)

text \<open>
  Whatever the lower driver answers, a write replies, never reports more than one sector or
  than was asked for, reports 0 bytes unless it succeeds, and changes no byte of either disk
  outside the sector's data and the sector of its checksum.
\<close>

theorem raid_write_safe:
  "\<exists>r s'. MyWrite irp s = Some (r, s') \<and>
     unat (Information r) \<le> min 512 (unat (Length irp)) \<and>
     (Status r = STATUS_SUCCESS \<or> Information r = 0) \<and> Buffer_out r = Buffer irp \<and>
     same_outside (sector_area (ByteOffset irp) (unat (clip (Length irp)))) s s'"
  using MyWrite_safe [of irp s] by (auto simp: reply_safe_def)

end
