(* ===== verification/RaidDriver.thy ===== *)
theory RaidDriver
  imports SimpleRaid
begin

text \<open>
  Loading and unloading of the software RAID driver (\<open>LoadPhysicalDisk\<close>, \<open>LoadLogicalDisk\<close>,
  \<open>DriverEntry\<close> and \<open>DriverUnload\<close> of \<open>src/SimpleRAIDDriverWindows/ssr.c\<close>): which kernel objects
  the driver holds. What the kernel answers to each call is an argument.
\<close>

section \<open>State\<close>

datatype major_function =
  CREATE_is_MyOpen | READ_is_MyRead | WRITE_is_MyWrite | CONTROL_is_MyDeviceIoControl
  | CLOSE_is_MyClose

text \<open>The references to the physical disks' file objects, the driver's list of device objects, the
  symbolic link, the Unicode buffers allocated by conversions and not freed yet, and the fields of
  the driver object the entry routine sets.\<close>

record driver_object =
  fileObject :: "nat \<Rightarrow> bool"
  DeviceObject :: "nat list"
  symbolicLink :: bool
  unicodeBuffers :: nat
  MajorFunction :: "major_function set"
  has_unload :: bool

text \<open>The kernel's answers while the driver loads: opening each disk, both string conversions, the
  new device object's address, and the creation of the device and of its link.\<close>

record load_answers =
  open_status :: "nat \<Rightarrow> ntstatus"
  dev_name_ok :: bool
  new_device :: nat
  device_status :: ntstatus
  link_name_ok :: bool
  link_status :: ntstatus

section \<open>Operations\<close>

definition OpenPhysicalDisk ::
  "load_answers \<Rightarrow> nat \<Rightarrow> driver_object \<Rightarrow> ntstatus \<times> driver_object" where
  "OpenPhysicalDisk a i d = (open_status a i,
     if open_status a i = STATUS_SUCCESS then d\<lparr>fileObject := (fileObject d)(i := True)\<rparr> else d)"

definition ClosePhysicalDisk :: "nat \<Rightarrow> driver_object \<Rightarrow> driver_object" where
  "ClosePhysicalDisk i d = d\<lparr>fileObject := (fileObject d)(i := False)\<rparr>"

text \<open>\<open>TO_UNICODE\<close>: a conversion that succeeds allocates the buffer of the string.\<close>

definition TO_UNICODE :: "bool \<Rightarrow> driver_object \<Rightarrow> bool \<times> driver_object" where
  "TO_UNICODE ok d = (ok, if ok then d\<lparr>unicodeBuffers := unicodeBuffers d + 1\<rparr> else d)"

definition RtlFreeUnicodeString :: "bool \<Rightarrow> driver_object \<Rightarrow> driver_object" where
  "RtlFreeUnicodeString allocated d =
     (if allocated then d\<lparr>unicodeBuffers := unicodeBuffers d - 1\<rparr> else d)"

definition LoadPhysicalDisk ::
  "load_answers \<Rightarrow> nat \<Rightarrow> driver_object \<Rightarrow> ntstatus \<times> driver_object" where
  "LoadPhysicalDisk a i d = (let (st, d) = OpenPhysicalDisk a i d in
     if st \<noteq> STATUS_SUCCESS then (st, d) else (STATUS_SUCCESS, d))"

definition LoadLogicalDisk :: "load_answers \<Rightarrow> driver_object \<Rightarrow> ntstatus \<times> driver_object" where
  "LoadLogicalDisk a d =
     (let (dev, d) = TO_UNICODE (dev_name_ok a) d;
          st = device_status a in
      if st \<noteq> STATUS_SUCCESS then (st, RtlFreeUnicodeString dev d)
      else
        (let d = d\<lparr>DeviceObject := new_device a # DeviceObject d\<rparr>;
             (lnk, d) = TO_UNICODE (link_name_ok a) d;
             st = link_status a in
         if st \<noteq> STATUS_SUCCESS
         then (st, RtlFreeUnicodeString lnk (RtlFreeUnicodeString dev d))
         else
           (let d = RtlFreeUnicodeString lnk (RtlFreeUnicodeString dev (d\<lparr>symbolicLink := True\<rparr>)) in
            (STATUS_SUCCESS, d\<lparr>MajorFunction := {CREATE_is_MyOpen, READ_is_MyRead, WRITE_is_MyWrite,
               CONTROL_is_MyDeviceIoControl, CLOSE_is_MyClose}\<rparr>))))"

definition DriverEntry :: "load_answers \<Rightarrow> driver_object \<Rightarrow> ntstatus \<times> driver_object" where
  "DriverEntry a d =
     (let (st, d) = LoadPhysicalDisk a 0 d in
      if st \<noteq> STATUS_SUCCESS then (st, d)
      else
        (let (st, d) = LoadPhysicalDisk a 1 d in
         if st \<noteq> STATUS_SUCCESS then (st, ClosePhysicalDisk 0 d)
         else
           (let (st, d) = LoadLogicalDisk a d in
            if st \<noteq> STATUS_SUCCESS then (st, ClosePhysicalDisk 0 (ClosePhysicalDisk 1 d))
            else (STATUS_SUCCESS, d\<lparr>has_unload := True\<rparr>))))"

text \<open>The loop of \<open>DriverUnload\<close>: the head of the device list is deleted until the list is empty.
  \<open>fuel\<close> bounds the turns; \<open>None\<close> when it runs out.\<close>

fun delete_devices :: "nat \<Rightarrow> driver_object \<Rightarrow> driver_object option" where
  "delete_devices fuel d = (case DeviceObject d of
     [] \<Rightarrow> Some d
   | device # rest \<Rightarrow> (case fuel of 0 \<Rightarrow> None
       | Suc k \<Rightarrow> delete_devices k (d\<lparr>DeviceObject := rest\<rparr>)))"

declare delete_devices.simps [simp del]

text \<open>\<open>None\<close> also when the conversion fails: the string's buffer pointer is then the uninitialised
  local the code goes on to free.\<close>

definition DriverUnload :: "nat \<Rightarrow> bool \<Rightarrow> driver_object \<Rightarrow> driver_object option" where
  "DriverUnload fuel link_ok d =
     (let (lnk, d) = TO_UNICODE link_ok d in
      if \<not> lnk then None
      else
        (case delete_devices fuel (RtlFreeUnicodeString True (d\<lparr>symbolicLink := False\<rparr>)) of
           None \<Rightarrow> None
         | Some d \<Rightarrow> Some (ClosePhysicalDisk 1 (ClosePhysicalDisk 0 d))))"

section \<open>What is held before and after\<close>

lemma delete_devices_enough:
  "length (DeviceObject d) \<le> fuel \<Longrightarrow> delete_devices fuel d = Some (d\<lparr>DeviceObject := []\<rparr>)"
  by (induction fuel d rule: delete_devices.induct)
    (subst delete_devices.simps, auto split: list.splits nat.splits)

definition unloaded :: driver_object where
  "unloaded = \<lparr>fileObject = (\<lambda>_. False), DeviceObject = [], symbolicLink = False,
     unicodeBuffers = 0, MajorFunction = {}, has_unload = False\<rparr>"

lemmas load_defs = DriverEntry_def LoadPhysicalDisk_def OpenPhysicalDisk_def LoadLogicalDisk_def
  ClosePhysicalDisk_def TO_UNICODE_def RtlFreeUnicodeString_def Let_def

text \<open>
  A failed load of the RAID driver gives back the references to both physical disks, frees every
  string and leaves no link; a device object is left over exactly when the device was created and
  the symbolic link refused.
\<close>

theorem raid_failed_load:
  assumes "DriverEntry a unloaded = (st, d)" "st \<noteq> STATUS_SUCCESS"
  shows "fileObject d = (\<lambda>_. False) \<and> unicodeBuffers d = 0 \<and> \<not> symbolicLink d \<and> \<not> has_unload d \<and>
    MajorFunction d = {} \<and>
    DeviceObject d = (if open_status a 0 = STATUS_SUCCESS \<and> open_status a 1 = STATUS_SUCCESS \<and>
      device_status a = STATUS_SUCCESS then [new_device a] else [])"
  using assms by (auto simp: load_defs unloaded_def fun_eq_iff split: if_splits)

definition no_link :: load_answers where
  "no_link = \<lparr>open_status = (\<lambda>_. STATUS_SUCCESS), dev_name_ok = True, new_device = 7,
     device_status = STATUS_SUCCESS, link_name_ok = True, link_status = STATUS_ACCESS_DENIED\<rparr>"

theorem raid_failed_load_witness:
  "\<exists>d. DriverEntry no_link unloaded = (STATUS_ACCESS_DENIED, d) \<and> DeviceObject d = [7]"
proof -
  obtain d where d: "DriverEntry no_link unloaded = (STATUS_ACCESS_DENIED, d)"
    by (simp add: load_defs no_link_def)
  show ?thesis
    using raid_failed_load [OF d] d by (simp add: no_link_def)
qed

text \<open>
  A load of the RAID driver that succeeds holds both disks, one device and its link; the loop of
  the unload routine then ends after as many turns as there are devices, and unloading gives back
  every object the load took.
\<close>

theorem raid_unload_releases:
  assumes "DriverEntry a unloaded = (STATUS_SUCCESS, d)" "1 \<le> fuel"
  shows "fileObject d 0 \<and> fileObject d 1 \<and> DeviceObject d = [new_device a] \<and> symbolicLink d \<and>
    DriverUnload fuel True d =
      Some (unloaded\<lparr>MajorFunction := MajorFunction d, has_unload := True\<rparr>)"
  using assms
  by (auto simp: load_defs unloaded_def DriverUnload_def delete_devices_enough fun_eq_iff
    split: if_splits)

theorem raid_unload_releases_witness:
  "\<exists>d. DriverEntry (no_link\<lparr>link_status := STATUS_SUCCESS\<rparr>) unloaded = (STATUS_SUCCESS, d) \<and>
     \<not> symbolicLink (the (DriverUnload 1 True d))"
proof -
  obtain d where d: "DriverEntry (no_link\<lparr>link_status := STATUS_SUCCESS\<rparr>) unloaded = (STATUS_SUCCESS, d)"
    by (simp add: load_defs no_link_def)
  show ?thesis
    using raid_unload_releases [OF d, of 1] d by (simp add: unloaded_def)
qed

end
