(* ===== verification/RuleStore.thy ===== *)
theory RuleStore
  imports Base
begin

text \<open>
  What the packet hooks of both firewalls rely on in the rule lists: a rule put in is the first of
  its list, a search answers the first rule that matches, and neither loses another rule. The
  Linux and the Windows rule lists are both shown to be such a store.
\<close>

locale rule_store =
  fixes inv :: "'s \<Rightarrow> bool"
    and rules :: "'s \<Rightarrow> 'r list"
    and room :: "'k \<Rightarrow> 's \<Rightarrow> bool"
    and put :: "'k \<Rightarrow> 'r \<Rightarrow> 's \<Rightarrow> 's option"
    and search :: "'q \<Rightarrow> 's \<Rightarrow> 'r option option"
    and hits :: "'q \<Rightarrow> 'r \<Rightarrow> bool"
  assumes put_rules: "inv s \<Longrightarrow> room k s \<Longrightarrow> \<exists>s'. put k r s = Some s' \<and> inv s' \<and> rules s' = r # rules s"
    and search_first: "inv s \<Longrightarrow> search q s = Some (List.find (hits q) (rules s))"
begin

lemma search_never_stuck: "inv s \<Longrightarrow> search q s \<noteq> None"
  by (simp add: search_first)

lemma search_put_hit:
  assumes "inv s" "room k s" "put k r s = Some s'" "hits q r"
  shows "search q s' = Some (Some r)"
  using put_rules [OF assms(1,2), of r] assms(3,4) search_first by fastforce

lemma search_put_miss:
  assumes "inv s" "room k s" "put k r s = Some s'" "\<not> hits q r"
  shows "search q s' = search q s"
  using put_rules [OF assms(1,2), of r] assms search_first by fastforce

text \<open>Putting rules one after the other; each step is given the allocator's answer.\<close>

inductive puts :: "'s \<Rightarrow> 'r list \<Rightarrow> 's \<Rightarrow> bool" where
  none: "puts s [] s"
| more: "room k s \<Longrightarrow> put k r s = Some t \<Longrightarrow> puts t rs u \<Longrightarrow> puts s (r # rs) u"

lemma puts_rules: "puts s rs u \<Longrightarrow> inv s \<Longrightarrow> inv u \<and> rules u = rev rs @ rules s"
proof (induction rule: puts.induct)
  case none
  then show ?case by simp
next
  case (more k s r t rs u)
  from put_rules [OF more.prems more.hyps(1), of r] more show ?case by auto
qed

lemma search_puts:
  assumes "puts s rs u" "inv s"
  shows "search q u = Some (List.find (hits q) (rev rs @ rules s))"
  using puts_rules [OF assms] search_first by simp

lemma search_puts_found:
  assumes "puts s rs u" "inv s" "r \<in> set rs" "hits q r"
  shows "\<exists>r'. search q u = Some (Some r') \<and> hits q r'"
proof -
  have "List.find (hits q) (rev rs @ rules s) \<noteq> None"
    using assms(3,4) by (auto simp: find_None)
  then show ?thesis
    using search_puts [OF assms(1,2), of q] find_SomeD by fastforce
qed

end

end
