(* ===== verification/FwLinux.thy ===== *)
theory FwLinux
  imports RuleStore
begin

text \<open>
  The Linux packet filter, \<open>src/NetworkFirewallLinux\<close>: the three rule lists of \<open>rules.c\<close> with
  their timers, and the hooks, the control calls, the load and the unload of \<open>ip_firewall.c\<close>.

  Rules and list nodes live on a heap, one map per kind of block, keyed by address; a list is the
  sequence of the node addresses that its \<open>list_head\<close>s link. Every operation answers in the
  option type: \<open>None\<close> is taking a lock that is held, reading a block that was freed, or a loop that
  does not end. What the allocator, the user copies and the registration calls answer is an
  argument, as is the image of a timer in memory, which the kernel's configuration decides.
\<close>

section \<open>State\<close>

datatype rule_list = Static | TcpDynamic | UdpDynamic

datatype callback = null_timer_callback | tcp_timer_callback | udp_timer_callback

record fwr =
  ip_src :: u32
  ip_dst :: u32
  ip_src_mask :: u32
  ip_dst_mask :: u32
  port_src :: "u16 \<times> u16"
  port_dst :: "u16 \<times> u16"

record timer_list =
  timer_function :: callback
  timer_data :: addr
  expires :: "u32 option"

record rules_list_t =
  rule :: addr
  timer :: timer_list

text \<open>\<open>expires\<close> is set while the timer is pending; \<open>hook_out\<close> and \<open>hook_in\<close> are the registrations
  of the two hooks, \<open>cdev\<close> and \<open>region\<close> those of the character device.\<close>

record firewall =
  fwrs :: "addr \<rightharpoonup> fwr"
  nodes :: "addr \<rightharpoonup> rules_list_t"
  heads :: "rule_list \<Rightarrow> addr list"
  lock :: bool
  ipfirewall_enabled :: bool
  hook_out :: bool
  hook_in :: bool
  cdev :: bool
  region :: bool
  jiffies :: u32
  HZ :: nat

definition ENOMEM :: int where "ENOMEM = 12"
definition EFAULT :: int where "EFAULT = 14"
definition EINVAL :: int where "EINVAL = 22"
definition ENOTTY :: int where "ENOTTY = 25"
definition ENOSPC :: int where "ENOSPC = 28"
definition IPPROTO_TCP :: int where "IPPROTO_TCP = 6"
definition IPPROTO_UDP :: int where "IPPROTO_UDP = 17"

definition TIMEOUT :: nat where "TIMEOUT = 300"

lemmas errno_defs = ENOMEM_def EFAULT_def EINVAL_def ENOTTY_def ENOSPC_def

definition spin_lock :: "firewall \<Rightarrow> firewall option" where
  "spin_lock s = (if lock s then None else Some (s\<lparr>lock := True\<rparr>))"

definition spin_unlock :: "firewall \<Rightarrow> firewall" where
  "spin_unlock s = s\<lparr>lock := False\<rparr>"

section \<open>Rule lists\<close>

definition setup_timer :: "callback \<Rightarrow> addr \<Rightarrow> timer_list" where
  "setup_timer f data = \<lparr>timer_function = f, timer_data = data, expires = None\<rparr>"

definition timeout :: "firewall \<Rightarrow> u32" where
  "timeout s = jiffies s + of_nat (TIMEOUT * HZ s div 1000)"

definition mod_timer :: "addr \<Rightarrow> u32 \<Rightarrow> firewall \<Rightarrow> firewall option" where
  "mod_timer a e s = do {
     ple \<leftarrow> nodes s a;
     Some (s\<lparr>nodes := (nodes s)(a \<mapsto> ple\<lparr>timer := (timer ple)\<lparr>expires := Some e\<rparr>\<rparr>)\<rparr>)
   }"

text \<open>The rule to add: one on the caller's stack, to be copied, or a block of the heap.\<close>

datatype rule_arg = OnStack fwr | OnHeap addr

text \<open>The part of \<open>add_rule\<close> after the allocations: the rule at \<open>p\<close> goes into the node at \<open>ple\<close>.
  A node starts with its rule pointer, so the timer's datum \<open>&ple->rule\<close> is \<open>ple\<close>. \<open>t0\<close> is what the
  new block held where the timer is.\<close>

definition link_rule ::
  "addr \<Rightarrow> addr \<Rightarrow> timer_list \<Rightarrow> rule_list \<Rightarrow> int \<Rightarrow> firewall \<Rightarrow> firewall" where
  "link_rule ple p t0 head proto s =
     (let t = (if proto = -1 then setup_timer null_timer_callback ple
               else if proto = IPPROTO_TCP then setup_timer tcp_timer_callback ple
               else if proto = IPPROTO_UDP
               then (setup_timer udp_timer_callback ple)\<lparr>expires := Some (timeout s)\<rparr>
               else t0)
      in s\<lparr>nodes := (nodes s)(ple \<mapsto> \<lparr>rule = p, timer = t\<rparr>),
           heads := (heads s)(head := ple # heads s head)\<rparr>)"

definition add_rule :: "rule_arg \<Rightarrow> rule_list \<Rightarrow> int \<Rightarrow> (addr \<times> timer_list) option \<Rightarrow> addr option \<Rightarrow>
    firewall \<Rightarrow> (int \<times> firewall) option" where
  "add_rule arg head proto k1 k2 s = do {
     s \<leftarrow> spin_lock s;
     case k1 of
       None \<Rightarrow> Some (- ENOMEM, spin_unlock s)
     | Some (ple, t0) \<Rightarrow>
         (case arg of
            OnStack r \<Rightarrow>
              (case k2 of
                 None \<Rightarrow> Some (- ENOMEM, spin_unlock
                   (s\<lparr>nodes := (nodes s)(ple \<mapsto> \<lparr>rule = 0, timer = t0\<rparr>)\<rparr>))
               | Some p \<Rightarrow> Some (0, spin_unlock
                   (link_rule ple p t0 head proto (s\<lparr>fwrs := (fwrs s)(p \<mapsto> r)\<rparr>))))
          | OnHeap p \<Rightarrow> Some (0, spin_unlock (link_rule ple p t0 head proto s)))
   }"

definition unlink_free :: "addr \<Rightarrow> rule_list \<Rightarrow> firewall \<Rightarrow> firewall" where
  "unlink_free a head s =
     s\<lparr>heads := (heads s)(head := remove1 a (heads s head)), nodes := (nodes s)(a := None)\<rparr>"

text \<open>\<open>memcmp(&ple->rule, rule, sizeof(struct fwr))\<close>: both arguments are the addresses of nodes, so
  24 bytes of the nodes are compared, the rule pointer and the first 20 bytes of the timer.\<close>

definition node_image :: "(timer_list \<Rightarrow> bytes) \<Rightarrow> rules_list_t \<Rightarrow> bytes" where
  "node_image tim n = take 24 (le32 (rule n) @ tim (timer n))"

fun del_search ::
  "(timer_list \<Rightarrow> bytes) \<Rightarrow> addr \<Rightarrow> (addr \<rightharpoonup> rules_list_t) \<Rightarrow> addr list \<Rightarrow> addr option option" where
  "del_search tim r ns [] = Some None"
| "del_search tim r ns (i # is) = do {
     ple \<leftarrow> ns i;
     n \<leftarrow> ns r;
     if node_image tim ple = node_image tim n then Some (Some i) else del_search tim r ns is
   }"

definition del_rule :: "(timer_list \<Rightarrow> bytes) \<Rightarrow> addr \<Rightarrow> rule_list \<Rightarrow> firewall \<Rightarrow>
    (int \<times> firewall) option" where
  "del_rule tim r head s = do {
     s \<leftarrow> spin_lock s;
     hit \<leftarrow> del_search tim r (nodes s) (heads s head);
     case hit of
       None \<Rightarrow> Some (- EINVAL, spin_unlock s)
     | Some i \<Rightarrow> Some (0, spin_unlock (unlink_free i head s))
   }"

text \<open>The callbacks, and the kernel running a pending timer: it is no longer pending when its
  callback runs.\<close>

definition run_callback :: "(timer_list \<Rightarrow> bytes) \<Rightarrow> callback \<Rightarrow> addr \<Rightarrow> firewall \<Rightarrow> firewall option" where
  "run_callback tim f data s = (case f of
     udp_timer_callback \<Rightarrow> map_option snd (del_rule tim data UdpDynamic s)
   | tcp_timer_callback \<Rightarrow> map_option snd (del_rule tim data TcpDynamic s)
   | null_timer_callback \<Rightarrow> Some s)"

definition timer_fires :: "(timer_list \<Rightarrow> bytes) \<Rightarrow> addr \<Rightarrow> firewall \<Rightarrow> firewall option" where
  "timer_fires tim a s = do {
     ple \<leftarrow> nodes s a;
     let t = timer ple;
     run_callback tim (timer_function t) (timer_data t)
       (s\<lparr>nodes := (nodes s)(a \<mapsto> ple\<lparr>timer := t\<lparr>expires := None\<rparr>\<rparr>)\<rparr>)
   }"

definition match_rule :: "fwr \<Rightarrow> fwr \<Rightarrow> bool" where
  "match_rule src dest \<longleftrightarrow>
     ip_src src AND ip_src_mask dest = ip_src dest AND ip_src_mask dest \<and>
     ip_dst src AND ip_dst_mask dest = ip_dst dest AND ip_dst_mask dest \<and>
     fst (port_src src) \<ge> fst (port_src dest) \<and> snd (port_src src) \<le> snd (port_src dest) \<and>
     fst (port_dst src) \<ge> fst (port_dst dest) \<and> snd (port_dst src) \<le> snd (port_dst dest)"

fun search_list :: "fwr \<Rightarrow> (addr \<rightharpoonup> fwr) \<Rightarrow> (addr \<rightharpoonup> rules_list_t) \<Rightarrow> addr list \<Rightarrow> addr option option" where
  "search_list q fs ns [] = Some None"
| "search_list q fs ns (i # is) = do {
     ple \<leftarrow> ns i;
     r \<leftarrow> fs (rule ple);
     if match_rule q r then Some (Some i) else search_list q fs ns is
   }"

definition search_rule :: "fwr \<Rightarrow> rule_list \<Rightarrow> firewall \<Rightarrow> (addr option \<times> firewall) option" where
  "search_rule q head s = do {
     s \<leftarrow> spin_lock s;
     hit \<leftarrow> search_list q (fwrs s) (nodes s) (heads s head);
     Some (hit, spin_unlock s)
   }"

fun destroy_nodes :: "rule_list \<Rightarrow> addr list \<Rightarrow> firewall \<Rightarrow> firewall option" where
  "destroy_nodes head [] s = Some s"
| "destroy_nodes head (i # is) s = do {
     ple \<leftarrow> nodes s i;
     destroy_nodes head is (unlink_free i head s)
   }"

definition destroy_list :: "rule_list \<Rightarrow> firewall \<Rightarrow> firewall option" where
  "destroy_list head s = do {
     s \<leftarrow> spin_lock s;
     s \<leftarrow> destroy_nodes head (heads s head) s;
     Some (spin_unlock s)
   }"

definition list_size :: "rule_list \<Rightarrow> firewall \<Rightarrow> nat" where
  "list_size head s = length (heads s head)"

text \<open>A rule in memory, and read back.\<close>

definition fwr_image :: "fwr \<Rightarrow> bytes" where
  "fwr_image r = le32 (ip_src r) @ le32 (ip_dst r) @ le32 (ip_src_mask r) @ le32 (ip_dst_mask r) @
     le16 (fst (port_src r)) @ le16 (snd (port_src r)) @
     le16 (fst (port_dst r)) @ le16 (snd (port_dst r))"

definition un_fwr :: "bytes \<Rightarrow> fwr" where
  "un_fwr bs = \<lparr>ip_src = un_le32 bs, ip_dst = un_le32 (drop 4 bs), ip_src_mask = un_le32 (drop 8 bs),
     ip_dst_mask = un_le32 (drop 12 bs), port_src = (un_le16 (drop 16 bs), un_le16 (drop 18 bs)),
     port_dst = (un_le16 (drop 20 bs), un_le16 (drop 22 bs))\<rparr>"

fun rules_to_buffer ::
  "store \<Rightarrow> nat \<Rightarrow> nat \<Rightarrow> (addr \<rightharpoonup> fwr) \<Rightarrow> (addr \<rightharpoonup> rules_list_t) \<Rightarrow> addr list \<Rightarrow> store option" where
  "rules_to_buffer buf off j fs ns [] = Some buf"
| "rules_to_buffer buf off j fs ns (i # is) = do {
     ple \<leftarrow> ns i;
     r \<leftarrow> fs (rule ple);
     rules_to_buffer (poke buf (off + j * 24) (fwr_image r)) off (j + 1) fs ns is
   }"

definition add_rules_to_buffer :: "store \<Rightarrow> nat \<Rightarrow> rule_list \<Rightarrow> firewall \<Rightarrow> store option" where
  "add_rules_to_buffer buf off head s = rules_to_buffer buf off 0 (fwrs s) (nodes s) (heads s head)"

section \<open>Packet hooks\<close>

text \<open>The header fields the hooks read. A packet gives its IP header, if any, what lies where its
  transport header pointer points, and what lies a number of 32-bit words into the IP header; a
  transport header is seen as a TCP or a UDP header.\<close>

record iphdr =
  ihl :: u8
  protocol :: u8
  saddr :: u32
  daddr :: u32

record tcphdr =
  tcp_source :: u16
  tcp_dest :: u16
  syn :: bool
  ack :: bool
  fin :: bool

record udphdr =
  udp_source :: u16
  udp_dest :: u16

record sk_buff =
  ip_hdr :: "iphdr option"
  tcp_hdr :: tcphdr
  udp_hdr :: udphdr
  tcp_at :: "u8 \<Rightarrow> tcphdr"
  udp_at :: "u8 \<Rightarrow> udphdr"

datatype verdict = NF_ACCEPT | NF_DROP

definition new_rule ::
  "u32 \<Rightarrow> u32 \<Rightarrow> u32 \<Rightarrow> u32 \<Rightarrow> u16 \<Rightarrow> u16 \<Rightarrow> u16 \<Rightarrow> u16 \<Rightarrow> fwr" where
  "new_rule src dst src_mask dst_mask ps0 ps1 pd0 pd1 =
     \<lparr>ip_src = src, ip_dst = dst, ip_src_mask = src_mask, ip_dst_mask = dst_mask,
      port_src = (ps0, ps1), port_dst = (pd0, pd1)\<rparr>"

definition generate_tcp_dynamic_rule :: "iphdr \<Rightarrow> tcphdr \<Rightarrow> bool \<Rightarrow> fwr" where
  "generate_tcp_dynamic_rule iph tcph out =
     (if out then new_rule (daddr iph) (saddr iph) 0xFFFF 0xFFFF (tcp_dest tcph) (tcp_dest tcph)
        (tcp_source tcph) (tcp_source tcph)
      else new_rule (saddr iph) (daddr iph) 0 0 (tcp_source tcph) (tcp_source tcph)
        (tcp_dest tcph) (tcp_dest tcph))"

definition generate_udp_dynamic_rule :: "iphdr \<Rightarrow> udphdr \<Rightarrow> bool \<Rightarrow> fwr" where
  "generate_udp_dynamic_rule iph udph out =
     (if out then new_rule (daddr iph) (saddr iph) 0 0 (udp_dest udph) (udp_dest udph)
        (udp_source udph) (udp_source udph)
      else new_rule (saddr iph) (daddr iph) 0 0 (udp_source udph) (udp_source udph)
        (udp_dest udph) (udp_dest udph))"

definition my_nf_hookfn_out :: "sk_buff \<Rightarrow> (addr \<times> timer_list) option \<Rightarrow> addr option \<Rightarrow> firewall \<Rightarrow>
    (verdict \<times> firewall) option" where
  "my_nf_hookfn_out skb k1 k2 s = (case ip_hdr skb of
     None \<Rightarrow> Some (NF_ACCEPT, s)
   | Some iph \<Rightarrow>
       if uint (protocol iph) = IPPROTO_TCP then
         (let tcph = tcp_hdr skb; r = generate_tcp_dynamic_rule iph tcph True in
          if syn tcph \<and> \<not> ack tcph then do {
            (_, s) \<leftarrow> add_rule (OnStack r) TcpDynamic IPPROTO_TCP k1 k2 s;
            Some (NF_ACCEPT, s)
          }
          else if fin tcph then do {
            (ple, s) \<leftarrow> search_rule r TcpDynamic s;
            s \<leftarrow> (case ple of None \<Rightarrow> Some s | Some a \<Rightarrow> mod_timer a (timeout s) s);
            Some (NF_ACCEPT, s)
          }
          else Some (NF_ACCEPT, s))
       else if uint (protocol iph) = IPPROTO_UDP then
         (let r = generate_udp_dynamic_rule iph (udp_hdr skb) True in do {
            (ple, s) \<leftarrow> search_rule r UdpDynamic s;
            s \<leftarrow> (case ple of
                 Some a \<Rightarrow> mod_timer a (timeout s) s
               | None \<Rightarrow> map_option snd (add_rule (OnStack r) UdpDynamic IPPROTO_UDP k1 k2 s));
            Some (NF_ACCEPT, s)
          })
       else Some (NF_ACCEPT, s))"

definition my_nf_hookfn_in :: "sk_buff \<Rightarrow> firewall \<Rightarrow> (verdict \<times> firewall) option" where
  "my_nf_hookfn_in skb s = (case ip_hdr skb of
     None \<Rightarrow> Some (NF_ACCEPT, s)
   | Some iph \<Rightarrow>
       if uint (protocol iph) = IPPROTO_TCP then
         (let r = generate_tcp_dynamic_rule iph (tcp_at skb (ihl iph)) False in do {
            (st, s) \<leftarrow> search_rule r Static s;
            if st \<noteq> None then Some (NF_ACCEPT, s)
            else do {
              (ple, s) \<leftarrow> search_rule r TcpDynamic s;
              Some (if ple \<noteq> None then NF_ACCEPT else NF_DROP, s)
            }
          })
       else if uint (protocol iph) = IPPROTO_UDP then
         (let r = generate_udp_dynamic_rule iph (udp_at skb (ihl iph)) False in do {
            (st, s) \<leftarrow> search_rule r Static s;
            if st \<noteq> None then Some (NF_ACCEPT, s)
            else do {
              (ple, s) \<leftarrow> search_rule r UdpDynamic s;
              case ple of
                None \<Rightarrow> Some (NF_DROP, s)
              | Some a \<Rightarrow> do { s \<leftarrow> mod_timer a (timeout s) s; Some (NF_ACCEPT, s) }
            }
          })
       else Some (NF_ACCEPT, s))"

section \<open>The character device\<close>

definition ipfirewall_open :: "firewall \<Rightarrow> int \<times> firewall" where
  "ipfirewall_open s = (0, s)"

definition ipfirewall_close :: "firewall \<Rightarrow> int \<times> firewall" where
  "ipfirewall_close s = (0, s)"

text \<open>The loop around \<open>copy_to_user\<close>: each call answers how many bytes it left uncopied. \<open>um\<close> is the
  user's memory from the argument on; \<open>None\<close> when the answers given leave the loop running.\<close>

fun copy_loop :: "bytes \<Rightarrow> nat \<Rightarrow> nat list \<Rightarrow> store \<Rightarrow> store option" where
  "copy_loop buf aux [] um = None"
| "copy_loop buf aux (left # rest) um =
     (let k = min left aux; at = length buf - aux;
          um = poke um at (take (aux - k) (drop at buf))
      in if k = 0 then Some um else copy_loop buf k rest um)"

text \<open>The control calls, with what the kernel answers while they run: \<open>FW_ADD_RULE\<close> the block for the
  rule, whether the copy from the user succeeds and the block for the node; \<open>FW_ENABLE\<close> the
  registrations; \<open>FW_LIST\<close> the copy of the size, the buffer, and the answers of the copy loop.\<close>

datatype ioctl_call =
    FW_ADD_RULE "addr option" bool "(addr \<times> timer_list) option"
  | FW_ENABLE bool bool
  | FW_DISABLE
  | FW_LIST bool bool "nat list"
  | FW_UNKNOWN

definition fw_enable :: "bool \<Rightarrow> bool \<Rightarrow> firewall \<Rightarrow> int \<times> firewall" where
  "fw_enable out_ok in_ok s =
     (if \<not> ipfirewall_enabled s then
        (let s = s\<lparr>ipfirewall_enabled := True\<rparr> in
         if \<not> out_ok then (- ENOTTY, s)
         else (let s = s\<lparr>hook_out := True\<rparr> in
           if \<not> in_ok then (- ENOTTY, s) else (0, s\<lparr>hook_in := True\<rparr>)))
      else (0, s))"

definition fw_disable :: "firewall \<Rightarrow> int \<times> firewall" where
  "fw_disable s =
     (0, if ipfirewall_enabled s
         then s\<lparr>ipfirewall_enabled := False, hook_out := False, hook_in := False\<rparr> else s)"

definition fw_list ::
  "bool \<Rightarrow> bool \<Rightarrow> nat list \<Rightarrow> store \<Rightarrow> firewall \<Rightarrow> (int \<times> store \<times> firewall) option" where
  "fw_list size_ok buf_ok left um s = do {
     s \<leftarrow> spin_lock s;
     let s_size = list_size Static s;
     let tcp_size = list_size TcpDynamic s;
     let udp_size = list_size UdpDynamic s;
     let kernel_size = s_size + tcp_size + udp_size;
     let user_size = sint (un_le32 (peek um 0 4));
     if int kernel_size > user_size then
       (let s = spin_unlock s in
        if \<not> size_ok then Some (- EFAULT, um, s)
        else Some (- ENOSPC, poke um 0 (le32 (of_nat kernel_size)), s))
     else if \<not> buf_ok then Some (- ENOMEM, um, spin_unlock s)
     else do {
       buf \<leftarrow> add_rules_to_buffer (\<lambda>_. 0) 0 Static s;
       buf \<leftarrow> add_rules_to_buffer buf (s_size * 24) TcpDynamic s;
       buf \<leftarrow> add_rules_to_buffer buf ((tcp_size + s_size) * 24) UdpDynamic s;
       let size_write = kernel_size * 24;
       let s = spin_unlock s;
       um \<leftarrow> copy_loop (peek buf 0 size_write) size_write left um;
       Some (int kernel_size, um, s)
     }
   }"

definition ipfirewall_ioctl ::
  "ioctl_call \<Rightarrow> store \<Rightarrow> firewall \<Rightarrow> (int \<times> store \<times> firewall) option" where
  "ipfirewall_ioctl cmd um s = (case cmd of
     FW_ADD_RULE k0 copy_ok k1 \<Rightarrow>
       (case k0 of
          None \<Rightarrow> Some (- EFAULT, um, s)
        | Some p \<Rightarrow>
            let s = s\<lparr>fwrs := (fwrs s)(p \<mapsto> un_fwr (peek um 0 24))\<rparr> in
            if \<not> copy_ok then Some (- EFAULT, um, s)
            else do {
              (_, s) \<leftarrow> add_rule (OnHeap p) Static (-1) k1 None s;
              Some (0, um, s)
            })
   | FW_ENABLE out_ok in_ok \<Rightarrow> (let (r, s) = fw_enable out_ok in_ok s in Some (r, um, s))
   | FW_DISABLE \<Rightarrow> (let (r, s) = fw_disable s in Some (r, um, s))
   | FW_LIST size_ok buf_ok left \<Rightarrow> fw_list size_ok buf_ok left um s
   | FW_UNKNOWN \<Rightarrow> Some (- ENOTTY, um, s))"

text \<open>Loading: what each registration answers, 0 or an error, is the argument.\<close>

definition ipfirewall_init :: "int \<Rightarrow> int \<Rightarrow> int \<Rightarrow> int \<Rightarrow> firewall \<Rightarrow> int \<times> firewall" where
  "ipfirewall_init region_err cdev_err out_err in_err s =
     (if region_err \<noteq> 0 then (region_err, s)
      else
        (let s = s\<lparr>region := True, lock := False\<rparr> in
         if cdev_err \<noteq> 0 then (cdev_err, s\<lparr>region := False\<rparr>)
         else
           (let s = s\<lparr>cdev := True\<rparr> in
            if out_err \<noteq> 0 then (out_err, s\<lparr>cdev := False, region := False\<rparr>)
            else
              (let s = s\<lparr>hook_out := True\<rparr> in
               if in_err \<noteq> 0 then (in_err, s\<lparr>cdev := False, region := False\<rparr>)
               else (0, s\<lparr>hook_in := True, ipfirewall_enabled := True\<rparr>)))))"

definition ipfirewall_exit :: "firewall \<Rightarrow> firewall option" where
  "ipfirewall_exit s = do {
     s \<leftarrow> destroy_list Static s;
     s \<leftarrow> destroy_list TcpDynamic s;
     s \<leftarrow> destroy_list UdpDynamic s;
     let s = (if ipfirewall_enabled s then s\<lparr>hook_out := False, hook_in := False\<rparr> else s);
     Some (s\<lparr>cdev := False, region := False\<rparr>)
   }"

end
