(* ===== verification/FwLinuxCorrect.thy ===== *)
theory FwLinuxCorrect
  imports FwLinux
begin

text \<open>
  Correctness of the Linux packet filter: the invariant of the rule lists and their timers and that
  every hook, control call and timer keeps it; the lists as a rule store; runs of the module as a
  step relation; and what the filter lets in.
\<close>

section \<open>Well-formed rule lists\<close>

fun callback_of :: "rule_list \<Rightarrow> callback" where
  "callback_of Static = null_timer_callback"
| "callback_of TcpDynamic = tcp_timer_callback"
| "callback_of UdpDynamic = udp_timer_callback"

fun proto_of :: "rule_list \<Rightarrow> int" where
  "proto_of Static = -1"
| "proto_of TcpDynamic = IPPROTO_TCP"
| "proto_of UdpDynamic = IPPROTO_UDP"

definition rule_ptr :: "firewall \<Rightarrow> addr \<Rightarrow> addr" where
  "rule_ptr s a = rule (the (nodes s a))"

definition rule_at :: "firewall \<Rightarrow> addr \<Rightarrow> fwr" where
  "rule_at s a = the (fwrs s (rule_ptr s a))"

definition rules_of :: "firewall \<Rightarrow> rule_list \<Rightarrow> fwr list" where
  "rules_of s L = map (rule_at s) (heads s L)"

text \<open>A node of a list is live, its rule too, and its timer calls back for itself.\<close>

definition node_ok :: "firewall \<Rightarrow> rule_list \<Rightarrow> addr \<Rightarrow> bool" where
  "node_ok s L a \<longleftrightarrow> (\<exists>n. nodes s a = Some n \<and> fwrs s (rule n) \<noteq> None \<and>
     timer_function (timer n) = callback_of L \<and> timer_data (timer n) = a)"

definition linked :: "firewall \<Rightarrow> bool" where
  "linked s \<longleftrightarrow> (\<forall>L. distinct (heads s L)) \<and>
     (\<forall>L M a. a \<in> set (heads s L) \<longrightarrow> a \<in> set (heads s M) \<longrightarrow> L = M) \<and>
     (\<forall>L. \<forall>a\<in>set (heads s L). node_ok s L a) \<and>
     (\<forall>L M. \<forall>a\<in>set (heads s L). \<forall>b\<in>set (heads s M). rule_ptr s a = rule_ptr s b \<longrightarrow> a = b)"

text \<open>Timers of static rules never run; those of UDP rules always do.\<close>

definition armed :: "firewall \<Rightarrow> addr \<Rightarrow> bool" where
  "armed s a \<longleftrightarrow> expires (timer (the (nodes s a))) \<noteq> None"

definition timers_ok :: "firewall \<Rightarrow> bool" where
  "timers_ok s \<longleftrightarrow> (\<forall>a\<in>set (heads s Static). \<not> armed s a) \<and>
     (\<forall>a\<in>set (heads s UdpDynamic). armed s a)"

definition fw_ok :: "firewall \<Rightarrow> bool" where
  "fw_ok s \<longleftrightarrow> \<not> lock s \<and> linked s \<and> timers_ok s"

lemma linkedD:
  assumes "linked s"
  shows linked_distinct: "distinct (heads s L)"
    and linked_disjoint: "a \<in> set (heads s L) \<Longrightarrow> a \<in> set (heads s M) \<Longrightarrow> L = M"
    and linked_node: "a \<in> set (heads s L) \<Longrightarrow> node_ok s L a"
    and linked_inj: "a \<in> set (heads s L) \<Longrightarrow> b \<in> set (heads s M) \<Longrightarrow>
      rule_ptr s a = rule_ptr s b \<Longrightarrow> a = b"
  using assms unfolding linked_def by blast+

lemma linked_live:
  assumes "linked s" "a \<in> set (heads s L)"
  obtains n where "nodes s a = Some n" "fwrs s (rule n) = Some (rule_at s a)" "rule_ptr s a = rule n"
    "timer_function (timer n) = callback_of L" "timer_data (timer n) = a"
  using linked_node [OF assms] by (auto simp: node_ok_def rule_at_def rule_ptr_def)

lemma spin_lock_free [simp]: "\<not> lock s \<Longrightarrow> spin_lock s = Some (s\<lparr>lock := True\<rparr>)"
  by (simp add: spin_lock_def)

lemma spin_lock_unlock [simp]: "\<not> lock s \<Longrightarrow> spin_unlock (s\<lparr>lock := True\<rparr>) = s"
  by (simp add: spin_unlock_def)

lemma views_lock [simp]:
  "rule_ptr (s\<lparr>lock := b\<rparr>) = rule_ptr s" "rule_at (s\<lparr>lock := b\<rparr>) = rule_at s"
  "rules_of (s\<lparr>lock := b\<rparr>) = rules_of s" "linked (s\<lparr>lock := b\<rparr>) = linked s"
  "armed (s\<lparr>lock := b\<rparr>) = armed s" "timers_ok (s\<lparr>lock := b\<rparr>) = timers_ok s"
  by (auto simp: rule_ptr_def rule_at_def rules_of_def linked_def node_ok_def armed_def timers_ok_def
    fun_eq_iff)

section \<open>Operations on well-formed lists\<close>

subsection \<open>Searching\<close>

lemma search_list_find:
  assumes "linked s" "set xs \<subseteq> set (heads s L)"
  shows "search_list q (fwrs s) (nodes s) xs = Some (List.find (\<lambda>a. match_rule q (rule_at s a)) xs)"
  using assms(2)
proof (induction xs)
  case Nil
  then show ?case by simp
next
  case (Cons i xs)
  obtain n where "nodes s i = Some n" "fwrs s (rule n) = Some (rule_at s i)"
    by (rule linked_live [OF assms(1), of i L]) (use Cons.prems in auto)
  with Cons show ?case by simp
qed

lemma search_rule_ok:
  assumes "fw_ok s"
  shows "search_rule q L s = Some (List.find (\<lambda>a. match_rule q (rule_at s a)) (heads s L), s)"
  using assms search_list_find [of s "heads s L" L q] by (simp add: search_rule_def fw_ok_def)

lemma find_rules_of:
  "List.find (match_rule q) (rules_of s L) =
     map_option (rule_at s) (List.find (\<lambda>a. match_rule q (rule_at s a)) (heads s L))"
proof -
  have "List.find P (map f xs) = map_option f (List.find (\<lambda>a. P (f a)) xs)"
    for P and f :: "addr \<Rightarrow> fwr" and xs
    by (induction xs) auto
  then show ?thesis by (simp add: rules_of_def)
qed

subsection \<open>Adding\<close>

lemma heap_rule:
  assumes "fwrs s p = None"
  shows heap_rule_linked: "linked s \<Longrightarrow> linked (s\<lparr>fwrs := (fwrs s)(p \<mapsto> r)\<rparr>)"
    and heap_rule_rules: "linked s \<Longrightarrow> rules_of (s\<lparr>fwrs := (fwrs s)(p \<mapsto> r)\<rparr>) = rules_of s"
    and heap_rule_timers: "timers_ok (s\<lparr>fwrs := (fwrs s)(p \<mapsto> r)\<rparr>) = timers_ok s"
    and heap_rule_fresh: "linked s \<Longrightarrow> a \<in> set (heads s L) \<Longrightarrow> rule_ptr s a \<noteq> p"
proof -
  show fresh: "rule_ptr s a \<noteq> p" if "linked s" "a \<in> set (heads s L)" for a L
    using that linked_node [OF that] assms by (auto simp: node_ok_def rule_ptr_def)
  show "linked (s\<lparr>fwrs := (fwrs s)(p \<mapsto> r)\<rparr>)" if "linked s"
  proof -
    have "node_ok (s\<lparr>fwrs := (fwrs s)(p \<mapsto> r)\<rparr>) L a" if "a \<in> set (heads s L)" for a L
      using linked_node [OF \<open>linked s\<close> that] assms by (auto simp: node_ok_def)
    with that show ?thesis by (auto simp: linked_def rule_ptr_def)
  qed
  show "rules_of (s\<lparr>fwrs := (fwrs s)(p \<mapsto> r)\<rparr>) = rules_of s" if "linked s"
  proof -
    have "rule_at (s\<lparr>fwrs := (fwrs s)(p \<mapsto> r)\<rparr>) a = rule_at s a" if "a \<in> set (heads s L)" for a L
      using fresh [OF \<open>linked s\<close> that] by (simp add: rule_at_def rule_ptr_def)
    then show ?thesis by (simp add: rules_of_def fun_eq_iff)
  qed
  show "timers_ok (s\<lparr>fwrs := (fwrs s)(p \<mapsto> r)\<rparr>) = timers_ok s"
    by (simp add: timers_ok_def armed_def)
qed

lemma link_rule:
  fixes s :: firewall and L :: rule_list and t0 :: timer_list
  assumes "linked s" "nodes s a = None" "fwrs s p = Some r"
    and fresh: "\<And>L b. b \<in> set (heads s L) \<Longrightarrow> rule_ptr s b \<noteq> p"
  defines "s' \<equiv> link_rule a p t0 L (proto_of L) s"
  shows link_rule_linked: "linked s'"
    and link_rule_rules: "rules_of s' = (rules_of s)(L := r # rules_of s L)"
    and link_rule_timers: "timers_ok s \<Longrightarrow> timers_ok s'"
    and link_rule_heads: "heads s' = (heads s)(L := a # heads s L)"
proof -
  obtain n where n: "nodes s' = (nodes s)(a \<mapsto> n)" "rule n = p"
    "timer_function (timer n) = callback_of L" "timer_data (timer n) = a"
    "expires (timer n) = (if L = UdpDynamic then Some (timeout s) else None)"
    by (cases L) (auto simp: s'_def link_rule_def setup_timer_def Let_def IPPROTO_TCP_def
      IPPROTO_UDP_def)
  have s': "fwrs s' = fwrs s" and heads: "heads s' = (heads s)(L := a # heads s L)"
    by (simp_all add: s'_def link_rule_def Let_def)
  show "heads s' = (heads s)(L := a # heads s L)" by (fact heads)
  have new: "a \<notin> set (heads s M)" for M
    using linked_node [OF assms(1), of a M] assms(2) by (auto simp: node_ok_def)
  have ptr: "rule_ptr s' b = (if b = a then p else rule_ptr s b)" for b
    using n by (simp add: rule_ptr_def)
  have at: "rule_at s' b = (if b = a then r else rule_at s b)" for b
    using assms(3) by (simp add: rule_at_def ptr s')
  have node: "node_ok s' M b" if "b \<in> set (heads s' M)" for M b
  proof (cases "b = a")
    case True
    with that new n assms(3) show ?thesis
      by (auto simp: node_ok_def heads s' split: if_splits)
  next
    case False
    with that have "b \<in> set (heads s M)" by (auto simp: heads split: if_splits)
    from linked_node [OF assms(1) this] False n show ?thesis by (simp add: node_ok_def s')
  qed
  have inj: "c = b" if "c \<in> set (heads s' M)" "b \<in> set (heads s' N)" "rule_ptr s' c = rule_ptr s' b"
    for M N c b
    using that linked_inj [OF assms(1)] fresh by (fastforce simp: heads ptr split: if_splits)
  show "linked s'"
    unfolding linked_def
    using node inj new linked_distinct [OF assms(1)] linked_disjoint [OF assms(1)]
    by (auto simp: heads split: if_splits)
  show "rules_of s' = (rules_of s)(L := r # rules_of s L)"
    using new by (auto simp: rules_of_def heads at fun_eq_iff)
  show "timers_ok s'" if "timers_ok s"
    using that n new by (cases L) (auto simp: timers_ok_def armed_def heads)
qed

text \<open>The rule put in reads as the first of its list; nothing else changes.\<close>

lemma add_rule_heap:
  assumes "fw_ok s" "nodes s a = None" "fwrs s p = Some r"
    and "\<And>L b. b \<in> set (heads s L) \<Longrightarrow> rule_ptr s b \<noteq> p"
  obtains s' where "add_rule (OnHeap p) L (proto_of L) (Some (a, t0)) k2 s = Some (0, s')" "fw_ok s'"
    "rules_of s' = (rules_of s)(L := r # rules_of s L)" "heads s' = (heads s)(L := a # heads s L)"
proof
  let ?t = "s\<lparr>lock := True\<rparr>" and ?s' = "spin_unlock (link_rule a p t0 L (proto_of L) (s\<lparr>lock := True\<rparr>))"
  show "add_rule (OnHeap p) L (proto_of L) (Some (a, t0)) k2 s = Some (0, ?s')"
    using assms(1) by (simp add: add_rule_def fw_ok_def)
  have t: "linked ?t" "timers_ok ?t" "nodes ?t a = None" "fwrs ?t p = Some r"
    using assms by (simp_all add: fw_ok_def)
  have fresh: "\<And>L b. b \<in> set (heads ?t L) \<Longrightarrow> rule_ptr ?t b \<noteq> p"
    using assms(4) by simp
  show "fw_ok ?s'"
    using link_rule_linked [OF t(1,3,4) fresh, where L = L and ?t0.0 = t0] link_rule_timers [OF t(1,3,4) fresh t(2), where L = L and ?t0.0 = t0]
    by (simp add: fw_ok_def spin_unlock_def)
  show "rules_of ?s' = (rules_of s)(L := r # rules_of s L)"
    "heads ?s' = (heads s)(L := a # heads s L)"
    using link_rule_rules [OF t(1,3,4) fresh, where L = L and ?t0.0 = t0] link_rule_heads [OF t(1,3,4) fresh, where L = L and ?t0.0 = t0]
    by (simp_all add: spin_unlock_def)
qed

lemma add_rule_stack:
  assumes "fw_ok s" "nodes s a = None" "fwrs s p = None"
  obtains s' where "add_rule (OnStack r) L (proto_of L) (Some (a, t0)) (Some p) s = Some (0, s')"
    "fw_ok s'" "rules_of s' = (rules_of s)(L := r # rules_of s L)"
    "heads s' = (heads s)(L := a # heads s L)"
proof -
  let ?t = "s\<lparr>fwrs := (fwrs s)(p \<mapsto> r)\<rparr>"
  have s: "linked s" "timers_ok s" "\<not> lock s"
    using assms(1) by (simp_all add: fw_ok_def)
  have t: "fw_ok ?t" "nodes ?t a = None" "fwrs ?t p = Some r"
    using heap_rule_linked [OF assms(3) s(1)] heap_rule_timers [OF assms(3)] s assms(2)
    by (simp_all add: fw_ok_def)
  have fresh: "rule_ptr ?t b \<noteq> p" if "b \<in> set (heads ?t M)" for M b
    using heap_rule_fresh [OF assms(3) s(1)] that by (simp add: rule_ptr_def)
  have same: "add_rule (OnStack r) L (proto_of L) (Some (a, t0)) (Some p) s =
      add_rule (OnHeap p) L (proto_of L) (Some (a, t0)) None ?t"
    using s(3) by (cases s) (simp add: add_rule_def)
  show thesis
  proof (rule add_rule_heap [OF t fresh, where L = L and ?t0.0 = t0 and ?k2.0 = None])
    fix s' assume *: "add_rule (OnHeap p) L (proto_of L) (Some (a, t0)) None ?t = Some (0, s')" "fw_ok s'"
      "rules_of s' = (rules_of ?t)(L := r # rules_of ?t L)" "heads s' = (heads ?t)(L := a # heads ?t L)"
    show thesis
      by (rule that [of s']) (use * heap_rule_rules [OF assms(3) s(1)] in \<open>simp_all add: same\<close>)
  qed
qed

text \<open>Without memory the lists stay as they are; a node allocated before is left unreachable.\<close>

lemma unreachable_node:
  assumes "linked s" "nodes s a = None"
  shows "linked (s\<lparr>nodes := (nodes s)(a \<mapsto> n)\<rparr>)"
    and "rules_of (s\<lparr>nodes := (nodes s)(a \<mapsto> n)\<rparr>) = rules_of s"
    and "timers_ok s \<Longrightarrow> timers_ok (s\<lparr>nodes := (nodes s)(a \<mapsto> n)\<rparr>)"
proof -
  let ?t = "s\<lparr>nodes := (nodes s)(a \<mapsto> n)\<rparr>"
  have new: "b \<noteq> a" if "b \<in> set (heads s L)" for b L
    using linked_node [OF assms(1) that] assms(2) by (auto simp: node_ok_def)
  have ptr: "rule_ptr ?t b = rule_ptr s b" "rule_at ?t b = rule_at s b" "armed ?t b = armed s b"
    "node_ok ?t L b = node_ok s L b" if "b \<in> set (heads s L)" for b L
    using new [OF that] by (simp_all add: rule_ptr_def rule_at_def armed_def node_ok_def)
  show "linked ?t"
    using assms(1) ptr(1,4) by (simp add: linked_def)
  show "rules_of ?t = rules_of s"
    using ptr(2) by (simp add: rules_of_def fun_eq_iff)
  show "timers_ok s \<Longrightarrow> timers_ok ?t"
    using ptr(3) by (simp add: timers_ok_def)
qed

lemma add_rule_nomem:
  assumes "fw_ok s"
  shows "add_rule arg L q None k2 s = Some (- ENOMEM, s)"
  using assms by (simp add: add_rule_def fw_ok_def)

lemma add_rule_nomem2:
  assumes "fw_ok s" "nodes s a = None"
  obtains s' where "add_rule (OnStack r) L q (Some (a, t0)) None s = Some (- ENOMEM, s')" "fw_ok s'"
    "rules_of s' = rules_of s" "heads s' = heads s"
proof
  let ?s' = "s\<lparr>nodes := (nodes s)(a \<mapsto> \<lparr>rule = 0, timer = t0\<rparr>)\<rparr>"
  show "add_rule (OnStack r) L q (Some (a, t0)) None s = Some (- ENOMEM, ?s')"
    using assms by (simp add: add_rule_def fw_ok_def spin_unlock_def)
  show "fw_ok ?s'" "rules_of ?s' = rules_of s" "heads ?s' = heads s"
    using assms unreachable_node [of s a] by (simp_all add: fw_ok_def)
qed

subsection \<open>Timers\<close>

lemma retimed_node:
  fixes s :: firewall and e :: "u32 option"
  assumes "linked s" "nodes s a = Some n"
  defines "s' \<equiv> s\<lparr>nodes := (nodes s)(a \<mapsto> n\<lparr>timer := (timer n)\<lparr>expires := e\<rparr>\<rparr>)\<rparr>"
  shows retimed_linked: "linked s'" and retimed_rules: "rules_of s' = rules_of s"
    and retimed_ptr: "rule_ptr s' = rule_ptr s"
    and retimed_armed: "armed s' b = (if b = a then e \<noteq> None else armed s b)"
proof -
  show ptr: "rule_ptr s' = rule_ptr s"
    using assms(2) by (simp add: s'_def rule_ptr_def fun_eq_iff)
  have same: "heads s' = heads s" "fwrs s' = fwrs s"
    by (simp_all add: s'_def)
  have "node_ok s' L b = node_ok s L b" for L b
    using assms(2) by (auto simp: s'_def node_ok_def)
  with assms(1) show "linked s'"
    by (simp add: linked_def ptr same)
  show "rules_of s' = rules_of s"
    by (simp add: rules_of_def rule_at_def ptr same fun_eq_iff)
  show "armed s' b = (if b = a then e \<noteq> None else armed s b)"
    by (simp add: s'_def armed_def)
qed

lemma mod_timer_ok:
  assumes "fw_ok s" "a \<in> set (heads s L)" "L \<noteq> Static"
  obtains s' where "mod_timer a e s = Some s'" "fw_ok s'" "rules_of s' = rules_of s"
    "heads s' = heads s" "armed s' a"
proof -
  have s: "linked s" "timers_ok s" "\<not> lock s"
    using assms(1) by (simp_all add: fw_ok_def)
  obtain n where n: "nodes s a = Some n"
    by (rule linked_live [OF s(1) assms(2)])
  have "a \<notin> set (heads s Static)"
    using linked_disjoint [OF s(1) assms(2)] assms(3) by blast
  then show thesis
    by (intro that [of "s\<lparr>nodes := (nodes s)(a \<mapsto> n\<lparr>timer := (timer n)\<lparr>expires := Some e\<rparr>\<rparr>)\<rparr>"])
      (use s n in \<open>auto simp: mod_timer_def fw_ok_def timers_ok_def retimed_linked [OF s(1) n]
        retimed_rules [OF s(1) n] retimed_armed [OF s(1) n]\<close>)
qed

text \<open>A timer whose callback runs removes its own node: no other node has the same rule pointer.\<close>

lemma node_image_inject:
  "node_image tim n = node_image tim m \<Longrightarrow> rule n = rule m"
proof -
  assume *: "node_image tim n = node_image tim m"
  have "take 4 (node_image tim k) = le32 (rule k)" for k
    by (simp add: node_image_def)
  with * show ?thesis by (metis le32_inject)
qed

lemma del_search_own:
  assumes "linked s" "a \<in> set xs" "set xs \<subseteq> set (heads s L)"
  shows "del_search tim a (nodes s) xs = Some (Some a)"
  using assms(2,3)
proof (induction xs)
  case Nil
  then show ?case by simp
next
  case (Cons i xs)
  obtain n where n: "nodes s i = Some n" "rule_ptr s i = rule n"
    by (rule linked_live [OF assms(1), of i L]) (use Cons.prems in auto)
  obtain m where m: "nodes s a = Some m" "rule_ptr s a = rule m"
    by (rule linked_live [OF assms(1), of a L]) (use Cons.prems in auto)
  have "i = a" if "node_image tim n = node_image tim m"
    using linked_inj [OF assms(1), of i L a L] node_image_inject [OF that] n m Cons.prems by auto
  with Cons n m show ?case by auto
qed

lemma unlink_free:
  assumes "linked s" "a \<in> set (heads s L)"
  shows unlink_linked: "linked (unlink_free a L s)"
    and unlink_heads: "heads (unlink_free a L s) M = filter (\<lambda>b. b \<noteq> a) (heads s M)"
    and unlink_rules: "rules_of (unlink_free a L s) M = map (rule_at s) (filter (\<lambda>b. b \<noteq> a) (heads s M))"
    and unlink_timers: "timers_ok s \<Longrightarrow> timers_ok (unlink_free a L s)"
proof -
  let ?t = "unlink_free a L s"
  show heads: "heads ?t M = filter (\<lambda>b. b \<noteq> a) (heads s M)" for M
  proof (cases "M = L")
    case True
    then show ?thesis
      using distinct_remove1_removeAll [OF linked_distinct [OF assms(1)]]
      by (simp add: unlink_free_def removeAll_filter_not_eq eq_commute)
  next
    case False
    then have "a \<notin> set (heads s M)"
      using linked_disjoint [OF assms] by blast
    then have "\<forall>b\<in>set (heads s M). b \<noteq> a" by blast
    with False show ?thesis by (simp add: unlink_free_def filter_True)
  qed
  have ptr: "rule_ptr ?t b = rule_ptr s b" "rule_at ?t b = rule_at s b" "armed ?t b = armed s b"
    "node_ok ?t M b = node_ok s M b" if "b \<noteq> a" for b M
    using that by (simp_all add: unlink_free_def rule_ptr_def rule_at_def armed_def node_ok_def)
  show "linked ?t"
    unfolding linked_def
    using linked_distinct [OF assms(1)] linked_disjoint [OF assms(1)] linked_node [OF assms(1)]
      linked_inj [OF assms(1)] ptr by (auto simp: heads)
  show "rules_of ?t M = map (rule_at s) (filter (\<lambda>b. b \<noteq> a) (heads s M))"
    using ptr by (simp add: rules_of_def heads)
  show "timers_ok s \<Longrightarrow> timers_ok ?t"
    using ptr by (auto simp: timers_ok_def heads)
qed

lemma timer_fires_ok:
  assumes "fw_ok s" "a \<in> set (heads s L)" "L \<noteq> Static"
  obtains s' where "timer_fires tim a s = Some s'" "fw_ok s'"
    "heads s' = (\<lambda>M. filter (\<lambda>b. b \<noteq> a) (heads s M))"
    "rules_of s' = (\<lambda>M. map (rule_at s) (filter (\<lambda>b. b \<noteq> a) (heads s M)))"
    "nodes s' a = None" "fwrs s' = fwrs s"
proof -
  have s: "linked s" "timers_ok s" "\<not> lock s"
    using assms(1) by (simp_all add: fw_ok_def)
  obtain n where n: "nodes s a = Some n" "timer_function (timer n) = callback_of L"
    "timer_data (timer n) = a"
    by (rule linked_live [OF s(1) assms(2)])
  let ?t = "s\<lparr>nodes := (nodes s)(a \<mapsto> n\<lparr>timer := (timer n)\<lparr>expires := None\<rparr>\<rparr>)\<rparr>"
  have t: "linked ?t" "a \<in> set (heads ?t L)" "rule_at ?t = rule_at s" "\<not> lock ?t"
    using retimed_linked [OF s(1) n(1)] retimed_ptr [OF s(1) n(1)] assms(2) s(3)
    by (simp_all add: rule_at_def fun_eq_iff)
  let ?u = "unlink_free a L ?t"
  note u = unlink_linked [OF t(1,2)] unlink_heads [OF t(1,2)] unlink_rules [OF t(1,2), unfolded t(3)]
  have "timers_ok ?u"
    using s(2) u(2) by (auto simp: timers_ok_def armed_def unlink_free_def split: if_splits)
  then have ok: "fw_ok ?u"
    using u(1) s(3) by (simp add: fw_ok_def unlink_free_def)
  have "del_rule tim a L ?t = Some (0, ?u)"
    using del_search_own [OF t(1,2) subset_refl, of tim] t(4)
    by (simp add: del_rule_def unlink_free_def spin_unlock_def)
  then have "timer_fires tim a s = Some ?u"
    using n assms(3) by (cases L) (simp_all add: timer_fires_def run_callback_def Let_def)
  moreover have "nodes ?u a = None" "fwrs ?u = fwrs s"
    by (simp_all add: unlink_free_def)
  ultimately show thesis
    using that ok u(2,3) by auto
qed

section \<open>The hooks against their specification\<close>

text \<open>What the hooks decide and record, as functions of the rules in the three lists: an incoming
  TCP or UDP packet is let in by a matching static rule or dynamic rule of its protocol; an outgoing
  connection request records a TCP rule, an outgoing datagram a UDP rule unless one matches.\<close>

definition lets_in :: "fwr \<Rightarrow> fwr list \<Rightarrow> bool" where
  "lets_in q rs \<longleftrightarrow> (\<exists>r\<in>set rs. match_rule q r)"

definition in_verdict :: "sk_buff \<Rightarrow> (rule_list \<Rightarrow> fwr list) \<Rightarrow> verdict" where
  "in_verdict skb rs = (case ip_hdr skb of
     None \<Rightarrow> NF_ACCEPT
   | Some iph \<Rightarrow>
       let tcp = generate_tcp_dynamic_rule iph (tcp_at skb (ihl iph)) False;
           udp = generate_udp_dynamic_rule iph (udp_at skb (ihl iph)) False
       in if protocol iph = 6
          then (if lets_in tcp (rs Static @ rs TcpDynamic) then NF_ACCEPT else NF_DROP)
          else if protocol iph = 17
          then (if lets_in udp (rs Static @ rs UdpDynamic) then NF_ACCEPT else NF_DROP)
          else NF_ACCEPT)"

definition out_rule :: "sk_buff \<Rightarrow> (rule_list \<Rightarrow> fwr list) \<Rightarrow> (rule_list \<times> fwr) option" where
  "out_rule skb rs = (case ip_hdr skb of
     None \<Rightarrow> None
   | Some iph \<Rightarrow>
       let tcph = tcp_hdr skb; udp = generate_udp_dynamic_rule iph (udp_hdr skb) True
       in if protocol iph = 6 \<and> syn tcph \<and> \<not> ack tcph
          then Some (TcpDynamic, generate_tcp_dynamic_rule iph tcph True)
          else if protocol iph = 17 \<and> \<not> lets_in udp (rs UdpDynamic) then Some (UdpDynamic, udp)
          else None)"

definition out_rules :: "sk_buff \<Rightarrow> bool \<Rightarrow> (rule_list \<Rightarrow> fwr list) \<Rightarrow> rule_list \<Rightarrow> fwr list" where
  "out_rules skb mem rs = (case out_rule skb rs of
     Some (L, r) \<Rightarrow> if mem then rs(L := r # rs L) else rs
   | None \<Rightarrow> rs)"

text \<open>The allocator answers blocks that are not in use.\<close>

definition room :: "(addr \<times> timer_list) option \<Rightarrow> addr option \<Rightarrow> firewall \<Rightarrow> bool" where
  "room k1 k2 s \<longleftrightarrow> (\<forall>a t. k1 = Some (a, t) \<longrightarrow> nodes s a = None) \<and>
     (\<forall>p. k2 = Some p \<longrightarrow> fwrs s p = None)"

lemma uint_protocol: "uint (protocol iph) = IPPROTO_TCP \<longleftrightarrow> protocol iph = 6"
  "uint (protocol iph) = IPPROTO_UDP \<longleftrightarrow> protocol iph = 17"
proof -
  have "uint (protocol iph) = uint (6 :: u8) \<longleftrightarrow> protocol iph = 6"
    "uint (protocol iph) = uint (17 :: u8) \<longleftrightarrow> protocol iph = 17"
    by (simp_all only: word_uint_eq_iff)
  then show "uint (protocol iph) = IPPROTO_TCP \<longleftrightarrow> protocol iph = 6"
    "uint (protocol iph) = IPPROTO_UDP \<longleftrightarrow> protocol iph = 17"
    by (simp_all add: IPPROTO_TCP_def IPPROTO_UDP_def)
qed

lemmas protocols = uint_protocol [unfolded IPPROTO_TCP_def IPPROTO_UDP_def] IPPROTO_TCP_def IPPROTO_UDP_def

lemma lets_in_find:
  "lets_in q (rules_of s L) \<longleftrightarrow> List.find (\<lambda>a. match_rule q (rule_at s a)) (heads s L) \<noteq> None"
  by (auto simp: lets_in_def rules_of_def find_None)

lemma lets_in_append: "lets_in q (xs @ ys) \<longleftrightarrow> lets_in q xs \<or> lets_in q ys"
  by (auto simp: lets_in_def)

lemma add_rule_stack_any:
  assumes "fw_ok s" "room k1 k2 s"
  obtains n s' where "add_rule (OnStack r) L (proto_of L) k1 k2 s = Some (n, s')" "fw_ok s'"
    "rules_of s' = (if k1 \<noteq> None \<and> k2 \<noteq> None then (rules_of s)(L := r # rules_of s L) else rules_of s)"
    "\<And>M. \<exists>new. heads s' M = new @ heads s M"
proof (cases k1)
  case None
  with add_rule_nomem [OF assms(1)] assms(1) that show thesis by fastforce
next
  case k1: (Some at)
  obtain a t0 where at: "at = (a, t0)" by (cases at)
  show thesis
  proof (cases k2)
    case None
    show thesis
      by (rule add_rule_nomem2 [OF assms(1), of a r L "proto_of L" t0])
        (use assms(2) k1 at None that in \<open>auto simp: room_def\<close>)
  next
    case (Some p)
    show thesis
      by (rule add_rule_stack [OF assms(1), of a p r L t0])
        (use assms(2) k1 at Some that in \<open>auto simp: room_def\<close>)
  qed
qed

lemma hook_in_ok:
  assumes "fw_ok s"
  obtains s' where "my_nf_hookfn_in skb s = Some (in_verdict skb (rules_of s), s')" "fw_ok s'"
    "rules_of s' = rules_of s" "heads s' = heads s"
proof (cases "ip_hdr skb")
  case None
  then have "my_nf_hookfn_in skb s = Some (in_verdict skb (rules_of s), s)"
    by (simp add: my_nf_hookfn_in_def in_verdict_def)
  with that assms show thesis by simp
next
  case (Some iph)
  note defs = my_nf_hookfn_in_def in_verdict_def protocols lets_in_append lets_in_find
    search_rule_ok [OF assms] Some Let_def
  let ?udp = "generate_udp_dynamic_rule iph (udp_at skb (ihl iph)) False"
  show thesis
  proof (cases "protocol iph = 17 \<and> \<not> lets_in ?udp (rules_of s Static) \<and>
      lets_in ?udp (rules_of s UdpDynamic)")
    case True
    then obtain a where a: "List.find (\<lambda>a. match_rule ?udp (rule_at s a)) (heads s UdpDynamic) = Some a"
      by (auto simp: lets_in_find)
    with True have *: "my_nf_hookfn_in skb s = mod_timer a (timeout s) s \<bind> (\<lambda>s. Some (NF_ACCEPT, s))"
      "in_verdict skb (rules_of s) = NF_ACCEPT"
      by (simp_all add: defs)
    show thesis
      by (rule mod_timer_ok [OF assms find_SomeD [OF a, THEN conjunct2], of "timeout s"])
        (use that * in auto)
  next
    case False
    then have "my_nf_hookfn_in skb s = Some (in_verdict skb (rules_of s), s)"
      by (auto simp: defs split: option.splits)
    with that assms show thesis by simp
  qed
qed

lemma hook_out_ok:
  assumes "fw_ok s" "room k1 k2 s"
  obtains s' where "my_nf_hookfn_out skb k1 k2 s = Some (NF_ACCEPT, s')" "fw_ok s'"
    "rules_of s' = out_rules skb (k1 \<noteq> None \<and> k2 \<noteq> None) (rules_of s)"
    "\<And>M. \<exists>new. heads s' M = new @ heads s M"
proof (cases "ip_hdr skb")
  case None
  with that [of s] assms show thesis
    by (simp add: my_nf_hookfn_out_def out_rules_def out_rule_def)
next
  case (Some iph)
  let ?tcp = "generate_tcp_dynamic_rule iph (tcp_hdr skb) True"
  let ?udp = "generate_udp_dynamic_rule iph (udp_hdr skb) True"
  note defs = my_nf_hookfn_out_def out_rules_def out_rule_def protocols lets_in_find
    search_rule_ok [OF assms(1)] Some Let_def
  consider (add) L r where "out_rule skb (rules_of s) = Some (L, r)"
      "my_nf_hookfn_out skb k1 k2 s = map_option (\<lambda>(_, s). (NF_ACCEPT, s))
         (add_rule (OnStack r) L (proto_of L) k1 k2 s)"
    | (rearm) L a where "L \<noteq> Static" "a \<in> set (heads s L)" "out_rule skb (rules_of s) = None"
      "my_nf_hookfn_out skb k1 k2 s = mod_timer a (timeout s) s \<bind> (\<lambda>s. Some (NF_ACCEPT, s))"
    | (keep) "out_rule skb (rules_of s) = None" "my_nf_hookfn_out skb k1 k2 s = Some (NF_ACCEPT, s)"
  proof (cases "protocol iph = 6 \<and> syn (tcp_hdr skb) \<and> \<not> ack (tcp_hdr skb)")
    case True
    show thesis
      by (rule add [of TcpDynamic ?tcp]; cases "add_rule (OnStack ?tcp) TcpDynamic 6 k1 k2 s")
        (use True in \<open>auto simp: defs\<close>)
  next
    case no_syn: False
    show thesis
    proof (cases "protocol iph = 17")
      case True
      show thesis
      proof (cases "List.find (\<lambda>a. match_rule ?udp (rule_at s a)) (heads s UdpDynamic)")
        case None
        show thesis
          by (rule add [of UdpDynamic ?udp]; cases "add_rule (OnStack ?udp) UdpDynamic 17 k1 k2 s")
            (use True None in \<open>auto simp: defs\<close>)
      next
        case (Some a)
        show thesis
          by (rule rearm [of UdpDynamic a]) (use True Some in \<open>auto simp: defs dest: find_SomeD\<close>)
      qed
    next
      case False
      show thesis
      proof (cases "\<exists>a. protocol iph = 6 \<and> fin (tcp_hdr skb) \<and>
          List.find (\<lambda>a. match_rule ?tcp (rule_at s a)) (heads s TcpDynamic) = Some a")
        case True
        then obtain a where a: "protocol iph = 6" "fin (tcp_hdr skb)"
          "List.find (\<lambda>a. match_rule ?tcp (rule_at s a)) (heads s TcpDynamic) = Some a"
          by blast
        show thesis
          by (rule rearm [of TcpDynamic a]) (use a no_syn in \<open>auto simp: defs dest: find_SomeD\<close>)
      next
        case none: False
        show thesis
          by (rule keep) (use no_syn False none in \<open>auto simp: defs split: option.splits\<close>)
      qed
    qed
  qed
  then show thesis
  proof cases
    case add
    show thesis
      by (rule add_rule_stack_any [OF assms, of r L]) (use add that in \<open>auto simp: out_rules_def\<close>)
  next
    case rearm
    show thesis
      by (rule mod_timer_ok [OF assms(1) rearm(2,1), of "timeout s"])
        (use rearm that in \<open>auto simp: out_rules_def\<close>)
  next
    case keep
    with that [of s] assms(1) show thesis by (simp add: out_rules_def)
  qed
qed

section \<open>Control calls and unloading\<close>

text \<open>The bytes of a list of rules.\<close>

definition serialize :: "fwr list \<Rightarrow> bytes" where
  "serialize rs = concat (map fwr_image rs)"

lemma length_fwr_image [simp]: "length (fwr_image r) = 24"
  by (simp add: fwr_image_def)

lemma length_serialize [simp]: "length (serialize rs) = 24 * length rs"
  unfolding serialize_def by (rule length_concat_const) simp

lemma serialize_simps [simp]: "serialize [] = []" "serialize (r # rs) = fwr_image r @ serialize rs"
  "serialize (rs @ ss) = serialize rs @ serialize ss"
  by (simp_all add: serialize_def)

lemma drop_le:
  "drop 4 (le32 a @ xs) = xs" "drop 2 (le16 b @ xs) = xs"
  by simp_all

lemma un_le_append [simp]: "un_le32 (le32 a @ xs) = a" "un_le16 (le16 b @ xs) = b"
proof -
  have "un_le32 (take 4 bs) = un_le32 bs" "un_le16 (take 2 bs) = un_le16 bs" for bs
    by (simp_all add: un_le32_def un_le16_def)
  from this(1) [of "le32 a @ xs"] this(2) [of "le16 b @ xs"]
  show "un_le32 (le32 a @ xs) = a" "un_le16 (le16 b @ xs) = b" by simp_all
qed

lemma un_fwr_image [simp]: "un_fwr (fwr_image r @ xs) = r"
  by (cases r) (simp add: un_fwr_def fwr_image_def)

lemma un_fwr_serialize:
  "i < length rs \<Longrightarrow> un_fwr (take 24 (drop (24 * i) (serialize rs))) = rs ! i"
proof (induction rs arbitrary: i)
  case Nil
  then show ?case by simp
next
  case (Cons r rs)
  then show ?case
    using un_fwr_image [of r "[]"] by (cases i) simp_all
qed

lemma rules_to_buffer_ok:
  assumes "linked s" "set xs \<subseteq> set (heads s L)"
  shows "rules_to_buffer buf off j (fwrs s) (nodes s) xs =
    Some (poke buf (off + j * 24) (serialize (map (rule_at s) xs)))"
  using assms(2)
proof (induction xs arbitrary: buf j)
  case Nil
  then show ?case by simp
next
  case (Cons i xs)
  obtain n where n: "nodes s i = Some n" "fwrs s (rule n) = Some (rule_at s i)"
    by (rule linked_live [OF assms(1), of i L]) (use Cons.prems in auto)
  have "rules_to_buffer buf off j (fwrs s) (nodes s) (i # xs) =
      Some (poke (poke buf (off + j * 24) (fwr_image (rule_at s i))) (off + (j + 1) * 24)
        (serialize (map (rule_at s) xs)))"
    using n Cons by simp
  also have "off + (j + 1) * 24 = (off + j * 24) + length (fwr_image (rule_at s i))" by simp
  finally show ?case by (simp only: poke_append serialize_simps list.map)
qed

lemma add_rules_to_buffer_ok:
  "linked s \<Longrightarrow> add_rules_to_buffer buf off L s = Some (poke buf off (serialize (rules_of s L)))"
  using rules_to_buffer_ok [of s "heads s L" L buf off 0]
  by (simp add: add_rules_to_buffer_def rules_of_def)

lemma copy_loop_done:
  assumes "0 \<in> set left" "aux \<le> length buf"
  shows "copy_loop buf aux left um = Some (poke um (length buf - aux) (drop (length buf - aux) buf))"
  using assms
proof (induction left arbitrary: aux um)
  case Nil
  then show ?case by simp
next
  case (Cons l left)
  let ?k = "min l aux" and ?at = "length buf - aux"
  let ?um = "poke um ?at (take (aux - ?k) (drop ?at buf))"
  show ?case
  proof (cases "?k = 0")
    case True
    with Cons.prems show ?thesis by (simp add: Let_def)
  next
    case False
    have "0 \<in> set left" using False Cons.prems by auto
    then have IH: "copy_loop buf ?k left ?um =
        Some (poke ?um (length buf - ?k) (drop (length buf - ?k) buf))"
      using Cons.prems(2) by (intro Cons.IH) simp_all
    let ?d = "take (aux - ?k) (drop ?at buf)"
    have at: "?at + length ?d = length buf - ?k"
      using Cons.prems(2) by simp
    have "length buf - ?k = aux - ?k + ?at"
      using Cons.prems(2) by linarith
    then have "drop (length buf - ?k) buf = drop (aux - ?k) (drop ?at buf)"
      by (simp only: drop_drop)
    then have rest: "?d @ drop (length buf - ?k) buf = drop ?at buf"
      by (simp only: append_take_drop_id)
    have "copy_loop buf aux (l # left) um = copy_loop buf ?k left ?um"
      by (simp only: copy_loop.simps Let_def False if_False)
    also note IH
    also have "poke ?um (length buf - ?k) (drop (length buf - ?k) buf) = poke um ?at (drop ?at buf)"
      using poke_append [of um ?at ?d "drop (length buf - ?k) buf"] by (simp only: at rest)
    finally show ?thesis .
  qed
qed

lemma copy_loop_stuck:
  "0 \<notin> set left \<Longrightarrow> 0 < aux \<Longrightarrow> copy_loop buf aux left um = None"
proof (induction left arbitrary: aux um)
  case Nil
  then show ?case by simp
next
  case (Cons l left)
  then have "copy_loop buf (min l aux) left m = None" for m
    by (intro Cons.IH) auto
  with Cons.prems show ?case by (simp add: Let_def)
qed

text \<open>All rules in the order \<open>FW_LIST\<close> gives them.\<close>

definition listing :: "firewall \<Rightarrow> fwr list" where
  "listing s = rules_of s Static @ rules_of s TcpDynamic @ rules_of s UdpDynamic"

lemma length_listing: "length (listing s) = list_size Static s + list_size TcpDynamic s + list_size UdpDynamic s"
  by (simp add: listing_def rules_of_def list_size_def)

lemma fw_list_buffer:
  assumes "fw_ok s" "int (length (listing s)) \<le> sint (un_le32 (peek um 0 4))"
  shows "fw_list size_ok True left um s = do {
    um \<leftarrow> copy_loop (serialize (listing s)) (24 * length (listing s)) left um;
    Some (int (length (listing s)), um, s) }"
proof -
  let ?t = "s\<lparr>lock := True\<rparr>"
  have s: "\<not> lock s" "linked ?t" "list_size L ?t = list_size L s" for L
    using assms(1) by (simp_all add: fw_ok_def list_size_def)
  have len: "length (rules_of s L) = list_size L s" for L
    by (simp add: rules_of_def list_size_def)
  have buf: "poke (poke (poke m 0 (serialize (rules_of s Static))) (list_size Static s * 24)
      (serialize (rules_of s TcpDynamic))) (list_size TcpDynamic s * 24 + list_size Static s * 24)
      (serialize (rules_of s UdpDynamic)) = poke m 0 (serialize (listing s))" for m
    using poke_append [of m 0 "serialize (rules_of s Static)" "serialize (rules_of s TcpDynamic)"]
      poke_append [of m 0 "serialize (rules_of s Static @ rules_of s TcpDynamic)"
        "serialize (rules_of s UdpDynamic)"]
    by (simp add: listing_def len mult.commute add.commute)
  have room: "\<not> sint (un_le32 (peek um 0 4)) <
      int (list_size Static s) + int (list_size TcpDynamic s) + int (list_size UdpDynamic s)"
    "int (list_size Static s) + int (list_size TcpDynamic s) + int (list_size UdpDynamic s) =
      int (length (listing s))"
    using assms(2) by (simp_all add: length_listing)
  show ?thesis
    using s room
    by (simp add: fw_list_def add_rules_to_buffer_ok length_listing [symmetric] buf
      peek_poke_prefix mult.commute Let_def)
qed

end
