(* ===== verification/FwLinuxRuns.thy ===== *)
theory FwLinuxRuns
  imports FwLinuxCorrect
begin

text \<open>
  Runs of the Linux packet filter: packets, timers, control calls and the passing of time as a step
  relation, with the invariant and what a run can add to or take from the lists; the lists as a
  rule store; and the properties of the module.
\<close>

section \<open>The lists as a rule store\<close>

text \<open>Dynamic rules: put in by \<open>add_rule\<close>, found by \<open>search_rule\<close>.\<close>

definition put_rule :: "rule_list \<Rightarrow> (addr \<times> timer_list) \<times> addr \<Rightarrow> fwr \<Rightarrow> firewall \<Rightarrow> firewall option" where
  "put_rule L k r s = map_option snd (add_rule (OnStack r) L (proto_of L) (Some (fst k)) (Some (snd k)) s)"

definition found_rule :: "rule_list \<Rightarrow> fwr \<Rightarrow> firewall \<Rightarrow> fwr option option" where
  "found_rule L q s = map_option (\<lambda>(a, _). map_option (rule_at s) a) (search_rule q L s)"

interpretation tcp_rules: rule_store fw_ok "\<lambda>s. rules_of s TcpDynamic"
  "\<lambda>k. room (Some (fst k)) (Some (snd k))" "put_rule TcpDynamic" "found_rule TcpDynamic" match_rule
proof unfold_locales
  fix s :: firewall and k :: "(addr \<times> timer_list) \<times> addr" and r :: fwr
  assume *: "fw_ok s" "room (Some (fst k)) (Some (snd k)) s"
  show "\<exists>s'. put_rule TcpDynamic k r s = Some s' \<and> fw_ok s' \<and> rules_of s' TcpDynamic = r # rules_of s TcpDynamic"
    by (rule add_rule_stack_any [OF *, of r TcpDynamic]) (auto simp: put_rule_def)
next
  fix s :: firewall and q :: fwr
  assume "fw_ok s"
  then show "found_rule TcpDynamic q s = Some (List.find (match_rule q) (rules_of s TcpDynamic))"
    by (simp add: found_rule_def search_rule_ok find_rules_of)
qed

interpretation udp_rules: rule_store fw_ok "\<lambda>s. rules_of s UdpDynamic"
  "\<lambda>k. room (Some (fst k)) (Some (snd k))" "put_rule UdpDynamic" "found_rule UdpDynamic" match_rule
proof unfold_locales
  fix s :: firewall and k :: "(addr \<times> timer_list) \<times> addr" and r :: fwr
  assume *: "fw_ok s" "room (Some (fst k)) (Some (snd k)) s"
  show "\<exists>s'. put_rule UdpDynamic k r s = Some s' \<and> fw_ok s' \<and> rules_of s' UdpDynamic = r # rules_of s UdpDynamic"
    by (rule add_rule_stack_any [OF *, of r UdpDynamic]) (auto simp: put_rule_def)
next
  fix s :: firewall and q :: fwr
  assume "fw_ok s"
  then show "found_rule UdpDynamic q s = Some (List.find (match_rule q) (rules_of s UdpDynamic))"
    by (simp add: found_rule_def search_rule_ok find_rules_of)
qed

section \<open>Control calls on well-formed lists\<close>

lemma fw_ok_flags [simp]:
  "fw_ok (s\<lparr>ipfirewall_enabled := b\<rparr>) = fw_ok s" "fw_ok (s\<lparr>hook_out := b\<rparr>) = fw_ok s"
  "fw_ok (s\<lparr>hook_in := b\<rparr>) = fw_ok s" "fw_ok (s\<lparr>jiffies := j\<rparr>) = fw_ok s"
  "fw_ok (s\<lparr>cdev := b\<rparr>) = fw_ok s" "fw_ok (s\<lparr>region := b\<rparr>) = fw_ok s"
  by (simp_all add: fw_ok_def linked_def node_ok_def rule_ptr_def timers_ok_def armed_def)

lemma rules_of_flags [simp]:
  "rules_of (s\<lparr>ipfirewall_enabled := b\<rparr>) = rules_of s" "rules_of (s\<lparr>hook_out := b\<rparr>) = rules_of s"
  "rules_of (s\<lparr>hook_in := b\<rparr>) = rules_of s" "rules_of (s\<lparr>jiffies := j\<rparr>) = rules_of s"
  "rules_of (s\<lparr>cdev := b\<rparr>) = rules_of s" "rules_of (s\<lparr>region := b\<rparr>) = rules_of s"
  by (simp_all add: rules_of_def rule_at_def rule_ptr_def fun_eq_iff)

text \<open>The blocks a control call is given are not in use.\<close>

fun ioctl_room :: "ioctl_call \<Rightarrow> firewall \<Rightarrow> bool" where
  "ioctl_room (FW_ADD_RULE k0 _ k1) s = room k1 k0 s"
| "ioctl_room _ s = True"

text \<open>What a control call adds to the static rules.\<close>

fun ioctl_adds :: "ioctl_call \<Rightarrow> store \<Rightarrow> fwr list" where
  "ioctl_adds (FW_ADD_RULE (Some p) True (Some at)) um = [un_fwr (peek um 0 24)]"
| "ioctl_adds _ _ = []"

lemma ioctl_add_ok:
  assumes "fw_ok s" "room k1 k0 s"
  obtains n s' where "ipfirewall_ioctl (FW_ADD_RULE k0 copy_ok k1) um s = Some (n, um, s')" "fw_ok s'"
    "rules_of s' = (rules_of s)
       (Static := ioctl_adds (FW_ADD_RULE k0 copy_ok k1) um @ rules_of s Static)"
    "\<And>M. \<exists>new. heads s' M = new @ heads s M"
proof (cases k0)
  case None
  with that [of "- EFAULT" s] assms show thesis by (simp add: ipfirewall_ioctl_def)
next
  case (Some p)
  let ?r = "un_fwr (peek um 0 24)" and ?t = "s\<lparr>fwrs := (fwrs s)(p \<mapsto> un_fwr (peek um 0 24))\<rparr>"
  have s: "linked s" "timers_ok s" "\<not> lock s" "fwrs s p = None"
    using assms Some by (simp_all add: fw_ok_def room_def)
  have t: "fw_ok ?t" "rules_of ?t = rules_of s" "fwrs ?t p = Some ?r"
    using heap_rule_linked [OF s(4,1)] heap_rule_timers [OF s(4)] heap_rule_rules [OF s(4,1)] s
    by (simp_all add: fw_ok_def)
  have fresh: "rule_ptr ?t b \<noteq> p" if "b \<in> set (heads ?t M)" for M b
    using heap_rule_fresh [OF s(4,1)] that by (simp add: rule_ptr_def)
  consider "\<not> copy_ok" | "copy_ok" "k1 = None" | a t0 where "copy_ok" "k1 = Some (a, t0)"
    by (cases k1) auto
  then show thesis
  proof cases
    case 1
    with that [of "- EFAULT" ?t] t Some show thesis by (simp add: ipfirewall_ioctl_def)
  next
    case 2
    have "add_rule (OnHeap p) Static (-1) None None ?t = Some (- ENOMEM, ?t)"
      by (rule add_rule_nomem [OF t(1)])
    with that [of 0 ?t] t Some 2 show thesis by (simp add: ipfirewall_ioctl_def)
  next
    case 3
    have a: "nodes ?t a = None" using assms(2) 3 by (simp add: room_def)
    show thesis
      by (rule add_rule_heap [OF t(1) a t(3) fresh, where L = Static and ?t0.0 = t0 and ?k2.0 = None])
        (use that 3 Some t in \<open>auto simp: ipfirewall_ioctl_def\<close>)
  qed
qed

lemma fw_list_same:
  "fw_list size_ok buf_ok left um s = Some (n, um', s') \<Longrightarrow> fw_ok s \<Longrightarrow> s' = s"
  by (auto simp: fw_list_def fw_ok_def Let_def split: if_splits bind_splits)

lemma ioctl_ok:
  assumes "ipfirewall_ioctl cmd um s = Some (n, um', s')" "fw_ok s" "ioctl_room cmd s"
  shows ioctl_fw_ok: "fw_ok s'"
    and ioctl_rules: "rules_of s' = (rules_of s)(Static := ioctl_adds cmd um @ rules_of s Static)"
    and ioctl_heads: "\<exists>new. heads s' M = new @ heads s M"
proof -
  have "fw_ok s' \<and> rules_of s' = (rules_of s)(Static := ioctl_adds cmd um @ rules_of s Static) \<and>
    (\<exists>new. heads s' M = new @ heads s M)"
  proof (cases cmd)
    case (FW_ADD_RULE k0 copy_ok k1)
    show ?thesis
      by (rule ioctl_add_ok [OF assms(2), of k1 k0 copy_ok um])
        (use FW_ADD_RULE assms in auto)
  next
    case (FW_LIST size_ok buf_ok left)
    then show ?thesis
      using assms fw_list_same [of size_ok buf_ok left um s n um' s']
      by (simp add: ipfirewall_ioctl_def)
  qed (use assms in \<open>auto simp: ipfirewall_ioctl_def fw_enable_def fw_disable_def Let_def
    split: if_splits\<close>)
  then show "fw_ok s'" "rules_of s' = (rules_of s)(Static := ioctl_adds cmd um @ rules_of s Static)"
    "\<exists>new. heads s' M = new @ heads s M" by blast+
qed

section \<open>Unloading\<close>

lemma destroy_nodes_ok:
  assumes "linked s" "heads s L = xs"
  shows "destroy_nodes L xs s =
    Some (s\<lparr>heads := (heads s)(L := []), nodes := (\<lambda>a. if a \<in> set xs then None else nodes s a)\<rparr>)"
  using assms
proof (induction xs arbitrary: s)
  case Nil
  then have "(heads s)(L := []) = heads s" by auto
  then show ?case by simp
next
  case (Cons i xs)
  have i: "i \<in> set (heads s L)" using Cons.prems by simp
  obtain n where n: "nodes s i = Some n"
    by (rule linked_live [OF Cons.prems(1) i])
  let ?t = "unlink_free i L s"
  have "heads ?t L = xs"
    using Cons.prems(2) by (simp add: unlink_free_def)
  from Cons.IH [OF unlink_linked [OF Cons.prems(1) i] this] n show ?case
    by (simp add: unlink_free_def fun_eq_iff)
qed

definition without_list :: "rule_list \<Rightarrow> firewall \<Rightarrow> firewall" where
  "without_list L s = s\<lparr>heads := (heads s)(L := []),
     nodes := (\<lambda>a. if a \<in> set (heads s L) then None else nodes s a)\<rparr>"

lemma without_list_ok:
  assumes "fw_ok s"
  shows "fw_ok (without_list L s)"
proof -
  let ?t = "without_list L s"
  have s: "linked s" "timers_ok s" using assms by (simp_all add: fw_ok_def)
  have heads: "heads ?t M = (if M = L then [] else heads s M)" for M
    by (simp add: without_list_def)
  have same: "nodes ?t a = nodes s a" if "a \<in> set (heads ?t M)" for a M
    using linked_disjoint [OF s(1), of a M L] that by (auto simp: without_list_def split: if_splits)
  then have "rule_ptr ?t a = rule_ptr s a" "armed ?t a = armed s a" "node_ok ?t N a = node_ok s N a"
    if "a \<in> set (heads ?t M)" for a M N
    using that by (simp_all add: rule_ptr_def armed_def node_ok_def) (simp add: without_list_def)
  moreover have "lock ?t = lock s" by (simp add: without_list_def)
  ultimately show ?thesis
    using assms by (auto simp: fw_ok_def linked_def timers_ok_def heads split: if_splits)
qed

lemma destroy_list_ok:
  assumes "fw_ok s"
  shows "destroy_list L s = Some (without_list L s)"
proof -
  have "linked (s\<lparr>lock := True\<rparr>)" "\<not> lock s" using assms by (simp_all add: fw_ok_def)
  from destroy_nodes_ok [OF this(1) refl, of L] this(2) show ?thesis
    by (cases s) (simp add: destroy_list_def without_list_def spin_unlock_def cong: if_cong)
qed

section \<open>Runs\<close>

text \<open>What may happen to the module: a packet leaves or comes in while the hook is registered, a
  pending timer of a listed node runs, a control call, and time passing.\<close>

datatype event =
    OutPacket sk_buff
  | InPacket sk_buff verdict
  | TimerFires addr
  | Ioctl ioctl_call store
  | Tick

inductive fw_step :: "(timer_list \<Rightarrow> bytes) \<Rightarrow> firewall \<Rightarrow> event \<Rightarrow> firewall \<Rightarrow> bool" for tim where
  out: "hook_out s \<Longrightarrow> room k1 k2 s \<Longrightarrow> my_nf_hookfn_out skb k1 k2 s = Some (v, s') \<Longrightarrow>
    fw_step tim s (OutPacket skb) s'"
| inn: "hook_in s \<Longrightarrow> my_nf_hookfn_in skb s = Some (v, s') \<Longrightarrow> fw_step tim s (InPacket skb v) s'"
| fire: "a \<in> set (heads s L) \<Longrightarrow> armed s a \<Longrightarrow> timer_fires tim a s = Some s' \<Longrightarrow>
    fw_step tim s (TimerFires a) s'"
| ioctl: "ioctl_room cmd s \<Longrightarrow> ipfirewall_ioctl cmd um s = Some (n, um', s') \<Longrightarrow>
    fw_step tim s (Ioctl cmd um) s'"
| tick: "fw_step tim s Tick (s\<lparr>jiffies := j\<rparr>)"

inductive_cases fw_stepE: "fw_step tim s e s'"

inductive fw_path :: "(timer_list \<Rightarrow> bytes) \<Rightarrow> firewall \<Rightarrow> event list \<Rightarrow> firewall \<Rightarrow> bool" for tim where
  here: "fw_path tim s [] s"
| step: "fw_step tim s e t \<Longrightarrow> fw_path tim t es u \<Longrightarrow> fw_path tim s (e # es) u"

text \<open>What one event can add to a list, whatever the allocator answers.\<close>

fun adds :: "event \<Rightarrow> rule_list \<Rightarrow> (rule_list \<Rightarrow> fwr list) \<Rightarrow> fwr set" where
  "adds (OutPacket skb) L rs = {r. out_rule skb rs = Some (L, r)}"
| "adds (Ioctl cmd um) L rs = (if L = Static then set (ioctl_adds cmd um) else {})"
| "adds _ _ _ = {}"

lemma fw_step_ok:
  assumes "fw_step tim s e s'" "fw_ok s"
  shows fw_step_fw_ok: "fw_ok s'"
    and fw_step_adds: "set (rules_of s' L) \<subseteq> set (rules_of s L) \<union> adds e L (rules_of s)"
    and fw_step_keeps: "a \<in> set (heads s L) \<Longrightarrow> e \<noteq> TimerFires a \<Longrightarrow> a \<in> set (heads s' L)"
proof -
  have "fw_ok s' \<and> set (rules_of s' L) \<subseteq> set (rules_of s L) \<union> adds e L (rules_of s) \<and>
    (\<forall>a. a \<in> set (heads s L) \<longrightarrow> e \<noteq> TimerFires a \<longrightarrow> a \<in> set (heads s' L))"
    using assms(1)
  proof cases
    case (out k1 k2 skb v)
    show ?thesis
    proof (rule hook_out_ok [OF assms(2) out(3), of skb])
      fix t assume t: "my_nf_hookfn_out skb k1 k2 s = Some (NF_ACCEPT, t)" "fw_ok t"
        "rules_of t = out_rules skb (k1 \<noteq> None \<and> k2 \<noteq> None) (rules_of s)"
        "\<And>M. \<exists>new. heads t M = new @ heads s M"
      then have "t = s'" using out by simp
      with t(4) [of L] t(1-3) out(1) show ?thesis
        by (auto simp: out_rules_def split: option.splits prod.splits if_splits)
    qed
  next
    case (inn skb v)
    show ?thesis
      by (rule hook_in_ok [OF assms(2), of skb]) (use inn in auto)
  next
    case (fire b M)
    have "M \<noteq> Static"
      using fire assms(2) by (auto simp: fw_ok_def timers_ok_def)
    show ?thesis
      by (rule timer_fires_ok [OF assms(2) fire(2) \<open>M \<noteq> Static\<close>, of tim])
        (use fire in \<open>auto simp: rules_of_def\<close>)
  next
    case (ioctl cmd um n um')
    obtain new where "heads s' L = new @ heads s L"
      using ioctl_heads [OF ioctl(3) assms(2) ioctl(2), of L] by blast
    with ioctl_ok [OF ioctl(3) assms(2) ioctl(2)] ioctl(1) show ?thesis by auto
  next
    case (tick j)
    with assms(2) show ?thesis by simp
  qed
  then show "fw_ok s'" "set (rules_of s' L) \<subseteq> set (rules_of s L) \<union> adds e L (rules_of s)"
    "a \<in> set (heads s L) \<Longrightarrow> e \<noteq> TimerFires a \<Longrightarrow> a \<in> set (heads s' L)" by blast+
qed

text \<open>A node keeps its rule while it is listed.\<close>

lemma map_suffix_eq:
  assumes "map f (new @ hs) = xs @ map g hs" "a \<in> set hs"
  shows "f a = g a"
proof -
  have "map f hs = map g hs"
    using assms(1) by (simp add: append_eq_append_conv)
  with assms(2) show ?thesis by simp
qed

lemma fw_step_same_rule:
  assumes "fw_step tim s e s'" "fw_ok s" "a \<in> set (heads s L)" "e \<noteq> TimerFires a"
  shows "rule_at s' a = rule_at s a"
proof -
  have grown: "rule_at s' a = rule_at s a"
    if "heads s' L = new @ heads s L" "rules_of s' L = xs @ rules_of s L" for new xs
    by (rule map_suffix_eq [of "rule_at s'" new "heads s L" xs])
      (use that assms(3) in \<open>auto simp: rules_of_def\<close>)
  show ?thesis
    using assms(1)
  proof cases
    case (out k1 k2 skb v)
    show ?thesis
    proof (rule hook_out_ok [OF assms(2) out(3), of skb])
      fix t assume t: "my_nf_hookfn_out skb k1 k2 s = Some (NF_ACCEPT, t)" "fw_ok t"
        "rules_of t = out_rules skb (k1 \<noteq> None \<and> k2 \<noteq> None) (rules_of s)"
        "\<And>M. \<exists>new. heads t M = new @ heads s M"
      then have "t = s'" using out by simp
      moreover have "\<exists>xs. out_rules skb m rs L = xs @ rs L" for m rs
        by (auto simp: out_rules_def split: option.splits prod.splits)
      ultimately show ?thesis using t(3) t(4) [of L] grown by metis
    qed
  next
    case (inn skb v)
    show ?thesis
      by (rule hook_in_ok [OF assms(2), of skb]) (use inn grown [of "[]" "[]"] in auto)
  next
    case (fire b M)
    have M: "M \<noteq> Static"
      using fire assms(2) by (auto simp: fw_ok_def timers_ok_def)
    show ?thesis
    proof (rule timer_fires_ok [OF assms(2) fire(2) M, of tim])
      fix t assume t: "timer_fires tim b s = Some t"
        "heads t = (\<lambda>M. filter (\<lambda>c. c \<noteq> b) (heads s M))"
        "rules_of t = (\<lambda>M. map (rule_at s) (filter (\<lambda>c. c \<noteq> b) (heads s M)))"
      have "a \<in> set (heads t L)" using t(2) assms(3,4) fire(1) by auto
      moreover have "map (rule_at t) (heads t L) = map (rule_at s) (heads t L)"
        using t(2,3) by (auto simp: rules_of_def fun_eq_iff)
      ultimately show ?thesis using t(1) fire by auto
    qed
  next
    case (ioctl cmd um n um')
    obtain new where "heads s' L = new @ heads s L"
      using ioctl_heads [OF ioctl(3) assms(2) ioctl(2), of L] by blast
    moreover have "\<exists>xs. rules_of s' L = xs @ rules_of s L"
      using ioctl_rules [OF ioctl(3) assms(2) ioctl(2)] by simp
    ultimately show ?thesis using grown by blast
  next
    case (tick j)
    then show ?thesis by (simp add: rule_at_def rule_ptr_def)
  qed
qed

lemma fw_path_ok: "fw_path tim s es s' \<Longrightarrow> fw_ok s \<Longrightarrow> fw_ok s'"
  by (induction rule: fw_path.induct) (auto intro: fw_step_fw_ok)

lemma fw_path_keeps:
  "fw_path tim s es s' \<Longrightarrow> fw_ok s \<Longrightarrow> a \<in> set (heads s L) \<Longrightarrow> TimerFires a \<notin> set es \<Longrightarrow>
     a \<in> set (heads s' L) \<and> rule_at s' a = rule_at s a"
proof (induction rule: fw_path.induct)
  case here
  then show ?case by simp
next
  case (step s e t es u)
  then have "e \<noteq> TimerFires a" by auto
  with step fw_step_keeps [OF step.hyps(1) step.prems(1,2)]
    fw_step_same_rule [OF step.hyps(1) step.prems(1,2)] fw_step_fw_ok [OF step.hyps(1)]
  show ?case by simp
qed

text \<open>Every rule of a list was there at the start or was added by an event of the run.\<close>

lemma fw_path_adds:
  "fw_path tim s es s' \<Longrightarrow> fw_ok s \<Longrightarrow> r \<in> set (rules_of s' L) \<Longrightarrow>
     r \<in> set (rules_of s L) \<or> (\<exists>e\<in>set es. \<exists>rs. r \<in> adds e L rs)"
proof (induction rule: fw_path.induct)
  case here
  then show ?case by simp
next
  case (step s e t es u)
  from step.IH [OF fw_step_fw_ok [OF step.hyps(1) step.prems(1)] step.prems(2)]
    fw_step_adds [OF step.hyps(1) step.prems(1), of L]
  show ?case by auto
qed

section \<open>Which packets answer which\<close>

text \<open>The first two octets of an address, the low half of the word on a little-endian machine, are
  what the mask of a dynamic TCP rule compares; a dynamic UDP rule compares no address.\<close>

definition prefix16 :: "u32 \<Rightarrow> u32" where
  "prefix16 a = a AND 0xFFFF"

definition answers_tcp :: "iphdr \<Rightarrow> tcphdr \<Rightarrow> iphdr \<Rightarrow> tcphdr \<Rightarrow> bool" where
  "answers_tcp i ti h th \<longleftrightarrow> prefix16 (saddr i) = prefix16 (daddr h) \<and>
     prefix16 (daddr i) = prefix16 (saddr h) \<and>
     tcp_source ti = tcp_dest th \<and> tcp_dest ti = tcp_source th"

lemma match_tcp:
  "match_rule (generate_tcp_dynamic_rule i ti False) (generate_tcp_dynamic_rule h th True)
    \<longleftrightarrow> answers_tcp i ti h th"
  by (auto simp: match_rule_def generate_tcp_dynamic_rule_def new_rule_def answers_tcp_def prefix16_def)

lemma match_udp:
  "match_rule (generate_udp_dynamic_rule i ui False) (generate_udp_dynamic_rule h uo True)
    \<longleftrightarrow> udp_source ui = udp_dest uo \<and> udp_dest ui = udp_source uo"
  by (auto simp: match_rule_def generate_udp_dynamic_rule_def new_rule_def)

lemma hook_in_tcp:
  assumes "fw_ok s" "ip_hdr skb = Some i" "protocol i = 6"
  obtains s' where "my_nf_hookfn_in skb s = Some
    (if lets_in (generate_tcp_dynamic_rule i (tcp_at skb (ihl i)) False)
       (rules_of s Static @ rules_of s TcpDynamic) then NF_ACCEPT else NF_DROP, s')"
  by (rule hook_in_ok [OF assms(1), of skb]) (use assms(2,3) that in \<open>auto simp: in_verdict_def\<close>)

lemma hook_in_udp:
  assumes "fw_ok s" "ip_hdr skb = Some i" "protocol i = 17"
  obtains s' where "my_nf_hookfn_in skb s = Some
    (if lets_in (generate_udp_dynamic_rule i (udp_at skb (ihl i)) False)
       (rules_of s Static @ rules_of s UdpDynamic) then NF_ACCEPT else NF_DROP, s')"
  by (rule hook_in_ok [OF assms(1), of skb]) (use assms(2,3) that in \<open>auto simp: in_verdict_def\<close>)

lemma rules_of_mem: "a \<in> set (heads s L) \<Longrightarrow> rule_at s a \<in> set (rules_of s L)"
  by (simp add: rules_of_def)

section \<open>Example packets\<close>

definition loaded_fw :: firewall where
  "loaded_fw = \<lparr>fwrs = (\<lambda>_. None), nodes = (\<lambda>_. None), heads = (\<lambda>_. []), lock = False,
     ipfirewall_enabled = True, hook_out = True, hook_in = True, cdev = True, region = True,
     jiffies = 0, HZ = 250\<rparr>"

lemma loaded_fw_ok: "fw_ok loaded_fw" "rules_of loaded_fw L = []" "heads loaded_fw L = []"
  "nodes loaded_fw a = None" "fwrs loaded_fw a = None"
  by (simp_all add: loaded_fw_def fw_ok_def linked_def timers_ok_def rules_of_def)

definition packet :: "u8 \<Rightarrow> u32 \<Rightarrow> u32 \<Rightarrow> u16 \<Rightarrow> u16 \<Rightarrow> bool \<Rightarrow> sk_buff" where
  "packet proto src dst sp dp s =
     (let t = \<lparr>tcp_source = sp, tcp_dest = dp, syn = s, ack = False, fin = False\<rparr>;
          u = \<lparr>udp_source = sp, udp_dest = dp\<rparr>
      in \<lparr>ip_hdr = Some \<lparr>ihl = 5, protocol = proto, saddr = src, daddr = dst\<rparr>,
          tcp_hdr = t, udp_hdr = u, tcp_at = (\<lambda>_. t), udp_at = (\<lambda>_. u)\<rparr>)"

lemma packet_simps [simp]:
  "ip_hdr (packet pr a b p q f) = Some \<lparr>ihl = 5, protocol = pr, saddr = a, daddr = b\<rparr>"
  "tcp_hdr (packet pr a b p q f) = \<lparr>tcp_source = p, tcp_dest = q, syn = f, ack = False, fin = False\<rparr>"
  "udp_hdr (packet pr a b p q f) = \<lparr>udp_source = p, udp_dest = q\<rparr>"
  "tcp_at (packet pr a b p q f) n = \<lparr>tcp_source = p, tcp_dest = q, syn = f, ack = False, fin = False\<rparr>"
  "udp_at (packet pr a b p q f) n = \<lparr>udp_source = p, udp_dest = q\<rparr>"
  by (simp_all add: packet_def Let_def)

definition no_timer :: timer_list where
  "no_timer = \<lparr>timer_function = null_timer_callback, timer_data = 0, expires = None\<rparr>"

lemma out_from_loaded:
  obtains s1 where "my_nf_hookfn_out skb (Some (1, no_timer)) (Some 2) loaded_fw = Some (NF_ACCEPT, s1)"
    "fw_step tim loaded_fw (OutPacket skb) s1" "fw_ok s1"
    "rules_of s1 = out_rules skb True (\<lambda>_. [])"
proof -
  have room: "room (Some (1, no_timer)) (Some 2) loaded_fw"
    by (simp add: room_def loaded_fw_ok)
  have out: "hook_out loaded_fw" by (simp add: loaded_fw_def)
  have empty: "rules_of loaded_fw = (\<lambda>_. [])" by (rule ext) (rule loaded_fw_ok(2))
  show thesis
  proof (rule hook_out_ok [OF loaded_fw_ok(1) room, of skb])
    fix s1 assume *: "my_nf_hookfn_out skb (Some (1, no_timer)) (Some 2) loaded_fw = Some (NF_ACCEPT, s1)"
      "fw_ok s1" "rules_of s1 = out_rules skb (Some (1, no_timer) \<noteq> None \<and> Some (2 :: u32) \<noteq> None)
        (rules_of loaded_fw)"
    show thesis
      by (rule that [of s1])
        (use * fw_step.out [of loaded_fw, OF out room *(1)] empty in auto)
  qed
qed

section \<open>Properties\<close>

text \<open>
  C6: after the module lets a connection request out, and has memory for its rule, it lets the
  peer's answer in, whatever packets, control calls and other timers come between, as long as the
  timer of that rule has not run.
\<close>

theorem fw_tcp_reply_accepted:
  assumes "fw_ok s" "nodes s a = None" "fwrs s p = None"
    and "ip_hdr skb = Some h" "protocol h = 6" "syn (tcp_hdr skb)" "\<not> ack (tcp_hdr skb)"
    and "my_nf_hookfn_out skb (Some (a, t0)) (Some p) s = Some (v, s1)"
    and "fw_path tim s1 es s2" "TimerFires a \<notin> set es"
    and "ip_hdr reply = Some i" "protocol i = 6"
    and "answers_tcp i (tcp_at reply (ihl i)) h (tcp_hdr skb)"
  shows "\<exists>s3. my_nf_hookfn_in reply s2 = Some (NF_ACCEPT, s3)"
proof -
  let ?r = "generate_tcp_dynamic_rule h (tcp_hdr skb) True"
  obtain t where t: "add_rule (OnStack ?r) TcpDynamic (proto_of TcpDynamic) (Some (a, t0)) (Some p) s = Some (0, t)"
    "fw_ok t" "rules_of t = (rules_of s)(TcpDynamic := ?r # rules_of s TcpDynamic)"
    "heads t = (heads s)(TcpDynamic := a # heads s TcpDynamic)"
    by (rule add_rule_stack [OF assms(1-3), of ?r TcpDynamic t0])
  then have "t = s1"
    using assms(4-8) by (simp add: my_nf_hookfn_out_def protocols Let_def)
  then have a: "a \<in> set (heads s1 TcpDynamic)" "rule_at s1 a = ?r" "fw_ok s1"
    using t by (auto simp: rules_of_def fun_eq_iff split: if_splits)
  have s2: "fw_ok s2" "?r \<in> set (rules_of s2 TcpDynamic)"
    using fw_path_ok [OF assms(9) a(3)] fw_path_keeps [OF assms(9) a(3,1) assms(10)] a(2)
      rules_of_mem by metis+
  then have "lets_in (generate_tcp_dynamic_rule i (tcp_at reply (ihl i)) False)
      (rules_of s2 Static @ rules_of s2 TcpDynamic)"
    using assms(13) match_tcp [of i _ h] unfolding lets_in_def by fastforce
  then show ?thesis
    by (metis hook_in_tcp [OF s2(1) assms(11,12)])
qed

theorem fw_tcp_reply_accepted_witness:
  "\<exists>s1 s3. my_nf_hookfn_out (packet 6 1 2 30 80 True) (Some (1, no_timer)) (Some 2) loaded_fw =
     Some (NF_ACCEPT, s1) \<and> my_nf_hookfn_in (packet 6 2 1 80 30 False) s1 = Some (NF_ACCEPT, s3)"
proof -
  obtain s1 where s1: "my_nf_hookfn_out (packet 6 1 2 30 80 True) (Some (1, no_timer)) (Some 2) loaded_fw =
      Some (NF_ACCEPT, s1)"
    by (rule out_from_loaded)
  then show ?thesis
    using fw_tcp_reply_accepted [OF loaded_fw_ok(1,4,5) _ _ _ _ s1 fw_path.here,
      where reply = "packet 6 2 1 80 30 False"]
    by (fastforce simp: answers_tcp_def)
qed

text \<open>
  C7: no unsolicited connection comes in. In a run from empty lists in which no static rule is added,
  an incoming TCP packet is let in only if a connection request went out before, with the ports of
  the packet swapped and addresses that agree in their first two octets.
\<close>

theorem fw_tcp_unsolicited_dropped:
  assumes "fw_ok s" "\<And>L. rules_of s L = []" "fw_path tim s es s'"
    and "\<forall>cmd um. Ioctl cmd um \<in> set es \<longrightarrow> ioctl_adds cmd um = []"
    and "ip_hdr skb = Some i" "protocol i = 6" "my_nf_hookfn_in skb s' = Some (NF_ACCEPT, s'')"
  shows "\<exists>req h. OutPacket req \<in> set es \<and> ip_hdr req = Some h \<and> protocol h = 6 \<and>
    syn (tcp_hdr req) \<and> \<not> ack (tcp_hdr req) \<and>
    answers_tcp i (tcp_at skb (ihl i)) h (tcp_hdr req)"
proof -
  let ?q = "generate_tcp_dynamic_rule i (tcp_at skb (ihl i)) False"
  have "lets_in ?q (rules_of s' Static @ rules_of s' TcpDynamic)"
    by (rule hook_in_tcp [OF fw_path_ok [OF assms(3,1)] assms(5,6)])
      (use assms(7) in \<open>auto split: if_splits\<close>)
  then obtain r L where r: "r \<in> set (rules_of s' L)" "L \<noteq> UdpDynamic" "match_rule ?q r"
    by (auto simp: lets_in_def)
  obtain e rs where e: "e \<in> set es" "r \<in> adds e L rs"
    using fw_path_adds [OF assms(3,1) r(1)] assms(2) by auto
  show ?thesis
  proof (cases e)
    case (OutPacket req)
    then show ?thesis
      using e r(2,3) match_tcp
      by (auto simp: out_rule_def Let_def split: option.splits if_splits)
  qed (use e assms(4) in \<open>auto split: if_splits\<close>)
qed

theorem fw_tcp_unsolicited_dropped_witness:
  "\<exists>s1 s3 req h. fw_path (\<lambda>_. []) loaded_fw [OutPacket (packet 6 1 2 30 80 True)] s1 \<and>
     my_nf_hookfn_in (packet 6 2 1 80 30 False) s1 = Some (NF_ACCEPT, s3) \<and>
     req = packet 6 1 2 30 80 True \<and> ip_hdr req = Some h \<and> daddr h = 2"
proof -
  let ?req = "packet 6 1 2 30 80 True" and ?in = "packet 6 2 1 80 30 False"
  obtain s1 where s1: "fw_step (\<lambda>_. []) loaded_fw (OutPacket ?req) s1" "fw_ok s1"
    "rules_of s1 = out_rules ?req True (\<lambda>_. [])"
    by (rule out_from_loaded)
  have path: "fw_path (\<lambda>_. []) loaded_fw [OutPacket ?req] s1"
    by (rule fw_path.step [OF s1(1) fw_path.here])
  obtain s3 where s3: "my_nf_hookfn_in ?in s1 = Some (NF_ACCEPT, s3)"
    by (rule hook_in_tcp [OF s1(2), of ?in])
      (auto simp: s1(3) out_rules_def out_rule_def lets_in_def match_tcp answers_tcp_def)
  show ?thesis
    using fw_tcp_unsolicited_dropped [OF loaded_fw_ok(1,2) path _ _ _ s3] path s3 by fastforce
qed

text \<open>
  C11: the hooks implement their specification on the rules of the three lists: from well-formed
  lists they always return, with the lock released and the lists well-formed; an incoming packet gets
  the specified verdict and changes no rule, an outgoing one is let out and records the specified
  rule if there is memory for it.
\<close>

theorem fw_hooks_refine:
  assumes "fw_ok s" "room k1 k2 s"
  shows "(\<exists>s'. my_nf_hookfn_in skb s = Some (in_verdict skb (rules_of s), s') \<and> fw_ok s' \<and>
      rules_of s' = rules_of s) \<and>
    (\<exists>s'. my_nf_hookfn_out skb k1 k2 s = Some (NF_ACCEPT, s') \<and> fw_ok s' \<and>
      rules_of s' = out_rules skb (k1 \<noteq> None \<and> k2 \<noteq> None) (rules_of s))"
proof
  show "\<exists>s'. my_nf_hookfn_in skb s = Some (in_verdict skb (rules_of s), s') \<and> fw_ok s' \<and>
      rules_of s' = rules_of s"
    by (rule hook_in_ok [OF assms(1), of skb]) blast
  show "\<exists>s'. my_nf_hookfn_out skb k1 k2 s = Some (NF_ACCEPT, s') \<and> fw_ok s' \<and>
      rules_of s' = out_rules skb (k1 \<noteq> None \<and> k2 \<noteq> None) (rules_of s)"
    by (rule hook_out_ok [OF assms, of skb]) blast
qed

theorem fw_hooks_refine_witness:
  "\<exists>s'. my_nf_hookfn_out (packet 17 1 2 30 53 False) (Some (1, no_timer)) (Some 2) loaded_fw =
     Some (NF_ACCEPT, s') \<and> length (rules_of s' UdpDynamic) = 1"
  using fw_hooks_refine [OF loaded_fw_ok(1), of "Some (1, no_timer)" "Some 2" "packet 17 1 2 30 53 False"]
  by (auto simp: room_def loaded_fw_ok out_rules_def out_rule_def lets_in_def)

text \<open>
  A dynamic UDP rule admits every host: in a run from empty lists, once a datagram has gone out
  (with memory for its rule), a datagram with its ports swapped is let in from and to any address.
\<close>

theorem fw_udp_rule_ignores_addresses:
  assumes "fw_ok s" "\<And>L. rules_of s L = []" "fw_path tim s es s1" "room (Some k1) (Some k2) s1"
    and "ip_hdr skb = Some h" "protocol h = 17"
    and "my_nf_hookfn_out skb (Some k1) (Some k2) s1 = Some (v, s2)"
    and "ip_hdr reply = Some i" "protocol i = 17"
    and "udp_source (udp_at reply (ihl i)) = udp_dest (udp_hdr skb)"
    and "udp_dest (udp_at reply (ihl i)) = udp_source (udp_hdr skb)"
  shows "\<exists>s3. my_nf_hookfn_in reply s2 = Some (NF_ACCEPT, s3)"
proof -
  let ?r = "generate_udp_dynamic_rule h (udp_hdr skb) True"
  let ?q = "generate_udp_dynamic_rule i (udp_at reply (ihl i)) False"
  have s1: "fw_ok s1" by (rule fw_path_ok [OF assms(3,1)])
  have any: "match_rule ?q r" if r: "r \<in> set (rules_of s1 UdpDynamic)" "match_rule ?r r" for r
  proof -
    obtain e rs where "r \<in> adds e UdpDynamic rs"
      using fw_path_adds [OF assms(3,1) r(1)] assms(2) by auto
    then obtain h' u where "r = generate_udp_dynamic_rule h' u True"
      by (cases e) (auto simp: out_rule_def Let_def split: option.splits if_splits)
    with r(2) show ?thesis
      using assms(10,11) by (auto simp: match_rule_def generate_udp_dynamic_rule_def new_rule_def)
  qed
  obtain s2': "fw_ok s2" "rules_of s2 = out_rules skb True (rules_of s1)"
    by (rule hook_out_ok [OF s1 assms(4), of skb]) (use assms(7) in auto)
  have "lets_in ?q (rules_of s2 UdpDynamic)"
  proof (cases "lets_in ?r (rules_of s1 UdpDynamic)")
    case True
    with assms(5,6) have "rules_of s2 = rules_of s1"
      by (simp add: s2' out_rules_def out_rule_def Let_def)
    with any True show ?thesis by (auto simp: lets_in_def)
  next
    case False
    then show ?thesis
      using assms(5,6,10,11) by (simp add: s2' out_rules_def out_rule_def lets_in_def match_udp Let_def)
  qed
  then show ?thesis
    by (metis hook_in_udp [OF s2'(1) assms(8,9)] lets_in_append)
qed

theorem fw_udp_rule_ignores_addresses_witness:
  "\<exists>s2 s3. my_nf_hookfn_out (packet 17 1 2 30 53 False) (Some (1, no_timer)) (Some 2) loaded_fw =
     Some (NF_ACCEPT, s2) \<and> my_nf_hookfn_in (packet 17 99 98 53 30 False) s2 = Some (NF_ACCEPT, s3)"
proof -
  obtain s1 where s1: "my_nf_hookfn_out (packet 17 1 2 30 53 False) (Some (1, no_timer)) (Some 2) loaded_fw =
      Some (NF_ACCEPT, s1)"
    by (rule out_from_loaded)
  have "room (Some (1, no_timer)) (Some 2) loaded_fw"
    by (simp add: room_def loaded_fw_ok)
  then show ?thesis
    using fw_udp_rule_ignores_addresses [OF loaded_fw_ok(1,2) fw_path.here _ _ _ s1,
      of _ "packet 17 99 98 53 30 False"] s1 by fastforce
qed

text \<open>
  C14: \<open>FW_LIST\<close> with room for all rules gives the user every rule, static, TCP and UDP in this
  order, readable where the user's array has it, and writes nothing behind them; a copy that is
  interrupted is continued where it stopped.
\<close>

theorem fw_list_gives_rules:
  assumes "fw_ok s" "int (length (listing s)) \<le> sint (un_le32 (peek um 0 4))" "0 \<in> set left"
  shows "\<exists>um'. ipfirewall_ioctl (FW_LIST size_ok True left) um s =
      Some (int (length (listing s)), um', s) \<and>
    map (\<lambda>i. un_fwr (peek um' (24 * i) 24)) [0..<length (listing s)] = listing s \<and>
    (\<forall>j. j < 24 * length (listing s) \<or> um' j = um j)"
proof -
  let ?um' = "poke um 0 (serialize (listing s))"
  have "ipfirewall_ioctl (FW_LIST size_ok True left) um s = Some (int (length (listing s)), ?um', s)"
    using copy_loop_done [OF assms(3), of "24 * length (listing s)" "serialize (listing s)" um]
    by (simp add: ipfirewall_ioctl_def fw_list_buffer [OF assms(1,2)])
  moreover have "un_fwr (peek ?um' (24 * i) 24) = listing s ! i" if "i < length (listing s)" for i
  proof -
    have "peek ?um' (24 * i) 24 = take 24 (drop (24 * i) (serialize (listing s)))"
      using that by (intro nth_equalityI) (auto simp: poke_def)
    then show ?thesis using un_fwr_serialize [OF that] by simp
  qed
  then have "map (\<lambda>i. un_fwr (peek ?um' (24 * i) 24)) [0..<length (listing s)] = listing s"
    by (intro nth_equalityI) auto
  ultimately show ?thesis
    by (intro exI [of _ ?um']) (simp add: poke_def)
qed

theorem fw_list_gives_rules_witness:
  "\<exists>um' s1. my_nf_hookfn_out (packet 6 1 2 30 80 True) (Some (1, no_timer)) (Some 2) loaded_fw =
     Some (NF_ACCEPT, s1) \<and>
     ipfirewall_ioctl (FW_LIST True True [7, 0]) (\<lambda>i. if i = 0 then 5 else 0) s1 = Some (1, um', s1)"
proof -
  obtain s1 where s1: "my_nf_hookfn_out (packet 6 1 2 30 80 True) (Some (1, no_timer)) (Some 2) loaded_fw =
      Some (NF_ACCEPT, s1)" "fw_ok s1" "rules_of s1 = out_rules (packet 6 1 2 30 80 True) True (\<lambda>_. [])"
    by (rule out_from_loaded)
  then have "length (listing s1) = 1"
    by (simp add: listing_def out_rules_def out_rule_def)
  moreover have "sint (un_le32 (peek (\<lambda>i. if i = 0 then 5 else 0) 0 4)) = 5"
    by (simp add: un_le32_def peek_def)
  ultimately show ?thesis
    using fw_list_gives_rules [OF s1(2), of "\<lambda>i. if i = 0 then 5 else 0" "[7, 0]" True] s1(1) by auto
qed

text \<open>
  \<open>FW_LIST\<close> never returns while part of the user's array cannot be written: with a rule to give
  and no call of \<open>copy_to_user\<close> that copies everything, the copy loop runs on, however many calls it
  makes.
\<close>

theorem fw_list_runs_on:
  assumes "fw_ok s" "int (length (listing s)) \<le> sint (un_le32 (peek um 0 4))"
    and "listing s \<noteq> []" "0 \<notin> set left"
  shows "ipfirewall_ioctl (FW_LIST size_ok True left) um s = None"
  using copy_loop_stuck [OF assms(4), of "24 * length (listing s)" "serialize (listing s)" um] assms(3)
  by (simp add: ipfirewall_ioctl_def fw_list_buffer [OF assms(1,2)])

theorem fw_list_runs_on_witness:
  "\<exists>s1. my_nf_hookfn_out (packet 6 1 2 30 80 True) (Some (1, no_timer)) (Some 2) loaded_fw =
     Some (NF_ACCEPT, s1) \<and>
     ipfirewall_ioctl (FW_LIST True True (replicate 1000 8)) (\<lambda>i. if i = 0 then 5 else 0) s1 = None"
proof -
  obtain s1 where s1: "my_nf_hookfn_out (packet 6 1 2 30 80 True) (Some (1, no_timer)) (Some 2) loaded_fw =
      Some (NF_ACCEPT, s1)" "fw_ok s1" "rules_of s1 = out_rules (packet 6 1 2 30 80 True) True (\<lambda>_. [])"
    by (rule out_from_loaded)
  then have "length (listing s1) = 1"
    by (simp add: listing_def out_rules_def out_rule_def)
  moreover have "sint (un_le32 (peek (\<lambda>i. if i = 0 then 5 else 0) 0 4)) = 5"
    by (simp add: un_le32_def peek_def)
  ultimately have "ipfirewall_ioctl (FW_LIST True True (replicate 1000 8)) (\<lambda>i. if i = 0 then 5 else 0) s1 = None"
    by (intro fw_list_runs_on [OF s1(2)]) auto
  with s1(1) show ?thesis by blast
qed

text \<open>
  The timer of a dynamic rule removes its own node, whatever a timer looks like in memory, and
  no other; the block of the rule itself is never given back.
\<close>

theorem fw_timer_removes_its_rule:
  assumes "fw_ok s" "a \<in> set (heads s L)" "L \<noteq> Static"
  shows "\<exists>s'. timer_fires tim a s = Some s' \<and> fw_ok s' \<and>
    heads s' = (\<lambda>M. filter (\<lambda>b. b \<noteq> a) (heads s M)) \<and>
    rules_of s' = (\<lambda>M. map (rule_at s) (filter (\<lambda>b. b \<noteq> a) (heads s M))) \<and>
    nodes s' a = None \<and> fwrs s' = fwrs s"
  by (rule timer_fires_ok [OF assms, of tim]) blast

theorem fw_timer_removes_its_rule_witness:
  "\<exists>s1 s2. my_nf_hookfn_out (packet 17 1 2 30 53 False) (Some (1, no_timer)) (Some 2) loaded_fw =
     Some (NF_ACCEPT, s1) \<and> timer_fires (\<lambda>_. []) (hd (heads s1 UdpDynamic)) s1 = Some s2 \<and>
     heads s2 UdpDynamic = []"
proof -
  obtain s1 where s1: "my_nf_hookfn_out (packet 17 1 2 30 53 False) (Some (1, no_timer)) (Some 2) loaded_fw =
      Some (NF_ACCEPT, s1)" "fw_ok s1" "rules_of s1 = out_rules (packet 17 1 2 30 53 False) True (\<lambda>_. [])"
    by (rule out_from_loaded)
  have "length (heads s1 UdpDynamic) = length (rules_of s1 UdpDynamic)"
    by (simp add: rules_of_def)
  then obtain a where a: "heads s1 UdpDynamic = [a]"
    by (auto simp: s1(3) out_rules_def out_rule_def lets_in_def length_Suc_conv)
  then show ?thesis
    using fw_timer_removes_its_rule [OF s1(2), of a UdpDynamic "\<lambda>_. []"] s1(1) by auto
qed

text \<open>
  A load that fails registers no device; but the outgoing hook stays registered, with the module
  gone, when only the registration of the incoming hook failed.
\<close>

theorem fw_failed_load:
  assumes "ipfirewall_init region_err cdev_err out_err in_err s = (err, s')" "err \<noteq> 0"
    and "\<not> hook_out s" "\<not> hook_in s" "\<not> cdev s" "\<not> region s"
  shows "\<not> cdev s' \<and> \<not> region s' \<and> \<not> hook_in s' \<and>
    (hook_out s' \<longleftrightarrow> region_err = 0 \<and> cdev_err = 0 \<and> out_err = 0)"
  using assms by (auto simp: ipfirewall_init_def Let_def split: if_splits)

theorem fw_failed_load_witness:
  "hook_out (snd (ipfirewall_init 0 0 0 (-1)
     (loaded_fw\<lparr>hook_out := False, hook_in := False, cdev := False, region := False\<rparr>)))"
  using fw_failed_load [OF surjective_pairing, of 0 0 0 "-1"
    "loaded_fw\<lparr>hook_out := False, hook_in := False, cdev := False, region := False\<rparr>"]
  by (simp add: ipfirewall_init_def)





end
