(* ===== verification/VirtualMemory.thy ===== *)
theory VirtualMemory
  imports Base "HOL-Library.Signed_Division"
begin

text \<open>
  The paging library, \<open>src/VirtualMemoryLinux/src/tema-mv.c\<close>: virtual pages backed by a file that
  plays the physical memory and one that plays the swap, moved by a handler of SIGSEGV.

  Every access of the library to its files is to a whole page at a page boundary, so a file is a list
  of pages with a position. A virtual page has what is mapped there and its protection. \<open>None\<close> is the
  end of the process: a failed \<open>CHECK\<close>, an access outside \<open>pages_info\<close>, or an access to a
  mapped page that its file does not have. Opening, truncating and mapping files is taken to succeed
  when the arguments are valid; a negative file offset is not.
\<close>

section \<open>State\<close>

datatype page_info = NONE | RAM_READ | RAM_WRITE | SWAP

datatype prot = PROT_NONE | PROT_READ | PROT_WRITE

datatype backing = Anonymous | RamFile nat | SwapFile nat

record page_record =
  id_real :: int
  id_swap :: int
  info :: page_info
  dirty :: bool
  swaped :: bool

record vfile =
  contents :: "bytes list"
  position :: nat

record vm =
  pages_info :: "page_record list"
  ram_pages :: int
  swap_pages :: int
  page_size :: nat
  fd_ram :: vfile
  fd_swap :: vfile
  buffer :: bytes
  buffer1 :: bytes
  buffer2 :: bytes
  backed :: "int \<Rightarrow> backing"
  protection :: "int \<Rightarrow> prot"
  vm_init :: bool
  handler_set :: bool
  allocated :: bool
  mapped_pages :: int

definition MAX_PHYSICAL_PAGES :: nat where "MAX_PHYSICAL_PAGES = 20"
definition MAX_VIRTUAL_PAGES :: nat where "MAX_VIRTUAL_PAGES = 50"

section \<open>Files, mappings and page records\<close>

definition lseek :: "vfile \<Rightarrow> int \<Rightarrow> vfile" where
  "lseek f off = (if off < 0 then f else f\<lparr>position := nat off\<rparr>)"

definition read_page :: "vfile \<Rightarrow> bytes \<Rightarrow> bytes \<times> vfile" where
  "read_page f buf = (if position f < length (contents f)
     then (contents f ! position f, f\<lparr>position := position f + 1\<rparr>) else (buf, f))"

definition write_page :: "vfile \<Rightarrow> bytes \<Rightarrow> vfile" where
  "write_page f b = f\<lparr>contents :=
     (contents f @ replicate (Suc (position f) - length (contents f)) (replicate (length b) 0))
       [position f := b], position := position f + 1\<rparr>"

definition mmap_file :: "int \<Rightarrow> prot \<Rightarrow> (nat \<Rightarrow> backing) \<Rightarrow> int \<Rightarrow> vm \<Rightarrow> vm option" where
  "mmap_file page pr file off s = (if off < 0 then None
     else Some (s\<lparr>backed := (backed s)(page := file (nat off)),
       protection := (protection s)(page := pr)\<rparr>))"

definition mprotect :: "int \<Rightarrow> prot \<Rightarrow> vm \<Rightarrow> vm" where
  "mprotect page pr s = s\<lparr>protection := (protection s)(page := pr)\<rparr>"

definition page_rec :: "int \<Rightarrow> vm \<Rightarrow> page_record option" where
  "page_rec i s = (if 0 \<le> i \<and> i < int (length (pages_info s)) then Some (pages_info s ! nat i) else None)"

definition set_rec :: "int \<Rightarrow> (page_record \<Rightarrow> page_record) \<Rightarrow> vm \<Rightarrow> vm option" where
  "set_rec i f s = do {
     r \<leftarrow> page_rec i s;
     Some (s\<lparr>pages_info := (pages_info s)[nat i := f r]\<rparr>)
   }"

section \<open>The library\<close>

definition vinit :: "nat \<Rightarrow> nat \<Rightarrow> nat \<Rightarrow> vm \<Rightarrow> bool \<times> vm" where
  "vinit pgsz virt phys s =
     (if virt > MAX_VIRTUAL_PAGES \<or> phys > MAX_PHYSICAL_PAGES \<or> phys > virt then (False, s)
      else
        (let zero = replicate pgsz 0;
             no_page = \<lparr>id_real = -1, id_swap = -1, info = NONE, dirty = False, swaped = False\<rparr>
         in (True, \<lparr>pages_info = replicate (virt + phys) no_page,
              ram_pages = int phys, swap_pages = int virt, page_size = pgsz,
              fd_ram = \<lparr>contents = replicate phys zero, position = 0\<rparr>,
              fd_swap = \<lparr>contents = replicate virt zero, position = 0\<rparr>,
              buffer = zero, buffer1 = buffer1 s, buffer2 = buffer2 s,
              backed = (\<lambda>_. Anonymous), protection = (\<lambda>_. PROT_NONE),
              vm_init = True, handler_set = True, allocated = True, mapped_pages = int virt\<rparr>)))"

text \<open>\<open>msync_ok\<close> is what \<open>msync\<close> answers per page.\<close>

definition ram_sync :: "(int \<Rightarrow> bool) \<Rightarrow> vm \<Rightarrow> vm option" where
  "ram_sync msync_ok s =
     (if list_all (\<lambda>i. info (pages_info s ! i) \<noteq> NONE \<longrightarrow> msync_ok (int i))
        [0..<nat (swap_pages s + ram_pages s)] then Some s else None)"

text \<open>The second result: \<open>None\<close> when blocks that were freed before are freed again.\<close>

definition vend :: "vm \<Rightarrow> (int \<times> vm) option" where
  "vend s =
     (if \<not> vm_init s then Some (-1, s)
      else if \<not> allocated s then None
      else Some (0, s\<lparr>handler_set := False, allocated := False,
        mapped_pages := mapped_pages s - ram_pages s\<rparr>))"

fun first_from :: "(nat \<Rightarrow> bool) \<Rightarrow> nat \<Rightarrow> nat \<Rightarrow> int" where
  "first_from P i 0 = -1"
| "first_from P i (Suc n) = (if P i then int i else first_from P (Suc i) n)"

definition search_free_page_ram :: "vm \<Rightarrow> int" where
  "search_free_page_ram s = first_from (\<lambda>i. info (pages_info s ! i) = NONE) 0 (nat (ram_pages s))"

definition search_free_page_swap :: "vm \<Rightarrow> int" where
  "search_free_page_swap s =
     first_from (\<lambda>i. info (pages_info s ! (i + nat (ram_pages s))) = NONE) 0 (nat (swap_pages s))"

definition search_page_id_ram :: "int \<Rightarrow> vm \<Rightarrow> int" where
  "search_page_id_ram page_real s =
     first_from (\<lambda>i. id_real (pages_info s ! i) = page_real) 0 (nat (swap_pages s + ram_pages s))"

definition search_page_id_swap :: "int \<Rightarrow> vm \<Rightarrow> int" where
  "search_page_id_swap swap_id s =
     first_from (\<lambda>i. id_swap (pages_info s ! i) = swap_id) 0 (nat (swap_pages s + ram_pages s))"

text \<open>The records of the two pages that change places, as both swap routines write them. \<open>new\<close> comes
  into the frame, \<open>old\<close> leaves for \<open>swap_id\<close>.\<close>

definition swap_records :: "int \<Rightarrow> int \<Rightarrow> int \<Rightarrow> int \<Rightarrow> vm \<Rightarrow> vm option" where
  "swap_records new old frame swap_id s = do {
     s \<leftarrow> set_rec new (\<lambda>r. r\<lparr>info := RAM_READ, id_real := frame, id_swap := -1, dirty := False\<rparr>) s;
     s \<leftarrow> set_rec old (\<lambda>r. r\<lparr>info := SWAP, id_real := -1, id_swap := swap_id\<rparr>) s;
     set_rec old (\<lambda>r. if \<not> dirty r \<and> swaped r then r\<lparr>id_swap := id_real r\<rparr>
       else r\<lparr>id_swap := swap_id, swaped := True\<rparr>) s
   }"

definition load_buffer1 :: "bool \<Rightarrow> int \<Rightarrow> int \<Rightarrow> vm \<Rightarrow> vm" where
  "load_buffer1 from_ram ram_at swap_at s =
     (if from_ram
      then (let (b, f) = read_page (lseek (fd_ram s) ram_at) (buffer1 s) in s\<lparr>buffer1 := b, fd_ram := f\<rparr>)
      else (let (b, f) = read_page (lseek (fd_swap s) swap_at) (buffer1 s)
            in s\<lparr>buffer1 := b, fd_swap := f\<rparr>))"

definition load_buffer2 :: "int \<Rightarrow> vm \<Rightarrow> vm" where
  "load_buffer2 swap_at s =
     (let (b, f) = read_page (lseek (fd_swap s) swap_at) (buffer2 s) in s\<lparr>buffer2 := b, fd_swap := f\<rparr>)"

definition store_swap :: "int \<Rightarrow> bytes \<Rightarrow> vm \<Rightarrow> vm" where
  "store_swap at b s = s\<lparr>fd_swap := write_page (lseek (fd_swap s) at) b\<rparr>"

definition store_ram :: "int \<Rightarrow> bytes \<Rightarrow> vm \<Rightarrow> vm" where
  "store_ram at b s = s\<lparr>fd_ram := write_page (lseek (fd_ram s) at) b\<rparr>"

definition swap_data :: "int \<Rightarrow> int \<Rightarrow> bool \<Rightarrow> vm \<Rightarrow> vm option" where
  "swap_data ram_id swap_id exists_in_swap s = do {
     old \<leftarrow> page_rec ram_id s;
     s \<leftarrow> swap_records (swap_id + ram_pages s) ram_id (id_real old) swap_id s;
     let map_swap_id = swap_id + ram_pages s;
     let map_ram_id = ram_id;
     r \<leftarrow> page_rec map_ram_id s;
     let s = load_buffer1 (dirty r) map_ram_id map_swap_id s;
     let s = (if \<not> exists_in_swap
       then store_ram map_ram_id (buffer s) (store_swap map_swap_id (buffer1 s) s)
       else (let s = load_buffer2 map_swap_id s
             in store_ram map_ram_id (buffer2 s) (store_swap map_swap_id (buffer1 s) s)));
     s \<leftarrow> mmap_file ram_id PROT_NONE SwapFile map_swap_id s;
     s \<leftarrow> mmap_file (swap_id + ram_pages s) PROT_READ RamFile map_ram_id s;
     Some (mprotect (swap_id + ram_pages s) PROT_READ (mprotect ram_id PROT_NONE s))
   }"

definition swap_data_swap :: "int \<Rightarrow> int \<Rightarrow> vm \<Rightarrow> vm option" where
  "swap_data_swap ram_page_id swap_page_id s = do {
     new \<leftarrow> page_rec swap_page_id s;
     old \<leftarrow> page_rec ram_page_id s;
     let swap_id = id_swap new;
     let ram_id = id_real old;
     s \<leftarrow> swap_records swap_page_id ram_page_id ram_id swap_id s;
     r \<leftarrow> page_rec ram_id s;
     let s = load_buffer2 swap_id (load_buffer1 (dirty r) ram_id ram_id s);
     let s = store_ram ram_id (buffer2 s) (store_swap swap_id (buffer1 s) s);
     s \<leftarrow> mmap_file ram_page_id PROT_NONE SwapFile swap_id s;
     s \<leftarrow> mmap_file swap_page_id PROT_READ RamFile ram_id s;
     Some (mprotect swap_page_id PROT_READ (mprotect ram_page_id PROT_NONE s))
   }"

text \<open>The handler, given the signal and how far the faulting address is from the library's memory;
  the first result tells whether the signal went to the handler that was there before.\<close>

definition SIGSEGV :: int where "SIGSEGV = 11"

definition sigsegv_handler :: "int \<Rightarrow> int \<Rightarrow> vm \<Rightarrow> (bool \<times> vm) option" where
  "sigsegv_handler signum offset s =
     (if signum \<noteq> SIGSEGV then Some (True, s)
      else
        (let page = offset sdiv int (page_size s) in
         if page < 0 \<or> page \<ge> ram_pages s + swap_pages s then Some (True, s)
         else do {
           r \<leftarrow> page_rec page s;
           if info r = NONE then do {
             let page_id = search_free_page_ram s;
             s \<leftarrow> (if page_id = -1
               then swap_data (search_page_id_ram 0 s) (search_free_page_swap s) False s
               else do {
                 s \<leftarrow> set_rec page (\<lambda>r. r\<lparr>id_real := page_id, id_swap := -1, info := RAM_READ\<rparr>) s;
                 let s = store_ram page_id (buffer s) s;
                 mmap_file page PROT_READ RamFile page_id (mprotect page PROT_READ s)
               });
             s \<leftarrow> set_rec page (\<lambda>r. r\<lparr>dirty := False\<rparr>) s;
             Some (False, s)
           }
           else if info r = RAM_READ then do {
             s \<leftarrow> set_rec page (\<lambda>r. r\<lparr>info := RAM_WRITE, dirty := True\<rparr>) s;
             Some (False, mprotect page PROT_WRITE s)
           }
           else if info r = SWAP then do {
             s \<leftarrow> swap_data_swap (search_page_id_ram 0 s) page s;
             Some (False, s)
           }
           else Some (False, s)
         }))"

section \<open>A program's accesses\<close>

text \<open>A load needs a readable page, a store a writable one; otherwise the access faults, the handler
  runs and the access is tried again, up to \<open>fuel\<close> times. Protections and mappings are per page.\<close>

definition page_at :: "int \<Rightarrow> vm \<Rightarrow> bytes option" where
  "page_at p s = (case backed s p of
     Anonymous \<Rightarrow> Some (replicate (page_size s) 0)
   | RamFile i \<Rightarrow> if i < length (contents (fd_ram s)) then Some (contents (fd_ram s) ! i) else None
   | SwapFile i \<Rightarrow> if i < length (contents (fd_swap s)) then Some (contents (fd_swap s) ! i) else None)"

fun fault_until :: "nat \<Rightarrow> prot set \<Rightarrow> int \<Rightarrow> vm \<Rightarrow> vm option" where
  "fault_until fuel ok p s =
     (if protection s p \<in> ok then Some s
      else (case fuel of
        0 \<Rightarrow> None
      | Suc n \<Rightarrow> do {
          (old, s) \<leftarrow> sigsegv_handler SIGSEGV (p * int (page_size s)) s;
          if old then None else fault_until n ok p s
        }))"

declare fault_until.simps [simp del]

definition vload :: "int \<Rightarrow> nat \<Rightarrow> vm \<Rightarrow> (u8 \<times> vm) option" where
  "vload p i s = do {
     s \<leftarrow> fault_until 2 {PROT_READ, PROT_WRITE} p s;
     b \<leftarrow> page_at p s;
     Some (b ! i, s)
   }"

definition vstore :: "int \<Rightarrow> nat \<Rightarrow> u8 \<Rightarrow> vm \<Rightarrow> vm option" where
  "vstore p i v s = do {
     s \<leftarrow> fault_until 2 {PROT_WRITE} p s;
     b \<leftarrow> page_at p s;
     Some (case backed s p of
       Anonymous \<Rightarrow> s
     | RamFile k \<Rightarrow> s\<lparr>fd_ram := (fd_ram s)\<lparr>contents := (contents (fd_ram s))[k := b[i := v]]\<rparr>\<rparr>
     | SwapFile k \<Rightarrow> s\<lparr>fd_swap := (fd_swap s)\<lparr>contents := (contents (fd_swap s))[k := b[i := v]]\<rparr>\<rparr>)
   }"

end
