(* ===== verification/VirtualMemoryCorrect.thy ===== *)
theory VirtualMemoryCorrect
  imports VirtualMemory
begin

text \<open>
  The paging library: pages touched in order while the physical memory has room behave as memory;
  which page records a fault can change; and where the swap and the choice of frames lose data.
\<close>

section \<open>Searches\<close>

lemma first_from_hit:
  "(\<forall>j<m. \<not> P (i + j)) \<Longrightarrow> P (i + m) \<Longrightarrow> m < n \<Longrightarrow> first_from P i n = int (i + m)"
proof (induction n arbitrary: i m)
  case 0
  then show ?case by simp
next
  case (Suc n)
  show ?case
  proof (cases m)
    case 0
    with Suc.prems show ?thesis by simp
  next
    case (Suc m')
    have "\<not> P i" using Suc.prems(1) Suc by (metis add_0_right zero_less_Suc)
    moreover have "first_from P (Suc i) n = int (Suc i + m')"
    proof (rule Suc.IH)
      show "\<forall>j<m'. \<not> P (Suc i + j)"
        using Suc.prems(1) Suc by (metis Suc_less_eq add_Suc_shift)
    qed (use Suc.prems Suc in simp_all)
    ultimately show ?thesis using Suc by simp
  qed
qed

lemma first_from_cases:
  "first_from P i n = -1 \<or> (\<exists>j. i \<le> j \<and> j < i + n \<and> P j \<and> first_from P i n = int j)"
proof (induction n arbitrary: i)
  case 0
  then show ?case by simp
next
  case (Suc n)
  show ?case
  proof (cases "P i")
    case False
    with Suc.IH [of "Suc i"] show ?thesis by auto
  qed auto
qed

lemma first_from_none: "first_from P i n = -1 \<Longrightarrow> i \<le> j \<Longrightarrow> j < i + n \<Longrightarrow> \<not> P j"
proof (induction n arbitrary: i)
  case 0
  then show ?case by simp
next
  case (Suc n)
  then show ?case
    by (cases "j = i") (auto split: if_splits)
qed

lemma sdiv_page: "0 < n \<Longrightarrow> 0 \<le> p \<Longrightarrow> (p * int n) sdiv int n = p"
  by (cases "p = 0") (simp_all add: signed_divide_int_def sgn_mult abs_mult)

section \<open>Pages touched in order\<close>

text \<open>The first \<open>k\<close> virtual pages are resident, page \<open>i\<close> in frame \<open>i\<close>; no other page was touched.\<close>

definition resident :: "nat \<Rightarrow> vm \<Rightarrow> bool" where
  "resident k s \<longleftrightarrow> 0 < page_size s \<and> int k \<le> ram_pages s \<and> 0 \<le> swap_pages s \<and>
     length (pages_info s) = nat (ram_pages s + swap_pages s) \<and>
     buffer s = replicate (page_size s) 0 \<and>
     length (contents (fd_ram s)) = nat (ram_pages s) \<and>
     (\<forall>i<k. backed s (int i) = RamFile i \<and>
       (info (pages_info s ! i) = RAM_READ \<and> protection s (int i) = PROT_READ \<or>
        info (pages_info s ! i) = RAM_WRITE \<and> protection s (int i) = PROT_WRITE)) \<and>
     (\<forall>i. k \<le> i \<longrightarrow> i < length (pages_info s) \<longrightarrow>
       info (pages_info s ! i) = NONE \<and> protection s (int i) = PROT_NONE)"

text \<open>What the program sees in a page.\<close>

definition seen :: "nat \<Rightarrow> vm \<Rightarrow> nat \<Rightarrow> bytes" where
  "seen k s p = (if p < k then contents (fd_ram s) ! p else replicate (page_size s) 0)"

lemma residentD:
  assumes "resident k s"
  shows "0 < page_size s" "int k \<le> ram_pages s" "0 \<le> swap_pages s"
    "length (pages_info s) = nat (ram_pages s + swap_pages s)"
    "buffer s = replicate (page_size s) 0" "length (contents (fd_ram s)) = nat (ram_pages s)"
    "i < k \<Longrightarrow> backed s (int i) = RamFile i"
    "i < k \<Longrightarrow> info (pages_info s ! i) = RAM_READ \<and> protection s (int i) = PROT_READ \<or>
      info (pages_info s ! i) = RAM_WRITE \<and> protection s (int i) = PROT_WRITE"
    "k \<le> i \<Longrightarrow> i < length (pages_info s) \<Longrightarrow>
      info (pages_info s ! i) = NONE \<and> protection s (int i) = PROT_NONE"
  using assms unfolding resident_def by blast+

lemma resident_free_page:
  assumes "resident k s" "int k < ram_pages s"
  shows "search_free_page_ram s = int k"
proof -
  have "info (pages_info s ! k) = NONE"
    using residentD(3,4) [OF assms(1)] assms(2) by (intro residentD(9) [OF assms(1), THEN conjunct1]) auto
  moreover have "info (pages_info s ! j) \<noteq> NONE" if "j < k" for j
    using residentD(8) [OF assms(1) that] by auto
  ultimately show ?thesis
    using first_from_hit [of k "\<lambda>i. info (pages_info s ! i) = NONE" 0 "nat (ram_pages s)"] assms(2)
    by (simp add: search_free_page_ram_def)
qed

lemma page_rec_nth: "page_rec (int i) s = (if i < length (pages_info s) then Some (pages_info s ! i) else None)"
  by (simp add: page_rec_def)

text \<open>The fault that brings the next page in, and the one that makes a page writable.\<close>

lemma fault_new:
  assumes "resident k s" "int k < ram_pages s"
  obtains s' where "sigsegv_handler SIGSEGV (int k * int (page_size s)) s = Some (False, s')"
    "resident (Suc k) s'" "protection s' (int k) = PROT_READ" "seen (Suc k) s' = seen k s"
    "page_size s' = page_size s" "ram_pages s' = ram_pages s"
    "\<And>i. i \<noteq> k \<Longrightarrow> protection s' (int i) = protection s (int i)"
proof -
  note r = residentD [OF assms(1)]
  have len: "k < length (pages_info s)" "k < length (contents (fd_ram s))"
    using r(3,4,6) assms(2) by auto
  have none: "info (pages_info s ! k) = NONE"
    using r(9) [of k] len by simp
  have page: "(int k * int (page_size s)) sdiv int (page_size s) = int k"
    using sdiv_page [OF r(1), of "int k"] by simp
  let ?rec = "(pages_info s ! k)\<lparr>id_real := int k, id_swap := -1, info := RAM_READ, dirty := False\<rparr>"
  let ?s = "s\<lparr>pages_info := (pages_info s)[k := ?rec],
    fd_ram := \<lparr>contents = (contents (fd_ram s))[k := replicate (page_size s) 0], position = k + 1\<rparr>,
    backed := (backed s)(int k := RamFile k), protection := (protection s)(int k := PROT_READ)\<rparr>"
  have "write_page (lseek (fd_ram s) (int k)) (buffer s) =
      \<lparr>contents = (contents (fd_ram s))[k := replicate (page_size s) 0], position = k + 1\<rparr>"
    using len by (cases "fd_ram s") (simp add: write_page_def lseek_def r(5))
  then have "sigsegv_handler SIGSEGV (int k * int (page_size s)) s = Some (False, ?s)"
    using assms(2) r(3) len none
    by (simp add: sigsegv_handler_def page page_rec_nth resident_free_page [OF assms] set_rec_def
      store_ram_def mmap_file_def mprotect_def Let_def)
  moreover have "resident (Suc k) ?s"
    using assms(2) r len by (auto simp: resident_def nth_list_update less_Suc_eq)
  moreover have "seen (Suc k) ?s = seen k s"
    using len by (auto simp: seen_def fun_eq_iff nth_list_update less_Suc_eq)
  ultimately show thesis by (intro that [of ?s]) simp_all
qed

lemma fault_write:
  assumes "resident k s" "p < k" "protection s (int p) = PROT_READ"
  obtains s' where "sigsegv_handler SIGSEGV (int p * int (page_size s)) s = Some (False, s')"
    "resident k s'" "protection s' (int p) = PROT_WRITE" "seen k s' = seen k s"
    "page_size s' = page_size s" "ram_pages s' = ram_pages s"
proof -
  note r = residentD [OF assms(1)]
  have len: "p < length (pages_info s)" "int p < ram_pages s + swap_pages s"
    using r(2,3,4) assms(2) by auto
  have info: "info (pages_info s ! p) = RAM_READ"
    using r(8) [OF assms(2)] assms(3) by auto
  have page: "(int p * int (page_size s)) sdiv int (page_size s) = int p"
    using sdiv_page [OF r(1), of "int p"] by simp
  let ?s = "s\<lparr>pages_info := (pages_info s)[p := (pages_info s ! p)\<lparr>info := RAM_WRITE, dirty := True\<rparr>],
    protection := (protection s)(int p := PROT_WRITE)\<rparr>"
  have "sigsegv_handler SIGSEGV (int p * int (page_size s)) s = Some (False, ?s)"
    using len info
    by (simp add: sigsegv_handler_def page page_rec_nth set_rec_def mprotect_def Let_def)
  moreover have "resident k ?s"
    using r assms(2) len by (auto simp: resident_def nth_list_update)
  moreover have "seen k ?s = seen k s" by (simp add: seen_def fun_eq_iff)
  ultimately show thesis by (intro that [of ?s]) simp_all
qed

lemma fault_until_0: "protection s p \<in> ok \<Longrightarrow> fault_until n ok p s = Some s"
  by (subst fault_until.simps) simp

lemma fault_until_Suc:
  "protection s p \<notin> ok \<Longrightarrow> sigsegv_handler SIGSEGV (p * int (page_size s)) s = Some (False, t) \<Longrightarrow>
     fault_until (Suc n) ok p s = fault_until n ok p t"
  by (subst fault_until.simps) simp

text \<open>Two faults are enough for any access.\<close>

lemma bring_in:
  assumes "resident k s" "p \<le> k" "int p < ram_pages s"
  obtains t where "fault_until 1 {PROT_READ, PROT_WRITE} (int p) s = Some t" "resident (max k (Suc p)) t"
    "protection t (int p) \<noteq> PROT_NONE" "seen (max k (Suc p)) t = seen k s"
    "page_size t = page_size s" "ram_pages t = ram_pages s"
    "\<And>n ok. ok \<subseteq> {PROT_READ, PROT_WRITE} \<Longrightarrow>
      fault_until (Suc n) ok (int p) s = (if p < k then fault_until (Suc n) ok (int p) t
        else fault_until n ok (int p) t)"
proof (cases "p < k")
  case True
  then have "protection s (int p) \<in> {PROT_READ, PROT_WRITE}"
    using residentD(8) [OF assms(1) True] by auto
  moreover have "max k (Suc p) = k" using True by simp
  ultimately show thesis
    using True assms by (intro that [of s]) (auto simp: fault_until_0)
next
  case False
  then have [simp]: "p = k" using assms(2) by simp
  have none: "protection s (int k) = PROT_NONE"
    using residentD(3,4) [OF assms(1)] assms(3) by (intro residentD(9) [OF assms(1), THEN conjunct2]) auto
  obtain t where t: "sigsegv_handler SIGSEGV (int k * int (page_size s)) s = Some (False, t)"
    "resident (Suc k) t" "protection t (int k) = PROT_READ" "seen (Suc k) t = seen k s"
    "page_size t = page_size s" "ram_pages t = ram_pages s"
    by (rule fault_new [OF assms(1)]) (use assms(3) in auto)
  have "fault_until (Suc n) ok (int k) s = fault_until n ok (int k) t"
    if "ok \<subseteq> {PROT_READ, PROT_WRITE}" for n ok
    by (rule fault_until_Suc [OF _ t(1)]) (use that none in auto)
  with t show thesis
    by (intro that [of t]) (auto simp: fault_until_0)
qed

lemma vload_ok:
  assumes "resident k s" "p \<le> k" "int p < ram_pages s"
  obtains t where "vload (int p) i s = Some (seen k s p ! i, t)" "resident (max k (Suc p)) t"
    "seen (max k (Suc p)) t = seen k s" "page_size t = page_size s" "ram_pages t = ram_pages s"
proof (rule bring_in [OF assms])
  let ?k = "max k (Suc p)" and ?rw = "{PROT_READ, PROT_WRITE}"
  fix t assume t: "resident ?k t" "protection t (int p) \<noteq> PROT_NONE" "seen ?k t = seen k s"
    "page_size t = page_size s" "ram_pages t = ram_pages s"
    "\<And>n ok. ok \<subseteq> ?rw \<Longrightarrow> fault_until (Suc n) ok (int p) s = (if p < k
      then fault_until (Suc n) ok (int p) t else fault_until n ok (int p) t)"
  have ok: "protection t (int p) \<in> ?rw" using t(2) by (cases "protection t (int p)") auto
  have "fault_until (Suc 1) ?rw (int p) s = Some t"
    using t(6) [of ?rw 1] fault_until_0 [OF ok] by auto
  moreover have "page_at (int p) t = Some (seen ?k t p)"
    using residentD(7) [OF t(1), of p] residentD(6) [OF t(1)] assms(3) t(5) less_max_iff_disj [of p k "Suc p"]
    by (simp add: page_at_def seen_def)
  ultimately show thesis
    using t by (intro that [of t]) (simp_all add: vload_def numeral_2_eq_2)
qed

lemma vstore_ok:
  assumes "resident k s" "p \<le> k" "int p < ram_pages s"
  obtains t where "vstore (int p) i v s = Some t" "resident (max k (Suc p)) t"
    "seen (max k (Suc p)) t = (seen k s)(p := (seen k s p)[i := v])"
    "page_size t = page_size s" "ram_pages t = ram_pages s"
proof (rule bring_in [OF assms])
  let ?k = "max k (Suc p)" and ?w = "{PROT_WRITE}"
  fix u assume u: "resident ?k u" "protection u (int p) \<noteq> PROT_NONE" "seen ?k u = seen k s"
    "page_size u = page_size s" "ram_pages u = ram_pages s"
    "\<And>n ok. ok \<subseteq> {PROT_READ, PROT_WRITE} \<Longrightarrow> fault_until (Suc n) ok (int p) s = (if p < k
      then fault_until (Suc n) ok (int p) u else fault_until n ok (int p) u)"
  have "\<exists>t. (\<forall>n. fault_until (Suc n) ?w (int p) u = Some t) \<and> resident ?k t \<and> seen ?k t = seen ?k u \<and>
      page_size t = page_size u \<and> ram_pages t = ram_pages u"
  proof (cases "protection u (int p) = PROT_WRITE")
    case True
    then show ?thesis using u(1) fault_until_0 [of u "int p" ?w] by auto
  next
    case False
    with u(2) have "protection u (int p) = PROT_READ"
      by (cases "protection u (int p)") auto
    from fault_write [OF u(1) _ this] obtain t where t:
      "sigsegv_handler SIGSEGV (int p * int (page_size u)) u = Some (False, t)"
      "resident ?k t" "protection t (int p) = PROT_WRITE" "seen ?k t = seen ?k u"
      "page_size t = page_size u" "ram_pages t = ram_pages u"
      by (metis less_max_iff_disj lessI)
    have "fault_until (Suc n) ?w (int p) u = Some t" for n
      using fault_until_Suc [OF _ t(1), of ?w n] fault_until_0 [of t "int p" ?w n] False t(3) by simp
    with t show ?thesis by blast
  qed
  then obtain t where t: "\<And>n. fault_until (Suc n) ?w (int p) u = Some t" "resident ?k t"
    "seen ?k t = seen ?k u" "page_size t = page_size u" "ram_pages t = ram_pages u"
    by blast
  let ?t = "t\<lparr>fd_ram := (fd_ram t)\<lparr>contents := (contents (fd_ram t))[p := (seen ?k t p)[i := v]]\<rparr>\<rparr>"
  have "fault_until 2 ?w (int p) s = Some t"
    using u(6) [of ?w 1] t(1) [of 0] t(1) [of 1] by (auto simp: numeral_2_eq_2)
  moreover have at: "backed t (int p) = RamFile p" "p < length (contents (fd_ram t))"
    using residentD(6) [OF t(2)] residentD(7) [OF t(2), of p] assms(3) t(5) u(5) by auto
  moreover have "page_at (int p) t = Some (seen ?k t p)"
    using at less_max_iff_disj [of p k "Suc p"] by (simp add: page_at_def seen_def)
  ultimately have "vstore (int p) i v s = Some ?t"
    by (simp add: vstore_def)
  moreover have "resident ?k ?t"
    using t(2) by (simp add: resident_def)
  moreover have "seen ?k ?t = (seen ?k t)(p := (seen ?k t p)[i := v])"
    using at(2) by (auto simp: seen_def fun_eq_iff nth_list_update less_max_iff_disj)
  then have "seen ?k ?t = (seen k s)(p := (seen k s p)[i := v])"
    by (simp only: t(3) u(3))
  ultimately show thesis
    using t u by (intro that [of ?t]) simp_all
qed

section \<open>Programs\<close>

datatype vop = Load nat nat | Store nat nat u8

text \<open>The values a program's loads give, on the library and on plain memory.\<close>

fun vm_run :: "vop list \<Rightarrow> vm \<Rightarrow> u8 list option" where
  "vm_run [] s = Some []"
| "vm_run (Load p i # ops) s = do {
     (v, s) \<leftarrow> vload (int p) i s;
     vs \<leftarrow> vm_run ops s;
     Some (v # vs)
   }"
| "vm_run (Store p i v # ops) s = do { s \<leftarrow> vstore (int p) i v s; vm_run ops s }"

fun mem_run :: "vop list \<Rightarrow> (nat \<Rightarrow> bytes) \<Rightarrow> u8 list" where
  "mem_run [] m = []"
| "mem_run (Load p i # ops) m = m p ! i # mem_run ops m"
| "mem_run (Store p i v # ops) m = mem_run ops (m(p := (m p)[i := v]))"

fun op_page :: "vop \<Rightarrow> nat" where
  "op_page (Load p i) = p"
| "op_page (Store p i v) = p"

text \<open>Pages are touched in order and there are frames for them all.\<close>

fun in_order :: "nat \<Rightarrow> nat \<Rightarrow> vop list \<Rightarrow> bool" where
  "in_order frames k [] \<longleftrightarrow> True"
| "in_order frames k (x # ops) \<longleftrightarrow>
     op_page x \<le> k \<and> op_page x < frames \<and> in_order frames (max k (Suc (op_page x))) ops"

lemma vm_run_resident:
  "resident k s \<Longrightarrow> in_order (nat (ram_pages s)) k ops \<Longrightarrow> vm_run ops s = Some (mem_run ops (seen k s))"
proof (induction ops arbitrary: k s)
  case Nil
  then show ?case by simp
next
  case (Cons x ops)
  have p: "op_page x \<le> k" "int (op_page x) < ram_pages s"
    "in_order (nat (ram_pages s)) (max k (Suc (op_page x))) ops"
    using Cons.prems(2) by auto
  show ?case
  proof (cases x)
    case (Load q i)
    show ?thesis
      by (rule vload_ok [OF Cons.prems(1) p(1,2), of i]) (use Cons.IH Load p(3) in auto)
  next
    case (Store q i v)
    show ?thesis
      by (rule vstore_ok [OF Cons.prems(1) p(1,2), of i v])
        (use Cons.IH Store p(3) in \<open>auto simp: fun_upd_def\<close>)
  qed
qed

lemma vinit_resident:
  assumes "vinit n virt phys s0 = (True, s)" "0 < n"
  shows "resident 0 s" "ram_pages s = int phys" "seen 0 s = (\<lambda>_. replicate n 0)"
  using assms by (auto simp: vinit_def resident_def seen_def Let_def split: if_splits)

section \<open>Which records a fault changes\<close>

lemma set_rec_other:
  "set_rec i f s = Some t \<Longrightarrow> 0 \<le> q \<Longrightarrow> q \<noteq> i \<Longrightarrow> page_rec q t = page_rec q s"
  by (auto simp: set_rec_def page_rec_def split: bind_splits if_splits)

lemma set_rec_frame:
  "set_rec i f s = Some t \<Longrightarrow> backed t = backed s \<and> protection t = protection s \<and>
     ram_pages t = ram_pages s \<and> swap_pages t = swap_pages s"
  by (auto simp: set_rec_def split: bind_splits)

lemma swap_records_other:
  assumes "swap_records new old fr sw s = Some t"
  shows swap_records_keep: "0 \<le> q \<Longrightarrow> q \<noteq> new \<Longrightarrow> q \<noteq> old \<Longrightarrow> page_rec q t = page_rec q s"
    and swap_records_frame: "backed t = backed s \<and> protection t = protection s \<and>
      ram_pages t = ram_pages s \<and> swap_pages t = swap_pages s"
proof -
  obtain f g h a b where s: "set_rec new f s = Some a" "set_rec old g a = Some b" "set_rec old h b = Some t"
    using assms by (auto simp: swap_records_def split: bind_splits)
  show "page_rec q t = page_rec q s" if "0 \<le> q" "q \<noteq> new" "q \<noteq> old"
    using set_rec_other [OF s(1)] set_rec_other [OF s(2)] set_rec_other [OF s(3)] that by simp
  show "backed t = backed s \<and> protection t = protection s \<and> ram_pages t = ram_pages s \<and>
      swap_pages t = swap_pages s"
    using set_rec_frame [OF s(1)] set_rec_frame [OF s(2)] set_rec_frame [OF s(3)] by simp
qed

lemma io_frame [simp]:
  "pages_info (load_buffer1 c x y s) = pages_info s" "backed (load_buffer1 c x y s) = backed s"
  "protection (load_buffer1 c x y s) = protection s" "ram_pages (load_buffer1 c x y s) = ram_pages s"
  "pages_info (load_buffer2 y s) = pages_info s" "backed (load_buffer2 y s) = backed s"
  "protection (load_buffer2 y s) = protection s" "ram_pages (load_buffer2 y s) = ram_pages s"
  "pages_info (store_swap y b s) = pages_info s" "backed (store_swap y b s) = backed s"
  "protection (store_swap y b s) = protection s" "ram_pages (store_swap y b s) = ram_pages s"
  "pages_info (store_ram y b s) = pages_info s" "backed (store_ram y b s) = backed s"
  "protection (store_ram y b s) = protection s" "ram_pages (store_ram y b s) = ram_pages s"
  by (simp_all add: load_buffer1_def load_buffer2_def store_swap_def store_ram_def Let_def
    split: prod.splits)

lemma page_rec_cong: "pages_info t = pages_info s \<Longrightarrow> page_rec q t = page_rec q s"
  by (simp add: page_rec_def)

lemma mmap_file_other:
  "mmap_file p pr f off s = Some t \<Longrightarrow> pages_info t = pages_info s \<and> ram_pages t = ram_pages s \<and>
     (q \<noteq> p \<longrightarrow> backed t q = backed s q \<and> protection t q = protection s q)"
  by (auto simp: mmap_file_def split: if_splits)

lemma mprotect_other [simp]:
  "pages_info (mprotect p pr s) = pages_info s" "backed (mprotect p pr s) = backed s"
  "ram_pages (mprotect p pr s) = ram_pages s"
  "q \<noteq> p \<Longrightarrow> protection (mprotect p pr s) q = protection s q"
  by (simp_all add: mprotect_def)

text \<open>A page's record, mapping and protection.\<close>

definition page_view :: "int \<Rightarrow> vm \<Rightarrow> page_record option \<times> backing \<times> prot" where
  "page_view q s = (page_rec q s, backed s q, protection s q)"

lemma swap_data_keeps:
  assumes "swap_data ram_id swap_id e s = Some t" "0 \<le> q" "q \<noteq> ram_id" "q \<noteq> swap_id + ram_pages s"
  shows "page_view q t = page_view q s"
proof -
  obtain old where old: "page_rec ram_id s = Some old"
    using assms(1) by (auto simp: swap_data_def split: bind_splits)
  obtain a where a: "swap_records (swap_id + ram_pages s) ram_id (id_real old) swap_id s = Some a"
    using assms(1) by (auto simp: swap_data_def old split: bind_splits)
  obtain r where r: "page_rec ram_id a = Some r"
    using assms(1) by (auto simp: swap_data_def old a Let_def split: bind_splits)
  define u where "u = load_buffer1 (dirty r) ram_id (swap_id + ram_pages a) a"
  define b where "b = (if \<not> e then store_ram ram_id (buffer u) (store_swap (swap_id + ram_pages a) (buffer1 u) u)
     else (let v = load_buffer2 (swap_id + ram_pages a) u
           in store_ram ram_id (buffer2 v) (store_swap (swap_id + ram_pages a) (buffer1 v) v)))"
  obtain c where c: "mmap_file ram_id PROT_NONE SwapFile (swap_id + ram_pages a) b = Some c"
    using assms(1) by (auto simp: swap_data_def old a r Let_def u_def b_def cong: if_cong split: bind_splits)
  obtain d where d: "mmap_file (swap_id + ram_pages c) PROT_READ RamFile ram_id c = Some d"
    "t = mprotect (swap_id + ram_pages d) PROT_READ (mprotect ram_id PROT_NONE d)"
    using assms(1) c by (auto simp: swap_data_def old a r Let_def u_def b_def cong: if_cong split: bind_splits)
  have "pages_info b = pages_info a" "backed b = backed a" "protection b = protection a"
    "ram_pages b = ram_pages a"
    by (simp_all add: b_def u_def Let_def)
  then show ?thesis
    using swap_records_keep [OF a assms(2,4,3)] swap_records_frame [OF a] mmap_file_other [OF c, of q]
      mmap_file_other [OF d(1), of q] d(2) assms(3,4) page_rec_cong [of t a q]
    by (simp add: page_view_def)
qed

lemma swap_data_swap_keeps:
  assumes "swap_data_swap old new s = Some t" "0 \<le> q" "q \<noteq> old" "q \<noteq> new"
  shows "page_view q t = page_view q s"
proof -
  obtain fr sw a b c d where s: "swap_records new old fr sw s = Some a"
    "mmap_file old PROT_NONE SwapFile sw b = Some c" "mmap_file new PROT_READ RamFile fr c = Some d"
    "t = mprotect new PROT_READ (mprotect old PROT_NONE d)"
    "pages_info b = pages_info a" "backed b = backed a" "protection b = protection a"
    using assms(1)
    by (clarsimp simp: swap_data_swap_def Let_def split: bind_splits)
  note 1 = swap_records_keep [OF s(1) assms(2,4,3)] swap_records_frame [OF s(1)]
  note 2 = mmap_file_other [OF s(2), of q] mmap_file_other [OF s(3), of q]
  show ?thesis
    using 1 2 s(4-7) assms(3,4) page_rec_cong [of t a q] by (simp add: page_view_def)
qed

text \<open>Pages resident in a frame other than 0 are never the ones a fault on another page moves.\<close>

lemma old_page_not:
  assumes "page_rec q s = Some r" "id_real r \<noteq> 0"
  shows "q \<noteq> search_page_id_ram 0 s"
  using first_from_cases [of "\<lambda>i. id_real (pages_info s ! i) = 0" 0 "nat (swap_pages s + ram_pages s)"] assms
  by (auto simp: search_page_id_ram_def page_rec_def split: if_splits)

lemma new_page_not:
  assumes "page_rec q s = Some r" "info r \<noteq> NONE" "page_rec p s = Some p'" "info p' = NONE"
    and "search_free_page_ram s = -1" "0 \<le> ram_pages s" "p < ram_pages s + swap_pages s"
  shows "q \<noteq> search_free_page_swap s + ram_pages s"
proof -
  let ?P = "\<lambda>i. info (pages_info s ! (i + nat (ram_pages s))) = NONE"
  have p: "0 \<le> p" "info (pages_info s ! nat p) = NONE"
    using assms(3,4) by (auto simp: page_rec_def split: if_splits)
  have "\<not> nat p < nat (ram_pages s)"
    using first_from_none [OF assms(5) [unfolded search_free_page_ram_def], of "nat p"] p(2) by auto
  then have big: "ram_pages s \<le> p" using p(1) assms(6) by linarith
  have "search_free_page_swap s \<noteq> -1"
  proof
    assume "search_free_page_swap s = -1"
    from first_from_none [OF this [unfolded search_free_page_swap_def], of "nat (p - ram_pages s)"]
    have "\<not> ?P (nat (p - ram_pages s))"
      using assms(7) big by simp
    moreover have "nat (p - ram_pages s) + nat (ram_pages s) = nat p"
      using big assms(6) by simp
    ultimately show False using p(2) by simp
  qed
  then obtain j where "?P j" "search_free_page_swap s = int j"
    using first_from_cases [of ?P 0 "nat (swap_pages s)"] by (auto simp: search_free_page_swap_def)
  moreover have "nat (int j + ram_pages s) = j + nat (ram_pages s)"
    using assms(6) by simp
  ultimately show ?thesis
    using assms(1,2) by (auto simp: page_rec_def split: if_splits)
qed

lemma set_rec_view: "set_rec p f s = Some t \<Longrightarrow> 0 \<le> q \<Longrightarrow> q \<noteq> p \<Longrightarrow> page_view q t = page_view q s"
  using set_rec_other [of p f s t q] set_rec_frame [of p f s t] by (simp add: page_view_def)

lemma handler_keeps:
  assumes "sigsegv_handler sig off s = Some (b, s')" "page_rec q s = Some r" "info r \<noteq> NONE"
    "id_real r \<noteq> 0" "q \<noteq> off sdiv int (page_size s)" "0 \<le> ram_pages s"
  shows "page_view q s' = page_view q s"
proof -
  define p where "p = off sdiv int (page_size s)"
  have q: "0 \<le> q" using assms(2) by (auto simp: page_rec_def split: if_splits)
  have old: "q \<noteq> search_page_id_ram 0 s" by (rule old_page_not [OF assms(2,4)])
  consider "s' = s"
    | (new) p' t where "page_rec p s = Some p'" "info p' = NONE" "search_free_page_ram s \<noteq> -1"
      "page_view q t = page_view q s" "set_rec p (\<lambda>r. r\<lparr>dirty := False\<rparr>) t = Some s'"
    | (swap) p' t where "page_rec p s = Some p'" "info p' = NONE" "search_free_page_ram s = -1"
      "p < ram_pages s + swap_pages s"
      "swap_data (search_page_id_ram 0 s) (search_free_page_swap s) False s = Some t"
      "set_rec p (\<lambda>r. r\<lparr>dirty := False\<rparr>) t = Some s'"
    | (upgrade) t where "set_rec p (\<lambda>r. r\<lparr>info := RAM_WRITE, dirty := True\<rparr>) s = Some t"
      "s' = mprotect p PROT_WRITE t"
    | (swapin) "swap_data_swap (search_page_id_ram 0 s) p s = Some s'"
  proof (cases "search_free_page_ram s = -1")
    case True
    with assms(1) that show thesis
      by (auto simp: sigsegv_handler_def p_def [symmetric] Let_def split: if_splits bind_splits)
  next
    case False
    have view: "page_view q v = page_view q s"
      if "set_rec p f s = Some t" "mmap_file p PROT_READ RamFile k
        (mprotect p PROT_READ (store_ram k (buffer t) t)) = Some v" for f t k v
      using set_rec_view [OF that(1) q] mmap_file_other [OF that(2), of q] assms(5)
        page_rec_cong [of v t q] by (simp add: page_view_def p_def)
    show thesis
      using False assms(1) that
      by (auto simp: sigsegv_handler_def p_def [symmetric] Let_def dest: view split: if_splits bind_splits)
  qed
  then show ?thesis
  proof cases
    case 1
    then show ?thesis by simp
  next
    case new
    with set_rec_view [OF new(5) q] assms(5) show ?thesis by (simp add: p_def)
  next
    case swap
    have "q \<noteq> search_free_page_swap s + ram_pages s"
      by (rule new_page_not [OF assms(2,3) swap(1,2,3) assms(6) swap(4)])
    from swap_data_keeps [OF swap(5) q old this] set_rec_view [OF swap(6) q] assms(5)
    show ?thesis by (simp add: p_def)
  next
    case upgrade
    with set_rec_view [OF upgrade(1) q] assms(5) show ?thesis
      by (simp add: page_view_def p_def page_rec_cong [OF mprotect_other(1)])
  next
    case swapin
    with swap_data_swap_keeps [OF swapin q old] assms(5) show ?thesis by (simp add: p_def)
  qed
qed

section \<open>The identifiers of a page\<close>

definition exclusive :: "page_record \<Rightarrow> bool" where
  "exclusive r \<longleftrightarrow> id_real r = -1 \<or> id_swap r = -1"

definition all_exclusive :: "vm \<Rightarrow> bool" where
  "all_exclusive s \<longleftrightarrow> (\<forall>r\<in>set (pages_info s). exclusive r)"

lemma set_rec_exclusive:
  assumes "set_rec i f s = Some t" "all_exclusive s" "\<And>r. exclusive r \<Longrightarrow> exclusive (f r)"
  shows "all_exclusive t"
proof -
  have "pages_info t = (pages_info s)[nat i := f (pages_info s ! nat i)]" "nat i < length (pages_info s)"
    using assms(1) by (auto simp: set_rec_def page_rec_def split: bind_splits if_splits)
  then show ?thesis
    using assms(2,3) nth_mem set_update_subset_insert unfolding all_exclusive_def by fastforce
qed

lemma swap_records_exclusive:
  assumes "swap_records new old fr sw s = Some t" "all_exclusive s"
  shows "all_exclusive t"
proof -
  obtain a b where s: "set_rec new (\<lambda>r. r\<lparr>info := RAM_READ, id_real := fr, id_swap := -1, dirty := False\<rparr>) s = Some a"
    "set_rec old (\<lambda>r. r\<lparr>info := SWAP, id_real := -1, id_swap := sw\<rparr>) a = Some b"
    "set_rec old (\<lambda>r. if \<not> dirty r \<and> swaped r then r\<lparr>id_swap := id_real r\<rparr>
       else r\<lparr>id_swap := sw, swaped := True\<rparr>) b = Some t"
    using assms(1) by (auto simp: swap_records_def split: bind_splits)
  have a: "all_exclusive a"
    by (rule set_rec_exclusive [OF s(1) assms(2)]) (simp add: exclusive_def)
  have old: "id_real (pages_info b ! nat old) = -1" "0 \<le> old" "nat old < length (pages_info b)"
    using s(2) by (auto simp: set_rec_def page_rec_def split: bind_splits if_splits)
  have b: "all_exclusive b"
    by (rule set_rec_exclusive [OF s(2) a]) (simp add: exclusive_def)
  let ?f = "\<lambda>r. if \<not> dirty r \<and> swaped r then r\<lparr>id_swap := id_real r\<rparr>
       else r\<lparr>id_swap := sw, swaped := True\<rparr>"
  have "pages_info t = (pages_info b)[nat old := ?f (pages_info b ! nat old)]"
    using s(3) old by (auto simp: set_rec_def page_rec_def split: bind_splits if_splits)
  moreover have "exclusive (?f (pages_info b ! nat old))"
    using old(1) by (simp add: exclusive_def)
  ultimately show ?thesis
    using b set_update_subset_insert unfolding all_exclusive_def by fastforce
qed

lemma all_exclusive_io [simp]:
  "all_exclusive (mprotect p pr s) = all_exclusive s" "all_exclusive (store_ram k b s) = all_exclusive s"
  "all_exclusive (store_swap k b s) = all_exclusive s"
  "all_exclusive (load_buffer1 c x y s) = all_exclusive s" "all_exclusive (load_buffer2 y s) = all_exclusive s"
  by (simp_all add: all_exclusive_def)

lemma mmap_file_exclusive: "mmap_file p pr f off s = Some t \<Longrightarrow> all_exclusive t = all_exclusive s"
  by (auto simp: mmap_file_def all_exclusive_def split: if_splits)

lemma swap_exclusive:
  "swap_data i j e s = Some t \<Longrightarrow> all_exclusive s \<Longrightarrow> all_exclusive t"
  "swap_data_swap i j s = Some t \<Longrightarrow> all_exclusive s \<Longrightarrow> all_exclusive t"
  by (auto simp: swap_data_def swap_data_swap_def Let_def dest!: mmap_file_exclusive
    dest: swap_records_exclusive split: bind_splits if_splits)

lemma set_rec_exclusives:
  "set_rec p (\<lambda>r. r\<lparr>dirty := d\<rparr>) s = Some t \<Longrightarrow> all_exclusive s \<Longrightarrow> all_exclusive t"
  "set_rec p (\<lambda>r. r\<lparr>info := i, dirty := d\<rparr>) s = Some t \<Longrightarrow> all_exclusive s \<Longrightarrow> all_exclusive t"
  "set_rec p (\<lambda>r. r\<lparr>id_real := k, id_swap := -1, info := i\<rparr>) s = Some t \<Longrightarrow>
     all_exclusive s \<Longrightarrow> all_exclusive t"
  by (erule set_rec_exclusive, assumption, simp add: exclusive_def)+

lemma handler_exclusive:
  assumes "sigsegv_handler sig off s = Some (b, s')" "all_exclusive s"
  shows "all_exclusive s'"
  using assms
  by (auto simp: sigsegv_handler_def Let_def dest!: mmap_file_exclusive
    dest: swap_exclusive set_rec_exclusives split: if_splits bind_splits)

section \<open>Properties\<close>

text \<open>
  C20: while pages are touched in order and each has a frame, the paged memory is memory: after a
  successful \<open>vinit\<close>, any program of loads and stores that keeps to such pages runs to its end, and
  every load gives the last value stored there, or 0.
\<close>

theorem vm_pages_are_memory:
  assumes "vinit n virt phys s0 = (True, s)" "0 < n" "in_order phys 0 ops"
  shows "vm_run ops s = Some (mem_run ops (\<lambda>_. replicate n 0))"
  using vm_run_resident [OF vinit_resident(1) [OF assms(1,2)], of ops] vinit_resident(2,3) [OF assms(1,2)]
    assms(3) by simp

definition no_vm :: vm where
  "no_vm = \<lparr>pages_info = [], ram_pages = -1, swap_pages = -1, page_size = 0,
     fd_ram = \<lparr>contents = [], position = 0\<rparr>, fd_swap = \<lparr>contents = [], position = 0\<rparr>,
     buffer = [], buffer1 = [7], buffer2 = [7], backed = (\<lambda>_. Anonymous), protection = (\<lambda>_. PROT_NONE),
     vm_init = False, handler_set = False, allocated = False, mapped_pages = 0\<rparr>"

lemma vinit_ok: "virt \<le> 50 \<Longrightarrow> phys \<le> 20 \<Longrightarrow> phys \<le> virt \<Longrightarrow>
    vinit n virt phys s = (True, snd (vinit n virt phys s))"
  by (simp add: vinit_def MAX_VIRTUAL_PAGES_def MAX_PHYSICAL_PAGES_def Let_def)

theorem vm_pages_are_memory_witness:
  "vm_run [Store 0 5 65, Store 1 5 66, Load 0 5, Load 1 5, Load 0 6] (snd (vinit 4096 3 2 no_vm)) =
     Some [65, 66, 0]"
  using vm_pages_are_memory [OF vinit_ok [of 3 2 4096 no_vm],
    of "[Store 0 5 65, Store 1 5 66, Load 0 5, Load 1 5, Load 0 6]"]
  by simp

lemmas vm_eval = vinit_def MAX_VIRTUAL_PAGES_def MAX_PHYSICAL_PAGES_def Let_def vstore_def vload_def
  fault_until.simps sigsegv_handler_def page_rec_def set_rec_def search_free_page_ram_def
  search_free_page_swap_def search_page_id_ram_def swap_data_def swap_data_swap_def swap_records_def
  load_buffer1_def load_buffer2_def store_swap_def store_ram_def lseek_def read_page_def write_page_def
  mmap_file_def mprotect_def page_at_def numeral_2_eq_2 numeral_3_eq_3

text \<open>
  A page that was swapped out comes back empty: with one frame and two virtual pages of any
  size, a program that stores to both and loads the first again gets 0, not the value it stored.
\<close>

theorem vm_swap_loses_data:
  assumes "0 < n" "i < n"
  shows "vm_run [Store 0 i a, Store 1 i b, Load 0 i] (snd (vinit n 2 1 no_vm)) = Some [0]"
proof -
  have "int n sdiv int n = 1" using sdiv_page [of n 1] assms(1) by simp
  then show ?thesis
    using assms by (simp add: vm_eval no_vm_def)
qed

theorem vm_swap_loses_data_witness:
  "vm_run [Store 0 9 1, Store 1 9 2, Load 0 9] (snd (vinit 4096 2 1 no_vm)) = Some [0]"
  by (rule vm_swap_loses_data) simp_all

text \<open>
  Frames are chosen by the number of an untouched virtual page, so touching pages out of order
  gives two pages the same frame: with two frames for two pages, a store to page 1 is lost, and
  both pages read 0, as soon as page 0 is touched.
\<close>

theorem vm_out_of_order_aliases:
  assumes "0 < n" "i < n"
  shows "vm_run [Store 1 i a, Load 0 i, Load 1 i] (snd (vinit n 2 2 no_vm)) = Some [0, 0]"
proof -
  have "int n sdiv int n = 1" using sdiv_page [of n 1] assms(1) by simp
  then show ?thesis
    using assms by (simp add: vm_eval no_vm_def)
qed

theorem vm_out_of_order_aliases_witness:
  "vm_run [Store 1 9 1, Load 0 9, Load 1 9] (snd (vinit 4096 2 2 no_vm)) = Some [0, 0]"
  by (rule vm_out_of_order_aliases) simp_all

text \<open>States the library can be in: after a successful \<open>vinit\<close>, any signals at any addresses, with the
  program storing into its pages in between.\<close>

inductive vm_reach :: "vm \<Rightarrow> bool" where
  start: "vinit n virt phys s0 = (True, s) \<Longrightarrow> vm_reach s"
| fault: "vm_reach s \<Longrightarrow> sigsegv_handler sig off s = Some (b, t) \<Longrightarrow> vm_reach t"
| store: "vm_reach s \<Longrightarrow> vm_reach (s\<lparr>fd_ram := (fd_ram s)\<lparr>contents := bs\<rparr>\<rparr>)"

text \<open>
  C24: a page never has an identifier in the physical memory and one in the swap at the same time.
\<close>

theorem vm_ids_exclusive:
  assumes "vm_reach s" "r \<in> set (pages_info s)"
  shows "id_real r = -1 \<or> id_swap r = -1"
proof -
  have "all_exclusive s"
    using assms(1)
  proof induction
    case (start n virt phys s0 s)
    then show ?case
      by (auto simp: vinit_def all_exclusive_def exclusive_def Let_def split: if_splits)
  next
    case (fault s sig off b t)
    then show ?case by (blast intro: handler_exclusive)
  next
    case (store s bs)
    then show ?case by (simp add: all_exclusive_def)
  qed
  with assms(2) show ?thesis by (auto simp: all_exclusive_def exclusive_def)
qed

theorem vm_ids_exclusive_witness:
  "vm_reach (snd (vinit 4096 2 1 no_vm)) \<and> id_swap (hd (pages_info (snd (vinit 4096 2 1 no_vm)))) = -1"
proof -
  have r: "vm_reach (snd (vinit 4096 2 1 no_vm))"
    by (rule vm_reach.start [OF vinit_ok]) simp_all
  have "hd (pages_info (snd (vinit 4096 2 1 no_vm))) \<in> set (pages_info (snd (vinit 4096 2 1 no_vm)))"
    by (simp add: vinit_def MAX_VIRTUAL_PAGES_def MAX_PHYSICAL_PAGES_def Let_def)
  from vm_ids_exclusive [OF r this] r show ?thesis
    by (simp add: vinit_def MAX_VIRTUAL_PAGES_def MAX_PHYSICAL_PAGES_def Let_def)
qed

text \<open>
  A fault changes the record, the mapping and the protection of the page it is for and of the page
  in frame 0 only: a page that was touched and is not in frame 0 stays where it is until it faults
  itself. So frame 0 is the only one that is ever given to another page.
\<close>

theorem vm_fault_keeps_other_pages:
  assumes "sigsegv_handler sig off s = Some (b, s')" "0 \<le> ram_pages s"
    and "page_rec q s = Some r" "info r \<noteq> NONE" "id_real r \<noteq> 0" "q \<noteq> off sdiv int (page_size s)"
  shows "page_rec q s' = Some r \<and> backed s' q = backed s q \<and> protection s' q = protection s q"
  using handler_keeps [OF assms(1,3-6,2)] assms(3) by (simp add: page_view_def)

theorem vm_fault_keeps_other_pages_witness:
  "\<exists>s s'. sigsegv_handler SIGSEGV 0 s = Some (False, s') \<and> page_rec 1 s' = page_rec 1 s \<and>
     page_rec 1 s \<noteq> None"
proof -
  let ?r = "\<lparr>id_real = 1, id_swap = -1, info = RAM_WRITE, dirty = True, swaped = False\<rparr>"
  let ?n = "\<lparr>id_real = -1, id_swap = -1, info = NONE, dirty = False, swaped = False\<rparr>"
  let ?s = "no_vm\<lparr>pages_info := [?n\<lparr>id_real := 0, info := RAM_READ\<rparr>, ?r, ?n, ?n], ram_pages := 2,
    swap_pages := 2, page_size := 4\<rparr>"
  have h: "\<exists>s'. sigsegv_handler SIGSEGV 0 ?s = Some (False, s')"
    by (simp add: sigsegv_handler_def page_rec_def set_rec_def Let_def)
  then obtain s' where s': "sigsegv_handler SIGSEGV 0 ?s = Some (False, s')" ..
  have r: "page_rec 1 ?s = Some ?r" by (simp add: page_rec_def)
  have "page_rec 1 s' = Some ?r"
    using vm_fault_keeps_other_pages [OF s' _ r] by simp
  with s' r show ?thesis by (intro exI [of _ ?s] exI [of _ s']) (simp del: page_rec_nth)
qed

text \<open>
  Which faults are the library's: an address a page or more below its memory, or beyond the pages
  it keeps records of, goes to the handler that was there before and changes nothing; an address less
  than a page below its memory is taken for page 0.
\<close>

theorem vm_foreign_faults:
  assumes "0 < page_size s"
  shows "(- int (page_size s) < off \<and> off < (ram_pages s + swap_pages s) * int (page_size s) \<or>
      sigsegv_handler SIGSEGV off s = Some (True, s)) \<and>
    (off \<le> - int (page_size s) \<or> 0 \<le> off \<or> sigsegv_handler SIGSEGV off s = sigsegv_handler SIGSEGV 0 s)"
proof -
  let ?n = "int (page_size s)"
  have n: "0 < ?n" using assms by simp
  have low: "off sdiv ?n < 0" if "off \<le> - ?n"
  proof -
    have "0 < \<bar>off\<bar> div ?n"
      using that n by (simp add: pos_imp_zdiv_pos_iff)
    then show ?thesis using that n by (simp add: signed_divide_int_def)
  qed
  have high: "ram_pages s + swap_pages s \<le> off sdiv ?n"
    if "(ram_pages s + swap_pages s) * ?n \<le> off" "\<not> off \<le> - ?n"
  proof (cases "0 \<le> off")
    case True
    then have "off sdiv ?n = off div ?n" using n by (auto simp: signed_divide_int_def sgn_if)
    moreover have "ram_pages s + swap_pages s \<le> off div ?n"
      using zdiv_mono1 [OF that(1) n] n by simp
    ultimately show ?thesis by simp
  next
    case False
    then have "\<bar>off\<bar> div ?n = 0" using that(2) n by simp
    then have "off sdiv ?n = 0" by (simp add: signed_divide_int_def)
    moreover have "ram_pages s + swap_pages s \<le> 0"
    proof (rule ccontr)
      assume "\<not> ram_pages s + swap_pages s \<le> 0"
      then have "0 < (ram_pages s + swap_pages s) * ?n" using n by simp
      with that(1) False show False by linarith
    qed
    ultimately show ?thesis by simp
  qed
  have zero: "off sdiv ?n = 0 sdiv ?n" if "- ?n < off" "off < 0"
  proof -
    have "\<bar>off\<bar> div ?n = 0" using that by simp
    then show ?thesis by (simp add: signed_divide_int_def)
  qed
  show ?thesis
  proof
    show "- ?n < off \<and> off < (ram_pages s + swap_pages s) * ?n \<or>
        sigsegv_handler SIGSEGV off s = Some (True, s)"
    proof (cases "- ?n < off \<and> off < (ram_pages s + swap_pages s) * ?n")
      case False
      then have "off sdiv ?n < 0 \<or> ram_pages s + swap_pages s \<le> off sdiv ?n"
        using low high by (cases "off \<le> - ?n") simp_all
      then show ?thesis by (auto simp: sigsegv_handler_def)
    qed simp
    show "off \<le> - ?n \<or> 0 \<le> off \<or> sigsegv_handler SIGSEGV off s = sigsegv_handler SIGSEGV 0 s"
    proof (cases "- ?n < off \<and> off < 0")
      case True
      then show ?thesis unfolding sigsegv_handler_def zero [OF True [THEN conjunct1] True [THEN conjunct2]]
        by simp
    qed auto
  qed
qed

theorem vm_foreign_faults_witness:
  "sigsegv_handler SIGSEGV (-1) (snd (vinit 4096 2 1 no_vm)) =
     sigsegv_handler SIGSEGV 0 (snd (vinit 4096 2 1 no_vm))"
proof -
  have "page_size (snd (vinit 4096 2 1 no_vm)) = 4096"
    by (simp add: vinit_def MAX_VIRTUAL_PAGES_def MAX_PHYSICAL_PAGES_def Let_def)
  then show ?thesis
    using vm_foreign_faults [of "snd (vinit 4096 2 1 no_vm)" "-1"] by simp
qed

end
