(* ===== verification/FwWindows.thy ===== *)
theory FwWindows
  imports FwLinuxCorrect
begin

text \<open>
  The Windows packet filter, \<open>src/NetworkFirewallWindows\<close>. The rule structure is the one of the Linux
  filter (\<open>fwr\<close> and its bytes); names that clash with the Linux model end in \<open>_w\<close>.

  The lists are singly linked: a node holds the address of the next one, 0 at the end, and a place
  that holds such an address is a list head or a node. Reading a node that was freed is \<open>None\<close>, and so
  is taking a held lock or reading a packet past its end. Walks along a list are partial functions,
  as a list with a cycle is walked forever. Packets are byte lists, in the chain of buffers the
  network stack passes.
\<close>

section \<open>State\<close>

record rules_list_w =
  rule_w :: addr
  timer_w :: timer_list
  Next :: addr

record firewall_w =
  pool :: "addr \<rightharpoonup> fwr"
  nodes_w :: "addr \<rightharpoonup> rules_list_w"
  head_w :: "rule_list \<Rightarrow> addr"
  lock_w :: bool
  enabled_w :: bool
  hooked :: bool
  devices :: "addr list"
  link_w :: bool

datatype place = Head rule_list | Node addr

definition next_of :: "place \<Rightarrow> firewall_w \<Rightarrow> addr option" where
  "next_of p s = (case p of Head L \<Rightarrow> Some (head_w s L) | Node a \<Rightarrow> map_option Next (nodes_w s a))"

definition set_next :: "place \<Rightarrow> addr \<Rightarrow> firewall_w \<Rightarrow> firewall_w option" where
  "set_next p x s = (case p of
     Head L \<Rightarrow> Some (s\<lparr>head_w := (head_w s)(L := x)\<rparr>)
   | Node a \<Rightarrow> (case nodes_w s a of None \<Rightarrow> None
       | Some n \<Rightarrow> Some (s\<lparr>nodes_w := (nodes_w s)(a \<mapsto> n\<lparr>Next := x\<rparr>)\<rparr>)))"

definition PushEntryList :: "rule_list \<Rightarrow> addr \<Rightarrow> firewall_w \<Rightarrow> firewall_w option" where
  "PushEntryList L a s = do {
     s \<leftarrow> set_next (Node a) (head_w s L) s;
     set_next (Head L) a s
   }"

text \<open>The entry after a place is unlinked.\<close>

definition PopEntryList :: "place \<Rightarrow> firewall_w \<Rightarrow> firewall_w option" where
  "PopEntryList p s = do {
     first \<leftarrow> next_of p s;
     if first = 0 then Some s
     else do { after \<leftarrow> next_of (Node first) s; set_next p after s }
   }"

definition acquire :: "firewall_w \<Rightarrow> firewall_w option" where
  "acquire s = (if lock_w s then None else Some (s\<lparr>lock_w := True\<rparr>))"

definition release :: "firewall_w \<Rightarrow> firewall_w" where
  "release s = s\<lparr>lock_w := False\<rparr>"

text \<open>\<open>KeSetTimer\<close> with \<open>-TIMEOUT * 1000 * 10\<close>: 300 ms from now, in units of 100 ns.\<close>

definition TIMEOUT_w :: u32 where
  "TIMEOUT_w = - (300 * 1000 * 10)"

definition KeSetTimer :: "addr \<Rightarrow> firewall_w \<Rightarrow> firewall_w option" where
  "KeSetTimer a s = (case nodes_w s a of
     None \<Rightarrow> None
   | Some n \<Rightarrow> Some (s\<lparr>nodes_w := (nodes_w s)(a \<mapsto> n\<lparr>timer_w := (timer_w n)\<lparr>expires := Some TIMEOUT_w\<rparr>\<rparr>)\<rparr>))"

section \<open>Rule lists\<close>

definition add_rule_w :: "rule_arg \<Rightarrow> rule_list \<Rightarrow> int \<Rightarrow> (addr \<times> timer_list) option \<Rightarrow> addr option \<Rightarrow>
    firewall_w \<Rightarrow> (ntstatus \<times> firewall_w) option" where
  "add_rule_w arg head proto k1 k2 s = do {
     s \<leftarrow> acquire s;
     case k1 of
       None \<Rightarrow> Some (STATUS_INSUFFICIENT_RESOURCES, release s)
     | Some (ple, t0) \<Rightarrow>
         (let node = (\<lambda>p t. \<lparr>rule_w = p, timer_w = t, Next = 0\<rparr>);
              timer = (if proto = -1 then setup_timer null_timer_callback ple
                else if proto = IPPROTO_TCP then setup_timer tcp_timer_callback ple
                else if proto = IPPROTO_UDP
                then (setup_timer udp_timer_callback ple)\<lparr>expires := Some TIMEOUT_w\<rparr>
                else t0);
              link = (\<lambda>p s. do {
                s \<leftarrow> PushEntryList head ple (s\<lparr>nodes_w := (nodes_w s)(ple \<mapsto> node p timer)\<rparr>);
                Some (STATUS_SUCCESS, release s) })
          in case arg of
               OnStack r \<Rightarrow> (case k2 of
                 None \<Rightarrow> Some (STATUS_INSUFFICIENT_RESOURCES,
                   release (s\<lparr>nodes_w := (nodes_w s)(ple \<mapsto> node 0 t0)\<rparr>))
               | Some p \<Rightarrow> link p (s\<lparr>pool := (pool s)(p \<mapsto> r)\<rparr>))
             | OnHeap p \<Rightarrow> link p s)
   }"

definition node_image_w :: "(timer_list \<Rightarrow> bytes) \<Rightarrow> rules_list_w \<Rightarrow> bytes" where
  "node_image_w tim n = take 24 (le32 (rule_w n) @ tim (timer_w n))"

text \<open>The loop of \<open>del_rule\<close>: \<open>j\<close> is the place before \<open>i\<close>; the match is unlinked after \<open>j\<close>, freed,
  and the function returns.\<close>

partial_function (option) del_walk ::
  "(timer_list \<Rightarrow> bytes) \<Rightarrow> addr \<Rightarrow> place \<Rightarrow> addr \<Rightarrow> firewall_w \<Rightarrow> (ntstatus \<times> firewall_w) option" where
  "del_walk tim r j i s =
     (if i = 0 then Some (STATUS_INSUFFICIENT_RESOURCES, s)
      else do {
        ple \<leftarrow> nodes_w s i;
        n \<leftarrow> nodes_w s r;
        if node_image_w tim ple = node_image_w tim n then do {
          s \<leftarrow> PopEntryList j s;
          Some (STATUS_SUCCESS, s\<lparr>nodes_w := (nodes_w s)(i := None)\<rparr>)
        }
        else del_walk tim r (Node i) (Next ple) s
      })"

definition del_rule_w ::
  "(timer_list \<Rightarrow> bytes) \<Rightarrow> addr \<Rightarrow> rule_list \<Rightarrow> firewall_w \<Rightarrow> (ntstatus \<times> firewall_w) option" where
  "del_rule_w tim r head s = do {
     s \<leftarrow> acquire s;
     (st, s) \<leftarrow> del_walk tim r (Head head) (head_w s head) s;
     Some (st, release s)
   }"

definition run_callback_w ::
  "(timer_list \<Rightarrow> bytes) \<Rightarrow> callback \<Rightarrow> addr \<Rightarrow> firewall_w \<Rightarrow> firewall_w option" where
  "run_callback_w tim f context s = (case f of
     udp_timer_callback \<Rightarrow> map_option snd (del_rule_w tim context UdpDynamic s)
   | tcp_timer_callback \<Rightarrow> map_option snd (del_rule_w tim context TcpDynamic s)
   | null_timer_callback \<Rightarrow> Some s)"

definition match_rule_w :: "fwr \<Rightarrow> fwr \<Rightarrow> bool" where
  "match_rule_w src dest \<longleftrightarrow>
     ip_src src AND ip_src_mask dest = ip_src dest AND ip_src_mask dest \<and>
     ip_dst src AND ip_dst_mask dest = ip_dst dest AND ip_dst_mask dest \<and>
     fst (port_src src) \<ge> fst (port_src dest) \<and> snd (port_src src) \<le> snd (port_src dest) \<and>
     fst (port_dst src) \<ge> fst (port_dst dest) \<and> snd (port_dst src) \<le> snd (port_dst dest)"

partial_function (option) search_walk :: "fwr \<Rightarrow> addr \<Rightarrow> firewall_w \<Rightarrow> addr option" where
  "search_walk q i s =
     (if i = 0 then Some 0
      else do {
        ple \<leftarrow> nodes_w s i;
        r \<leftarrow> pool s (rule_w ple);
        if match_rule_w q r then Some i else search_walk q (Next ple) s
      })"

text \<open>The address of the node found, 0 (NULL) when there is none.\<close>

definition search_rule_w :: "fwr \<Rightarrow> rule_list \<Rightarrow> firewall_w \<Rightarrow> (addr \<times> firewall_w) option" where
  "search_rule_w q head s = do {
     s \<leftarrow> acquire s;
     a \<leftarrow> search_walk q (head_w s head) s;
     Some (a, release s)
   }"

text \<open>The loop of \<open>destroy_list\<close>: the entry after \<open>j\<close> is unlinked, \<open>i\<close> is freed, and the loop goes on
  with \<open>j = i, i = i->Next\<close>, which reads the node it has just freed.\<close>

partial_function (option) destroy_walk :: "place \<Rightarrow> addr \<Rightarrow> firewall_w \<Rightarrow> firewall_w option" where
  "destroy_walk j i s =
     (if i = 0 then Some s
      else do {
        ple \<leftarrow> nodes_w s i;
        s \<leftarrow> PopEntryList j s;
        let s = s\<lparr>nodes_w := (nodes_w s)(i := None)\<rparr>;
        after \<leftarrow> next_of (Node i) s;
        destroy_walk (Node i) after s
      })"

definition destroy_list_w :: "rule_list \<Rightarrow> firewall_w \<Rightarrow> firewall_w option" where
  "destroy_list_w head s = do {
     s \<leftarrow> acquire s;
     s \<leftarrow> destroy_walk (Head head) (head_w s head) s;
     Some (release s)
   }"

partial_function (option) size_walk :: "addr \<Rightarrow> nat \<Rightarrow> firewall_w \<Rightarrow> nat option" where
  "size_walk i n s =
     (if i = 0 then Some n
      else do { ple \<leftarrow> nodes_w s i; size_walk (Next ple) (n + 1) s })"

definition list_size_w :: "rule_list \<Rightarrow> firewall_w \<Rightarrow> nat option" where
  "list_size_w head s = size_walk (head_w s head) 0 s"

partial_function (option) buffer_walk ::
  "store \<Rightarrow> nat \<Rightarrow> nat \<Rightarrow> addr \<Rightarrow> firewall_w \<Rightarrow> store option" where
  "buffer_walk buf off k i s =
     (if i = 0 then Some buf
      else do {
        ple \<leftarrow> nodes_w s i;
        r \<leftarrow> pool s (rule_w ple);
        buffer_walk (poke buf (off + k * 24) (fwr_image r)) off (k + 1) (Next ple) s
      })"

definition add_rules_to_buffer_w :: "store \<Rightarrow> nat \<Rightarrow> rule_list \<Rightarrow> firewall_w \<Rightarrow> store option" where
  "add_rules_to_buffer_w buf off head s = buffer_walk buf off 0 (head_w s head) s"

section \<open>Packets\<close>

text \<open>The fields of the packed header structures, read from a packet at an offset.\<close>

definition rd8 :: "bytes \<Rightarrow> nat \<Rightarrow> u8 option" where
  "rd8 p i = (if i < length p then Some (p ! i) else None)"

definition rd16 :: "bytes \<Rightarrow> nat \<Rightarrow> u16 option" where
  "rd16 p i = (if i + 2 \<le> length p then Some (un_le16 (drop i p)) else None)"

definition rd32 :: "bytes \<Rightarrow> nat \<Rightarrow> u32 option" where
  "rd32 p i = (if i + 4 \<le> length p then Some (un_le32 (drop i p)) else None)"

definition ip_headerLength :: "bytes \<Rightarrow> nat option" where
  "ip_headerLength p = map_option (\<lambda>b. unat (b AND 0x0F)) (rd8 p 0)"

definition ip_protocol :: "bytes \<Rightarrow> u8 option" where "ip_protocol p = rd8 p 9"
definition ip_source :: "bytes \<Rightarrow> u32 option" where "ip_source p = rd32 p 12"
definition ip_destination :: "bytes \<Rightarrow> u32 option" where "ip_destination p = rd32 p 16"

text \<open>The ports are the first two fields of both the TCP and the UDP header; the TCP flags are in its
  byte 13.\<close>

definition sourcePort :: "bytes \<Rightarrow> nat \<Rightarrow> u16 option" where "sourcePort p at = rd16 p at"
definition destinationPort :: "bytes \<Rightarrow> nat \<Rightarrow> u16 option" where "destinationPort p at = rd16 p (at + 2)"
definition tcp_flag :: "nat \<Rightarrow> bytes \<Rightarrow> nat \<Rightarrow> bool option" where
  "tcp_flag n p at = map_option (\<lambda>b. bit b n) (rd8 p (at + 13))"

definition new_rule_w :: "u32 \<Rightarrow> u32 \<Rightarrow> u32 \<Rightarrow> u32 \<Rightarrow> u16 \<Rightarrow> u16 \<Rightarrow> u16 \<Rightarrow> u16 \<Rightarrow> fwr" where
  "new_rule_w src dst src_mask dst_mask ps0 ps1 pd0 pd1 =
     \<lparr>ip_src = src, ip_dst = dst, ip_src_mask = src_mask, ip_dst_mask = dst_mask,
      port_src = (ps0, ps1), port_dst = (pd0, pd1)\<rparr>"

definition generate_tcp_dynamic_rule_w :: "bytes \<Rightarrow> nat \<Rightarrow> bool \<Rightarrow> fwr option" where
  "generate_tcp_dynamic_rule_w p at out = do {
     src \<leftarrow> ip_source p; dst \<leftarrow> ip_destination p;
     sp \<leftarrow> sourcePort p at; dp \<leftarrow> destinationPort p at;
     Some (if out then new_rule_w dst src 0xFFFF 0xFFFF dp dp sp sp
       else new_rule_w src dst 0 0 sp sp dp dp)
   }"

definition generate_udp_dynamic_rule_w :: "bytes \<Rightarrow> nat \<Rightarrow> bool \<Rightarrow> fwr option" where
  "generate_udp_dynamic_rule_w p at out = do {
     src \<leftarrow> ip_source p; dst \<leftarrow> ip_destination p;
     sp \<leftarrow> sourcePort p at; dp \<leftarrow> destinationPort p at;
     Some (if out then new_rule_w dst src 0 0 dp dp sp sp
       else new_rule_w src dst 0 0 sp sp dp dp)
   }"

datatype forward_action = FORWARD | DROP

text \<open>The two parts of \<open>FilterPacket\<close>: what a packet from an interface meets, with \<open>None\<close> as first
  result when it is neither TCP nor UDP and the function goes on; and what a packet to an
  interface does.\<close>

definition filter_recv :: "bytes \<Rightarrow> nat \<Rightarrow> firewall_w \<Rightarrow> (forward_action option \<times> firewall_w) option" where
  "filter_recv p at s = do {
     proto \<leftarrow> ip_protocol p;
     if proto = 6 then do {
       r \<leftarrow> generate_tcp_dynamic_rule_w p at False;
       (a, s) \<leftarrow> search_rule_w r Static s;
       if a \<noteq> 0 then Some (Some FORWARD, s)
       else do {
         (a, s) \<leftarrow> search_rule_w r TcpDynamic s;
         Some (Some (if a \<noteq> 0 then FORWARD else DROP), s)
       }
     }
     else if proto = 17 then do {
       r \<leftarrow> generate_udp_dynamic_rule_w p at False;
       (a, s) \<leftarrow> search_rule_w r Static s;
       if a \<noteq> 0 then Some (Some FORWARD, s)
       else do {
         (a, s) \<leftarrow> search_rule_w r UdpDynamic s;
         if a \<noteq> 0 then do { s \<leftarrow> KeSetTimer a s; Some (Some FORWARD, s) }
         else Some (Some DROP, s)
       }
     }
     else Some (None, s)
   }"

definition filter_send ::
  "bytes \<Rightarrow> nat \<Rightarrow> (addr \<times> timer_list) option \<Rightarrow> addr option \<Rightarrow> firewall_w \<Rightarrow> firewall_w option" where
  "filter_send p at k1 k2 s = do {
     proto \<leftarrow> ip_protocol p;
     if proto = 6 then do {
       r \<leftarrow> generate_tcp_dynamic_rule_w p at True;
       syn \<leftarrow> tcp_flag 1 p at; ack \<leftarrow> tcp_flag 4 p at; fin \<leftarrow> tcp_flag 0 p at;
       if syn \<and> \<not> ack then map_option snd (add_rule_w (OnStack r) TcpDynamic IPPROTO_TCP k1 k2 s)
       else if fin then do {
         (a, s) \<leftarrow> search_rule_w r TcpDynamic s;
         if a \<noteq> 0 then KeSetTimer a s else Some s
       }
       else Some s
     }
     else if proto = 17 then do {
       r \<leftarrow> generate_udp_dynamic_rule_w p at True;
       (a, s) \<leftarrow> search_rule_w r UdpDynamic s;
       if a \<noteq> 0 then KeSetTimer a s
       else map_option snd (add_rule_w (OnStack r) UdpDynamic IPPROTO_UDP k1 k2 s)
     }
     else Some s
   }"

definition FilterPacket :: "bytes \<Rightarrow> nat \<Rightarrow> u32 \<Rightarrow> u32 \<Rightarrow> (addr \<times> timer_list) option \<Rightarrow> addr option \<Rightarrow>
    firewall_w \<Rightarrow> (forward_action \<times> firewall_w) option" where
  "FilterPacket p at recv send k1 k2 s = do {
     (done, s) \<leftarrow> (if recv > 0 then filter_recv p at s else Some (None, s));
     case done of
       Some action \<Rightarrow> Some (action, s)
     | None \<Rightarrow> do {
         s \<leftarrow> (if send > 0 then filter_send p at k1 k2 s else Some s);
         Some (FORWARD, s)
       }
   }"

text \<open>The packet is put together from the chain of receive buffers: their sizes are added up, and
  each is copied behind the ones before it. \<open>mem\<close> is the block allocated for it, if any.\<close>

fun chain_size :: "bytes list \<Rightarrow> nat" where
  "chain_size [] = 0"
| "chain_size (b # bs) = length b + chain_size bs"

fun copy_chain :: "store \<Rightarrow> nat \<Rightarrow> bytes list \<Rightarrow> store" where
  "copy_chain m off [] = m"
| "copy_chain m off (b # bs) = copy_chain (poke m off b) (off + length b) bs"

definition callbackFilterFunction :: "bytes list \<Rightarrow> store option \<Rightarrow> u32 \<Rightarrow> u32 \<Rightarrow>
    (addr \<times> timer_list) option \<Rightarrow> addr option \<Rightarrow> firewall_w \<Rightarrow> (forward_action \<times> firewall_w) option" where
  "callbackFilterFunction bufs mem recv send k1 k2 s =
     (if bufs = [] then Some (FORWARD, s)
      else (let bufferSize = chain_size bufs in
        case mem of
          None \<Rightarrow> Some (FORWARD, s)
        | Some m \<Rightarrow>
            (let packet = peek (copy_chain m 0 bufs) 0 bufferSize in do {
               hl \<leftarrow> ip_headerLength packet;
               FilterPacket packet (hl * 4) recv send k1 k2 s
             })))"

section \<open>The driver\<close>

definition NT_SUCCESS :: "ntstatus \<Rightarrow> bool" where
  "NT_SUCCESS st = (case st of STATUS_SUCCESS \<Rightarrow> True | STATUS_OTHER w \<Rightarrow> \<not> bit w 31 | _ \<Rightarrow> False)"

text \<open>Setting the hook in the IP driver: what opening its device answers, whether a packet could be
  built, and the status it completes with; the hook is set when that is a success.\<close>

definition SetCallback :: "bool \<Rightarrow> ntstatus \<Rightarrow> bool \<Rightarrow> ntstatus \<Rightarrow> firewall_w \<Rightarrow> ntstatus \<times> firewall_w" where
  "SetCallback load open_status irp_ok io_status s =
     (if \<not> NT_SUCCESS open_status then (open_status, s)
      else if \<not> irp_ok then (STATUS_INSUFFICIENT_RESOURCES, s)
      else (io_status, if NT_SUCCESS io_status then s\<lparr>hooked := load\<rparr> else s))"

definition RegisterCallback :: "ntstatus \<Rightarrow> bool \<Rightarrow> ntstatus \<Rightarrow> firewall_w \<Rightarrow> ntstatus \<times> firewall_w" where
  "RegisterCallback = SetCallback True"

definition UnregisterCallback :: "ntstatus \<Rightarrow> bool \<Rightarrow> ntstatus \<Rightarrow> firewall_w \<Rightarrow> ntstatus \<times> firewall_w" where
  "UnregisterCallback = SetCallback False"

definition ipfirewall_open_w :: "firewall_w \<Rightarrow> ntstatus \<times> nat \<times> firewall_w" where
  "ipfirewall_open_w s = (STATUS_SUCCESS, 0, s)"

definition ipfirewall_cleanup_w :: "firewall_w \<Rightarrow> ntstatus \<times> nat \<times> firewall_w" where
  "ipfirewall_cleanup_w s = (STATUS_SUCCESS, 0, s)"

definition ipfirewall_close_w :: "firewall_w \<Rightarrow> ntstatus \<times> nat \<times> firewall_w" where
  "ipfirewall_close_w s = (STATUS_SUCCESS, 0, s)"

datatype ioctl_w =
    ADD_RULE_w "addr option" "(addr \<times> timer_list) option"
  | ENABLE_w ntstatus bool ntstatus
  | DISABLE_w ntstatus bool ntstatus
  | LIST_w bool
  | UNKNOWN_w

text \<open>\<open>FW_LIST\<close>; the request's buffer is input and output.\<close>

definition fw_list_w ::
  "bool \<Rightarrow> store \<Rightarrow> firewall_w \<Rightarrow> (ntstatus \<times> nat \<times> store \<times> firewall_w) option" where
  "fw_list_w buf_ok um s = do {
     s_size \<leftarrow> list_size_w Static s;
     tcp_size \<leftarrow> list_size_w TcpDynamic s;
     udp_size \<leftarrow> list_size_w UdpDynamic s;
     let kernel_size = s_size + tcp_size + udp_size;
     let user_size = sint (un_le32 (peek um 0 4));
     if kernel_size = 0 \<and> user_size \<le> 0 then Some (STATUS_SUCCESS, 4, poke um 0 (le32 0), s)
     else if int kernel_size > user_size
     then Some (STATUS_SUCCESS, 4, poke um 0 (le32 (of_nat kernel_size)), s)
     else if \<not> buf_ok then Some (STATUS_INSUFFICIENT_RESOURCES, 0, um, s)
     else do {
       let buf = poke (\<lambda>_. 0) 0 (le32 (of_nat kernel_size));
       buf \<leftarrow> add_rules_to_buffer_w buf 4 Static s;
       buf \<leftarrow> add_rules_to_buffer_w buf (s_size * 24 + 4) TcpDynamic s;
       buf \<leftarrow> add_rules_to_buffer_w buf ((tcp_size + s_size) * 24 + 4) UdpDynamic s;
       let size_write = kernel_size * 24 + 4;
       Some (STATUS_SUCCESS, size_write, poke um 0 (peek buf 0 size_write), s)
     }
   }"

definition ipfirewall_ioctl_w ::
  "ioctl_w \<Rightarrow> store \<Rightarrow> firewall_w \<Rightarrow> (ntstatus \<times> nat \<times> store \<times> firewall_w) option" where
  "ipfirewall_ioctl_w cmd um s = (case cmd of
     ADD_RULE_w k0 k1 \<Rightarrow>
       (case k0 of
          None \<Rightarrow> Some (STATUS_INSUFFICIENT_RESOURCES, 0, um, s)
        | Some p \<Rightarrow> do {
            (_, s) \<leftarrow> add_rule_w (OnHeap p) Static (-1) k1 None
              (s\<lparr>pool := (pool s)(p \<mapsto> un_fwr (peek um 0 24))\<rparr>);
            Some (STATUS_SUCCESS, 0, um, s)
          })
   | ENABLE_w a b c \<Rightarrow> Some (STATUS_SUCCESS, 0, um, if \<not> enabled_w s
       then snd (RegisterCallback a b c (s\<lparr>enabled_w := True\<rparr>)) else s)
   | DISABLE_w a b c \<Rightarrow> Some (STATUS_SUCCESS, 0, um, if enabled_w s
       then snd (UnregisterCallback a b c (s\<lparr>enabled_w := False\<rparr>)) else s)
   | LIST_w buf_ok \<Rightarrow> fw_list_w buf_ok um s
   | UNKNOWN_w \<Rightarrow> Some (STATUS_ILLEGAL_FUNCTION, 0, um, s))"

text \<open>Unloading. When the conversion of the link's name fails, the string freed after it is not
  initialised: \<open>None\<close>.\<close>

definition DriverUnload_w ::
  "ntstatus \<Rightarrow> bool \<Rightarrow> ntstatus \<Rightarrow> bool \<Rightarrow> firewall_w \<Rightarrow> firewall_w option" where
  "DriverUnload_w a b c link_ok s = do {
     s \<leftarrow> destroy_list_w Static s;
     s \<leftarrow> destroy_list_w TcpDynamic s;
     s \<leftarrow> destroy_list_w UdpDynamic s;
     let s = (if enabled_w s then (snd (UnregisterCallback a b c s))\<lparr>enabled_w := False\<rparr> else s);
     if link_ok then Some (s\<lparr>link_w := False, devices := []\<rparr>) else None
   }"

text \<open>Loading, with what the kernel answers: the conversions, the device and its address, the link, and
  the registration of the hook. A failure unloads what was made.\<close>

record entry_answers =
  create_status :: ntstatus
  new_dev :: addr
  symlink_status :: ntstatus
  hook_open :: ntstatus
  hook_irp :: bool
  hook_io :: ntstatus
  unload_link_ok :: bool

definition DriverEntry_w :: "entry_answers \<Rightarrow> firewall_w \<Rightarrow> (ntstatus \<times> firewall_w) option" where
  "DriverEntry_w a s =
     (let fail = (\<lambda>st s. map_option (Pair st)
            (DriverUnload_w (hook_open a) (hook_irp a) (hook_io a) (unload_link_ok a) s))
      in if create_status a \<noteq> STATUS_SUCCESS then fail (create_status a) s
         else (let s = s\<lparr>devices := new_dev a # devices s\<rparr> in
           if symlink_status a \<noteq> STATUS_SUCCESS then fail (symlink_status a) s
           else (let s = s\<lparr>link_w := True, enabled_w := True\<rparr> in
             Some (STATUS_SUCCESS, snd (RegisterCallback (hook_open a) (hook_irp a) (hook_io a) s)))))"

end
