(* ===== verification/FwWindowsCorrect.thy ===== *)
theory FwWindowsCorrect
  imports FwWindows
begin

text \<open>
  Correctness of the Windows packet filter: well-formed linked lists and the walks along them, the
  lists as a rule store, the filter function against its specification, the listing call, and the
  freed node that emptying a list reads.
\<close>

section \<open>Well-formed lists\<close>

text \<open>The nodes from an address on are \<open>as\<close>.\<close>

fun chain :: "(addr \<rightharpoonup> rules_list_w) \<Rightarrow> addr \<Rightarrow> addr list \<Rightarrow> bool" where
  "chain ns p [] \<longleftrightarrow> p = 0"
| "chain ns p (a # as) \<longleftrightarrow> p = a \<and> a \<noteq> 0 \<and> (\<exists>n. ns a = Some n \<and> chain ns (Next n) as)"

definition rule_of_w :: "firewall_w \<Rightarrow> addr \<Rightarrow> fwr" where
  "rule_of_w s a = the (pool s (rule_w (the (nodes_w s a))))"

definition rules_w :: "firewall_w \<Rightarrow> (rule_list \<Rightarrow> addr list) \<Rightarrow> rule_list \<Rightarrow> fwr list" where
  "rules_w s xs L = map (rule_of_w s) (xs L)"

definition live_w :: "firewall_w \<Rightarrow> addr \<Rightarrow> bool" where
  "live_w s a \<longleftrightarrow> a \<noteq> 0 \<and> (\<exists>n. nodes_w s a = Some n \<and> pool s (rule_w n) \<noteq> None)"

definition win_ok :: "firewall_w \<Rightarrow> (rule_list \<Rightarrow> addr list) \<Rightarrow> bool" where
  "win_ok s xs \<longleftrightarrow> \<not> lock_w s \<and> (\<forall>L. chain (nodes_w s) (head_w s L) (xs L)) \<and>
     (\<forall>L. \<forall>a\<in>set (xs L). live_w s a)"

lemma win_okD:
  assumes "win_ok s xs"
  shows win_lock: "\<not> lock_w s" and win_chain: "chain (nodes_w s) (head_w s L) (xs L)"
    and win_live: "a \<in> set (xs L) \<Longrightarrow> live_w s a"
  using assms unfolding win_ok_def by blast+

lemma liveE:
  assumes "live_w s a"
  obtains n where "a \<noteq> 0" "nodes_w s a = Some n" "pool s (rule_w n) = Some (rule_of_w s a)"
  using assms by (auto simp: live_w_def rule_of_w_def)

lemma views_lock_w [simp]:
  "rule_of_w (s\<lparr>lock_w := b\<rparr>) = rule_of_w s" "live_w (s\<lparr>lock_w := b\<rparr>) = live_w s"
  "rules_w (s\<lparr>lock_w := b\<rparr>) = rules_w s"
  by (auto simp: rule_of_w_def live_w_def rules_w_def fun_eq_iff)

lemma acquire_free: "win_ok s xs \<Longrightarrow> acquire s = Some (s\<lparr>lock_w := True\<rparr>)"
  by (simp add: acquire_def win_ok_def)

lemma release_acquired: "win_ok s xs \<Longrightarrow> release (s\<lparr>lock_w := True\<rparr>) = s"
  by (cases s) (simp add: release_def win_ok_def)

section \<open>Walks\<close>

lemma search_walk_chain:
  assumes "chain (nodes_w s) p xs" "\<forall>a\<in>set xs. live_w s a"
  shows "search_walk q p s = Some (case List.find (\<lambda>a. match_rule_w q (rule_of_w s a)) xs of
    None \<Rightarrow> 0 | Some a \<Rightarrow> a)"
  using assms
proof (induction xs arbitrary: p)
  case Nil
  then show ?case by (subst search_walk.simps) simp
next
  case (Cons a xs)
  then have p: "p = a" by simp
  from Cons.prems obtain n where n: "a \<noteq> 0" "nodes_w s a = Some n" "chain (nodes_w s) (Next n) xs"
    by auto
  have "pool s (rule_w n) = Some (rule_of_w s a)"
    using Cons.prems(2) n by (auto simp: live_w_def rule_of_w_def)
  with n p Cons.IH [OF n(3)] Cons.prems(2) show ?case
    by (subst search_walk.simps) simp
qed

lemma size_walk_chain:
  "chain (nodes_w s) p xs \<Longrightarrow> size_walk p n s = Some (n + length xs)"
proof (induction xs arbitrary: p n)
  case Nil
  then show ?case by (subst size_walk.simps) simp
next
  case (Cons a xs)
  then show ?case by (subst size_walk.simps) auto
qed

lemma buffer_walk_chain:
  assumes "chain (nodes_w s) p xs" "\<forall>a\<in>set xs. live_w s a"
  shows "buffer_walk buf off k p s = Some (poke buf (off + k * 24) (serialize (map (rule_of_w s) xs)))"
  using assms
proof (induction xs arbitrary: p buf k)
  case Nil
  then show ?case by (subst buffer_walk.simps) simp
next
  case (Cons a xs)
  then have p: "p = a" by simp
  from Cons.prems obtain n where n: "a \<noteq> 0" "nodes_w s a = Some n" "chain (nodes_w s) (Next n) xs"
    by auto
  have r: "pool s (rule_w n) = Some (rule_of_w s a)"
    using Cons.prems(2) n by (auto simp: live_w_def rule_of_w_def)
  have "buffer_walk buf off k p s =
      buffer_walk (poke buf (off + k * 24) (fwr_image (rule_of_w s a))) off (k + 1) (Next n) s"
    using n p r by (subst buffer_walk.simps) simp
  also have "\<dots> = Some (poke (poke buf (off + k * 24) (fwr_image (rule_of_w s a)))
      (off + (k + 1) * 24) (serialize (map (rule_of_w s) xs)))"
    using Cons.prems(2) by (intro Cons.IH [OF n(3)]) simp
  also have "off + (k + 1) * 24 = (off + k * 24) + length (fwr_image (rule_of_w s a))" by simp
  finally show ?case by (simp only: poke_append serialize_simps list.map)
qed

text \<open>Writing to a node outside a chain, or a node's timer, leaves the chain.\<close>

lemma chain_other: "a \<notin> set xs \<Longrightarrow> chain (ns(a := v)) p xs = chain ns p xs"
  by (induction xs arbitrary: p) auto

lemma chain_same_next:
  "ns a = Some n \<Longrightarrow> Next m = Next n \<Longrightarrow> chain (ns(a \<mapsto> m)) p xs = chain ns p xs"
  by (induction xs arbitrary: p) auto

section \<open>Operations on well-formed lists\<close>

lemma search_rule_w_ok:
  assumes "win_ok s xs"
  shows "search_rule_w q L s = Some (case List.find (\<lambda>a. match_rule_w q (rule_of_w s a)) (xs L) of
    None \<Rightarrow> 0 | Some a \<Rightarrow> a, s)"
  using search_walk_chain [of "s\<lparr>lock_w := True\<rparr>" "head_w s L" "xs L" q] assms
    win_chain [OF assms] win_live [OF assms]
  by (simp add: search_rule_w_def acquire_free [OF assms] release_acquired [OF assms])

text \<open>Whether a rule of a list is hit, as the search reports it.\<close>

definition lets_in_w :: "fwr \<Rightarrow> fwr list \<Rightarrow> bool" where
  "lets_in_w q rs \<longleftrightarrow> (\<exists>r\<in>set rs. match_rule_w q r)"

lemma search_rule_w_hit:
  assumes "win_ok s xs"
  obtains a where "search_rule_w q L s = Some (a, s)" "a \<noteq> 0 \<longleftrightarrow> lets_in_w q (rules_w s xs L)"
    "a \<noteq> 0 \<Longrightarrow> a \<in> set (xs L)"
proof (cases "List.find (\<lambda>a. match_rule_w q (rule_of_w s a)) (xs L)")
  case None
  then have "search_rule_w q L s = Some (0, s)"
    using search_rule_w_ok [OF assms, of q L] by simp
  with None show thesis
    using that [of 0] by (auto simp: find_None lets_in_w_def rules_w_def)
next
  case (Some a)
  then have "a \<in> set (xs L)" "match_rule_w q (rule_of_w s a)"
    using find_SomeD [OF Some] by auto
  moreover have "a \<noteq> 0" using win_live [OF assms] calculation(1) by (auto simp: live_w_def)
  ultimately show thesis
    using that [of a] search_rule_w_ok [OF assms, of q L] Some
    by (auto simp: lets_in_w_def rules_w_def)
qed

lemma KeSetTimer_ok:
  assumes "win_ok s xs" "a \<in> set (xs L)"
  obtains s' where "KeSetTimer a s = Some s'" "win_ok s' xs" "rules_w s' xs = rules_w s xs"
proof -
  obtain n where n: "nodes_w s a = Some n"
    using win_live [OF assms] by (auto simp: live_w_def)
  let ?m = "n\<lparr>timer_w := (timer_w n)\<lparr>expires := Some TIMEOUT_w\<rparr>\<rparr>"
  let ?s = "s\<lparr>nodes_w := (nodes_w s)(a \<mapsto> ?m)\<rparr>"
  have "rule_of_w ?s = rule_of_w s" "live_w ?s = live_w s"
    using n by (auto simp: rule_of_w_def live_w_def fun_eq_iff)
  moreover have "chain (nodes_w ?s) p ys = chain (nodes_w s) p ys" for p ys
    using chain_same_next [of "nodes_w s" a n ?m] n by simp
  ultimately show thesis
    using that [of ?s] n assms(1) by (simp add: KeSetTimer_def win_ok_def rules_w_def fun_eq_iff)
qed

definition room_w :: "(addr \<times> timer_list) option \<Rightarrow> addr option \<Rightarrow> firewall_w \<Rightarrow> bool" where
  "room_w k1 k2 s \<longleftrightarrow> (\<forall>a t. k1 = Some (a, t) \<longrightarrow> a \<noteq> 0 \<and> nodes_w s a = None) \<and>
     (\<forall>p. k2 = Some p \<longrightarrow> pool s p = None)"

lemma win_ok_extend:
  fixes n :: rules_list_w and r :: fwr
  assumes "win_ok s xs" "nodes_w s a = None" "pool s p = None"
  defines "s' \<equiv> s\<lparr>pool := (pool s)(p \<mapsto> r), nodes_w := (nodes_w s)(a \<mapsto> n)\<rparr>"
  shows "chain (nodes_w s') (head_w s L) (xs L)" "b \<in> set (xs L) \<Longrightarrow> live_w s' b"
    "b \<in> set (xs L) \<Longrightarrow> rule_of_w s' b = rule_of_w s b" "a \<notin> set (xs L)"
proof -
  show new: "a \<notin> set (xs L)"
    using win_live [OF assms(1), of a L] assms(2) by (auto simp: live_w_def)
  show "chain (nodes_w s') (head_w s L) (xs L)"
    using win_chain [OF assms(1)] new by (simp add: s'_def chain_other)
  show "live_w s' b" "rule_of_w s' b = rule_of_w s b" if b: "b \<in> set (xs L)"
  proof -
    have "b \<noteq> a" using b new by auto
    moreover obtain m where "nodes_w s b = Some m" "b \<noteq> 0" "pool s (rule_w m) \<noteq> None"
      using win_live [OF assms(1) b] by (auto simp: live_w_def)
    moreover from this have "rule_w m \<noteq> p" using assms(3) by auto
    ultimately show "live_w s' b" "rule_of_w s' b = rule_of_w s b"
      by (auto simp: live_w_def rule_of_w_def s'_def)
  qed
qed

lemma win_ok_cons:
  fixes s :: firewall_w and L :: rule_list and r :: fwr and n :: rules_list_w
  assumes "win_ok s xs" "nodes_w s a = None" "a \<noteq> 0" "pool s p = None" "rule_w n = p" "Next n = head_w s L"
  defines "s' \<equiv> s\<lparr>pool := (pool s)(p \<mapsto> r), nodes_w := (nodes_w s)(a \<mapsto> n),
    head_w := (head_w s)(L := a)\<rparr>"
  shows "win_ok s' (xs(L := a # xs L))"
    and "rules_w s' (xs(L := a # xs L)) = (rules_w s xs)(L := r # rules_w s xs L)"
proof -
  let ?t = "s\<lparr>pool := (pool s)(p \<mapsto> r), nodes_w := (nodes_w s)(a \<mapsto> n)\<rparr>"
  note e = win_ok_extend [OF assms(1,2,4)]
  have same: "live_w s' = live_w ?t" "rule_of_w s' = rule_of_w ?t" "nodes_w s' = nodes_w ?t"
    by (simp_all add: s'_def live_w_def rule_of_w_def fun_eq_iff)
  have a: "live_w s' a" "rule_of_w s' a = r"
    using assms(3,5) by (simp_all add: s'_def live_w_def rule_of_w_def)
  have "chain (nodes_w s') (head_w s' M) ((xs(L := a # xs L)) M)" for M
    using e(1) [where L = M] e(1) [where L = L] assms(3,6) by (simp add: s'_def)
  moreover have "\<not> lock_w s'" using win_lock [OF assms(1)] by (simp add: s'_def)
  ultimately show "win_ok s' (xs(L := a # xs L))"
    using e(2) a(1) by (auto simp: win_ok_def same split: if_splits)
  show "rules_w s' (xs(L := a # xs L)) = (rules_w s xs)(L := r # rules_w s xs L)"
    using e(3) a(2) by (auto simp: rules_w_def same fun_eq_iff)
qed

lemma add_rule_w_ok:
  assumes "win_ok s xs" "nodes_w s a = None" "a \<noteq> 0" "pool s p = None"
  obtains s' where "add_rule_w (OnStack r) L proto (Some (a, t0)) (Some p) s = Some (STATUS_SUCCESS, s')"
    "win_ok s' (xs(L := a # xs L))"
    "rules_w s' (xs(L := a # xs L)) = (rules_w s xs)(L := r # rules_w s xs L)"
proof -
  obtain t where t: "t = (if proto = -1 then setup_timer null_timer_callback a
      else if proto = IPPROTO_TCP then setup_timer tcp_timer_callback a
      else if proto = IPPROTO_UDP then (setup_timer udp_timer_callback a)\<lparr>expires := Some TIMEOUT_w\<rparr>
      else t0)" by blast
  let ?n = "\<lparr>rule_w = p, timer_w = t, Next = head_w s L\<rparr>"
  let ?s = "s\<lparr>pool := (pool s)(p \<mapsto> r), nodes_w := (nodes_w s)(a \<mapsto> ?n), head_w := (head_w s)(L := a)\<rparr>"
  have "add_rule_w (OnStack r) L proto (Some (a, t0)) (Some p) s = Some (STATUS_SUCCESS, ?s)"
    using win_lock [OF assms(1)] t
    by (cases s) (simp add: add_rule_w_def acquire_def release_def PushEntryList_def set_next_def Let_def)
  with win_ok_cons [OF assms, where n = ?n and L = L and r = r] that show thesis by simp
qed

lemma add_rule_w_any:
  assumes "win_ok s xs" "room_w k1 k2 s"
  obtains st s' xs' where "add_rule_w (OnStack r) L proto k1 k2 s = Some (st, s')" "win_ok s' xs'"
    "rules_w s' xs' = (if k1 \<noteq> None \<and> k2 \<noteq> None then (rules_w s xs)(L := r # rules_w s xs L)
       else rules_w s xs)"
proof (cases k1)
  case None
  have "add_rule_w (OnStack r) L proto k1 k2 s = Some (STATUS_INSUFFICIENT_RESOURCES, s)"
    using None by (simp add: add_rule_w_def acquire_free [OF assms(1)] release_acquired [OF assms(1)])
  with that [of _ s xs] None assms(1) show thesis by simp
next
  case k1: (Some at)
  obtain a t0 where at: "at = (a, t0)" by (cases at)
  have a: "nodes_w s a = None" "a \<noteq> 0" using assms(2) k1 at by (auto simp: room_w_def)
  show thesis
  proof (cases k2)
    case None
    let ?s = "s\<lparr>nodes_w := (nodes_w s)(a \<mapsto> \<lparr>rule_w = 0, timer_w = t0, Next = 0\<rparr>)\<rparr>"
    have new: "a \<notin> set (xs M)" for M
      using win_live [OF assms(1), of a M] a by (auto simp: live_w_def)
    then have view: "live_w ?s b = live_w s b" "rule_of_w ?s b = rule_of_w s b" if "b \<in> set (xs M)" for b M
      using that by (auto simp: live_w_def rule_of_w_def)
    then have "win_ok ?s xs" "rules_w ?s xs = rules_w s xs"
      using assms(1) new by (auto simp: win_ok_def chain_other rules_w_def fun_eq_iff)
    moreover have "add_rule_w (OnStack r) L proto k1 k2 s = Some (STATUS_INSUFFICIENT_RESOURCES, ?s)"
      using win_lock [OF assms(1)] None k1 at
      by (cases s) (simp add: add_rule_w_def acquire_def release_def)
    ultimately show thesis using that None by simp
  next
    case (Some p)
    have p: "pool s p = None" using assms(2) Some by (simp add: room_w_def)
    show thesis
      by (rule add_rule_w_ok [OF assms(1) a p, of r L proto t0]) (use that k1 at Some in auto)
  qed
qed

section \<open>The lists as a rule store\<close>

text \<open>A state with the nodes of its lists.\<close>

definition put_rule_w :: "rule_list \<Rightarrow> (addr \<times> timer_list) \<times> addr \<Rightarrow> fwr \<Rightarrow>
    firewall_w \<times> (rule_list \<Rightarrow> addr list) \<Rightarrow> (firewall_w \<times> (rule_list \<Rightarrow> addr list)) option" where
  "put_rule_w L k r = (\<lambda>(s, xs). map_option (\<lambda>(_, s'). (s', xs(L := fst (fst k) # xs L)))
     (add_rule_w (OnStack r) L (proto_of L) (Some (fst k)) (Some (snd k)) s))"

definition found_rule_w :: "rule_list \<Rightarrow> fwr \<Rightarrow> firewall_w \<times> (rule_list \<Rightarrow> addr list) \<Rightarrow> fwr option option" where
  "found_rule_w L q = (\<lambda>(s, xs). map_option (\<lambda>(a, _). if a = 0 then None else Some (rule_of_w s a))
     (search_rule_w q L s))"

lemma find_map: "List.find P (map f xs) = map_option f (List.find (\<lambda>a. P (f a)) xs)"
  by (induction xs) auto

interpretation tcp_rules_w: rule_store "\<lambda>(s, xs). win_ok s xs" "\<lambda>(s, xs). rules_w s xs TcpDynamic"
  "\<lambda>k (s, xs). room_w (Some (fst k)) (Some (snd k)) s" "put_rule_w TcpDynamic" "found_rule_w TcpDynamic"
  match_rule_w
proof unfold_locales
  fix c :: "firewall_w \<times> (rule_list \<Rightarrow> addr list)" and k :: "(addr \<times> timer_list) \<times> addr" and r :: fwr
  obtain s xs where c: "c = (s, xs)" by (cases c)
  assume "case c of (s, xs) \<Rightarrow> win_ok s xs" "case c of (s, xs) \<Rightarrow> room_w (Some (fst k)) (Some (snd k)) s"
  then have *: "win_ok s xs" "nodes_w s (fst (fst k)) = None" "fst (fst k) \<noteq> 0" "pool s (snd k) = None"
    by (auto simp: c room_w_def prod_eq_iff)
  show "\<exists>c'. put_rule_w TcpDynamic k r c = Some c' \<and> (case c' of (s, xs) \<Rightarrow> win_ok s xs) \<and>
      (case c' of (s, xs) \<Rightarrow> rules_w s xs TcpDynamic) = r # (case c of (s, xs) \<Rightarrow> rules_w s xs TcpDynamic)"
    by (rule add_rule_w_ok [OF *, of r TcpDynamic "proto_of TcpDynamic" "snd (fst k)"])
      (auto simp: put_rule_w_def c)
next
  fix c :: "firewall_w \<times> (rule_list \<Rightarrow> addr list)" and q :: fwr
  obtain s xs where c: "c = (s, xs)" by (cases c)
  assume "case c of (s, xs) \<Rightarrow> win_ok s xs"
  then have s: "win_ok s xs" by (simp add: c)
  show "found_rule_w TcpDynamic q c = Some (List.find (match_rule_w q) (case c of (s, xs) \<Rightarrow> rules_w s xs TcpDynamic))"
    using search_rule_w_ok [OF s, of q TcpDynamic] win_live [OF s]
    by (auto simp: found_rule_w_def c rules_w_def find_map live_w_def dest: find_SomeD split: option.splits)
qed

section \<open>The filter function\<close>

text \<open>A packet that contains its IP header and the part of the transport header the filter reads.\<close>

definition has_headers :: "bytes \<Rightarrow> nat \<Rightarrow> bool" where
  "has_headers p at \<longleftrightarrow> 20 \<le> length p \<and> at + 14 \<le> length p"

text \<open>What the filter decides and records, on the rules of the lists.\<close>

definition packet_rule :: "bytes \<Rightarrow> nat \<Rightarrow> u32 \<Rightarrow> bool \<Rightarrow> fwr" where
  "packet_rule p at am out =
     (let src = un_le32 (drop 12 p); dst = un_le32 (drop 16 p);
          sp = un_le16 (drop at p); dp = un_le16 (drop (at + 2) p)
      in if out then new_rule_w dst src am am dp dp sp sp else new_rule_w src dst 0 0 sp sp dp dp)"

definition recv_verdict :: "bytes \<Rightarrow> nat \<Rightarrow> rule_list \<Rightarrow> (rule_list \<Rightarrow> fwr list) \<Rightarrow> forward_action" where
  "recv_verdict p at L rs =
     (if lets_in_w (packet_rule p at 0 False) (rs Static @ rs L) then FORWARD else DROP)"

definition send_rules :: "bytes \<Rightarrow> nat \<Rightarrow> bool \<Rightarrow> (rule_list \<Rightarrow> fwr list) \<Rightarrow> rule_list \<Rightarrow> fwr list" where
  "send_rules p at mem rs =
     (let tcp = packet_rule p at 0xFFFF True; udp = packet_rule p at 0 True; flags = p ! (at + 13)
      in if p ! 9 = 6 \<and> bit flags 1 \<and> \<not> bit flags 4 \<and> mem then rs(TcpDynamic := tcp # rs TcpDynamic)
         else if p ! 9 = 17 \<and> \<not> lets_in_w udp (rs UdpDynamic) \<and> mem
         then rs(UdpDynamic := udp # rs UdpDynamic) else rs)"

definition filter_spec :: "bytes \<Rightarrow> nat \<Rightarrow> u32 \<Rightarrow> u32 \<Rightarrow> bool \<Rightarrow> (rule_list \<Rightarrow> fwr list) \<Rightarrow>
    forward_action \<times> (rule_list \<Rightarrow> fwr list)" where
  "filter_spec p at recv send mem rs =
     (if recv > 0 \<and> p ! 9 = 6 then (recv_verdict p at TcpDynamic rs, rs)
      else if recv > 0 \<and> p ! 9 = 17 then (recv_verdict p at UdpDynamic rs, rs)
      else (FORWARD, if send > 0 then send_rules p at mem rs else rs))"

lemma parse_ok:
  assumes "has_headers p at"
  shows "ip_protocol p = Some (p ! 9)" "tcp_flag n p at = Some (bit (p ! (at + 13)) n)"
    "generate_tcp_dynamic_rule_w p at True = Some (packet_rule p at 0xFFFF True)"
    "generate_udp_dynamic_rule_w p at True = Some (packet_rule p at 0 True)"
    "generate_tcp_dynamic_rule_w p at False = Some (packet_rule p at 0 False)"
    "generate_udp_dynamic_rule_w p at False = Some (packet_rule p at 0 False)"
  using assms
  by (simp_all add: has_headers_def ip_protocol_def tcp_flag_def generate_tcp_dynamic_rule_w_def
    generate_udp_dynamic_rule_w_def ip_source_def ip_destination_def sourcePort_def
    destinationPort_def rd8_def rd16_def rd32_def packet_rule_def Let_def)

lemma lets_in_w_append: "lets_in_w q (xs @ ys) \<longleftrightarrow> lets_in_w q xs \<or> lets_in_w q ys"
  by (auto simp: lets_in_w_def)

lemma filter_recv_ok:
  assumes "win_ok s xs" "has_headers p at"
  obtains s' where "filter_recv p at s = Some (if p ! 9 = 6 then Some (recv_verdict p at TcpDynamic (rules_w s xs))
      else if p ! 9 = 17 then Some (recv_verdict p at UdpDynamic (rules_w s xs)) else None, s')"
    "win_ok s' xs" "rules_w s' xs = rules_w s xs"
proof -
  let ?q = "packet_rule p at 0 False"
  note defs = filter_recv_def parse_ok [OF assms(2)] recv_verdict_def lets_in_w_append
  obtain a where a: "search_rule_w ?q Static s = Some (a, s)"
    "a \<noteq> 0 \<longleftrightarrow> lets_in_w ?q (rules_w s xs Static)"
    by (rule search_rule_w_hit [OF assms(1), of ?q Static]) blast
  obtain b where b: "search_rule_w ?q TcpDynamic s = Some (b, s)"
    "b \<noteq> 0 \<longleftrightarrow> lets_in_w ?q (rules_w s xs TcpDynamic)"
    by (rule search_rule_w_hit [OF assms(1), of ?q TcpDynamic]) blast
  obtain c where c: "search_rule_w ?q UdpDynamic s = Some (c, s)"
    "c \<noteq> 0 \<longleftrightarrow> lets_in_w ?q (rules_w s xs UdpDynamic)" "c \<noteq> 0 \<Longrightarrow> c \<in> set (xs UdpDynamic)"
    by (rule search_rule_w_hit [OF assms(1), of ?q UdpDynamic]) blast
  show thesis
  proof (cases "p ! 9 = 17 \<and> a = 0 \<and> c \<noteq> 0")
    case True
    show thesis
      by (rule KeSetTimer_ok [OF assms(1) c(3)]) (use True a b c that in \<open>auto simp: defs\<close>)
  next
    case False
    show thesis
      by (rule that [of s]) (use False a b c assms(1) in \<open>auto simp: defs\<close>)
  qed
qed

lemma filter_send_ok:
  assumes "win_ok s xs" "room_w k1 k2 s" "has_headers p at"
  obtains s' xs' where "filter_send p at k1 k2 s = Some s'" "win_ok s' xs'"
    "rules_w s' xs' = send_rules p at (k1 \<noteq> None \<and> k2 \<noteq> None) (rules_w s xs)"
proof -
  let ?tcp = "packet_rule p at 0xFFFF True" and ?udp = "packet_rule p at 0 True"
  let ?f = "p ! (at + 13)"
  note defs = filter_send_def parse_ok [OF assms(3)] send_rules_def Let_def
  obtain b where b: "search_rule_w ?tcp TcpDynamic s = Some (b, s)"
    "b \<noteq> 0 \<Longrightarrow> b \<in> set (xs TcpDynamic)"
    by (rule search_rule_w_hit [OF assms(1), of ?tcp TcpDynamic]) blast
  obtain c where c: "search_rule_w ?udp UdpDynamic s = Some (c, s)"
    "c \<noteq> 0 \<longleftrightarrow> lets_in_w ?udp (rules_w s xs UdpDynamic)" "c \<noteq> 0 \<Longrightarrow> c \<in> set (xs UdpDynamic)"
    by (rule search_rule_w_hit [OF assms(1), of ?udp UdpDynamic]) blast
  consider (tcp) "p ! 9 = 6" "bit ?f 1" "\<not> bit ?f 4"
    | (fin) "p ! 9 = 6" "\<not> (bit ?f 1 \<and> \<not> bit ?f 4)" "bit ?f 0" "b \<noteq> 0"
    | (udp) "p ! 9 = 17" "c = 0" | (again) "p ! 9 = 17" "c \<noteq> 0"
    | (rest) "p ! 9 = 6" "\<not> (bit ?f 1 \<and> \<not> bit ?f 4)" "bit ?f 0 \<longrightarrow> b = 0"
    | (other) "p ! 9 \<noteq> 6" "p ! 9 \<noteq> 17" by blast
  then show thesis
  proof cases
    case tcp
    show thesis
      by (rule add_rule_w_any [OF assms(1,2), of ?tcp TcpDynamic IPPROTO_TCP])
        (use tcp that in \<open>auto simp: defs\<close>)
  next
    case fin
    show thesis
      by (rule KeSetTimer_ok [OF assms(1) b(2) [OF fin(4)]]) (use fin b that in \<open>auto simp: defs\<close>)
  next
    case udp
    show thesis
      by (rule add_rule_w_any [OF assms(1,2), of ?udp UdpDynamic IPPROTO_UDP])
        (use udp c that in \<open>auto simp: defs\<close>)
  next
    case again
    show thesis
      by (rule KeSetTimer_ok [OF assms(1) c(3) [OF again(2)]]) (use again c that in \<open>auto simp: defs\<close>)
  next
    case rest
    show thesis
      by (rule that [of s xs]) (use rest b assms(1) in \<open>auto simp: defs\<close>)
  next
    case other
    show thesis
      by (rule that [of s xs]) (use other assms(1) in \<open>auto simp: defs\<close>)
  qed
qed

lemma FilterPacket_ok:
  assumes "win_ok s xs" "room_w k1 k2 s" "has_headers p at"
  obtains s' xs' where "FilterPacket p at recv send k1 k2 s =
      Some (fst (filter_spec p at recv send (k1 \<noteq> None \<and> k2 \<noteq> None) (rules_w s xs)), s')"
    "win_ok s' xs'"
    "rules_w s' xs' = snd (filter_spec p at recv send (k1 \<noteq> None \<and> k2 \<noteq> None) (rules_w s xs))"
proof -
  have recv_other: "filter_recv p at s = Some (None, s)" if "p ! 9 \<noteq> 6" "p ! 9 \<noteq> 17"
    using that by (simp add: filter_recv_def parse_ok [OF assms(3)])
  show thesis
  proof (cases "recv > 0 \<and> (p ! 9 = 6 \<or> p ! 9 = 17)")
    case True
    show thesis
      by (rule filter_recv_ok [OF assms(1,3)])
        (use True that in \<open>auto simp: FilterPacket_def filter_spec_def\<close>)
  next
    case False
    then have "FilterPacket p at recv send k1 k2 s =
        (if send > 0 then filter_send p at k1 k2 s else Some s) \<bind> (\<lambda>s. Some (FORWARD, s))"
      using recv_other by (auto simp: FilterPacket_def)
    note eq = this
    have spec: "filter_spec p at recv send m rs = (FORWARD, if send > 0 then send_rules p at m rs else rs)"
      for m rs using False by (auto simp: filter_spec_def)
    show thesis
    proof (cases "send > 0")
      case True
      show thesis
        by (rule filter_send_ok [OF assms]) (use that True eq spec in auto)
    next
      case False
      with that [of s xs] eq spec assms(1) show thesis by simp
    qed
  qed
qed

lemma copy_chain_poke: "copy_chain m off bufs = poke m off (concat bufs)"
  by (induction bufs arbitrary: m off) (simp_all add: poke_append)

lemma chain_size_concat: "chain_size bufs = length (concat bufs)"
  by (induction bufs) simp_all

lemma packet_assembled: "peek (copy_chain m 0 bufs) 0 (chain_size bufs) = concat bufs"
  by (simp add: copy_chain_poke chain_size_concat peek_poke_same del: length_concat)

section \<open>Listing and emptying\<close>

definition listing_w :: "firewall_w \<Rightarrow> (rule_list \<Rightarrow> addr list) \<Rightarrow> fwr list" where
  "listing_w s xs = rules_w s xs Static @ rules_w s xs TcpDynamic @ rules_w s xs UdpDynamic"

lemma fw_list_w_ok:
  assumes "win_ok s xs" "0 < sint (un_le32 (peek um 0 4))"
    "int (length (listing_w s xs)) \<le> sint (un_le32 (peek um 0 4))"
  shows "fw_list_w True um s = Some (STATUS_SUCCESS, 4 + 24 * length (listing_w s xs),
    poke um 0 (le32 (of_nat (length (listing_w s xs))) @ serialize (listing_w s xs)), s)"
proof -
  let ?S = "rules_w s xs Static" and ?T = "rules_w s xs TcpDynamic" and ?U = "rules_w s xs UdpDynamic"
  let ?n = "length ?S + length ?T + length ?U"
  have len: "length (xs L) = length (rules_w s xs L)" for L by (simp add: rules_w_def)
  have size: "list_size_w L s = Some (length (rules_w s xs L))" for L
    using size_walk_chain [OF win_chain [OF assms(1)], of L 0] by (simp add: list_size_w_def len)
  have add: "add_rules_to_buffer_w b off L s = Some (poke b off (serialize (rules_w s xs L)))" for b off L
    using buffer_walk_chain [OF win_chain [OF assms(1)], of L b off 0] win_live [OF assms(1)]
    by (simp add: add_rules_to_buffer_w_def rules_w_def)
  have n: "length (listing_w s xs) = ?n" by (simp add: listing_w_def)
  let ?hd = "le32 (of_nat ?n)"
  have buf: "poke (poke (poke (poke m 0 ?hd) 4 (serialize ?S)) (length ?S * 24 + 4) (serialize ?T))
      ((length ?T + length ?S) * 24 + 4) (serialize ?U) = poke m 0 (?hd @ serialize (listing_w s xs))" for m
    using poke_append [of m 0 ?hd "serialize ?S"] poke_append [of m 0 "?hd @ serialize ?S" "serialize ?T"]
      poke_append [of m 0 "?hd @ serialize (?S @ ?T)" "serialize ?U"]
    by (simp add: listing_w_def mult.commute add.commute add.left_commute)
  have image: "peek (poke m 0 (?hd @ serialize (listing_w s xs))) 0 (?n * 24 + 4)
      = ?hd @ serialize (listing_w s xs)" for m
    by (rule peek_poke_same) (simp add: n)
  have le: "\<not> (?n = 0 \<and> sint (un_le32 (peek um 0 4)) \<le> 0)" "\<not> int ?n > sint (un_le32 (peek um 0 4))"
    using assms(2,3) by (simp_all add: n)
  have "fw_list_w True um s = Some (STATUS_SUCCESS, ?n * 24 + 4,
      poke um 0 (?hd @ serialize (listing_w s xs)), s)"
    unfolding fw_list_w_def size Let_def bind.simps
    by (simp only: le if_False add bind.simps buf image not_True_eq_False)
  then show ?thesis by (simp add: n)
qed

lemma destroy_list_w_nonempty:
  assumes "win_ok s xs" "xs L \<noteq> []"
  shows "destroy_list_w L s = None"
proof -
  obtain a as where xs: "xs L = a # as" using assms(2) by (cases "xs L") auto
  then obtain n where a: "head_w s L = a" "a \<noteq> 0" "nodes_w s a = Some n"
    using win_chain [OF assms(1), of L] by auto
  then show ?thesis
    by (simp add: destroy_list_w_def acquire_free [OF assms(1)])
      (subst destroy_walk.simps, simp add: PopEntryList_def next_of_def set_next_def Let_def)
qed

lemma destroy_list_w_empty:
  assumes "win_ok s xs" "xs L = []"
  shows "destroy_list_w L s = Some s"
proof -
  have "head_w s L = 0" using win_chain [OF assms(1), of L] assms(2) by simp
  then show ?thesis
    by (simp add: destroy_list_w_def acquire_free [OF assms(1)])
      (subst destroy_walk.simps, simp add: release_acquired [OF assms(1)])
qed

section \<open>Properties\<close>

definition fresh_w :: firewall_w where
  "fresh_w = \<lparr>pool = (\<lambda>_. None), nodes_w = (\<lambda>_. None), head_w = (\<lambda>_. 0), lock_w = False,
     enabled_w = True, hooked = True, devices = [], link_w = True\<rparr>"

lemma fresh_w_ok: "win_ok fresh_w (\<lambda>_. [])" "rules_w fresh_w (\<lambda>_. []) = (\<lambda>_. [])"
  by (simp_all add: fresh_w_def win_ok_def rules_w_def fun_eq_iff)

text \<open>
  C27: the filter callback implements its specification on the rules: from well-formed lists, for any
  chain of buffers that holds a packet with its headers, it returns with the specified action and
  well-formed lists that hold the specified rules; how the packet is cut into buffers does not
  matter.
\<close>

theorem win_filter_refines:
  assumes "win_ok s xs" "room_w k1 k2 s" "p = concat bufs" "ip_headerLength p = Some hl"
    and "has_headers p (hl * 4)"
  shows "\<exists>s' xs'. callbackFilterFunction bufs (Some m) recv send k1 k2 s =
      Some (fst (filter_spec p (hl * 4) recv send (k1 \<noteq> None \<and> k2 \<noteq> None) (rules_w s xs)), s') \<and>
    win_ok s' xs' \<and>
    rules_w s' xs' = snd (filter_spec p (hl * 4) recv send (k1 \<noteq> None \<and> k2 \<noteq> None) (rules_w s xs))"
proof -
  have "bufs \<noteq> []" using assms(3,5) by (auto simp: has_headers_def)
  then have "callbackFilterFunction bufs (Some m) recv send k1 k2 s =
      FilterPacket p (hl * 4) recv send k1 k2 s"
    by (simp add: callbackFilterFunction_def packet_assembled assms(3) [symmetric] assms(4) Let_def)
  then show ?thesis
    using FilterPacket_ok [OF assms(1,2,5), of recv send] by metis
qed

text \<open>A packet without options: IP header and the start of a TCP header.\<close>

definition tcp_packet :: "u32 \<Rightarrow> u32 \<Rightarrow> u16 \<Rightarrow> u16 \<Rightarrow> u8 \<Rightarrow> bytes" where
  "tcp_packet src dst sp dp flags = [0x45, 0, 0, 0, 0, 0, 0, 0, 0, 6, 0, 0] @ le32 src @ le32 dst @
     le16 sp @ le16 dp @ replicate 9 0 @ [flags]"

lemma tcp_packet_headers:
  "ip_headerLength (tcp_packet a b c d f) = Some 5" "has_headers (tcp_packet a b c d f) 20"
  "tcp_packet a b c d f ! 9 = 6" "tcp_packet a b c d f ! 33 = f"
  "packet_rule (tcp_packet a b c d f) 20 m True = new_rule_w b a m m d d c c"
  "packet_rule (tcp_packet a b c d f) 20 m False = new_rule_w a b 0 0 c c d d"
proof -
  have drops: "drop 12 (tcp_packet a b c d f) = le32 a @ le32 b @ le16 c @ le16 d @ replicate 9 0 @ [f]"
    "drop 16 (tcp_packet a b c d f) = le32 b @ le16 c @ le16 d @ replicate 9 0 @ [f]"
    "drop 20 (tcp_packet a b c d f) = le16 c @ le16 d @ replicate 9 0 @ [f]"
    "drop 22 (tcp_packet a b c d f) = le16 d @ replicate 9 0 @ [f]"
    by (simp_all add: tcp_packet_def)
  show "packet_rule (tcp_packet a b c d f) 20 m True = new_rule_w b a m m d d c c"
    "packet_rule (tcp_packet a b c d f) 20 m False = new_rule_w a b 0 0 c c d d"
    by (simp_all add: packet_rule_def drops)
  show "ip_headerLength (tcp_packet a b c d f) = Some 5" "has_headers (tcp_packet a b c d f) 20"
    "tcp_packet a b c d f ! 9 = 6" "tcp_packet a b c d f ! 33 = f"
    by (simp_all add: tcp_packet_def ip_headerLength_def rd8_def has_headers_def le32_def le16_def
      nth_append)
qed

theorem win_filter_refines_witness:
  "\<exists>s' s''. callbackFilterFunction [take 7 (tcp_packet 1 2 30 80 2), drop 7 (tcp_packet 1 2 30 80 2)]
      (Some (\<lambda>_. 9)) 0 1 (Some (4, setup_timer null_timer_callback 0)) (Some 8) fresh_w = Some (FORWARD, s') \<and>
    callbackFilterFunction [tcp_packet 2 1 80 30 18] (Some (\<lambda>_. 9)) 1 0 None None s' = Some (FORWARD, s'') \<and>
    callbackFilterFunction [tcp_packet 2 1 81 30 18] (Some (\<lambda>_. 9)) 1 0 None None s' = Some (DROP, s'')"
proof -
  let ?k1 = "Some (4, setup_timer null_timer_callback 0)" and ?k2 = "Some 8"
  let ?p = "tcp_packet 1 2 30 80 2" and ?q = "\<lambda>n. tcp_packet 2 1 n 30 18"
  have room: "room_w ?k1 ?k2 fresh_w" by (simp add: room_w_def fresh_w_def)
  have spec: "filter_spec ?p 20 0 1 True (\<lambda>_. []) =
      (FORWARD, (\<lambda>_. [])(TcpDynamic := [new_rule_w 2 1 0xFFFF 0xFFFF 80 80 30 30]))"
    by (simp add: filter_spec_def send_rules_def tcp_packet_headers Let_def)
  obtain s' xs' where s': "callbackFilterFunction [take 7 ?p, drop 7 ?p] (Some (\<lambda>_. 9)) 0 1 ?k1 ?k2 fresh_w =
      Some (FORWARD, s')" "win_ok s' xs'"
    "rules_w s' xs' = (\<lambda>_. [])(TcpDynamic := [new_rule_w 2 1 0xFFFF 0xFFFF 80 80 30 30])"
    using win_filter_refines [OF fresh_w_ok(1) room, of ?p "[take 7 ?p, drop 7 ?p]" 5 "\<lambda>_. 9" 0 1]
      tcp_packet_headers spec fresh_w_ok(2) by auto
  have in_spec: "filter_spec (?q n) 20 1 0 False (rules_w s' xs') =
      (if n = 80 then FORWARD else DROP, rules_w s' xs')" for n
    using s'(3) by (auto simp: filter_spec_def recv_verdict_def tcp_packet_headers lets_in_w_def
      match_rule_w_def new_rule_w_def)
  have no_room: "room_w None None s'" by (simp add: room_w_def)
  have same: "\<exists>t. callbackFilterFunction [?q n] (Some (\<lambda>_. 9)) 1 0 None None s' =
      Some (if n = 80 then FORWARD else DROP, t)" for n
    using win_filter_refines [OF s'(2) no_room, of "?q n" "[?q n]" 5 "\<lambda>_. 9" 1 0]
      tcp_packet_headers in_spec by auto
  have state: "t = s'" if "callbackFilterFunction [?q n] (Some (\<lambda>_. 9)) 1 0 None None s' = Some (v, t)" for n v t
  proof -
    have "FilterPacket (?q n) 20 1 0 None None s' = Some (v, t)"
      using that packet_assembled [of "\<lambda>_. 9" "[?q n]"]
      by (simp add: callbackFilterFunction_def tcp_packet_headers Let_def)
    then show ?thesis
      using search_rule_w_ok [OF s'(2)]
      by (auto simp: FilterPacket_def filter_recv_def parse_ok [OF tcp_packet_headers(2)]
        tcp_packet_headers split: if_splits bind_splits prod.splits option.splits)
  qed
  show ?thesis using s'(1) same [of 80] same [of 81] state by fastforce
qed

text \<open>
  Emptying a list of rules reads a node right after freeing it, whenever there is a rule to free;
  on an empty list it does nothing. So unloading the driver with a rule in a list is undefined.
\<close>

theorem win_destroy_reads_freed_node:
  assumes "win_ok s xs"
  shows "destroy_list_w L s = (if xs L = [] then Some s else None)"
  using destroy_list_w_nonempty [OF assms] destroy_list_w_empty [OF assms] by simp

theorem win_destroy_reads_freed_node_witness:
  "\<exists>s. map_option snd (add_rule_w (OnStack (new_rule_w 1 2 0 0 3 3 4 4)) TcpDynamic 6
       (Some (4, setup_timer null_timer_callback 0)) (Some 8) fresh_w) = Some s \<and>
     destroy_list_w TcpDynamic s = None \<and> destroy_list_w UdpDynamic s = Some s"
proof -
  have "nodes_w fresh_w 4 = None" "(4 :: addr) \<noteq> 0" "pool fresh_w 8 = None"
    by (simp_all add: fresh_w_def)
  then show ?thesis
  proof (rule add_rule_w_ok [OF fresh_w_ok(1), of 4 8 "new_rule_w 1 2 0 0 3 3 4 4" TcpDynamic 6
      "setup_timer null_timer_callback 0"])
    fix s assume s: "add_rule_w (OnStack (new_rule_w 1 2 0 0 3 3 4 4)) TcpDynamic 6
        (Some (4, setup_timer null_timer_callback 0)) (Some 8) fresh_w = Some (STATUS_SUCCESS, s)"
      "win_ok s ((\<lambda>_. [])(TcpDynamic := 4 # []))"
    show ?thesis
      using s(1) win_destroy_reads_freed_node [OF s(2)] by simp
  qed
qed

text \<open>
  \<open>FW_LIST\<close> with room for all rules answers their number and every rule, static, TCP and UDP in
  this order, each where the user's array has it, and changes nothing behind them.
\<close>

theorem win_list_gives_rules:
  assumes "win_ok s xs" "0 < sint (un_le32 (peek um 0 4))"
    and "int (length (listing_w s xs)) \<le> sint (un_le32 (peek um 0 4))"
  shows "\<exists>um'. ipfirewall_ioctl_w (LIST_w True) um s =
      Some (STATUS_SUCCESS, 4 + 24 * length (listing_w s xs), um', s) \<and>
    un_le32 (peek um' 0 4) = of_nat (length (listing_w s xs)) \<and>
    map (\<lambda>i. un_fwr (peek um' (4 + 24 * i) 24)) [0..<length (listing_w s xs)] = listing_w s xs \<and>
    (\<forall>j. j < 4 + 24 * length (listing_w s xs) \<or> um' j = um j)"
proof -
  let ?rs = "listing_w s xs" and ?hd = "le32 (of_nat (length (listing_w s xs)))"
  let ?um' = "poke um 0 (?hd @ serialize ?rs)"
  have "un_fwr (peek ?um' (4 + 24 * i) 24) = ?rs ! i" if "i < length ?rs" for i
  proof -
    have "peek ?um' (4 + 24 * i) 24 = take 24 (drop (24 * i) (serialize ?rs))"
      using that by (intro nth_equalityI) (auto simp: poke_def nth_append)
    then show ?thesis using un_fwr_serialize [OF that] by simp
  qed
  then have "map (\<lambda>i. un_fwr (peek ?um' (4 + 24 * i) 24)) [0..<length ?rs] = ?rs"
    by (intro nth_equalityI) auto
  moreover have "peek ?um' 0 4 = ?hd" by (simp add: peek_poke_prefix)
  ultimately show ?thesis
    using fw_list_w_ok [OF assms] by (intro exI [of _ ?um']) (simp add: ipfirewall_ioctl_w_def poke_def)
qed

theorem win_list_gives_rules_witness:
  "\<exists>um'. ipfirewall_ioctl_w (LIST_w True) (\<lambda>i. if i = 0 then 3 else 0) fresh_w =
     Some (STATUS_SUCCESS, 4, um', fresh_w) \<and> un_le32 (peek um' 0 4) = 0"
proof -
  have "sint (un_le32 (peek (\<lambda>i. if i = 0 then 3 else 0) 0 4)) = 3"
    by (simp add: un_le32_def peek_def)
  moreover have "listing_w fresh_w (\<lambda>_. []) = []"
    by (simp add: listing_w_def rules_w_def)
  ultimately show ?thesis
    using win_list_gives_rules [OF fresh_w_ok(1), of "\<lambda>i. if i = 0 then 3 else 0"] by auto
qed

end
