(* ===== verification/SciLinux.thy ===== *)
theory SciLinux
  imports Base
begin

text \<open>
  The system call interceptor for Linux, \<open>src/SystemCallMonitorLinux/sci.c\<close>: a system call that puts
  an interceptor in place of other calls and records which processes' calls are logged.

  The table of system calls maps numbers to handlers. The code indexes its arrays with the number the
  user gives; \<open>None\<close> is an access outside them. The calling process, the owner of every process,
  the memory for a list node and what a handler returns are arguments. The spin locks, which are
  taken and released around single list operations, are left out.
\<close>

section \<open>Lists of process identifiers\<close>

text \<open>What the interceptors rely on: how often a process is listed after adding and deleting.\<close>

locale pid_bag =
  fixes add :: "'p \<Rightarrow> 's \<Rightarrow> 's"
    and del :: "'p \<Rightarrow> 's \<Rightarrow> 's"
    and has :: "'p \<Rightarrow> 's \<Rightarrow> bool"
    and times :: "'p \<Rightarrow> 's \<Rightarrow> nat"
  assumes times_add: "times p (add q s) = times p s + of_bool (p = q)"
    and times_del: "times p (del q s) = times p s - of_bool (p = q)"
    and has_times: "has p s \<longleftrightarrow> times p s > 0"
begin

lemma has_add: "has p (add q s) \<longleftrightarrow> p = q \<or> has p s"
  by (auto simp: has_times times_add)

lemma has_del_other: "p \<noteq> q \<Longrightarrow> has p (del q s) = has p s"
  by (simp add: has_times times_del)

lemma has_del_once: "times p s \<le> 1 \<Longrightarrow> \<not> has p (del p s)"
  by (simp add: has_times times_del)

lemma add_del_has: "has p (del q (add q s)) = has p s"
  by (simp add: has_times times_add times_del)

end

section \<open>State\<close>

datatype handler = Original nat | Interceptor | MySyscall

record syscall_info_t =
  cmd :: u32
  pid :: "int list"
  old_syscall :: handler

record log_entry =
  log_pid :: int
  log_number :: int
  log_args :: "int list"
  log_result :: int

record sci =
  info :: "syscall_info_t list"
  sys_call_table :: "nat \<Rightarrow> handler"
  old_sys_call_table :: "handler list"
  printed :: "log_entry list"

record caller =
  cur_pid :: int
  cur_uid :: nat
  uid_of :: "int \<Rightarrow> nat option"

definition MY_REQUEST_SYSCALL_INTERCEPT :: u32 where "MY_REQUEST_SYSCALL_INTERCEPT = 1"
definition MY_REQUEST_SYSCALL_RELEASE :: u32 where "MY_REQUEST_SYSCALL_RELEASE = NOT 1"
definition MY_REQUEST_START_MONITOR :: u32 where "MY_REQUEST_START_MONITOR = 2"
definition MY_REQUEST_STOP_MONITOR :: u32 where "MY_REQUEST_STOP_MONITOR = NOT 2"

datatype request =
    REQUEST_START_MONITOR
  | REQUEST_STOP_MONITOR
  | REQUEST_SYSCALL_INTERCEPT
  | REQUEST_SYSCALL_RELEASE
  | REQUEST_OTHER

definition MY_SYSCALL_NO :: int where "MY_SYSCALL_NO = 0"
definition NR_exit :: int where "NR_exit = 1"
definition NR_exit_group :: int where "NR_exit_group = 252"

definition IS_ROOT :: "caller \<Rightarrow> bool" where "IS_ROOT c \<longleftrightarrow> cur_uid c = 0"

definition EPERM :: int where "EPERM = 1"
definition EBUSY :: int where "EBUSY = 16"
definition EINVAL :: int where "EINVAL = 22"
definition ENOMEM :: int where "ENOMEM = 12"

section \<open>Operations\<close>

fun have_pid :: "int list \<Rightarrow> int \<Rightarrow> bool" where
  "have_pid [] p = False"
| "have_pid (x # xs) p = (if x = p then True else have_pid xs p)"

definition add_pid :: "bool \<Rightarrow> int list \<Rightarrow> int \<Rightarrow> int \<times> int list" where
  "add_pid mem xs p = (if \<not> mem then (- ENOMEM, xs) else (0, p # xs))"

fun del_pid :: "int list \<Rightarrow> int \<Rightarrow> int \<times> int list" where
  "del_pid [] p = (- EINVAL, [])"
| "del_pid (x # xs) p = (if x = p then (0, xs) else (let (r, ys) = del_pid xs p in (r, x # ys)))"

definition info_at :: "int \<Rightarrow> sci \<Rightarrow> syscall_info_t option" where
  "info_at k s = (if 0 \<le> k \<and> k < int (length (info s)) then Some (info s ! nat k) else None)"

definition set_info :: "int \<Rightarrow> syscall_info_t \<Rightarrow> sci \<Rightarrow> sci" where
  "set_info k i s = s\<lparr>info := (info s)[nat k := i]\<rparr>"

definition check_pid_log :: "int \<Rightarrow> caller \<Rightarrow> sci \<Rightarrow> bool option" where
  "check_pid_log k c s = do {
     i \<leftarrow> info_at k s;
     if cmd i AND MY_REQUEST_START_MONITOR \<noteq> 0 then
       (if have_pid (pid i) (cur_pid c) then Some True
        else if have_pid (pid i) 0 then Some True
        else Some False)
     else Some False
   }"

text \<open>\<open>run\<close> is what a handler returns for its arguments.\<close>

definition interceptor ::
  "(handler \<Rightarrow> int list \<Rightarrow> int) \<Rightarrow> int \<Rightarrow> int list \<Rightarrow> caller \<Rightarrow> sci \<Rightarrow> (int \<times> sci) option" where
  "interceptor run eax args c s = do {
     i \<leftarrow> info_at eax s;
     let result = run (old_syscall i) args;
     logged \<leftarrow> check_pid_log eax c s;
     Some (result, if logged
       then s\<lparr>printed := printed s @ [\<lparr>log_pid = cur_pid c, log_number = eax, log_args = args,
              log_result = result\<rparr>]\<rparr>
       else s)
   }"

text \<open>The check of \<open>REQUEST_START_MONITOR\<close> and \<open>REQUEST_STOP_MONITOR\<close>: an error code, or 0.\<close>

definition check_owner :: "int \<Rightarrow> caller \<Rightarrow> int" where
  "check_owner p c =
     (if p = 0 then (if \<not> IS_ROOT c then - EPERM else 0)
      else (case uid_of c p of
        None \<Rightarrow> - EINVAL
      | Some u \<Rightarrow> if \<not> IS_ROOT c \<and> u \<noteq> cur_uid c then - EPERM else 0))"

definition my_syscall :: "request \<Rightarrow> int \<Rightarrow> int \<Rightarrow> bool \<Rightarrow> caller \<Rightarrow> sci \<Rightarrow> (int \<times> sci) option" where
  "my_syscall req k p mem c s =
     (if k = MY_SYSCALL_NO \<or> k = NR_exit then Some (- EINVAL, s)
      else if k = NR_exit_group
      then Some (0, s\<lparr>info := map (\<lambda>i. i\<lparr>pid := snd (del_pid (pid i) p)\<rparr>) (info s)\<rparr>)
      else (case req of
        REQUEST_SYSCALL_INTERCEPT \<Rightarrow>
          (if \<not> IS_ROOT c then Some (- EPERM, s)
           else do {
             i \<leftarrow> info_at k s;
             if cmd i AND MY_REQUEST_SYSCALL_INTERCEPT \<noteq> 0 then Some (- EBUSY, s)
             else Some (0, (set_info k (i\<lparr>cmd := cmd i OR MY_REQUEST_SYSCALL_INTERCEPT,
                 old_syscall := sys_call_table s (nat k)\<rparr>) s)
               \<lparr>sys_call_table := (sys_call_table s)(nat k := Interceptor)\<rparr>)
           })
      | REQUEST_SYSCALL_RELEASE \<Rightarrow>
          (if \<not> IS_ROOT c then Some (- EPERM, s)
           else do {
             i \<leftarrow> info_at k s;
             if cmd i AND MY_REQUEST_SYSCALL_INTERCEPT = 0 then Some (- EINVAL, s)
             else Some (0, (set_info k (i\<lparr>cmd := cmd i AND MY_REQUEST_SYSCALL_RELEASE\<rparr>) s)
               \<lparr>sys_call_table := (sys_call_table s)(nat k := old_syscall i)\<rparr>)
           })
      | REQUEST_START_MONITOR \<Rightarrow> do {
          i \<leftarrow> info_at k s;
          if cmd i AND MY_REQUEST_START_MONITOR \<noteq> 0 then Some (- EBUSY, s)
          else if cmd i AND MY_REQUEST_SYSCALL_INTERCEPT = 0 then Some (- EINVAL, s)
          else if check_owner p c \<noteq> 0 then Some (check_owner p c, s)
          else Some (0, set_info k (i\<lparr>pid := snd (add_pid mem (pid i) (cur_pid c)),
            cmd := cmd i OR MY_REQUEST_START_MONITOR\<rparr>) s)
        }
      | REQUEST_STOP_MONITOR \<Rightarrow>
          (if check_owner p c \<noteq> 0 then Some (check_owner p c, s)
           else do {
             i \<leftarrow> info_at k s;
             if cmd i AND MY_REQUEST_START_MONITOR = 0 then Some (- EINVAL, s)
             else Some (0, set_info k (i\<lparr>pid := snd (del_pid (pid i) (cur_pid c)),
               cmd := cmd i AND MY_REQUEST_STOP_MONITOR\<rparr>) s)
           })
      | REQUEST_OTHER \<Rightarrow> Some (0, s)))"

text \<open>Loading, for a table of \<open>n\<close> calls and the two allocations, and unloading.\<close>

definition my_hello_init :: "nat \<Rightarrow> bool \<Rightarrow> bool \<Rightarrow> sci \<Rightarrow> int \<times> sci" where
  "my_hello_init n mem1 mem2 s =
     (if \<not> mem1 then (- ENOMEM, s)
      else if \<not> mem2 then (- ENOMEM, s)
      else (0, s\<lparr>old_sys_call_table := map (sys_call_table s) [0..<n],
        info := replicate n \<lparr>cmd = 0, pid = [], old_syscall = Original 0\<rparr>,
        sys_call_table := (sys_call_table s)(nat MY_SYSCALL_NO := MySyscall)\<rparr>))"

definition hello_exit :: "sci \<Rightarrow> sci" where
  "hello_exit s = s\<lparr>sys_call_table := (\<lambda>k. if k < length (old_sys_call_table s)
     then old_sys_call_table s ! k else sys_call_table s k), old_sys_call_table := [], info := []\<rparr>"

section \<open>Lists\<close>

lemma have_pid_set: "have_pid xs p \<longleftrightarrow> p \<in> set xs"
  by (induction xs) auto

lemma have_pid_count: "have_pid xs p \<longleftrightarrow> 0 < count_list xs p"
  by (induction xs) auto

lemma del_pid_remove1: "snd (del_pid xs p) = remove1 p xs"
  by (induction xs) (auto split: prod.splits)

interpretation lin: pid_bag "\<lambda>p xs. snd (add_pid True xs p)" "\<lambda>p xs. snd (del_pid xs p)"
  "\<lambda>p xs. have_pid xs p" "\<lambda>p xs. count_list xs p"
proof unfold_locales
  show "count_list (snd (del_pid xs q)) p = count_list xs p - of_bool (p = q)" for p q xs
    unfolding del_pid_remove1 by (induction xs) auto
qed (auto simp: add_pid_def have_pid_count)

section \<open>The invariant of the table\<close>

text \<open>\<open>t0\<close> is the table before the module was loaded.\<close>

definition expected :: "(nat \<Rightarrow> handler) \<Rightarrow> nat \<Rightarrow> handler" where
  "expected t0 k = (if int k = MY_SYSCALL_NO then MySyscall else t0 k)"

definition sci_ok :: "(nat \<Rightarrow> handler) \<Rightarrow> nat \<Rightarrow> sci \<Rightarrow> bool" where
  "sci_ok t0 n s \<longleftrightarrow> length (info s) = n \<and> old_sys_call_table s = map t0 [0..<n] \<and>
     (\<forall>k. sys_call_table s k =
        (if k < n \<and> cmd (info s ! k) AND MY_REQUEST_SYSCALL_INTERCEPT \<noteq> 0 then Interceptor
         else expected t0 k)) \<and>
     (\<forall>k<n. cmd (info s ! k) AND MY_REQUEST_SYSCALL_INTERCEPT \<noteq> 0 \<longrightarrow>
        old_syscall (info s ! k) = expected t0 k)"

lemmas request_defs = MY_REQUEST_SYSCALL_INTERCEPT_def MY_REQUEST_SYSCALL_RELEASE_def
  MY_REQUEST_START_MONITOR_def MY_REQUEST_STOP_MONITOR_def

lemma flag_bits:
  "w AND MY_REQUEST_SYSCALL_INTERCEPT \<noteq> 0 \<longleftrightarrow> bit w 0"
  "w AND MY_REQUEST_START_MONITOR \<noteq> 0 \<longleftrightarrow> bit w 1"
proof -
  have "w AND 2 ^ n \<noteq> 0 \<longleftrightarrow> bit w n" for w :: u32 and n
    using and_exp_eq_0_iff_not_bit [of w n] by simp
  from this [of w 0] this [of w 1]
  show "w AND MY_REQUEST_SYSCALL_INTERCEPT \<noteq> 0 \<longleftrightarrow> bit w 0"
    "w AND MY_REQUEST_START_MONITOR \<noteq> 0 \<longleftrightarrow> bit w 1"
    by (simp_all add: request_defs)
qed

lemma flag_bits_zero:
  "w AND MY_REQUEST_SYSCALL_INTERCEPT = 0 \<longleftrightarrow> \<not> bit w 0"
  "w AND MY_REQUEST_START_MONITOR = 0 \<longleftrightarrow> \<not> bit w 1"
  using flag_bits [of w] by blast+

lemma flag_bits_set:
  "bit (w OR MY_REQUEST_SYSCALL_INTERCEPT) n \<longleftrightarrow> bit w n \<or> n = 0"
  "bit (w OR MY_REQUEST_START_MONITOR) n \<longleftrightarrow> bit w n \<or> n = 1"
  "bit (w AND MY_REQUEST_SYSCALL_RELEASE) n \<longleftrightarrow> bit w n \<and> n \<noteq> 0"
  "bit (w AND MY_REQUEST_STOP_MONITOR) n \<longleftrightarrow> bit w n \<and> n \<noteq> 1"
  using bit_2_iff [of n, where ?'a = "32 word"]
  by (auto simp: request_defs bit_simps dest: bit_imp_le_length)

lemma sci_okI_same:
  assumes "sci_ok t0 n s" "length (info s') = n" "old_sys_call_table s' = old_sys_call_table s"
    "sys_call_table s' = sys_call_table s"
    "\<And>k. k < n \<Longrightarrow> bit (cmd (info s' ! k)) 0 = bit (cmd (info s ! k)) 0 \<and>
      old_syscall (info s' ! k) = old_syscall (info s ! k)"
  shows "sci_ok t0 n s'"
  using assms by (auto simp: sci_ok_def flag_bits)

lemma sci_ok_printed [simp]: "sci_ok t0 n (s\<lparr>printed := l\<rparr>) = sci_ok t0 n s"
  by (simp add: sci_ok_def)

lemma info_atD: "info_at k s = Some i \<Longrightarrow> 0 \<le> k \<and> nat k < length (info s) \<and> i = info s ! nat k"
  by (auto simp: info_at_def split: if_splits)

lemma set_info_simps [simp]:
  "length (info (set_info k i s)) = length (info s)"
  "old_sys_call_table (set_info k i s) = old_sys_call_table s"
  "sys_call_table (set_info k i s) = sys_call_table s"
  "printed (set_info k i s) = printed s"
  "j < length (info s) \<Longrightarrow> info (set_info k i s) ! j = (if j = nat k then i else info s ! j)"
  by (auto simp: set_info_def nth_list_update)

lemma intercept_ok:
  assumes "sci_ok t0 n s" "info_at k s = Some i" "\<not> bit (cmd i) 0"
  shows "sci_ok t0 n ((set_info k (i\<lparr>cmd := cmd i OR MY_REQUEST_SYSCALL_INTERCEPT,
    old_syscall := sys_call_table s (nat k)\<rparr>) s)\<lparr>sys_call_table := (sys_call_table s)(nat k := Interceptor)\<rparr>)"
  using assms info_atD [OF assms(2)] by (auto simp: sci_ok_def flag_bits flag_bits_set set_info_def nth_list_update)

lemma release_ok:
  assumes "sci_ok t0 n s" "info_at k s = Some i" "bit (cmd i) 0"
  shows "sci_ok t0 n ((set_info k (i\<lparr>cmd := cmd i AND MY_REQUEST_SYSCALL_RELEASE\<rparr>) s)
    \<lparr>sys_call_table := (sys_call_table s)(nat k := old_syscall i)\<rparr>)"
  using assms info_atD [OF assms(2)] by (auto simp: sci_ok_def flag_bits flag_bits_set set_info_def nth_list_update)

lemma set_info_ok:
  assumes "sci_ok t0 n s" "info_at k s = Some i" "bit (cmd j) 0 = bit (cmd i) 0" "old_syscall j = old_syscall i"
  shows "sci_ok t0 n (set_info k j s)"
proof -
  have n: "length (info s) = n" using assms(1) by (simp add: sci_ok_def)
  show ?thesis
    by (rule sci_okI_same [OF assms(1)]) (use n assms info_atD [OF assms(2)] in auto)
qed

lemma my_syscall_ok:
  assumes "my_syscall req k p mem c s = Some (r, s')" "sci_ok t0 n s"
  shows "sci_ok t0 n s'"
proof (cases "k = MY_SYSCALL_NO \<or> k = NR_exit")
  case True
  with assms show ?thesis by (auto simp: my_syscall_def)
next
  case not_own: False
  show ?thesis
  proof (cases "k = NR_exit_group")
    case True
    have "sci_ok t0 n (s\<lparr>info := map (\<lambda>i. i\<lparr>pid := snd (del_pid (pid i) p)\<rparr>) (info s)\<rparr>)"
      using assms(2) by (intro sci_okI_same [OF assms(2)]) (auto simp: sci_ok_def)
    with assms(1) True not_own show ?thesis by (auto simp: my_syscall_def)
  next
    case False
    show ?thesis
    proof (cases req)
      case REQUEST_SYSCALL_INTERCEPT
      then show ?thesis
        using assms not_own False intercept_ok [OF assms(2)]
        by (auto simp: my_syscall_def flag_bits split: if_splits bind_splits)
    next
      case REQUEST_SYSCALL_RELEASE
      then show ?thesis
        using assms not_own False release_ok [OF assms(2)] flag_bits(1)
        by (auto simp: my_syscall_def split: if_splits bind_splits)
    next
      case REQUEST_START_MONITOR
      then show ?thesis
        using assms not_own False
        by (auto simp: my_syscall_def flag_bits_set split: if_splits bind_splits intro!: set_info_ok)
    next
      case REQUEST_STOP_MONITOR
      then show ?thesis
        using assms not_own False
        by (auto simp: my_syscall_def flag_bits_set split: if_splits bind_splits intro!: set_info_ok)
    next
      case REQUEST_OTHER
      with assms not_own False show ?thesis by (auto simp: my_syscall_def)
    qed
  qed
qed

section \<open>Properties\<close>

text \<open>What may happen between loading and unloading.\<close>

inductive sci_reach :: "(nat \<Rightarrow> handler) \<Rightarrow> nat \<Rightarrow> sci \<Rightarrow> bool" for t0 n where
  load: "my_hello_init n mem1 mem2 s = (0, s') \<Longrightarrow> sys_call_table s = t0 \<Longrightarrow> sci_reach t0 n s'"
| call: "sci_reach t0 n s \<Longrightarrow> my_syscall req k p mem c s = Some (r, s') \<Longrightarrow> sci_reach t0 n s'"
| intercepted: "sci_reach t0 n s \<Longrightarrow> interceptor run k args c s = Some (r, s') \<Longrightarrow> sci_reach t0 n s'"

lemma sci_reach_ok: "sci_reach t0 n s \<Longrightarrow> sci_ok t0 n s"
proof (induction rule: sci_reach.induct)
  case (load mem1 mem2 s s')
  then show ?case
    by (auto simp: my_hello_init_def sci_ok_def expected_def MY_SYSCALL_NO_def ENOMEM_def split: if_splits)
next
  case (call s req k p mem c r s')
  then show ?case by (blast intro: my_syscall_ok)
next
  case (intercepted s run k args c r s')
  then show ?case by (auto simp: interceptor_def Let_def split: bind_splits if_splits)
qed


definition empty_sci :: sci where
  "empty_sci = \<lparr>info = [], sys_call_table = Original, old_sys_call_table = [], printed = []\<rparr>"

definition root :: caller where "root = \<lparr>cur_pid = 7, cur_uid = 0, uid_of = (\<lambda>_. Some 5)\<rparr>"
definition user :: caller where "user = \<lparr>cur_pid = 8, cur_uid = 5, uid_of = (\<lambda>_. Some 5)\<rparr>"

text \<open>A loaded module that root has made intercept call 3, and which a user then monitors.\<close>

definition sci3 :: sci where
  "sci3 = snd (the (my_syscall REQUEST_SYSCALL_INTERCEPT 3 0 True root (snd (my_hello_init 4 True True empty_sci))))"

definition sci3_user :: sci where
  "sci3_user = snd (the (my_syscall REQUEST_START_MONITOR 3 9 True user sci3))"

lemmas sci_eval = my_syscall_def my_hello_init_def info_at_def set_info_def MY_SYSCALL_NO_def NR_exit_def
  NR_exit_group_def IS_ROOT_def request_defs check_owner_def add_pid_def eval_nat_numeral

lemma sci3_calls:
  "my_hello_init 4 True True empty_sci = (0, snd (my_hello_init 4 True True empty_sci))"
  "my_syscall REQUEST_SYSCALL_INTERCEPT 3 0 True root (snd (my_hello_init 4 True True empty_sci)) = Some (0, sci3)"
  "my_syscall REQUEST_START_MONITOR 3 9 True user sci3 = Some (0, sci3_user)"
  by (simp_all add: sci3_user_def sci3_def sci_eval root_def user_def)

lemma sci3_reach: "sci_reach Original 4 sci3" "sci_reach Original 4 sci3_user"
proof -
  have t: "sys_call_table empty_sci = Original" by (simp add: empty_sci_def)
  show 3: "sci_reach Original 4 sci3"
    by (rule sci_reach.call [OF sci_reach.load [OF sci3_calls(1) t] sci3_calls(2)])
  show "sci_reach Original 4 sci3_user"
    by (rule sci_reach.call [OF 3 sci3_calls(3)])
qed


text \<open>
  Only root changes the table of system calls or what is intercepted.
\<close>

theorem sci_only_root_intercepts:
  assumes "my_syscall req k p mem c s = Some (r, s')" "\<not> IS_ROOT c"
  shows "sys_call_table s' = sys_call_table s \<and>
    map (\<lambda>i. (bit (cmd i) 0, old_syscall i)) (info s') = map (\<lambda>i. (bit (cmd i) 0, old_syscall i)) (info s)"
proof -
  have keep: "map (\<lambda>i. (bit (cmd i) 0, old_syscall i)) (info (set_info k j s)) =
      map (\<lambda>i. (bit (cmd i) 0, old_syscall i)) (info s)"
    if "info_at k s = Some i" "bit (cmd j) 0 = bit (cmd i) 0" "old_syscall j = old_syscall i" for i j
    using info_atD [OF that(1)] that by (intro nth_equalityI) auto
  show ?thesis
    using assms
    by (cases req) (auto simp: my_syscall_def keep flag_bits_set split: if_splits bind_splits)
qed

theorem sci_only_root_intercepts_witness:
  "sys_call_table sci3_user = sys_call_table sci3"
proof -
  have "\<not> IS_ROOT user" by (simp add: IS_ROOT_def user_def)
  then show ?thesis using sci_only_root_intercepts [OF sci3_calls(3)] by simp
qed

text \<open>
  An intercepted call does what the original call does and returns its result; it is logged, with
  its arguments and result, exactly if monitoring of the call is on and the calling process, or
  process 0, is listed for it.
\<close>

theorem sci_interceptor_transparent:
  assumes "sci_reach t0 n s" "sys_call_table s k = Interceptor" "t0 k \<noteq> Interceptor"
  shows "\<exists>s'. interceptor run (int k) args c s = Some (run (expected t0 k) args, s') \<and>
    printed s' = printed s @ (if bit (cmd (info s ! k)) 1 \<and> (cur_pid c \<in> set (pid (info s ! k)) \<or>
      0 \<in> set (pid (info s ! k)))
      then [\<lparr>log_pid = cur_pid c, log_number = int k, log_args = args,
             log_result = run (expected t0 k) args\<rparr>] else []) \<and>
    sys_call_table s' = sys_call_table s \<and> info s' = info s"
proof -
  have ok: "sci_ok t0 n s" by (rule sci_reach_ok [OF assms(1)])
  have k: "k < n" "bit (cmd (info s ! k)) 0" "length (info s) = n"
    using ok assms(2,3) by (auto simp: sci_ok_def flag_bits expected_def split: if_splits)
  then have "old_syscall (info s ! k) = expected t0 k"
    using ok by (auto simp: sci_ok_def flag_bits)
  then show ?thesis
    using k by (auto simp: interceptor_def Let_def info_at_def check_pid_log_def flag_bits have_pid_set)
qed

theorem sci_interceptor_transparent_witness:
  "\<exists>s'. interceptor (\<lambda>h args. if h = Original 3 then 42 else 0) 3 [1, 2] user sci3_user = Some (42, s') \<and>
     length (printed s') = 1"
proof -
  have t: "sys_call_table sci3_user 3 = Interceptor" "bit (cmd (info sci3_user ! 3)) 1"
    "pid (info sci3_user ! 3) = [8]" "printed sci3_user = []"
    by (simp_all add: sci3_user_def sci3_def sci_eval root_def user_def empty_sci_def)
  show ?thesis
    using sci_interceptor_transparent [OF sci3_reach(2) t(1),
      of "\<lambda>h args. if h = Original 3 then 42 else 0" "[1, 2]" user] t
    by (auto simp: expected_def MY_SYSCALL_NO_def user_def)
qed

text \<open>
  Starting to monitor a call, when it succeeds, lists the calling process and no other, whatever
  process the caller named.
\<close>

theorem sci_start_lists_caller:
  assumes "my_syscall REQUEST_START_MONITOR k p True c s = Some (0, s')"
    and "k \<noteq> NR_exit_group"
  shows "have_pid (pid (info s' ! nat k)) q \<longleftrightarrow> q = cur_pid c \<or> have_pid (pid (info s ! nat k)) q"
proof -
  obtain i where i: "info_at k s = Some i" and s': "s' = set_info k (i\<lparr>pid := snd (add_pid True (pid i) (cur_pid c)),
      cmd := cmd i OR MY_REQUEST_START_MONITOR\<rparr>) s"
    using assms by (auto simp: my_syscall_def EBUSY_def EINVAL_def split: if_splits bind_splits)
  then show ?thesis
    using info_atD [OF i] lin.has_add [where p = q and q = "cur_pid c" and s = "pid i"] by simp
qed

theorem sci_start_lists_caller_witness:
  "have_pid (pid (info sci3_user ! 3)) 8 \<and> \<not> have_pid (pid (info sci3_user ! 3)) 9"
  using sci_start_lists_caller [OF sci3_calls(3), of 8] sci_start_lists_caller [OF sci3_calls(3), of 9]
  by (simp add: NR_exit_group_def user_def sci3_def sci_eval root_def)

end
