(* ===== verification/SciWindows.thy ===== *)
theory SciWindows
  imports SciLinux
begin

text \<open>
  The system call interceptor for Windows, \<open>src/SyscallMonitorWindows/sci.c\<close> and \<open>sci_win.h\<close>: the
  driver puts a copy of the service table, with a call of its own, in place of the system's, and on
  request an interceptor in place of single calls.

  The descriptors hold references to tables, so that the descriptor in use and the driver's own
  share one table as in the code. Entries of a new block that nobody wrote are \<open>Uninit\<close>. The answers
  of the kernel (memory, tokens, privileges, what a call returns) are arguments. \<open>None\<close> is an access
  outside an array. The request codes and flags are those of the Linux module, and a call that holds
  the spin lock is one step.
\<close>

section \<open>State\<close>

datatype handler_w = OriginalW nat | InterceptorW | MySyscallW | Uninit

datatype table_ref = SystemTable | DriverTable | Unset

record std =
  st :: table_ref
  ct :: "nat option"
  ls :: nat
  spt :: table_ref

record syscall_info_w =
  cmd_w :: u32
  pid_w :: "nat list"
  old_syscall_fptr :: handler_w

text \<open>What the driver has taken from the system: blocks of the pool and handles.\<close>

datatype kobj = BlockInfo | BlockSaved | BlockDescr | BlockParams | BlockTable | BlockLog | BlockUser
  | ProcessRef | ProcessHandle | TokenHandle

record log_packet =
  lp_pid :: nat
  lp_syscall :: nat
  lp_arg_no :: nat
  lp_ret :: ntstatus
  lp_args :: bytes

record sciw =
  info_w :: "nat \<Rightarrow> syscall_info_w"
  ke_table :: std
  ke_shadow :: std
  saved_ksdt :: "std option"
  own_ksdt :: "std option"
  st_of :: "table_ref \<Rightarrow> nat \<Rightarrow> handler_w"
  spt_of :: "table_ref \<Rightarrow> nat \<Rightarrow> u8"
  notify_w :: bool
  write_protect :: bool
  taken :: "kobj list"
  error_log :: "log_packet list"

text \<open>The caller of a call: its process, whether it may load drivers, and what the kernel answers
  about the users of processes.\<close>

record caller_w =
  cur_pid_w :: nat
  load_driver :: bool
  lookup_process :: "nat \<Rightarrow> ntstatus"
  thread_token :: ntstatus
  own_token :: ntstatus
  own_query :: ntstatus
  own_user :: nat
  open_process :: "nat \<Rightarrow> ntstatus"
  process_token :: "nat \<Rightarrow> ntstatus"
  process_query :: "nat \<Rightarrow> ntstatus"
  process_user :: "nat \<Rightarrow> nat"

definition MY_SYSCALL_NO_W :: nat where "MY_SYSCALL_NO_W = 0x200"

section \<open>Lists of processes\<close>

definition PidListStruct :: "nat \<Rightarrow> nat list \<Rightarrow> nat list" where "PidListStruct p xs = p # xs"

definition addPID :: "bool \<Rightarrow> nat \<Rightarrow> nat \<Rightarrow> sciw \<Rightarrow> ntstatus \<times> sciw" where
  "addPID mem k p s =
     (if \<not> mem then (STATUS_NO_MEMORY, s)
      else (STATUS_SUCCESS, s\<lparr>info_w := (info_w s)(k := (info_w s k)\<lparr>pid_w := PidListStruct p (pid_w (info_w s k))\<rparr>)\<rparr>))"

fun remove_walk :: "nat list \<Rightarrow> nat \<Rightarrow> (nat list) option" where
  "remove_walk [] p = None"
| "remove_walk (x # xs) p = (if x = p then Some xs else map_option ((#) x) (remove_walk xs p))"

definition removePID :: "nat \<Rightarrow> nat \<Rightarrow> sciw \<Rightarrow> ntstatus \<times> sciw" where
  "removePID k p s = (case remove_walk (pid_w (info_w s k)) p of
     None \<Rightarrow> (STATUS_INVALID_PARAMETER, s)
   | Some xs \<Rightarrow> (STATUS_SUCCESS, s\<lparr>info_w := (info_w s)(k := (info_w s k)\<lparr>pid_w := xs\<rparr>)\<rparr>))"

fun search_walk_w :: "nat list \<Rightarrow> nat \<Rightarrow> ntstatus" where
  "search_walk_w [] p = STATUS_INVALID_PARAMETER"
| "search_walk_w (x # xs) p = (if x = p then STATUS_SUCCESS else search_walk_w xs p)"

definition searchPID :: "nat \<Rightarrow> nat \<Rightarrow> sciw \<Rightarrow> ntstatus" where
  "searchPID k p s = search_walk_w (pid_w (info_w s k)) p"

definition checkPID :: "nat \<Rightarrow> nat \<Rightarrow> sciw \<Rightarrow> ntstatus" where
  "checkPID k p s = (let status = searchPID k p s in
     if status \<noteq> STATUS_SUCCESS then searchPID k 0 s else status)"

fun remove_all :: "nat list \<Rightarrow> nat \<Rightarrow> sciw \<Rightarrow> sciw" where
  "remove_all [] p s = s"
| "remove_all (i # is) p s = remove_all is p (snd (removePID i p s))"

definition my_exit_function :: "nat \<Rightarrow> bool \<Rightarrow> sciw \<Rightarrow> sciw" where
  "my_exit_function p created s = (if \<not> created then remove_all [0..<MY_SYSCALL_NO_W] p s else s)"

section \<open>Loading and unloading\<close>

text \<open>Entries from the system's table, up to \<open>n\<close>, in a new block.\<close>

definition copy_table :: "nat \<Rightarrow> (nat \<Rightarrow> 'a) \<Rightarrow> 'a \<Rightarrow> nat \<Rightarrow> 'a" where
  "copy_table n t fresh k = (if k < n then t k else fresh)"

definition DriverEntry_s :: "ntstatus \<Rightarrow> bool \<Rightarrow> bool \<Rightarrow> bool \<Rightarrow> bool \<Rightarrow> bool \<Rightarrow> u8 \<Rightarrow> sciw
    \<Rightarrow> (ntstatus \<times> sciw) option" where
  "DriverEntry_s notified m1 m2 m3 m4 m5 junk s =
     (if notified \<noteq> STATUS_SUCCESS then Some (STATUS_INVALID_PARAMETER, s)
      else let s = s\<lparr>notify_w := True\<rparr> in
      if \<not> m1 then Some (STATUS_NO_MEMORY, s)
      else let s = s\<lparr>taken := BlockInfo # taken s,
          info_w := (\<lambda>_. \<lparr>cmd_w = 0, pid_w = [], old_syscall_fptr = Uninit\<rparr>), write_protect := False\<rparr> in
      if \<not> m2 then Some (STATUS_NO_MEMORY, s)
      else let s = s\<lparr>taken := BlockSaved # taken s, saved_ksdt := Some (ke_table s)\<rparr> in
      if \<not> m3 then Some (STATUS_NO_MEMORY, s)
      else let old = ke_table s; k = \<lparr>st = Unset, ct = None, ls = MY_SYSCALL_NO_W + 1, spt = Unset\<rparr>;
          s = s\<lparr>taken := BlockDescr # taken s, own_ksdt := Some k\<rparr> in
      if \<not> m4 then Some (STATUS_NO_MEMORY, s)
      else if ls old > MY_SYSCALL_NO_W + 1 then None
      else let k = k\<lparr>spt := DriverTable\<rparr>; s = s\<lparr>taken := BlockParams # taken s, own_ksdt := Some k,
          spt_of := (spt_of s)(DriverTable := (copy_table (ls old) (spt_of s (spt old)) junk)(MY_SYSCALL_NO_W := 12))\<rparr> in
      if \<not> m5 then Some (STATUS_NO_MEMORY, s)
      else let k = k\<lparr>st := DriverTable\<rparr> in
        Some (STATUS_SUCCESS, s\<lparr>taken := BlockTable # taken s,
          st_of := (st_of s)(DriverTable := (copy_table (ls old) (st_of s (st old)) Uninit)(MY_SYSCALL_NO_W := MySyscallW)),
          own_ksdt := Some k, ke_table := k, ke_shadow := k, write_protect := True\<rparr>))"

definition DriverUnload_s :: "sciw \<Rightarrow> sciw option" where
  "DriverUnload_s s = do {
     old \<leftarrow> saved_ksdt s;
     Some (s\<lparr>ke_table := old, ke_shadow := old, write_protect := True,
       taken := remove1 BlockInfo (remove1 BlockDescr (remove1 BlockSaved (taken s))),
       notify_w := False\<rparr>)
   }"

section \<open>Users\<close>

definition UserAdmin :: "caller_w \<Rightarrow> bool" where "UserAdmin c = load_driver c"

definition CheckUsers :: "nat \<Rightarrow> nat \<Rightarrow> bool" where "CheckUsers u1 u2 \<longleftrightarrow> u1 = u2"

definition GetUserOf :: "caller_w \<Rightarrow> nat \<Rightarrow> bool \<Rightarrow> sciw \<Rightarrow> ntstatus \<times> nat \<times> sciw" where
  "GetUserOf c p mem s =
     (if open_process c p \<noteq> STATUS_SUCCESS then (open_process c p, 0, s)
      else let s1 = s\<lparr>taken := ProcessHandle # taken s\<rparr> in
      if process_token c p \<noteq> STATUS_SUCCESS then (process_token c p, 0, s1)
      else let s2 = s1\<lparr>taken := TokenHandle # taken s1\<rparr> in
      if \<not> mem then (STATUS_NO_MEMORY, 0, s2\<lparr>taken := remove1 ProcessHandle (taken s2)\<rparr>)
      else let s3 = s2\<lparr>taken := BlockUser # taken s2\<rparr> in
      if process_query c p \<noteq> STATUS_SUCCESS
      then (process_query c p, 0, s3\<lparr>taken := remove1 ProcessHandle (remove1 BlockUser (taken s3))\<rparr>)
      else (STATUS_SUCCESS, process_user c p, s3\<lparr>taken := remove1 ProcessHandle (taken s3)\<rparr>))"

definition GetCurrentUser :: "caller_w \<Rightarrow> bool \<Rightarrow> sciw \<Rightarrow> ntstatus \<times> nat \<times> sciw" where
  "GetCurrentUser c mem s =
     (let status = (if thread_token c \<noteq> STATUS_SUCCESS then own_token c else thread_token c) in
      if status \<noteq> STATUS_SUCCESS then (status, 0, s)
      else let s1 = s\<lparr>taken := TokenHandle # taken s\<rparr> in
      if \<not> mem then (STATUS_NO_MEMORY, 0, s1)
      else let s2 = s1\<lparr>taken := BlockUser # taken s1\<rparr> in
      if own_query c \<noteq> STATUS_SUCCESS
      then (own_query c, 0, s2\<lparr>taken := remove1 BlockUser (taken s2)\<rparr>)
      else (STATUS_SUCCESS, own_user c, s2))"

text \<open>The check of the monitor requests: an early return, or none. \<open>mem\<close> are the answers to the two
  allocations.\<close>

definition DO_CHECK :: "caller_w \<Rightarrow> nat \<Rightarrow> bool \<times> bool \<Rightarrow> sciw \<Rightarrow> ntstatus option \<times> sciw" where
  "DO_CHECK c p mem s =
     (if p = 0 then (if \<not> UserAdmin c then (Some STATUS_ACCESS_DENIED, s) else (None, s))
      else if lookup_process c p \<noteq> STATUS_SUCCESS then (Some (lookup_process c p), s)
      else let s = s\<lparr>taken := ProcessRef # taken s\<rparr>; (status, u1, s) = GetCurrentUser c (fst mem) s in
      if status \<noteq> STATUS_SUCCESS then (Some status, s)
      else let (status, u2, s) = GetUserOf c p (snd mem) s in
      if status \<noteq> STATUS_SUCCESS then (Some status, s)
      else if \<not> UserAdmin c \<and> \<not> CheckUsers u1 u2 then (Some STATUS_ACCESS_DENIED, s)
      else (None, s))"

section \<open>The interceptor and the driver's call\<close>

text \<open>\<open>run\<close> is what a handler returns for the argument bytes of its stack frame; \<open>mem\<close> and \<open>entry\<close> say
  whether there is memory for the packet and for the log entry.\<close>

definition interceptor_w :: "(handler_w \<Rightarrow> bytes \<Rightarrow> ntstatus) \<Rightarrow> nat \<Rightarrow> bytes \<Rightarrow> caller_w \<Rightarrow> bool \<Rightarrow> bool
    \<Rightarrow> sciw \<Rightarrow> (ntstatus \<times> sciw) option" where
  "interceptor_w run k old_stack c mem entry s =
     (if k \<ge> MY_SYSCALL_NO_W then None
      else let params = unat (spt_of s (spt (ke_table s)) k);
        result = run (old_syscall_fptr (info_w s k)) (take params old_stack) in
      if checkPID k (cur_pid_w c) s = STATUS_SUCCESS then
        (if \<not> mem then Some (STATUS_NO_MEMORY, s)
         else let s = s\<lparr>taken := BlockLog # taken s\<rparr> in
         if \<not> entry then Some (STATUS_NO_MEMORY, s)
         else Some (result, s\<lparr>error_log := error_log s @ [\<lparr>lp_pid = cur_pid_w c, lp_syscall = k,
           lp_arg_no = params div 4, lp_ret = result, lp_args = take params old_stack\<rparr>]\<rparr>))
      else Some (result, s))"

definition set_info_w :: "nat \<Rightarrow> syscall_info_w \<Rightarrow> sciw \<Rightarrow> sciw" where
  "set_info_w k i s = s\<lparr>info_w := (info_w s)(k := i)\<rparr>"

definition set_st :: "nat \<Rightarrow> handler_w \<Rightarrow> std \<Rightarrow> sciw \<Rightarrow> sciw" where
  "set_st k h d s = s\<lparr>st_of := (st_of s)(st d := (st_of s (st d))(k := h))\<rparr>"

definition my_syscall_w :: "request \<Rightarrow> int \<Rightarrow> nat \<Rightarrow> bool \<times> bool \<Rightarrow> bool \<Rightarrow> caller_w \<Rightarrow> sciw
    \<Rightarrow> (ntstatus \<times> sciw) option" where
  "my_syscall_w req no p mem node c s =
     (if no < 0 \<or> no \<ge> int MY_SYSCALL_NO_W then Some (STATUS_INVALID_PARAMETER, s)
      else let k = nat no; i = info_w s k in
      (case req of
        REQUEST_SYSCALL_INTERCEPT \<Rightarrow>
          (if \<not> UserAdmin c then Some (STATUS_ACCESS_DENIED, s)
           else if cmd_w i AND MY_REQUEST_SYSCALL_INTERCEPT \<noteq> 0 then Some (STATUS_DEVICE_BUSY, s)
           else do {
             d \<leftarrow> own_ksdt s;
             Some (STATUS_SUCCESS, set_st k InterceptorW d (set_info_w k
               (i\<lparr>cmd_w := cmd_w i OR MY_REQUEST_SYSCALL_INTERCEPT, old_syscall_fptr := st_of s (st d) k\<rparr>) s))
           })
      | REQUEST_SYSCALL_RELEASE \<Rightarrow>
          (if \<not> UserAdmin c then Some (STATUS_ACCESS_DENIED, s)
           else if cmd_w i AND MY_REQUEST_SYSCALL_INTERCEPT = 0 then Some (STATUS_INVALID_PARAMETER, s)
           else do {
             d \<leftarrow> own_ksdt s;
             Some (STATUS_SUCCESS, set_st k (old_syscall_fptr i) d (set_info_w k
               (i\<lparr>cmd_w := cmd_w i AND MY_REQUEST_SYSCALL_RELEASE\<rparr>) s))
           })
      | REQUEST_START_MONITOR \<Rightarrow>
          (case DO_CHECK c p mem s of
            (Some status, s) \<Rightarrow> Some (status, s)
          | (None, s) \<Rightarrow>
              (if cmd_w i AND MY_REQUEST_START_MONITOR \<noteq> 0 then Some (STATUS_DEVICE_BUSY, s)
               else if cmd_w i AND MY_REQUEST_SYSCALL_INTERCEPT = 0 then Some (STATUS_INVALID_PARAMETER, s)
               else Some (STATUS_SUCCESS,
                 snd (addPID node k p (set_info_w k (i\<lparr>cmd_w := cmd_w i OR MY_REQUEST_START_MONITOR\<rparr>) s)))))
      | REQUEST_STOP_MONITOR \<Rightarrow>
          (case DO_CHECK c p mem s of
            (Some status, s) \<Rightarrow> Some (status, s)
          | (None, s) \<Rightarrow>
              (if cmd_w i AND MY_REQUEST_START_MONITOR = 0 then Some (STATUS_INVALID_PARAMETER, s)
               else let (status, s) = removePID k p s in
                 if status \<noteq> STATUS_SUCCESS then Some (status, s)
                 else Some (STATUS_SUCCESS, set_info_w k
                   ((info_w s k)\<lparr>cmd_w := cmd_w (info_w s k) AND MY_REQUEST_STOP_MONITOR\<rparr>) s)))
      | REQUEST_OTHER \<Rightarrow> Some (STATUS_INVALID_PARAMETER, s)))"

end
