(* ===== verification/SciWindowsCorrect.thy ===== *)
theory SciWindowsCorrect
  imports SciWindows
begin

text \<open>
  The Windows interceptor: the lists keep the contract of \<open>pid_bag\<close>, the table in use is the
  system's with the interceptor at the intercepted calls, at most one process is monitored for a
  call, and what becomes of a monitored call when its process ends.
\<close>

section \<open>Lists\<close>

lemma remove_walk_remove1: "remove_walk xs p = (if p \<in> set xs then Some (remove1 p xs) else None)"
  by (induction xs) auto

lemma search_walk_w: "search_walk_w xs p = (if p \<in> set xs then STATUS_SUCCESS else STATUS_INVALID_PARAMETER)"
  by (induction xs) auto

lemma removePID_eq:
  "removePID k p s = (if p \<in> set (pid_w (info_w s k))
     then (STATUS_SUCCESS, s\<lparr>info_w := (info_w s)(k := (info_w s k)\<lparr>pid_w := remove1 p (pid_w (info_w s k))\<rparr>)\<rparr>)
     else (STATUS_INVALID_PARAMETER, s))"
  by (simp add: removePID_def remove_walk_remove1)

lemma removePID_state:
  "snd (removePID k p s) =
     s\<lparr>info_w := (info_w s)(k := (info_w s k)\<lparr>pid_w := remove1 p (pid_w (info_w s k))\<rparr>)\<rparr>"
  by (simp add: removePID_eq remove1_idem)

lemma checkPID_eq: "checkPID k p s = STATUS_SUCCESS \<longleftrightarrow> p \<in> set (pid_w (info_w s k)) \<or> 0 \<in> set (pid_w (info_w s k))"
  by (simp add: checkPID_def searchPID_def search_walk_w)

interpretation win: pid_bag "\<lambda>p s. snd (addPID True k p s)" "\<lambda>p s. snd (removePID k p s)"
  "\<lambda>p s. searchPID k p s = STATUS_SUCCESS" "\<lambda>p s. count_list (pid_w (info_w s k)) p" for k
proof unfold_locales
  have "count_list (remove1 q xs) p = count_list xs p - of_bool (p = q)" for p q :: nat and xs
    by (induction xs) auto
  then show "count_list (pid_w (info_w (snd (removePID k q s)) k)) p =
      count_list (pid_w (info_w s k)) p - of_bool (p = q)" for p q s
    by (simp add: removePID_state)
qed (auto simp: addPID_def PidListStruct_def searchPID_def search_walk_w count_list_0_iff simp flip: neq0_conv)

lemma remove_all_distinct:
  "distinct is \<Longrightarrow> remove_all is p s = s\<lparr>info_w := (\<lambda>k. if k \<in> set is
     then (info_w s k)\<lparr>pid_w := remove1 p (pid_w (info_w s k))\<rparr> else info_w s k)\<rparr>"
proof (induction "is" arbitrary: s)
  case Nil
  then show ?case by simp
next
  case (Cons i "is")
  then show ?case by (simp add: removePID_state) (rule arg_cong [where f = "\<lambda>f. s\<lparr>info_w := f\<rparr>"], auto)
qed

lemma my_exit_function_state:
  "my_exit_function p False s = s\<lparr>info_w := (\<lambda>k. if k < MY_SYSCALL_NO_W
     then (info_w s k)\<lparr>pid_w := remove1 p (pid_w (info_w s k))\<rparr> else info_w s k)\<rparr>"
  "my_exit_function p True s = s"
  by (simp_all add: my_exit_function_def remove_all_distinct)

section \<open>What a call may do\<close>

lemma taken_self [simp]: "\<exists>l. s = s\<lparr>taken := l\<rparr>" for s :: sciw
  by (rule exI [of _ "taken s"]) simp

lemma GetUserOf_state: "\<exists>l. snd (snd (GetUserOf c p mem s)) = s\<lparr>taken := l\<rparr>"
  by (auto simp: GetUserOf_def Let_def)

lemma GetCurrentUser_state: "\<exists>l. snd (snd (GetCurrentUser c mem s)) = s\<lparr>taken := l\<rparr>"
  by (auto simp: GetCurrentUser_def Let_def)

lemma DO_CHECK_state:
  assumes "DO_CHECK c p mem s = (r, s')"
  obtains l where "s' = s\<lparr>taken := l\<rparr>" "r \<noteq> Some STATUS_SUCCESS"
proof -
  obtain st1 u1 s1 where 1: "GetCurrentUser c (fst mem) (s\<lparr>taken := ProcessRef # taken s\<rparr>) = (st1, u1, s1)"
    by (cases "GetCurrentUser c (fst mem) (s\<lparr>taken := ProcessRef # taken s\<rparr>)") auto
  obtain st2 u2 s2 where 2: "GetUserOf c p (snd mem) s1 = (st2, u2, s2)"
    by (cases "GetUserOf c p (snd mem) s1") auto
  obtain l1 where l1: "s1 = s\<lparr>taken := l1\<rparr>"
    using GetCurrentUser_state [of c "fst mem" "s\<lparr>taken := ProcessRef # taken s\<rparr>"] 1 by auto
  obtain l2 where l2: "s2 = s\<lparr>taken := l2\<rparr>"
    using GetUserOf_state [of c p "snd mem" s1] 2 l1 by auto
  have "\<exists>l. s' = s\<lparr>taken := l\<rparr>" "r \<noteq> Some STATUS_SUCCESS"
    using assms 1 2 l1 l2 by (auto simp: DO_CHECK_def Let_def split: if_splits)
  then show ?thesis using that by blast
qed

lemma my_syscall_w_cases:
  fixes no :: int and s :: sciw
  defines "k \<equiv> nat no"
  defines "i \<equiv> info_w s k"
  assumes "my_syscall_w req no p mem node c s = Some (r, s')"
  obtains (refused) l where "s' = s\<lparr>taken := l\<rparr>" "r \<noteq> STATUS_SUCCESS"
  | (intercept) d where "req = REQUEST_SYSCALL_INTERCEPT" "k < MY_SYSCALL_NO_W" "own_ksdt s = Some d"
      "\<not> bit (cmd_w i) 0" "UserAdmin c"
      "s' = set_st k InterceptorW d (set_info_w k
        (i\<lparr>cmd_w := cmd_w i OR MY_REQUEST_SYSCALL_INTERCEPT, old_syscall_fptr := st_of s (st d) k\<rparr>) s)"
  | (release) d where "req = REQUEST_SYSCALL_RELEASE" "k < MY_SYSCALL_NO_W" "own_ksdt s = Some d"
      "bit (cmd_w i) 0" "UserAdmin c"
      "s' = set_st k (old_syscall_fptr i) d (set_info_w k (i\<lparr>cmd_w := cmd_w i AND MY_REQUEST_SYSCALL_RELEASE\<rparr>) s)"
  | (start) l where "req = REQUEST_START_MONITOR" "k < MY_SYSCALL_NO_W" "bit (cmd_w i) 0" "\<not> bit (cmd_w i) 1"
      "s' = set_info_w k (i\<lparr>cmd_w := cmd_w i OR MY_REQUEST_START_MONITOR,
        pid_w := (if node then p # pid_w i else pid_w i)\<rparr>) (s\<lparr>taken := l\<rparr>)"
  | (stop) l where "req = REQUEST_STOP_MONITOR" "k < MY_SYSCALL_NO_W" "bit (cmd_w i) 1" "p \<in> set (pid_w i)"
      "s' = set_info_w k (i\<lparr>pid_w := remove1 p (pid_w i), cmd_w := cmd_w i AND MY_REQUEST_STOP_MONITOR\<rparr>)
        (s\<lparr>taken := l\<rparr>)"
proof (cases "no < 0 \<or> no \<ge> int MY_SYSCALL_NO_W")
  case True
  then show ?thesis using assms refused [of "taken s"] by (auto simp: my_syscall_w_def)
next
  case False
  then have k: "k < MY_SYSCALL_NO_W" by (auto simp: k_def)
  note d = assms(3) [unfolded my_syscall_w_def] k_def i_def
  show ?thesis
  proof (cases req)
    case REQUEST_SYSCALL_INTERCEPT
    show ?thesis
    proof (cases "UserAdmin c \<and> \<not> bit (cmd_w i) 0")
      case True
      then obtain d where "own_ksdt s = Some d" "s' = set_st k InterceptorW d (set_info_w k
        (i\<lparr>cmd_w := cmd_w i OR MY_REQUEST_SYSCALL_INTERCEPT, old_syscall_fptr := st_of s (st d) k\<rparr>) s)"
        using d False REQUEST_SYSCALL_INTERCEPT by (auto simp: flag_bits_zero Let_def split: bind_splits)
      with True k REQUEST_SYSCALL_INTERCEPT show ?thesis by (intro intercept) auto
    next
      case no: False
      with d False REQUEST_SYSCALL_INTERCEPT have "s' = s \<and> r \<noteq> STATUS_SUCCESS"
        by (auto simp: flag_bits_zero Let_def split: if_splits)
      then show ?thesis by (intro refused [of "taken s"]) auto
    qed
  next
    case REQUEST_SYSCALL_RELEASE
    show ?thesis
    proof (cases "UserAdmin c \<and> bit (cmd_w i) 0")
      case True
      then obtain d where "own_ksdt s = Some d" "s' = set_st k (old_syscall_fptr i) d (set_info_w k
        (i\<lparr>cmd_w := cmd_w i AND MY_REQUEST_SYSCALL_RELEASE\<rparr>) s)"
        using d False REQUEST_SYSCALL_RELEASE by (auto simp: flag_bits_zero Let_def split: bind_splits)
      with True k REQUEST_SYSCALL_RELEASE show ?thesis by (intro release) auto
    next
      case no: False
      with d False REQUEST_SYSCALL_RELEASE have "s' = s \<and> r \<noteq> STATUS_SUCCESS"
        by (auto simp: flag_bits_zero Let_def split: if_splits)
      then show ?thesis by (intro refused [of "taken s"]) auto
    qed
  next
    case REQUEST_START_MONITOR
    obtain a s1 where c: "DO_CHECK c p mem s = (a, s1)" by fastforce
    then obtain l where l: "s1 = s\<lparr>taken := l\<rparr>" "a \<noteq> Some STATUS_SUCCESS" by (rule DO_CHECK_state)
    show ?thesis
    proof (cases "a = None \<and> bit (cmd_w i) 0 \<and> \<not> bit (cmd_w i) 1")
      case True
      with d False c l REQUEST_START_MONITOR
      have "s' = set_info_w k (i\<lparr>cmd_w := cmd_w i OR MY_REQUEST_START_MONITOR,
        pid_w := (if node then p # pid_w i else pid_w i)\<rparr>) (s\<lparr>taken := l\<rparr>)"
        by (cases node) (auto simp: flag_bits_zero Let_def addPID_def PidListStruct_def set_info_w_def)
      with True k REQUEST_START_MONITOR show ?thesis by (intro start) auto
    next
      case no: False
      with d False c l REQUEST_START_MONITOR have "s' = s\<lparr>taken := l\<rparr> \<and> r \<noteq> STATUS_SUCCESS"
        by (cases a) (auto simp: flag_bits_zero Let_def split: if_splits)
      then show ?thesis by (intro refused [of l]) auto
    qed
  next
    case REQUEST_STOP_MONITOR
    obtain a s1 where c: "DO_CHECK c p mem s = (a, s1)" by fastforce
    then obtain l where l: "s1 = s\<lparr>taken := l\<rparr>" "a \<noteq> Some STATUS_SUCCESS" by (rule DO_CHECK_state)
    show ?thesis
    proof (cases "a = None \<and> bit (cmd_w i) 1 \<and> p \<in> set (pid_w i)")
      case True
      with d False c l REQUEST_STOP_MONITOR
      have "s' = set_info_w k (i\<lparr>pid_w := remove1 p (pid_w i), cmd_w := cmd_w i AND MY_REQUEST_STOP_MONITOR\<rparr>)
        (s\<lparr>taken := l\<rparr>)"
        by (simp add: flag_bits_zero Let_def removePID_eq set_info_w_def)
      with True k REQUEST_STOP_MONITOR show ?thesis by (intro stop) auto
    next
      case no: False
      with d False c l REQUEST_STOP_MONITOR have "s' = s\<lparr>taken := l\<rparr> \<and> r \<noteq> STATUS_SUCCESS"
        by (cases a) (auto simp: flag_bits_zero Let_def removePID_eq split: if_splits)
      then show ?thesis by (intro refused [of l]) auto
    qed
  next
    case REQUEST_OTHER
    with d False have "s' = s \<and> r \<noteq> STATUS_SUCCESS" by auto
    then show ?thesis by (intro refused [of "taken s"]) auto
  qed
qed

section \<open>The invariant\<close>

definition own_table :: std where
  "own_table = \<lparr>st = DriverTable, ct = None, ls = MY_SYSCALL_NO_W + 1, spt = DriverTable\<rparr>"

text \<open>\<open>old\<close> is the system's descriptor and \<open>t0\<close> the table it refers to before loading.\<close>

definition loaded_table :: "(nat \<Rightarrow> handler_w) \<Rightarrow> std \<Rightarrow> nat \<Rightarrow> handler_w" where
  "loaded_table t0 old k = (if k = MY_SYSCALL_NO_W then MySyscallW else if k < ls old then t0 k else Uninit)"

definition sciw_ok :: "(nat \<Rightarrow> handler_w) \<Rightarrow> std \<Rightarrow> sciw \<Rightarrow> bool" where
  "sciw_ok t0 old s \<longleftrightarrow> own_ksdt s = Some own_table \<and> ke_table s = own_table \<and> ke_shadow s = own_table \<and>
     saved_ksdt s = Some old \<and> notify_w s \<and>
     (\<forall>k. st_of s DriverTable k =
        (if k < MY_SYSCALL_NO_W \<and> bit (cmd_w (info_w s k)) 0 then InterceptorW else loaded_table t0 old k)) \<and>
     (\<forall>k<MY_SYSCALL_NO_W. bit (cmd_w (info_w s k)) 0 \<longrightarrow>
        old_syscall_fptr (info_w s k) = loaded_table t0 old k) \<and>
     (\<forall>k<MY_SYSCALL_NO_W. length (pid_w (info_w s k)) \<le> 1 \<and>
        (\<not> bit (cmd_w (info_w s k)) 1 \<longrightarrow> pid_w (info_w s k) = [])) \<and>
     (st old \<noteq> DriverTable \<longrightarrow> st_of s (st old) = t0)"

inductive sciw_step :: "sciw \<Rightarrow> sciw \<Rightarrow> bool" where
  call: "my_syscall_w req no p mem node c s = Some (r, s') \<Longrightarrow> sciw_step s s'"
| process: "sciw_step s (my_exit_function p created s)"
| intercepted: "interceptor_w run k args c mem entry s = Some (r, s') \<Longrightarrow> sciw_step s s'"

definition sciw_reach :: "(nat \<Rightarrow> handler_w) \<Rightarrow> std \<Rightarrow> sciw \<Rightarrow> bool" where
  "sciw_reach t0 old s \<longleftrightarrow> (\<exists>s0 s1 m1 m2 m3 m4 m5 notified junk. ke_table s0 = old \<and> st_of s0 (st old) = t0 \<and>
     DriverEntry_s notified m1 m2 m3 m4 m5 junk s0 = Some (STATUS_SUCCESS, s1) \<and> sciw_step\<^sup>*\<^sup>* s1 s)"

lemma DriverEntry_ok:
  assumes "DriverEntry_s notified m1 m2 m3 m4 m5 junk s = Some (STATUS_SUCCESS, s')"
  shows "sciw_ok (st_of s (st (ke_table s))) (ke_table s) s' \<and>
    taken s' = [BlockTable, BlockParams, BlockDescr, BlockSaved, BlockInfo] @ taken s"
  using assms
  by (auto simp: DriverEntry_s_def Let_def sciw_ok_def own_table_def loaded_table_def copy_table_def
      split: if_splits)

lemma sciw_okI_info:
  assumes "sciw_ok t0 old s"
    "\<And>k. k < MY_SYSCALL_NO_W \<Longrightarrow> bit (cmd_w (f k)) 0 = bit (cmd_w (info_w s k)) 0 \<and>
      old_syscall_fptr (f k) = old_syscall_fptr (info_w s k) \<and> length (pid_w (f k)) \<le> 1 \<and>
      (\<not> bit (cmd_w (f k)) 1 \<longrightarrow> pid_w (f k) = [])"
  shows "sciw_ok t0 old (s\<lparr>info_w := f\<rparr>)"
  using assms unfolding sciw_ok_def by (auto cong: conj_cong)

lemma sciw_ok_other [simp]:
  "sciw_ok t0 old (s\<lparr>taken := l\<rparr>) = sciw_ok t0 old s"
  "sciw_ok t0 old (s\<lparr>error_log := g\<rparr>) = sciw_ok t0 old s"
  by (simp_all add: sciw_ok_def)

lemma sciw_okD:
  assumes "sciw_ok t0 old s" "k < MY_SYSCALL_NO_W"
  shows "length (pid_w (info_w s k)) \<le> 1" "\<not> bit (cmd_w (info_w s k)) 1 \<Longrightarrow> pid_w (info_w s k) = []"
    "bit (cmd_w (info_w s k)) 0 \<Longrightarrow> old_syscall_fptr (info_w s k) = loaded_table t0 old k"
    "own_ksdt s = Some own_table"
    "st_of s DriverTable k = (if bit (cmd_w (info_w s k)) 0 then InterceptorW else loaded_table t0 old k)"
  using assms by (auto simp: sciw_ok_def)

lemma intercept_w_ok:
  assumes "sciw_ok t0 old s" "k < MY_SYSCALL_NO_W" "\<not> bit (cmd_w (info_w s k)) 0"
  shows "sciw_ok t0 old (set_st k InterceptorW own_table (set_info_w k ((info_w s k)
    \<lparr>cmd_w := cmd_w (info_w s k) OR MY_REQUEST_SYSCALL_INTERCEPT, old_syscall_fptr := st_of s (st own_table) k\<rparr>) s))"
  using assms by (auto simp: sciw_ok_def set_st_def set_info_w_def flag_bits_set own_table_def)

lemma release_w_ok:
  assumes "sciw_ok t0 old s" "k < MY_SYSCALL_NO_W" "bit (cmd_w (info_w s k)) 0"
  shows "sciw_ok t0 old (set_st k (old_syscall_fptr (info_w s k)) own_table (set_info_w k ((info_w s k)
    \<lparr>cmd_w := cmd_w (info_w s k) AND MY_REQUEST_SYSCALL_RELEASE\<rparr>) s))"
  using assms by (auto simp: sciw_ok_def set_st_def set_info_w_def flag_bits_set own_table_def)

lemma remove1_short: "length xs \<le> 1 \<Longrightarrow> p \<in> set xs \<Longrightarrow> remove1 p xs = []"
  by (cases xs) auto

lemma my_syscall_w_ok:
  assumes "my_syscall_w req no p mem node c s = Some (r, s')" and ok: "sciw_ok t0 old s"
  shows "sciw_ok t0 old s'"
  using assms(1)
proof (cases rule: my_syscall_w_cases)
  case refused
  then show ?thesis using ok by simp
next
  case (intercept d)
  then show ?thesis using intercept_w_ok [OF ok intercept(2)] sciw_okD(4) [OF ok intercept(2)] by simp
next
  case (release d)
  then show ?thesis using release_w_ok [OF ok release(2)] sciw_okD(4) [OF ok release(2)] by simp
next
  case (start l)
  have "sciw_ok t0 old (s\<lparr>taken := l\<rparr>)" using ok by simp
  then show ?thesis
    unfolding start(5) set_info_w_def
    by (rule sciw_okI_info) (use sciw_okD [OF ok] start in \<open>auto simp: flag_bits_set\<close>)
next
  case (stop l)
  have "sciw_ok t0 old (s\<lparr>taken := l\<rparr>)" using ok by simp
  then show ?thesis
    unfolding stop(5) set_info_w_def
    by (rule sciw_okI_info)
      (use sciw_okD [OF ok] stop remove1_short [OF sciw_okD(1) [OF ok stop(2)] stop(4)]
        in \<open>auto simp: flag_bits_set\<close>)
qed

lemma sciw_step_ok: "sciw_step s s' \<Longrightarrow> sciw_ok t0 old s \<Longrightarrow> sciw_ok t0 old s'"
proof (induction rule: sciw_step.induct)
  case (call req no p mem node c s r s')
  then show ?case by (rule my_syscall_w_ok)
next
  case (process s p created)
  then show ?case
    by (cases created) (auto simp: my_exit_function_state length_remove1 dest: sciw_okD intro!: sciw_okI_info)
next
  case (intercepted run k args c mem entry s r s')
  then show ?case by (auto simp: interceptor_w_def Let_def split: if_splits)
qed

lemma sciw_reach_ok: "sciw_reach t0 old s \<Longrightarrow> sciw_ok t0 old s"
proof -
  have "sciw_step\<^sup>*\<^sup>* s s' \<Longrightarrow> sciw_ok t0 old s \<Longrightarrow> sciw_ok t0 old s'" for s s'
    by (induction rule: rtranclp_induct) (auto intro: sciw_step_ok)
  then show "sciw_reach t0 old s \<Longrightarrow> sciw_ok t0 old s"
    using DriverEntry_ok by (fastforce simp: sciw_reach_def)
qed

section \<open>A monitored call whose process has ended\<close>

definition stuck :: "nat \<Rightarrow> sciw \<Rightarrow> bool" where
  "stuck k s \<longleftrightarrow> bit (cmd_w (info_w s k)) 1 \<and> pid_w (info_w s k) = []"

lemma stuck_call:
  assumes "my_syscall_w req no p mem node c s = Some (r, s')" "stuck k s"
  shows "stuck k s'"
  using assms(1)
proof (cases rule: my_syscall_w_cases)
  case refused
  then show ?thesis using assms(2) by (simp add: stuck_def)
next
  case (intercept d)
  then show ?thesis using assms(2) by (auto simp: stuck_def set_st_def set_info_w_def flag_bits_set)
next
  case (release d)
  then show ?thesis using assms(2) by (auto simp: stuck_def set_st_def set_info_w_def flag_bits_set)
next
  case (start l)
  then show ?thesis using assms(2) by (auto simp: stuck_def set_info_w_def)
next
  case (stop l)
  then show ?thesis using assms(2) by (auto simp: stuck_def set_info_w_def)
qed

lemma stuck_step: "sciw_step s s' \<Longrightarrow> stuck k s \<Longrightarrow> stuck k s'"
proof (induction rule: sciw_step.induct)
  case (call req no p mem node c s r s')
  then show ?case by (rule stuck_call)
next
  case (process s p created)
  then show ?case by (cases created) (simp_all add: my_exit_function_state stuck_def)
next
  case (intercepted run k' args c mem entry s r s')
  then show ?case by (auto simp: interceptor_w_def Let_def stuck_def split: if_splits)
qed

lemma stuck_steps: "sciw_step\<^sup>*\<^sup>* s s' \<Longrightarrow> stuck k s \<Longrightarrow> stuck k s'"
  by (induction rule: rtranclp_induct) (auto intro: stuck_step)

lemma stuck_refuses:
  assumes "stuck k s" "k < MY_SYSCALL_NO_W" "req = REQUEST_START_MONITOR \<or> req = REQUEST_STOP_MONITOR"
  shows "\<exists>r s'. my_syscall_w req (int k) p mem node c s = Some (r, s') \<and> r \<noteq> STATUS_SUCCESS"
proof -
  obtain a s1 where c: "DO_CHECK c p mem s = (a, s1)" by fastforce
  then obtain l where "s1 = s\<lparr>taken := l\<rparr>" "a \<noteq> Some STATUS_SUCCESS" by (rule DO_CHECK_state)
  then show ?thesis
    using assms c by (cases a) (auto simp: my_syscall_w_def Let_def flag_bits_zero stuck_def removePID_eq)
qed

text \<open>A system of 300 calls, the driver loaded, call 3 intercepted and process 9 monitored for it.\<close>

definition sys_std :: std where
  "sys_std = \<lparr>st = SystemTable, ct = Some 0, ls = 300, spt = SystemTable\<rparr>"

definition system0 :: sciw where
  "system0 = \<lparr>info_w = (\<lambda>_. \<lparr>cmd_w = 0, pid_w = [], old_syscall_fptr = Uninit\<rparr>), ke_table = sys_std,
    ke_shadow = sys_std, saved_ksdt = None, own_ksdt = None, st_of = (\<lambda>_. OriginalW), spt_of = (\<lambda>_ _. 8),
    notify_w = False, write_protect = True, taken = [], error_log = []\<rparr>"

definition admin :: caller_w where
  "admin = \<lparr>cur_pid_w = 9, load_driver = True, lookup_process = (\<lambda>_. STATUS_SUCCESS),
    thread_token = STATUS_SUCCESS, own_token = STATUS_SUCCESS, own_query = STATUS_SUCCESS, own_user = 1,
    open_process = (\<lambda>_. STATUS_SUCCESS), process_token = (\<lambda>_. STATUS_SUCCESS),
    process_query = (\<lambda>_. STATUS_SUCCESS), process_user = (\<lambda>_. 2)\<rparr>"

definition loaded0 :: sciw where
  "loaded0 = snd (the (DriverEntry_s STATUS_SUCCESS True True True True True 0 system0))"

definition hooked0 :: sciw where
  "hooked0 = snd (the (my_syscall_w REQUEST_SYSCALL_INTERCEPT 3 0 (True, True) True admin loaded0))"

definition monitored0 :: sciw where
  "monitored0 = snd (the (my_syscall_w REQUEST_START_MONITOR 3 9 (True, True) True admin hooked0))"

lemmas system0_defs = system0_def sys_std_def admin_def loaded0_def hooked0_def monitored0_def
lemmas sciw_eval = DriverEntry_s_def my_syscall_w_def MY_SYSCALL_NO_W_def Let_def DO_CHECK_def UserAdmin_def
  GetCurrentUser_def GetUserOf_def CheckUsers_def addPID_def PidListStruct_def set_info_w_def set_st_def
  request_defs

lemma system0_calls:
  "DriverEntry_s STATUS_SUCCESS True True True True True 0 system0 = Some (STATUS_SUCCESS, loaded0)"
  "my_syscall_w REQUEST_SYSCALL_INTERCEPT 3 0 (True, True) True admin loaded0 = Some (STATUS_SUCCESS, hooked0)"
  "my_syscall_w REQUEST_START_MONITOR (int 3) 9 (True, True) True admin hooked0 = Some (STATUS_SUCCESS, monitored0)"
  by (simp_all add: system0_defs sciw_eval copy_table_def)

lemma system0_reach: "sciw_reach OriginalW sys_std hooked0" "sciw_reach OriginalW sys_std monitored0"
proof -
  have s: "ke_table system0 = sys_std" "st_of system0 (st sys_std) = OriginalW"
    by (simp_all add: system0_def)
  have h: "sciw_step\<^sup>*\<^sup>* loaded0 hooked0"
    using sciw_step.call [OF system0_calls(2)] by blast
  then have m: "sciw_step\<^sup>*\<^sup>* loaded0 monitored0"
    using sciw_step.call [OF system0_calls(3)] by (rule rtranclp.rtrancl_into_rtrancl)
  show "sciw_reach OriginalW sys_std hooked0" "sciw_reach OriginalW sys_std monitored0"
    unfolding sciw_reach_def using s system0_calls(1) h m by blast+
qed

lemma monitored0_info:
  "info_w monitored0 3 = \<lparr>cmd_w = 3, pid_w = [9], old_syscall_fptr = OriginalW 3\<rparr>"
  "info_w hooked0 3 = \<lparr>cmd_w = 1, pid_w = [], old_syscall_fptr = OriginalW 3\<rparr>"
  by (simp_all add: system0_defs sciw_eval copy_table_def)

section \<open>Properties\<close>

text \<open>
  After loading, whatever happens, both descriptors of the system refer to the driver's table,
  which holds the interceptor exactly at the calls now intercepted, the driver's own call, and
  otherwise the system's handlers; unloading puts the old descriptors back, whose table is as before.
\<close>

theorem win_sci_unload_restores:
  assumes "sciw_reach t0 old s" "st old = SystemTable"
  shows "ke_shadow s = ke_table s \<and>
    (\<forall>k. st_of s (st (ke_table s)) k = (if k = MY_SYSCALL_NO_W then MySyscallW
      else if k < MY_SYSCALL_NO_W \<and> bit (cmd_w (info_w s k)) 0 then InterceptorW
      else if k < ls old then t0 k else Uninit)) \<and>
    (\<exists>s'. DriverUnload_s s = Some s' \<and> ke_table s' = old \<and> ke_shadow s' = old \<and>
      st_of s' (st old) = t0 \<and> \<not> notify_w s')"
  using sciw_reach_ok [OF assms(1)] assms(2)
  by (auto simp: sciw_ok_def own_table_def loaded_table_def DriverUnload_s_def)

theorem win_sci_unload_restores_witness:
  "st_of hooked0 (st (ke_table hooked0)) 3 = InterceptorW \<and>
   (\<exists>s'. DriverUnload_s hooked0 = Some s' \<and> st_of s' (st (ke_table s')) = OriginalW)"
proof -
  have "bit (1 :: u32) 0" by simp
  then show ?thesis
    using win_sci_unload_restores [OF system0_reach(1)] monitored0_info(2)
    by (auto simp: sys_std_def MY_SYSCALL_NO_W_def)
qed

text \<open>
  At most one process is monitored for a call. An intercepted call runs the system's handler with
  the arguments of its frame; it is logged exactly if the monitored process is the caller or 0, and
  it returns the handler's result unless there is no memory for the log, when it returns an error
  although the handler has run.
\<close>

theorem win_sci_interceptor:
  fixes run :: "handler_w \<Rightarrow> bytes \<Rightarrow> ntstatus" and args :: bytes and c :: caller_w
  assumes "sciw_reach t0 old s" "k < MY_SYSCALL_NO_W" "bit (cmd_w (info_w s k)) 0"
  defines "params \<equiv> unat (spt_of s DriverTable k)"
  defines "result \<equiv> run (loaded_table t0 old k) (take params args)"
  defines "logged \<equiv> pid_w (info_w s k) = [cur_pid_w c] \<or> pid_w (info_w s k) = [0]"
  shows "length (pid_w (info_w s k)) \<le> 1 \<and>
    (\<exists>s'. interceptor_w run k args c mem entry s =
       Some (if logged \<and> \<not> (mem \<and> entry) then STATUS_NO_MEMORY else result, s') \<and>
     error_log s' = error_log s @ (if logged \<and> mem \<and> entry
       then [\<lparr>lp_pid = cur_pid_w c, lp_syscall = k, lp_arg_no = params div 4, lp_ret = result,
         lp_args = take params args\<rparr>] else []))"
proof -
  note ok = sciw_reach_ok [OF assms(1)]
  have "length (pid_w (info_w s k)) \<le> 1" by (rule sciw_okD(1) [OF ok assms(2)])
  moreover from this have "(checkPID k (cur_pid_w c) s = STATUS_SUCCESS) = logged"
    unfolding checkPID_eq logged_def by (cases "pid_w (info_w s k)") auto
  moreover have "spt (ke_table s) = DriverTable" using ok by (simp add: sciw_ok_def own_table_def)
  ultimately show ?thesis
    using sciw_okD(3) [OF ok assms(2,3)] assms(2)
    by (simp add: interceptor_w_def Let_def params_def result_def)
qed

theorem win_sci_interceptor_witness:
  "\<exists>s'. interceptor_w (\<lambda>h args. STATUS_OTHER (of_nat (length args))) 3 [1, 2, 3, 4, 5, 6, 7, 8, 9] admin True
     False monitored0 = Some (STATUS_NO_MEMORY, s')"
proof -
  have "3 < MY_SYSCALL_NO_W" "bit (cmd_w (info_w monitored0 3)) 0"
    by (simp_all add: MY_SYSCALL_NO_W_def monitored0_info)
  from win_sci_interceptor [OF system0_reach(2) this, of "\<lambda>h args. STATUS_OTHER (of_nat (length args))"
    "[1, 2, 3, 4, 5, 6, 7, 8, 9]" admin True False]
  show ?thesis by (auto simp: monitored0_info admin_def)
qed

text \<open>
  When the process that monitoring of a call was started for ends, the call is left marked as
  monitored with no process listed, and no request by anybody ever stops or starts its monitoring
  again until the driver is unloaded.
\<close>

theorem win_sci_monitor_lost:
  assumes "sciw_reach t0 old s"
    and "my_syscall_w REQUEST_START_MONITOR (int k) p mem node c s = Some (STATUS_SUCCESS, s1)"
    and "sciw_step\<^sup>*\<^sup>* (my_exit_function p False s1) s2"
    and "req = REQUEST_START_MONITOR \<or> req = REQUEST_STOP_MONITOR"
  shows "pid_w (info_w s2 k) = [] \<and>
    (\<exists>r s3. my_syscall_w req (int k) p' mem' node' c' s2 = Some (r, s3) \<and> r \<noteq> STATUS_SUCCESS)"
proof -
  note ok = sciw_reach_ok [OF assms(1)]
  have k: "k < MY_SYSCALL_NO_W" "stuck k (my_exit_function p False s1)"
    using assms(2)
  proof (atomize (full), cases rule: my_syscall_w_cases)
    case (start l)
    then show "k < MY_SYSCALL_NO_W \<and> stuck k (my_exit_function p False s1)"
      using sciw_okD(2) [OF ok, of k]
      by (auto simp: stuck_def my_exit_function_state set_info_w_def flag_bits_set)
  qed auto
  have "stuck k s2" by (rule stuck_steps [OF assms(3) k(2)])
  then show ?thesis
    using stuck_refuses [OF _ k(1) assms(4)] by (simp add: stuck_def)
qed

theorem win_sci_monitor_lost_witness:
  "pid_w (info_w (my_exit_function 9 False monitored0) 3) = []"
  using win_sci_monitor_lost [OF system0_reach(1) system0_calls(3) rtranclp.rtrancl_refl disjI1 [OF refl]]
  by blast

text \<open>
  A load that fails after the process notification is registered leaves it registered, and one
  that fails after the first block is allocated also leaves that block taken and the processor's write
  protection off; the system's descriptors are untouched.
\<close>

theorem win_sci_failed_load:
  assumes "DriverEntry_s STATUS_SUCCESS m1 m2 m3 m4 m5 junk s = Some (r, s')" "r \<noteq> STATUS_SUCCESS"
  shows "notify_w s' \<and> ke_table s' = ke_table s \<and> ke_shadow s' = ke_shadow s \<and>
    (if m1 then BlockInfo \<in> set (taken s') \<and> \<not> write_protect s' else taken s' = taken s)"
  using assms by (auto simp: DriverEntry_s_def Let_def split: if_splits)

theorem win_sci_failed_load_witness:
  "\<exists>s'. DriverEntry_s STATUS_SUCCESS True False True True True 0 system0 = Some (STATUS_NO_MEMORY, s') \<and>
     notify_w s' \<and> \<not> write_protect s'"
proof -
  obtain s' where "DriverEntry_s STATUS_SUCCESS True False True True True 0 system0 = Some (STATUS_NO_MEMORY, s')"
    by (simp add: DriverEntry_s_def Let_def)
  with win_sci_failed_load [OF this] show ?thesis by simp
qed

end
