(* ===== verification/IpcHash.thy ===== *)
theory IpcHash
  imports Base
begin

text \<open>
  The shared hash table, \<open>src/LinuxIPC/src\<close>: a server keeps words in a table in shared memory;
  clients send it commands through a message queue and wait for it on one semaphore per bucket.

  The table is a byte store and words are byte lists without the final NUL. \<open>None\<close> is an access
  outside the shared memory. A client is the list of what it does to the queue, the semaphores and the
  table, so that its steps can interleave with the server's. Opening and removing the queue, the
  semaphores and the memory is in \<open>IpcObjects\<close>; the calls here succeed.
\<close>

section \<open>Data\<close>

definition MAX_WORD_SIZE :: nat where "MAX_WORD_SIZE = 16"
definition BUCKET_COUNT :: nat where "BUCKET_COUNT = 256"
definition MAX_WORDS_PER_BUCKET :: nat where "MAX_WORDS_PER_BUCKET = 256"
definition MAX_PACKET_SIZE :: nat where "MAX_PACKET_SIZE = 1024"

definition SHARED_MEMORY_SIZE :: nat where
  "SHARED_MEMORY_SIZE = (MAX_WORD_SIZE + 1) * BUCKET_COUNT * MAX_WORDS_PER_BUCKET"

definition POSITION_AT :: "nat \<Rightarrow> nat \<Rightarrow> nat" where
  "POSITION_AT i j = i * MAX_WORDS_PER_BUCKET * MAX_WORD_SIZE + j * MAX_WORD_SIZE"

text \<open>The kinds of messages.\<close>

definition A_msg :: u8 where "A_msg = 10"
definition R_msg :: u8 where "R_msg = 11"
definition C_msg :: u8 where "C_msg = 12"
definition S_msg :: u8 where "S_msg = 13"
definition P_msg :: u8 where "P_msg = 14"
definition E_msg :: u8 where "E_msg = 15"

lemmas msg_defs = A_msg_def R_msg_def C_msg_def S_msg_def P_msg_def E_msg_def

record packet =
  header :: u8
  data :: bytes

text \<open>\<open>char\<close> is signed; \<open>int\<close> and \<open>unsigned int\<close> have 32 bits.\<close>

fun djb :: "u32 \<Rightarrow> bytes \<Rightarrow> u32" where
  "djb h [] = h"
| "djb h (c # cs) = djb ((push_bit 5 h + h) + scast c) cs"

definition hash_word :: "bytes \<Rightarrow> nat" where
  "hash_word w = unat (djb 5381 w) mod BUCKET_COUNT"

section \<open>The server\<close>

record ipc =
  hash_table :: store
  sem :: "nat \<Rightarrow> nat"
  queue :: "bytes list"
  stopped :: bool

definition c_string :: "bytes \<Rightarrow> bytes" where "c_string bs = takeWhile (\<lambda>b. b \<noteq> 0) bs"

definition strcmp_eq :: "store \<Rightarrow> nat \<Rightarrow> bytes \<Rightarrow> bool" where
  "strcmp_eq m a w \<longleftrightarrow> peek m a (length w + 1) = w @ [0]"

fun word_loop :: "store \<Rightarrow> nat \<Rightarrow> bytes \<Rightarrow> nat list \<Rightarrow> nat option" where
  "word_loop m h w [] = None"
| "word_loop m h w (i # is) = (if strcmp_eq m (POSITION_AT h i) w then Some i else word_loop m h w is)"

function free_slot :: "store \<Rightarrow> nat \<Rightarrow> nat \<Rightarrow> nat option" where
  "free_slot m h pos =
     (if POSITION_AT h pos \<ge> SHARED_MEMORY_SIZE then None
      else if m (POSITION_AT h pos) \<noteq> 0 then free_slot m h (pos + 1)
      else Some pos)"
  by auto
termination
  by (relation "measure (\<lambda>(m, h, pos). SHARED_MEMORY_SIZE - POSITION_AT h pos)")
    (auto simp: POSITION_AT_def MAX_WORD_SIZE_def)

declare free_slot.simps [simp del]

definition add_word :: "bytes \<Rightarrow> store \<Rightarrow> store option" where
  "add_word w m =
     (let h = hash_word w in
      case word_loop m h w [0..<MAX_WORDS_PER_BUCKET] of
        Some i \<Rightarrow> Some m
      | None \<Rightarrow> do {
          pos \<leftarrow> free_slot m h 0;
          if POSITION_AT h pos + length w + 1 > SHARED_MEMORY_SIZE then None
          else Some (poke m (POSITION_AT h pos) (w @ [0]))
        })"

definition remove_word :: "bytes \<Rightarrow> store \<Rightarrow> store" where
  "remove_word w m =
     (let h = hash_word w in
      case word_loop m h w [0..<MAX_WORDS_PER_BUCKET] of
        Some pos \<Rightarrow> poke m (POSITION_AT h pos) (replicate (length w) 0)
      | None \<Rightarrow> m)"

definition sem_post :: "nat \<Rightarrow> ipc \<Rightarrow> ipc" where
  "sem_post i s = s\<lparr>sem := (sem s)(i := sem s i + 1)\<rparr>"

fun post_all :: "nat list \<Rightarrow> ipc \<Rightarrow> ipc" where
  "post_all [] s = s"
| "post_all (i # is) s = post_all is (sem_post i s)"

text \<open>One turn of the main loop: the message is received into a buffer of zeros.\<close>

definition server_handle :: "bytes \<Rightarrow> ipc \<Rightarrow> ipc option" where
  "server_handle msg s =
     (let buffer = msg @ [0]; word = c_string (tl buffer) in
      if hd buffer = A_msg then do {
        m \<leftarrow> add_word word (hash_table s);
        Some (sem_post (hash_word word) (s\<lparr>hash_table := m\<rparr>))
      }
      else if hd buffer = R_msg
      then Some (sem_post (hash_word word) (s\<lparr>hash_table := remove_word word (hash_table s)\<rparr>))
      else if hd buffer = P_msg then Some (post_all [0..<BUCKET_COUNT] s)
      else if hd buffer = C_msg
      then Some (post_all [0..<BUCKET_COUNT]
        (s\<lparr>hash_table := poke (hash_table s) 0 (replicate SHARED_MEMORY_SIZE 0)\<rparr>))
      else if hd buffer = E_msg then Some (s\<lparr>stopped := True\<rparr>)
      else Some s)"

fun server_run :: "bytes list \<Rightarrow> ipc \<Rightarrow> ipc option" where
  "server_run [] s = Some s"
| "server_run (msg # msgs) s =
     (if stopped s then Some s else do { s \<leftarrow> server_handle msg s; server_run msgs s })"

definition server_start :: "store \<Rightarrow> ipc" where
  "server_start m = \<lparr>hash_table = poke m 0 (replicate SHARED_MEMORY_SIZE 0), sem = (\<lambda>_. 0), queue = [], stopped = False\<rparr>"

section \<open>The client\<close>

datatype act = Send bytes | Wait nat | Post nat | PrintBucket nat

definition cstr_at :: "store \<Rightarrow> nat \<Rightarrow> bytes" where
  "cstr_at m a = c_string (peek m a (SHARED_MEMORY_SIZE - a))"

definition print_bucket :: "store \<Rightarrow> nat \<Rightarrow> bytes list" where
  "print_bucket m i = map (\<lambda>j. cstr_at m (POSITION_AT i j))
     (filter (\<lambda>j. m (POSITION_AT i j) \<noteq> 0) [0..<MAX_WORDS_PER_BUCKET])"

text \<open>\<open>sprintf\<close> into the buffer, and what \<open>mq_send\<close> sends of it.\<close>

definition message :: "bytes \<Rightarrow> bytes" where "message buffer = c_string buffer @ [0]"

definition packet_handler :: "packet \<Rightarrow> act list" where
  "packet_handler p =
     (let word = c_string (data p) in
      if header p = A_msg \<or> header p = R_msg then
        Send (message (header p # word)) #
          (if hash_word word \<noteq> 0 then [Wait (hash_word word)] else [])
      else if header p = C_msg then Send (message [header p]) # map Wait [0..<BUCKET_COUNT]
      else if header p = S_msg then []
      else if header p = P_msg then
        Send (message [header p]) # concat (map (\<lambda>i. [Wait i, PrintBucket i, Post i]) [0..<BUCKET_COUNT])
      else if header p = E_msg then [Send (message [header p])]
      else [])"

text \<open>The command line: a word that does not fit the packet, or a missing one, is an error of memory.\<close>

datatype args_error = Parse_error | Bad_memory

definition is_arg :: "bytes \<Rightarrow> u8 \<Rightarrow> bool" where
  "is_arg arg c \<longleftrightarrow> arg = [c] \<or> arg = [c - 32]"

definition with_word :: "u8 \<Rightarrow> bytes list \<Rightarrow> args_error + packet \<times> bytes list" where
  "with_word h args = (case args of
     [] \<Rightarrow> Inl Bad_memory
   | w # rest \<Rightarrow> if length w > MAX_WORD_SIZE then Inl Bad_memory
       else Inr (\<lparr>header = h, data = w @ replicate (MAX_WORD_SIZE + 1 - length w) 0\<rparr>, rest))"

definition next_packet :: "bytes \<Rightarrow> bytes list \<Rightarrow> args_error + packet \<times> bytes list" where
  "next_packet arg rest =
     (let empty = replicate (MAX_WORD_SIZE + 1) 0 in
      if is_arg arg 0x61 then with_word A_msg rest
      else if is_arg arg 0x72 then with_word R_msg rest
      else if is_arg arg 0x63 then Inr (\<lparr>header = C_msg, data = empty\<rparr>, rest)
      else if is_arg arg 0x73 then with_word S_msg rest
      else if is_arg arg 0x70 then Inr (\<lparr>header = P_msg, data = empty\<rparr>, rest)
      else if is_arg arg 0x65 then Inr (\<lparr>header = E_msg, data = empty\<rparr>, rest)
      else Inl Parse_error)"

lemma next_packet_shorter: "next_packet arg rest = Inr (p, rest') \<Longrightarrow> length rest' \<le> length rest"
  by (auto simp: next_packet_def with_word_def Let_def split: if_splits list.splits)

function parse_args :: "bytes list \<Rightarrow> args_error + packet list" where
  "parse_args [] = Inr []"
| "parse_args (arg # rest) = (case next_packet arg rest of
     Inl e \<Rightarrow> Inl e
   | Inr (p, rest') \<Rightarrow> (case parse_args rest' of Inl e \<Rightarrow> Inl e | Inr ps \<Rightarrow> Inr (p # ps)))"
  by pat_completeness auto
termination
  by (relation "measure length") (auto dest!: next_packet_shorter)

definition client_main :: "bytes list \<Rightarrow> args_error + act list" where
  "client_main args = (case parse_args args of
     Inl e \<Rightarrow> Inl e | Inr ps \<Rightarrow> Inr (concat (map packet_handler ps)))"

section \<open>A client and the server together\<close>

record ipc_sys =
  acts :: "act list"
  printed_out :: "bytes list list"
  srv :: ipc

inductive ipc_step :: "ipc_sys \<Rightarrow> ipc_sys \<Rightarrow> bool" where
  send: "acts c = Send m # as \<Longrightarrow> length (queue (srv c)) < 10 \<Longrightarrow>
    ipc_step c (c\<lparr>acts := as, srv := (srv c)\<lparr>queue := queue (srv c) @ [m]\<rparr>\<rparr>)"
| wait: "acts c = Wait i # as \<Longrightarrow> 0 < sem (srv c) i \<Longrightarrow>
    ipc_step c (c\<lparr>acts := as, srv := (srv c)\<lparr>sem := (sem (srv c))(i := sem (srv c) i - 1)\<rparr>\<rparr>)"
| post: "acts c = Post i # as \<Longrightarrow> ipc_step c (c\<lparr>acts := as, srv := sem_post i (srv c)\<rparr>)"
| print: "acts c = PrintBucket i # as \<Longrightarrow>
    ipc_step c (c\<lparr>acts := as, printed_out := printed_out c @ [print_bucket (hash_table (srv c)) i]\<rparr>)"
| serve: "queue (srv c) = m # q \<Longrightarrow> \<not> stopped (srv c) \<Longrightarrow>
    server_handle m ((srv c)\<lparr>queue := q\<rparr>) = Some s \<Longrightarrow> ipc_step c (c\<lparr>srv := s\<rparr>)"

inductive_cases ipc_stepE: "ipc_step c c'"

end
