(* ===== verification/IpcHashCorrect.thy ===== *)
theory IpcHashCorrect
  imports IpcHash
begin

text \<open>
  The shared hash table implements a set of words: the invariant of the table, the refinement of the
  server's commands by operations on the set, and how a client and the server wait for each other.
\<close>

section \<open>Words and slots\<close>

definition word_ok :: "bytes \<Rightarrow> bool" where
  "word_ok w \<longleftrightarrow> w \<noteq> [] \<and> length w < MAX_WORD_SIZE \<and> 0 \<notin> set w"

text \<open>A slot that holds a word, or nothing if the word is empty.\<close>

definition padded :: "bytes \<Rightarrow> bytes" where
  "padded w = w @ replicate (MAX_WORD_SIZE - length w) 0"

definition slot :: "store \<Rightarrow> nat \<Rightarrow> nat \<Rightarrow> bytes" where
  "slot m h j = c_string (peek m (POSITION_AT h j) MAX_WORD_SIZE)"

definition slots_ok :: "store \<Rightarrow> bool" where
  "slots_ok m \<longleftrightarrow> (\<forall>h<256. \<forall>j<256. length (slot m h j) < MAX_WORD_SIZE \<and>
     peek m (POSITION_AT h j) MAX_WORD_SIZE = padded (slot m h j))"

definition table_ok :: "store \<Rightarrow> bool" where
  "table_ok m \<longleftrightarrow> slots_ok m \<and>
     (\<forall>h<256. \<forall>j<256. slot m h j \<noteq> [] \<longrightarrow> hash_word (slot m h j) = h \<and>
        (\<forall>i<256. slot m h i = slot m h j \<longrightarrow> i = j))"

definition words :: "store \<Rightarrow> bytes set" where
  "words m = {w. w \<noteq> [] \<and> (\<exists>h<256. \<exists>j<256. slot m h j = w)}"

lemma words_I: "h < 256 \<Longrightarrow> j < 256 \<Longrightarrow> slot m h j = w \<Longrightarrow> w \<noteq> [] \<Longrightarrow> w \<in> words m"
  by (auto simp: words_def)

lemmas ipc_sizes = MAX_WORD_SIZE_def BUCKET_COUNT_def MAX_WORDS_PER_BUCKET_def MAX_PACKET_SIZE_def

lemma hash_word_less [simp]: "hash_word w < 256"
  by (simp add: hash_word_def BUCKET_COUNT_def)

lemma c_string_id [simp]: "0 \<notin> set w \<Longrightarrow> c_string w = w"
  by (auto simp: c_string_def takeWhile_eq_all_conv)

lemma c_string_append_0 [simp]: "0 \<notin> set w \<Longrightarrow> c_string (w @ 0 # xs) = w"
  by (auto simp: c_string_def takeWhile_append)

lemma c_string_no_0 [simp]: "0 \<notin> set (c_string w)"
  by (auto simp: c_string_def dest: set_takeWhileD)

lemma c_string_Nil [simp]: "c_string [] = []"
  by (simp add: c_string_def)

lemma c_string_padded [simp]: "0 \<notin> set w \<Longrightarrow> length w < MAX_WORD_SIZE \<Longrightarrow> c_string (padded w) = w"
  by (cases "MAX_WORD_SIZE - length w") (simp_all add: padded_def)

lemma length_padded [simp]: "length w \<le> MAX_WORD_SIZE \<Longrightarrow> length (padded w) = MAX_WORD_SIZE"
  by (simp add: padded_def)

lemma c_string_take_iff:
  assumes "0 \<notin> set w" "length w < length xs"
  shows "take (length w + 1) xs = w @ [0] \<longleftrightarrow> c_string xs = w"
proof
  assume "take (length w + 1) xs = w @ [0]"
  then obtain ys where "xs = w @ 0 # ys"
    using append_take_drop_id [of "length w + 1" xs] by (metis append.assoc append_Cons append_Nil)
  then show "c_string xs = w" using c_string_append_0 [OF assms(1)] by simp
next
  assume c: "c_string xs = w"
  then obtain ys where "xs = w @ ys" unfolding c_string_def by (metis takeWhile_dropWhile_id)
  then have "take (length w) xs = w" by simp
  moreover have "xs ! length w = 0"
    using nth_length_takeWhile [of "\<lambda>b. b \<noteq> 0" xs] assms(2) c by (simp add: c_string_def)
  ultimately show "take (length w + 1) xs = w @ [0]"
    using assms(2) by (simp add: take_Suc_conv_app_nth)
qed

lemma POSITION_AT_eq: "POSITION_AT h j = 16 * (256 * h + j)"
  by (simp add: POSITION_AT_def ipc_sizes)

lemma POSITION_AT_disjoint:
  assumes "j < 256" "j' < 256" "(h, j) \<noteq> (h', j')"
  shows "POSITION_AT h j + 16 \<le> POSITION_AT h' j' \<or> POSITION_AT h' j' + 16 \<le> POSITION_AT h j"
proof -
  have "256 * h + j \<noteq> 256 * h' + j'"
  proof
    assume e: "256 * h + j = 256 * h' + j'"
    have "(256 * h + j) div 256 = h" "(256 * h' + j') div 256 = h'" using assms by simp_all
    with e have "h = h'" by simp
    with e assms(3) show False by simp
  qed
  then show ?thesis by (auto simp: POSITION_AT_eq)
qed

lemma POSITION_AT_bound: "h < 256 \<Longrightarrow> j < 256 \<Longrightarrow> POSITION_AT h j + MAX_PACKET_SIZE < SHARED_MEMORY_SIZE"
  by (simp add: POSITION_AT_eq SHARED_MEMORY_SIZE_def ipc_sizes)

lemma slot_no_0 [simp]: "0 \<notin> set (slot m h j)"
  by (simp add: slot_def)

lemma slot_poke_other:
  assumes "length bs \<le> 16" "j < 256" "j' < 256" "(h, j) \<noteq> (h', j')"
  shows "peek (poke m (POSITION_AT h j) bs) (POSITION_AT h' j') MAX_WORD_SIZE = peek m (POSITION_AT h' j') MAX_WORD_SIZE"
    "slot (poke m (POSITION_AT h j) bs) h' j' = slot m h' j'"
  using POSITION_AT_disjoint [OF assms(2-4)] assms(1)
  by (auto simp: slot_def MAX_WORD_SIZE_def intro!: peek_poke_disjoint arg_cong [where f = c_string])

lemma strcmp_slot:
  assumes "0 \<notin> set w" "length w < MAX_WORD_SIZE"
  shows "strcmp_eq m (POSITION_AT h j) w \<longleftrightarrow> slot m h j = w"
  using c_string_take_iff [of w "peek m (POSITION_AT h j) MAX_WORD_SIZE"] assms
  by (simp add: strcmp_eq_def slot_def)

lemma slot_empty_iff: "slot m h j = [] \<longleftrightarrow> m (POSITION_AT h j) = 0"
  by (simp add: slot_def c_string_def MAX_WORD_SIZE_def peek_def upt_rec takeWhile_eq_Nil_iff)

lemma poke_word:
  assumes "slots_ok m" "h < 256" "j < 256" "slot m h j = []" "0 \<notin> set w" "length w < MAX_WORD_SIZE"
  shows "peek (poke m (POSITION_AT h j) (w @ [0])) (POSITION_AT h j) MAX_WORD_SIZE = padded w"
proof (rule nth_equalityI)
  have z: "m (POSITION_AT h j + i) = 0" if "i < MAX_WORD_SIZE" for i
  proof -
    have "peek m (POSITION_AT h j) MAX_WORD_SIZE = padded []"
      using assms(1-4) by (auto simp: slots_ok_def)
    then have "peek m (POSITION_AT h j) MAX_WORD_SIZE ! i = padded [] ! i" by simp
    with that show ?thesis by (simp add: padded_def)
  qed
  fix i assume "i < length (peek (poke m (POSITION_AT h j) (w @ [0])) (POSITION_AT h j) MAX_WORD_SIZE)"
  then show "peek (poke m (POSITION_AT h j) (w @ [0])) (POSITION_AT h j) MAX_WORD_SIZE ! i = padded w ! i"
    using z assms(6) by (simp add: poke_def padded_def nth_append)
qed (use assms in simp)

lemma erase_word:
  assumes "slots_ok m" "h < 256" "j < 256"
  shows "peek (poke m (POSITION_AT h j) (replicate (length (slot m h j)) 0)) (POSITION_AT h j) MAX_WORD_SIZE = padded []"
proof (rule nth_equalityI)
  have p: "peek m (POSITION_AT h j) MAX_WORD_SIZE = padded (slot m h j)"
    using assms by (auto simp: slots_ok_def)
  have z: "m (POSITION_AT h j + i) = 0" if "i < MAX_WORD_SIZE" "length (slot m h j) \<le> i" for i
  proof -
    have "peek m (POSITION_AT h j) MAX_WORD_SIZE ! i = padded (slot m h j) ! i" using p by simp
    with that show ?thesis by (simp add: padded_def nth_append)
  qed
  fix i assume "i < length (peek (poke m (POSITION_AT h j) (replicate (length (slot m h j)) 0)) (POSITION_AT h j) MAX_WORD_SIZE)"
  then show "peek (poke m (POSITION_AT h j) (replicate (length (slot m h j)) 0)) (POSITION_AT h j) MAX_WORD_SIZE ! i = padded [] ! i"
    using z by (simp add: poke_def padded_def)
qed simp

section \<open>The commands on the table\<close>

lemma table_okD:
  assumes "table_ok m" "h < 256" "j < 256"
  shows "length (slot m h j) < MAX_WORD_SIZE" "peek m (POSITION_AT h j) MAX_WORD_SIZE = padded (slot m h j)"
    "slot m h j \<noteq> [] \<Longrightarrow> hash_word (slot m h j) = h"
    "slot m h j \<noteq> [] \<Longrightarrow> i < 256 \<Longrightarrow> slot m h i = slot m h j \<Longrightarrow> i = j"
  using assms unfolding table_ok_def slots_ok_def by blast+

text \<open>One slot changes.\<close>

lemma table_update:
  assumes m: "table_ok m" and hj: "h < 256" "j < 256"
    and new: "peek m' (POSITION_AT h j) MAX_WORD_SIZE = padded v" "0 \<notin> set v" "length v < MAX_WORD_SIZE"
    and others: "\<And>h' j'. j' < 256 \<Longrightarrow> (h, j) \<noteq> (h', j') \<Longrightarrow>
      peek m' (POSITION_AT h' j') MAX_WORD_SIZE = peek m (POSITION_AT h' j') MAX_WORD_SIZE"
    and fresh: "v \<noteq> [] \<Longrightarrow> hash_word v = h \<and> (\<forall>i<256. slot m h i \<noteq> v)"
  shows "table_ok m'" "words m' = (words m - {slot m h j}) \<union> ({v} - {[]})"
proof -
  have s: "slot m' h' j' = (if h' = h \<and> j' = j then v else slot m h' j')" if "j' < 256" for h' j'
    using others [OF that] new by (auto simp: slot_def)
  have p: "peek m' (POSITION_AT h' j') MAX_WORD_SIZE = padded (slot m' h' j')" if "h' < 256" "j' < 256" for h' j'
    using others [OF that(2)] new(1) table_okD(2) [OF m that] s [OF that(2)] by auto
  show "table_ok m'"
    unfolding table_ok_def slots_ok_def
  proof (intro conjI allI impI)
    fix h' j' assume b: "h' < (256 :: nat)" "j' < (256 :: nat)"
    show "length (slot m' h' j') < MAX_WORD_SIZE" using s [OF b(2)] table_okD(1) [OF m b] new(3) by simp
    show "peek m' (POSITION_AT h' j') MAX_WORD_SIZE = padded (slot m' h' j')" by (rule p [OF b])
  next
    fix h' j' assume b: "h' < (256 :: nat)" "j' < (256 :: nat)" "slot m' h' j' \<noteq> []"
    show "hash_word (slot m' h' j') = h'"
      using s [OF b(2)] table_okD(3) [OF m b(1,2)] fresh b(3) by (auto split: if_splits)
    fix i assume i: "i < (256 :: nat)" "slot m' h' i = slot m' h' j'"
    then show "i = j'"
      using s [OF b(2), of h'] s [OF i(1), of h'] table_okD(4) [OF m b(1,2) _ i(1)] fresh b i(2)
      by (auto split: if_splits)
  qed
  have uniq: "h' = h \<and> j' = j" if "h' < 256" "j' < 256" "slot m h' j' = slot m h j" "slot m h j \<noteq> []" for h' j'
    using table_okD(3) [OF m that(1,2)] table_okD(3) [OF m hj] table_okD(4) [OF m hj _ that(2)] that by auto
  show "words m' = (words m - {slot m h j}) \<union> ({v} - {[]})"
  proof (rule set_eqI)
    fix w
    show "w \<in> words m' \<longleftrightarrow> w \<in> (words m - {slot m h j}) \<union> ({v} - {[]})"
    proof (cases "w = v")
      case True
      have "slot m' h j = v" using s [OF hj(2)] by simp
      then show ?thesis using True hj by (auto simp: words_def)
    next
      case False
      have "slot m' h' j' = w \<longleftrightarrow> slot m h' j' = w \<and> w \<noteq> slot m h j"
        if "w \<noteq> []" "h' < 256" "j' < 256" for h' j'
        using s [OF that(3), of h'] uniq [OF that(2,3)] that(1) False by auto
      then have "w \<in> words m' \<longleftrightarrow> w \<in> words m \<and> w \<noteq> slot m h j" unfolding words_def by blast
      with False show ?thesis by simp
    qed
  qed
qed

lemma word_loop_Some:
  "word_loop m h w is = Some i \<Longrightarrow> 0 \<notin> set w \<Longrightarrow> length w < MAX_WORD_SIZE \<Longrightarrow> i \<in> set is \<and> slot m h i = w"
  by (induction "is") (auto simp: strcmp_slot split: if_splits)

lemma word_loop_None:
  "word_loop m h w is = None \<Longrightarrow> 0 \<notin> set w \<Longrightarrow> length w < MAX_WORD_SIZE \<Longrightarrow> i \<in> set is \<Longrightarrow> slot m h i \<noteq> w"
  by (induction "is") (auto simp: strcmp_slot split: if_splits)

lemma in_words_bucket:
  assumes "table_ok m" "word_ok w" "\<forall>i<256. slot m (hash_word w) i \<noteq> w"
  shows "w \<notin> words m"
proof
  assume "w \<in> words m"
  then obtain h j where "h < 256" "j < 256" "slot m h j = w" "w \<noteq> []" by (auto simp: words_def)
  with table_okD(3) [OF assms(1)] assms(3) show False by auto
qed

lemma finite_words: "finite (words m)"
proof (rule finite_subset)
  show "words m \<subseteq> (\<lambda>(h, j). slot m h j) ` ({..<256} \<times> {..<256})"
    by (auto simp: words_def image_iff)
qed simp

definition bucket :: "nat \<Rightarrow> bytes set \<Rightarrow> bytes set" where "bucket h ws = {w \<in> ws. hash_word w = h}"

lemma free_exists:
  assumes "table_ok m" "h < 256" "card (bucket h (words m)) < 256"
  obtains j where "j < 256" "slot m h j = []"
proof -
  have "\<exists>j<256. slot m h j = []"
  proof (rule ccontr)
    assume "\<not> ?thesis"
    then have n: "slot m h j \<noteq> []" if "j < 256" for j using that by blast
    have inj: "inj_on (slot m h) {..<256}"
      using table_okD(4) [OF assms(1,2) _ n] by (auto simp: inj_on_def)
    have "slot m h ` {..<256} \<subseteq> bucket h (words m)"
      using n assms(2) table_okD(3) [OF assms(1,2)] by (auto simp: bucket_def words_def)
    then have "card (slot m h ` {..<256}) \<le> card (bucket h (words m))"
      by (rule card_mono [rotated]) (simp add: bucket_def finite_words)
    with inj assms(3) show False by (simp add: card_image)
  qed
  then show ?thesis using that by blast
qed

lemma free_slot_found:
  assumes "h < 256" "j < 256" "slot m h j = []" "pos \<le> j"
  shows "\<exists>p<256. free_slot m h pos = Some p \<and> slot m h p = []"
  using assms(4)
proof (induction "j - pos" arbitrary: pos)
  case 0
  then show ?case
    using assms POSITION_AT_bound [OF assms(1,2)] by (subst free_slot.simps) (auto simp: slot_empty_iff)
next
  case (Suc n)
  then have p: "pos < 256" "pos + 1 \<le> j" "n = j - (pos + 1)" using assms(2) by auto
  have "POSITION_AT h pos < SHARED_MEMORY_SIZE" using POSITION_AT_bound [OF assms(1) p(1)] by simp
  then show ?case
    using Suc.hyps(1) [OF p(3,2)] p(1) by (subst free_slot.simps) (auto simp: slot_empty_iff)
qed

lemma add_word_ok:
  assumes m: "table_ok m" and w: "word_ok w" and room: "w \<in> words m \<or> card (bucket (hash_word w) (words m)) < 256"
  obtains m' where "add_word w m = Some m'" "table_ok m'" "words m' = insert w (words m)"
proof (cases "word_loop m (hash_word w) w [0..<MAX_WORDS_PER_BUCKET]")
  case (Some i)
  with w have "i < 256" "slot m (hash_word w) i = w" "w \<noteq> []"
    using word_loop_Some [OF Some] by (auto simp: word_ok_def ipc_sizes)
  then have "w \<in> words m" by (intro words_I [of "hash_word w"]) simp_all
  then show ?thesis using that [of m] m Some by (auto simp: add_word_def Let_def)
next
  case None
  have n: "\<forall>i<256. slot m (hash_word w) i \<noteq> w"
    using word_loop_None [OF None] w by (auto simp: word_ok_def ipc_sizes)
  then have nw: "w \<notin> words m" by (rule in_words_bucket [OF m w])
  with room obtain j where "j < 256" "slot m (hash_word w) j = []"
    using free_exists [OF m, of "hash_word w"] by auto
  then obtain p where p: "p < 256" "free_slot m (hash_word w) 0 = Some p" "slot m (hash_word w) p = []"
    using free_slot_found [of "hash_word w" j m 0] by auto
  define m' where "m' = poke m (POSITION_AT (hash_word w) p) (w @ [0])"
  have "slots_ok m" using m by (simp add: table_ok_def)
  then have new: "peek m' (POSITION_AT (hash_word w) p) MAX_WORD_SIZE = padded w"
    unfolding m'_def using poke_word [OF _ _ p(1,3)] w by (simp add: word_ok_def)
  have "length (w @ [0]) \<le> 16" using w by (simp add: word_ok_def MAX_WORD_SIZE_def)
  then have others: "peek m' (POSITION_AT h' j') MAX_WORD_SIZE = peek m (POSITION_AT h' j') MAX_WORD_SIZE"
    if "j' < 256" "(hash_word w, p) \<noteq> (h', j')" for h' j'
    unfolding m'_def using slot_poke_other(1) [OF _ p(1) that] by simp
  have "add_word w m = Some m'"
    using None p POSITION_AT_bound [of "hash_word w" p] w
    by (simp add: add_word_def Let_def m'_def word_ok_def ipc_sizes)
  moreover have "table_ok m'" "words m' = insert w (words m)"
    using table_update [OF m _ p(1) new _ _ others] w n p(3)
    by (auto simp: word_ok_def words_def)
  ultimately show ?thesis using that by blast
qed

lemma remove_word_ok:
  assumes m: "table_ok m" and w: "word_ok w"
  shows "table_ok (remove_word w m)" "words (remove_word w m) = words m - {w}"
proof (atomize (full), cases "word_loop m (hash_word w) w [0..<MAX_WORDS_PER_BUCKET]")
  case None
  have "\<forall>i<256. slot m (hash_word w) i \<noteq> w"
    using word_loop_None [OF None] w by (auto simp: word_ok_def ipc_sizes)
  then have "w \<notin> words m" by (rule in_words_bucket [OF m w])
  then show "table_ok (remove_word w m) \<and> words (remove_word w m) = words m - {w}"
    using m None by (simp add: remove_word_def Let_def)
next
  case (Some p)
  then have p: "p < 256" "slot m (hash_word w) p = w"
    using word_loop_Some [OF Some] w by (auto simp: word_ok_def ipc_sizes)
  define m' where "m' = poke m (POSITION_AT (hash_word w) p) (replicate (length w) 0)"
  have "slots_ok m" using m by (simp add: table_ok_def)
  then have new: "peek m' (POSITION_AT (hash_word w) p) MAX_WORD_SIZE = padded []"
    unfolding m'_def using erase_word [of m "hash_word w" p] p by simp
  have "length (replicate (length w) (0 :: u8)) \<le> 16" using w by (simp add: word_ok_def MAX_WORD_SIZE_def)
  then have others: "peek m' (POSITION_AT h' j') MAX_WORD_SIZE = peek m (POSITION_AT h' j') MAX_WORD_SIZE"
    if "j' < 256" "(hash_word w, p) \<noteq> (h', j')" for h' j'
    unfolding m'_def using slot_poke_other(1) [OF _ p(1) that] by simp
  have "remove_word w m = m'" using Some by (simp add: remove_word_def m'_def Let_def)
  then show "table_ok (remove_word w m) \<and> words (remove_word w m) = words m - {w}"
    using table_update [OF m _ p(1) new _ _ others] p(2) by (auto simp: MAX_WORD_SIZE_def)
qed

lemma clear_ok:
  "table_ok (poke m 0 (replicate SHARED_MEMORY_SIZE 0))" "words (poke m 0 (replicate SHARED_MEMORY_SIZE 0)) = {}"
proof -
  have p: "peek (poke m 0 (replicate SHARED_MEMORY_SIZE 0)) (POSITION_AT h j) MAX_WORD_SIZE = padded []"
    if "h < 256" "j < 256" for h j
    using POSITION_AT_bound [OF that]
    by (intro nth_equalityI) (simp_all add: poke_def padded_def ipc_sizes)
  have s: "slot (poke m 0 (replicate SHARED_MEMORY_SIZE 0)) h j = []" if "h < 256" "j < 256" for h j
    using p [OF that] by (simp add: slot_def MAX_WORD_SIZE_def)
  show "table_ok (poke m 0 (replicate SHARED_MEMORY_SIZE 0))"
    using p s by (simp add: table_ok_def slots_ok_def MAX_WORD_SIZE_def)
  show "words (poke m 0 (replicate SHARED_MEMORY_SIZE 0)) = {}"
    using s by (auto simp: words_def)
qed

end
