(* ===== verification/IpcRuns.thy ===== *)
theory IpcRuns
  imports IpcHashCorrect
begin

text \<open>
  Runs of the shared hash table: the server's main loop refines operations on a set of words, and how
  far the semaphores make a client wait for the server.
\<close>

section \<open>The set of words\<close>

datatype command = Add bytes | Remove bytes | Clear | Show

fun command_ok :: "command \<Rightarrow> bool" where
  "command_ok (Add w) = word_ok w"
| "command_ok (Remove w) = word_ok w"
| "command_ok _ = True"

fun spec_command :: "command \<Rightarrow> bytes set \<Rightarrow> bytes set" where
  "spec_command (Add w) ws = insert w ws"
| "spec_command (Remove w) ws = ws - {w}"
| "spec_command Clear ws = {}"
| "spec_command Show ws = ws"

text \<open>The semaphores a command makes the server raise.\<close>

fun raises :: "command \<Rightarrow> nat \<Rightarrow> bool" where
  "raises (Add w) h \<longleftrightarrow> hash_word w = h"
| "raises (Remove w) h \<longleftrightarrow> hash_word w = h"
| "raises _ h \<longleftrightarrow> h < 256"

fun to_packet :: "command \<Rightarrow> packet" where
  "to_packet (Add w) = \<lparr>header = A_msg, data = padded w @ [0]\<rparr>"
| "to_packet (Remove w) = \<lparr>header = R_msg, data = padded w @ [0]\<rparr>"
| "to_packet Clear = \<lparr>header = C_msg, data = replicate 17 0\<rparr>"
| "to_packet Show = \<lparr>header = P_msg, data = replicate 17 0\<rparr>"

definition message_of :: "command \<Rightarrow> bytes" where
  "message_of c = (case packet_handler (to_packet c) of Send m # _ \<Rightarrow> m | _ \<Rightarrow> [])"

lemma post_all_state: "post_all is s = s\<lparr>sem := (\<lambda>h. sem s h + count_list is h)\<rparr>"
  by (induction "is" arbitrary: s) (auto simp: sem_post_def fun_eq_iff)

lemma count_upt: "count_list [0..<n] h = of_bool (h < n)"
  by (induction n) auto

lemma sem_post_state: "sem_post i s = s\<lparr>sem := (\<lambda>h. sem s h + of_bool (i = h))\<rparr>"
  by (auto simp: sem_post_def fun_eq_iff intro!: arg_cong [where f = "\<lambda>f. s\<lparr>sem := f\<rparr>"])

lemma length_filter_Cons: "length (filter P (x # xs)) = of_bool (P x) + length (filter P xs)"
  by simp

lemma message_cons: "b \<noteq> 0 \<Longrightarrow> 0 \<notin> set w \<Longrightarrow> message (b # w) = b # w @ [0]"
  using c_string_id [of "b # w"] by (simp add: message_def)

lemma c_string_data: "word_ok w \<Longrightarrow> c_string (padded w @ [0]) = w"
  by (cases "MAX_WORD_SIZE - length w") (auto simp: padded_def word_ok_def)

lemma message_of:
  "word_ok w \<Longrightarrow> message_of (Add w) = A_msg # w @ [0]"
  "word_ok w \<Longrightarrow> message_of (Remove w) = R_msg # w @ [0]"
  "message_of Clear = [C_msg, 0]" "message_of Show = [P_msg, 0]"
  by (simp_all add: message_of_def packet_handler_def Let_def c_string_data)
    (simp_all add: message_cons msg_defs word_ok_def)

text \<open>The effect of one command on the server's state.\<close>

lemma server_handle_command:
  assumes "command_ok c" "table_ok (hash_table s)"
    and room: "\<And>w. c = Add w \<Longrightarrow> w \<in> words (hash_table s) \<or> card (bucket (hash_word w) (words (hash_table s))) < 256"
  obtains m' where "server_handle (message_of c) s =
      Some (s\<lparr>hash_table := m', sem := (\<lambda>h. sem s h + of_bool (raises c h))\<rparr>)"
    "table_ok m'" "words m' = spec_command c (words (hash_table s))"
proof (cases c)
  case (Add w)
  with assms(1) have w: "word_ok w" by simp
  obtain m' where "add_word w (hash_table s) = Some m'" "table_ok m'" "words m' = insert w (words (hash_table s))"
    using add_word_ok [OF assms(2) w room [OF Add]] by blast
  then show ?thesis
    using that [of m'] Add w
    by (simp add: message_of server_handle_def Let_def msg_defs word_ok_def sem_post_state)
next
  case (Remove w)
  with assms(1) have w: "word_ok w" by simp
  then show ?thesis
    using that [of "remove_word w (hash_table s)"] Remove remove_word_ok [OF assms(2) w]
    by (simp add: message_of server_handle_def Let_def msg_defs word_ok_def sem_post_state)
next
  case Clear
  then show ?thesis
    using that [OF _ clear_ok(1)] clear_ok(2)
    by (simp add: message_of server_handle_def Let_def msg_defs post_all_state count_upt BUCKET_COUNT_def)
next
  case Show
  then show ?thesis
    using that [OF _ assms(2)]
    by (simp add: message_of server_handle_def Let_def msg_defs post_all_state count_upt BUCKET_COUNT_def)
qed

definition spec_run :: "command list \<Rightarrow> bytes set \<Rightarrow> bytes set" where
  "spec_run cs ws = fold spec_command cs ws"

text \<open>No bucket ever gets more words than it has slots.\<close>

fun fits :: "command list \<Rightarrow> bytes set \<Rightarrow> bool" where
  "fits [] ws = True"
| "fits (c # cs) ws = ((\<forall>h<256. card (bucket h (spec_command c ws)) \<le> 256) \<and> fits cs (spec_command c ws))"

lemma server_run_commands:
  assumes "\<forall>c\<in>set cs. command_ok c" "table_ok (hash_table s)" "\<not> stopped s" "fits cs (words (hash_table s))"
  shows "\<exists>m'. server_run (map message_of cs) s =
      Some (s\<lparr>hash_table := m', sem := (\<lambda>h. sem s h + length (filter (\<lambda>c. raises c h) cs))\<rparr>) \<and>
    table_ok m' \<and> words m' = spec_run cs (words (hash_table s))"
  using assms
proof (induction cs arbitrary: s)
  case Nil
  then show ?case by (auto simp: spec_run_def intro!: exI [of _ "hash_table s"])
next
  case (Cons c cs)
  have "w \<in> words (hash_table s) \<or> card (bucket (hash_word w) (words (hash_table s))) < 256" if "c = Add w" for w
  proof (rule ccontr)
    assume n: "\<not> ?thesis"
    have "bucket (hash_word w) (insert w (words (hash_table s))) = insert w (bucket (hash_word w) (words (hash_table s)))"
      by (auto simp: bucket_def)
    moreover have "finite (bucket (hash_word w) (words (hash_table s)))" by (simp add: bucket_def finite_words)
    moreover have "card (bucket (hash_word w) (insert w (words (hash_table s)))) \<le> 256"
      using Cons.prems(4) that by simp
    ultimately show False using n by (auto simp: bucket_def)
  qed
  then obtain m' where m': "server_handle (message_of c) s =
      Some (s\<lparr>hash_table := m', sem := (\<lambda>h. sem s h + of_bool (raises c h))\<rparr>)"
    "table_ok m'" "words m' = spec_command c (words (hash_table s))"
    using server_handle_command [of c s] Cons.prems by auto
  from Cons.IH [of "s\<lparr>hash_table := m', sem := (\<lambda>h. sem s h + of_bool (raises c h))\<rparr>"] Cons.prems m'
  show ?case by (auto simp: spec_run_def length_filter_Cons add.assoc simp del: filter.simps)
qed

section \<open>Waiting for the server\<close>

lemma ipc_step_acts: "ipc_step c c' \<Longrightarrow> length (acts c') \<le> length (acts c)"
  by (erule ipc_stepE) auto

text \<open>A client that sends a message and waits on a semaphore that is down.\<close>

lemma send_wait:
  fixes s :: ipc and t :: store and h :: nat and m :: bytes and rest :: "act list" and out :: "bytes list list"
  defines "s1 \<equiv> s\<lparr>hash_table := t, sem := (\<lambda>i. sem s i + of_bool (h = i))\<rparr>"
  assumes s: "queue s = []" "\<not> stopped s" "sem s h = 0" and m: "server_handle m s = Some s1"
    and path: "ipc_step\<^sup>*\<^sup>* \<lparr>acts = Send m # Wait h # rest, printed_out = out, srv = s\<rparr> c"
  shows "c \<in> {\<lparr>acts = Send m # Wait h # rest, printed_out = out, srv = s\<rparr>,
      \<lparr>acts = Wait h # rest, printed_out = out, srv = s\<lparr>queue := [m]\<rparr>\<rparr>,
      \<lparr>acts = Wait h # rest, printed_out = out, srv = s1\<rparr>,
      \<lparr>acts = rest, printed_out = out, srv = s\<lparr>hash_table := t\<rparr>\<rparr>} \<or> length (acts c) < length rest"
  using path
proof (induction rule: rtranclp_induct)
  case base
  then show ?case by simp
next
  case (step c c')
  have q1: "queue s1 = []" using s(1) by (simp add: s1_def)
  have down: "s1\<lparr>sem := (sem s1)(h := sem s1 h - 1)\<rparr> = s\<lparr>hash_table := t\<rparr>"
    using s(3) by (cases s) (auto simp: s1_def fun_eq_iff)
  have same: "s\<lparr>queue := []\<rparr> = s" using s(1) by (cases s) simp
  consider "c = \<lparr>acts = Send m # Wait h # rest, printed_out = out, srv = s\<rparr>"
    | "c = \<lparr>acts = Wait h # rest, printed_out = out, srv = s\<lparr>queue := [m]\<rparr>\<rparr>"
    | "c = \<lparr>acts = Wait h # rest, printed_out = out, srv = s1\<rparr>"
    | "c = \<lparr>acts = rest, printed_out = out, srv = s\<lparr>hash_table := t\<rparr>\<rparr>"
    | "length (acts c) < length rest"
    using step.IH by blast
  then show ?case
  proof cases
    case 1
    with step.hyps(2) show ?thesis by cases (use s in auto)
  next
    case 2
    with step.hyps(2) show ?thesis by cases (use s m same in auto)
  next
    case 3
    with step.hyps(2) show ?thesis by cases (use q1 down in auto)
  next
    case 4
    with step.hyps(2) show ?thesis by cases (use s in auto)
  next
    case 5
    with ipc_step_acts [OF step.hyps(2)] show ?thesis by simp
  qed
qed

definition show_acts :: "nat list \<Rightarrow> act list" where
  "show_acts is = concat (map (\<lambda>i. [Wait i, PrintBucket i, Post i]) is)"

lemma show_acts_simps [simp]:
  "show_acts [] = []" "show_acts (i # is) = Wait i # PrintBucket i # Post i # show_acts is"
  by (simp_all add: show_acts_def)

lemma length_show_acts [simp]: "length (show_acts is) = 3 * length is"
  by (induction "is") auto

text \<open>The buckets printed one after the other, all semaphores being up.\<close>

inductive showing :: "act list \<Rightarrow> bytes list list \<Rightarrow> ipc \<Rightarrow> ipc_sys \<Rightarrow> bool" for rest out s where
  before: "i \<le> 256 \<Longrightarrow> showing rest out s \<lparr>acts = show_acts [i..<256] @ rest,
     printed_out = out @ map (print_bucket (hash_table s)) [0..<i], srv = s\<rparr>"
| waited: "i < 256 \<Longrightarrow> showing rest out s \<lparr>acts = PrintBucket i # Post i # show_acts [Suc i..<256] @ rest,
     printed_out = out @ map (print_bucket (hash_table s)) [0..<i], srv = s\<lparr>sem := (sem s)(i := sem s i - 1)\<rparr>\<rparr>"
| printed: "i < 256 \<Longrightarrow> showing rest out s \<lparr>acts = Post i # show_acts [Suc i..<256] @ rest,
     printed_out = out @ map (print_bucket (hash_table s)) [0..<Suc i], srv = s\<lparr>sem := (sem s)(i := sem s i - 1)\<rparr>\<rparr>"

lemma showing_step:
  assumes "showing rest out s c" "ipc_step c c'" "queue s = []" "\<forall>h<256. 0 < sem s h"
  shows "showing rest out s c' \<or> length (acts c') < length rest"
  using assms(1)
proof cases
  case (before i)
  show ?thesis
  proof (cases "i = 256")
    case True
    from assms(2) show ?thesis by cases (use before True assms(3) in auto)
  next
    case False
    then have e: "show_acts [i..<256] = Wait i # PrintBucket i # Post i # show_acts [Suc i..<256]" and i: "i < 256"
      using before(2) by (simp_all add: upt_conv_Cons)
    from assms(2) show ?thesis by cases (use before i e assms(3) showing.waited [OF i] in auto)
  qed
next
  case (waited i)
  from assms(2) show ?thesis by cases (use waited assms(3) showing.printed [OF waited(2)] in auto)
next
  case (printed i)
  have "sem_post i (s\<lparr>sem := (sem s)(i := sem s i - 1)\<rparr>) = s"
    using assms(4) printed(2) by (cases s) (auto simp: sem_post_def fun_eq_iff)
  with assms(2) show ?thesis by cases (use printed assms(3) showing.before [of "Suc i"] in auto)
qed

lemma send_wait_goes_on:
  fixes s :: ipc and t :: store and h :: nat and m :: bytes and rest :: "act list" and out :: "bytes list list"
  defines "s1 \<equiv> s\<lparr>hash_table := t, sem := (\<lambda>i. sem s i + of_bool (h = i))\<rparr>"
  assumes s: "queue s = []" "\<not> stopped s" "sem s h = 0" and m: "server_handle m s = Some s1"
    and path: "ipc_step\<^sup>*\<^sup>* \<lparr>acts = Send m # Wait h # rest, printed_out = out, srv = s\<rparr> c"
    and more: "length rest \<le> length (acts c)"
  shows "ipc_step\<^sup>*\<^sup>* c \<lparr>acts = rest, printed_out = out, srv = s\<lparr>hash_table := t\<rparr>\<rparr>"
proof -
  let ?c0 = "\<lparr>acts = Send m # Wait h # rest, printed_out = out, srv = s\<rparr>"
  let ?c1 = "\<lparr>acts = Wait h # rest, printed_out = out, srv = s\<lparr>queue := [m]\<rparr>\<rparr>"
  let ?c2 = "\<lparr>acts = Wait h # rest, printed_out = out, srv = s1\<rparr>"
  let ?c3 = "\<lparr>acts = rest, printed_out = out, srv = s\<lparr>hash_table := t\<rparr>\<rparr>"
  have down: "s1\<lparr>sem := (sem s1)(h := sem s1 h - 1)\<rparr> = s\<lparr>hash_table := t\<rparr>"
    using s(3) by (cases s) (auto simp: s1_def fun_eq_iff)
  have same: "s\<lparr>queue := []\<rparr> = s" using s(1) by (cases s) simp
  have "ipc_step ?c0 ?c1" using ipc_step.send [of ?c0 m] s by simp
  moreover have "ipc_step ?c1 ?c2" using ipc_step.serve [of ?c1 m "[]" s1] s m same by simp
  moreover have "ipc_step ?c2 ?c3" using ipc_step.wait [of ?c2 h rest] down by (simp add: s1_def)
  ultimately have "ipc_step\<^sup>*\<^sup>* ?c2 ?c3" "ipc_step\<^sup>*\<^sup>* ?c1 ?c3" "ipc_step\<^sup>*\<^sup>* ?c0 ?c3"
    by (meson converse_rtranclp_into_rtranclp r_into_rtranclp)+
  moreover have "c \<in> {?c0, ?c1, ?c2, ?c3}"
    using send_wait [OF s m [unfolded s1_def] path] more by (auto simp: s1_def)
  ultimately show ?thesis by auto
qed

lemma showing_end: "i \<le> 256 \<Longrightarrow> queue s = [] \<Longrightarrow> \<forall>h<256. 0 < sem s h \<Longrightarrow>
  ipc_step\<^sup>*\<^sup>* \<lparr>acts = show_acts [i..<256] @ rest, printed_out = out, srv = s\<rparr>
    \<lparr>acts = rest, printed_out = out @ map (print_bucket (hash_table s)) [i..<256], srv = s\<rparr>"
proof (induction "256 - i" arbitrary: i out)
  case 0
  then show ?case by simp
next
  case (Suc n)
  then have i: "i < 256" and n: "n = 256 - Suc i" and e: "[i..<256] = i # [Suc i..<256]"
    by (auto simp: upt_conv_Cons)
  let ?as = "show_acts [Suc i..<256] @ rest" and ?b = "print_bucket (hash_table s) i"
  let ?s = "s\<lparr>sem := (sem s)(i := sem s i - 1)\<rparr>"
  let ?c0 = "\<lparr>acts = Wait i # PrintBucket i # Post i # ?as, printed_out = out, srv = s\<rparr>"
  let ?c1 = "\<lparr>acts = PrintBucket i # Post i # ?as, printed_out = out, srv = ?s\<rparr>"
  let ?c2 = "\<lparr>acts = Post i # ?as, printed_out = out @ [?b], srv = ?s\<rparr>"
  let ?c3 = "\<lparr>acts = ?as, printed_out = out @ [?b], srv = s\<rparr>"
  have up: "sem_post i ?s = s" using Suc.prems(3) i by (cases s) (auto simp: sem_post_def fun_eq_iff)
  have "ipc_step ?c0 ?c1" using ipc_step.wait [of ?c0 i] Suc.prems(3) i by simp
  moreover have "ipc_step ?c1 ?c2" using ipc_step.print [of ?c1 i] by simp
  moreover have "ipc_step ?c2 ?c3" using ipc_step.post [of ?c2 i] up by simp
  moreover have "ipc_step\<^sup>*\<^sup>* ?c3 \<lparr>acts = rest,
      printed_out = (out @ [?b]) @ map (print_bucket (hash_table s)) [Suc i..<256], srv = s\<rparr>"
    by (rule Suc.hyps(1) [OF n]) (use Suc.prems i in simp_all)
  ultimately show ?case by (simp add: e converse_rtranclp_into_rtranclp)
qed

section \<open>What is printed\<close>

lemma c_string_append: "0 \<in> set xs \<Longrightarrow> c_string (xs @ ys) = c_string xs"
  by (auto simp: c_string_def)

lemma cstr_at_slot:
  assumes "table_ok m" "h < 256" "j < 256"
  shows "cstr_at m (POSITION_AT h j) = slot m h j"
proof -
  define n where "n = SHARED_MEMORY_SIZE - POSITION_AT h j"
  have n: "MAX_WORD_SIZE \<le> n" using POSITION_AT_bound [OF assms(2,3)] by (simp add: n_def ipc_sizes)
  have "peek m (POSITION_AT h j) n =
      peek m (POSITION_AT h j) MAX_WORD_SIZE @ drop MAX_WORD_SIZE (peek m (POSITION_AT h j) n)"
    using append_take_drop_id [of MAX_WORD_SIZE "peek m (POSITION_AT h j) n"] n by simp
  moreover have "0 \<in> set (peek m (POSITION_AT h j) MAX_WORD_SIZE)"
    using table_okD(1,2) [OF assms] by (simp add: padded_def)
  ultimately show ?thesis by (metis c_string_append cstr_at_def n_def slot_def)
qed

lemma print_bucket_slots:
  assumes "table_ok m" "h < 256"
  shows "print_bucket m h = filter (\<lambda>w. w \<noteq> []) (map (slot m h) [0..<256])"
proof -
  have "print_bucket m h = map (slot m h) (filter (\<lambda>j. slot m h j \<noteq> []) [0..<256])"
    using cstr_at_slot [OF assms] by (simp add: print_bucket_def slot_empty_iff ipc_sizes)
  also have "\<dots> = filter (\<lambda>w. w \<noteq> []) (map (slot m h) [0..<256])" by (simp add: filter_map comp_def)
  finally show ?thesis .
qed

lemma print_bucket_set:
  "table_ok m \<Longrightarrow> h < 256 \<Longrightarrow> set (print_bucket m h) = bucket h (words m)"
  using table_okD(3) by (fastforce simp: print_bucket_slots bucket_def words_def)

lemma print_bucket_distinct:
  assumes "table_ok m" "h < 256"
  shows "distinct (print_bucket m h)"
proof -
  have "inj_on (slot m h) (set (filter (\<lambda>j. slot m h j \<noteq> []) [0..<256]))"
    using table_okD(4) [OF assms] by (auto simp: inj_on_def)
  then have "distinct (map (slot m h) (filter (\<lambda>j. slot m h j \<noteq> []) [0..<256]))"
    by (simp add: distinct_map)
  then show ?thesis by (simp add: print_bucket_slots [OF assms] filter_map comp_def)
qed

lemma printed_words:
  assumes "table_ok m"
  shows "set (concat (map (print_bucket m) [0..<256])) = words m"
    "distinct (concat (map (print_bucket m) [0..<256]))"
proof -
  show "set (concat (map (print_bucket m) [0..<256])) = words m"
    using print_bucket_set [OF assms] by (auto simp: bucket_def)
  have "distinct (concat (map (print_bucket m) [0..<k]))" if "k \<le> 256" for k
    using that
  proof (induction k)
    case (Suc k)
    have "set (print_bucket m k) \<inter> set (concat (map (print_bucket m) [0..<k])) = {}"
      using print_bucket_set [OF assms] Suc.prems by (auto simp: bucket_def)
    then show ?case using Suc print_bucket_distinct [OF assms, of k] by auto
  qed simp
  then show "distinct (concat (map (print_bucket m) [0..<256]))" by simp
qed

section \<open>Properties of the table\<close>

text \<open>
  C8: on any sequence of commands with words of 1 to 15 characters that never puts more than 256 words
  in a bucket, the server ends with the words the same operations on a set give, and has raised the
  semaphore of every bucket once for each command that concerns the bucket.
\<close>

theorem ipc_refines_set:
  assumes "\<forall>c\<in>set cs. command_ok c" "fits cs {}"
  shows "\<exists>s'. server_run (map message_of cs) (server_start m) = Some s' \<and>
    words (hash_table s') = spec_run cs {} \<and>
    (\<forall>h<256. sem s' h = length (filter (\<lambda>c. raises c h) cs))"
  using server_run_commands [of cs "server_start m"] assms clear_ok
  by (fastforce simp: server_start_def)

lemma fits_small:
  "finite ws \<Longrightarrow> card ws + length cs \<le> 256 \<Longrightarrow> fits cs ws"
proof (induction cs arbitrary: ws)
  case (Cons c cs)
  have f: "finite (spec_command c ws)" using Cons.prems(1) by (cases c) auto
  have k: "card (spec_command c ws) \<le> card ws + 1"
    using Cons.prems(1) by (cases c) (auto simp: card_insert_if card_Diff_singleton_if)
  have "card (bucket h (spec_command c ws)) \<le> card (spec_command c ws)" for h
    by (rule card_mono [OF f]) (auto simp: bucket_def)
  then have "card (bucket h (spec_command c ws)) \<le> 256" for h
    by (rule order_trans) (use k Cons.prems(2) in simp)
  then show ?case using Cons.IH [OF f] k Cons.prems(2) by simp
qed simp

text \<open>The words \<open>a\<close> and \<open>gt\<close>; the second one is in bucket 0.\<close>

definition word_a :: bytes where "word_a = [0x61]"
definition word_gt :: bytes where "word_gt = [0x67, 0x74]"

lemma example_words:
  "word_ok word_a" "hash_word word_a = 6" "word_ok word_gt" "hash_word word_gt = 0"
  by (simp_all add: word_ok_def word_a_def word_gt_def hash_word_def ipc_sizes)

theorem ipc_refines_set_witness:
  "\<exists>s'. server_run (map message_of [Add word_a, Add word_gt, Remove word_a]) (server_start (\<lambda>_. 7)) = Some s' \<and>
     words (hash_table s') = {word_gt} \<and> sem s' 6 = 2"
proof -
  have "\<forall>c\<in>set [Add word_a, Add word_gt, Remove word_a]. command_ok c" by (simp add: example_words)
  moreover have "fits [Add word_a, Add word_gt, Remove word_a] {}" by (rule fits_small) simp_all
  moreover have "spec_run [Add word_a, Add word_gt, Remove word_a] {} = {word_gt}"
    by (auto simp: spec_run_def word_a_def word_gt_def)
  ultimately show ?thesis
    using ipc_refines_set [of "[Add word_a, Add word_gt, Remove word_a]" "\<lambda>_. 7"]
    by (auto simp: example_words)
qed

text \<open>A server with no command to handle and all semaphores down.\<close>

definition quiet :: "ipc \<Rightarrow> bool" where
  "quiet s \<longleftrightarrow> queue s = [] \<and> \<not> stopped s \<and> (\<forall>h<256. sem s h = 0) \<and> table_ok (hash_table s)"

lemma packet_handler_word:
  assumes "word_ok w" "c = Add w \<or> c = Remove w"
  shows "packet_handler (to_packet c) =
    Send (message_of c) # (if hash_word w \<noteq> 0 then [Wait (hash_word w)] else [])"
  using assms by (auto simp: message_of_def packet_handler_def Let_def c_string_data msg_defs)

lemma packet_handler_Show: "packet_handler (to_packet Show) = Send (message_of Show) # show_acts [0..<256]"
  by (simp add: message_of_def packet_handler_def Let_def msg_defs show_acts_def BUCKET_COUNT_def)

lemma quiet_change:
  assumes "quiet s" "word_ok w" "c = Add w \<or> c = Remove w"
    and "card (bucket (hash_word w) (words (hash_table s))) < 256"
  obtains t where "server_handle (message_of c) s =
      Some (s\<lparr>hash_table := t, sem := (\<lambda>i. sem s i + of_bool (hash_word w = i))\<rparr>)"
    "table_ok t" "words t = spec_command c (words (hash_table s))"
proof -
  have "command_ok c" "\<And>v. c = Add v \<Longrightarrow> v \<in> words (hash_table s) \<or>
      card (bucket (hash_word v) (words (hash_table s))) < 256"
    using assms(2,3,4) by auto
  then obtain t where "server_handle (message_of c) s =
      Some (s\<lparr>hash_table := t, sem := (\<lambda>h. sem s h + of_bool (raises c h))\<rparr>)"
    "table_ok t" "words t = spec_command c (words (hash_table s))"
    using server_handle_command [of c s] assms(1) unfolding quiet_def by blast
  moreover have "raises c = (\<lambda>h. hash_word w = h)" using assms(3) by auto
  ultimately show ?thesis using that [of t] by simp
qed


lemma start_quiet: "quiet (server_start m)" "words (hash_table (server_start m)) = {}"
  by (simp_all add: quiet_def server_start_def clear_ok)

lemma quiet_change_path:
  assumes "quiet s" "word_ok w" "c = Add w \<or> c = Remove w" "hash_word w \<noteq> 0"
    and "card (bucket (hash_word w) (words (hash_table s))) < 256"
    and "ipc_step\<^sup>*\<^sup>* \<lparr>acts = packet_handler (to_packet c) @ rest, printed_out = out, srv = s\<rparr> x"
    and "length rest \<le> length (acts x)"
  shows "\<exists>s'. ipc_step\<^sup>*\<^sup>* x \<lparr>acts = rest, printed_out = out, srv = s'\<rparr>"
proof -
  have q: "queue s = []" "\<not> stopped s" "sem s (hash_word w) = 0"
    using assms(1) by (simp_all add: quiet_def)
  obtain t where h: "server_handle (message_of c) s =
      Some (s\<lparr>hash_table := t, sem := (\<lambda>i. sem s i + of_bool (hash_word w = i))\<rparr>)"
    by (rule quiet_change [OF assms(1-3,5)])
  show ?thesis
    using send_wait_goes_on [OF q h _ assms(7)] packet_handler_word [OF assms(2,3)] assms(4,6) by auto
qed




text \<open>
  In the same state a client that prints the table prints the words of the table, each once,
  bucket by bucket, and goes on with every semaphore up, as nobody lowers them again.
\<close>

theorem ipc_show_raises_semaphores:
  assumes "quiet s"
    and "ipc_step\<^sup>*\<^sup>* \<lparr>acts = packet_handler (to_packet Show) @ rest, printed_out = [], srv = s\<rparr>
      \<lparr>acts = rest, printed_out = out, srv = s'\<rparr>"
  shows "set (concat out) = words (hash_table s) \<and> distinct (concat out) \<and>
    hash_table s' = hash_table s \<and> queue s' = [] \<and> (\<forall>h<256. sem s' h = 1)"
proof -
  define s1 where "s1 = s\<lparr>sem := (\<lambda>h. sem s h + of_bool (raises Show h))\<rparr>"
  let ?m = "message_of Show" and ?w = "show_acts [0..<256]"
  have q: "queue s = []" "\<not> stopped s" "sem s 0 = 0" "table_ok (hash_table s)"
    using assms(1) by (simp_all add: quiet_def)
  have same: "s\<lparr>queue := []\<rparr> = s" using q(1) by (cases s) simp
  have h: "server_handle ?m s = Some s1"
    by (simp add: message_of server_handle_def Let_def msg_defs post_all_state count_upt BUCKET_COUNT_def s1_def)
  have s1: "queue s1 = []" "\<forall>h<256. 0 < sem s1 h" by (simp_all add: s1_def q)
  have w: "?w = Wait 0 # PrintBucket 0 # Post 0 # show_acts [1..<256]" by (simp add: upt_conv_Cons)
  have "c \<in> {\<lparr>acts = Send ?m # ?w @ rest, printed_out = [], srv = s\<rparr>,
      \<lparr>acts = ?w @ rest, printed_out = [], srv = s\<lparr>queue := [?m]\<rparr>\<rparr>} \<or> showing rest [] s1 c \<or>
      length (acts c) < length rest"
    if "ipc_step\<^sup>*\<^sup>* \<lparr>acts = Send ?m # ?w @ rest, printed_out = [], srv = s\<rparr> c" for c
    using that
  proof (induction rule: rtranclp_induct)
    case base
    then show ?case by simp
  next
    case (step c c')
    then consider "c = \<lparr>acts = Send ?m # ?w @ rest, printed_out = [], srv = s\<rparr>"
      | "c = \<lparr>acts = ?w @ rest, printed_out = [], srv = s\<lparr>queue := [?m]\<rparr>\<rparr>"
      | "showing rest [] s1 c" | "length (acts c) < length rest" by blast
    then show ?case
    proof cases
      case 1
      with step.hyps(2) show ?thesis by cases (use q in auto)
    next
      case 2
      with step.hyps(2) show ?thesis
        by cases (use q w same h showing.before [of 0 rest "[]" s1] in auto)
    next
      case 3
      from showing_step [OF this step.hyps(2) s1] show ?thesis by blast
    next
      case 4
      with ipc_step_acts [OF step.hyps(2)] show ?thesis by simp
    qed
  qed
  from this [OF assms(2) [unfolded packet_handler_Show append_Cons]]
  have "showing rest [] s1 \<lparr>acts = rest, printed_out = out, srv = s'\<rparr>"
    by (auto simp: w)
  then have "out = map (print_bucket (hash_table s1)) [0..<256]" "s' = s1"
    by (cases; auto dest: arg_cong [of _ _ length])+
  moreover have "hash_table s1 = hash_table s" "sem s1 h = 1" if "h < 256" for h
    using assms(1) that by (simp_all add: s1_def quiet_def)
  ultimately show ?thesis using s1(1) printed_words [OF q(4)] by (simp add: s1_def)
qed

theorem ipc_show_raises_semaphores_witness:
  "\<exists>s'. ipc_step\<^sup>*\<^sup>* \<lparr>acts = packet_handler (to_packet Show) @ [], printed_out = [], srv = server_start (\<lambda>_. 0)\<rparr>
     \<lparr>acts = [], printed_out = map (\<lambda>_. []) [0..<256], srv = s'\<rparr> \<and> sem s' 5 = 1"
proof -
  let ?s = "server_start (\<lambda>_. 0)"
  let ?s1 = "?s\<lparr>sem := (\<lambda>h. sem ?s h + of_bool (raises Show h))\<rparr>"
  let ?c0 = "\<lparr>acts = Send (message_of Show) # show_acts [0..<256], printed_out = [], srv = ?s\<rparr>"
  let ?c1 = "\<lparr>acts = show_acts [0..<256], printed_out = [], srv = ?s\<lparr>queue := [message_of Show]\<rparr>\<rparr>"
  let ?c2 = "\<lparr>acts = show_acts [0..<256] @ [], printed_out = [], srv = ?s1\<rparr>"
  have same: "?s\<lparr>queue := []\<rparr> = ?s" by (simp add: server_start_def)
  have h: "server_handle (message_of Show) ?s = Some ?s1"
    by (simp add: message_of server_handle_def Let_def msg_defs post_all_state count_upt BUCKET_COUNT_def)
  have "ipc_step ?c0 ?c1" using ipc_step.send [of ?c0 "message_of Show"] by (simp add: server_start_def)
  moreover have "ipc_step ?c1 ?c2"
    using ipc_step.serve [of ?c1 "message_of Show" "[]" ?s1] h same by (simp add: server_start_def)
  moreover have "ipc_step\<^sup>*\<^sup>* ?c2 \<lparr>acts = [], printed_out = [] @ map (print_bucket (hash_table ?s1)) [0..<256],
      srv = ?s1\<rparr>"
    by (rule showing_end) (simp_all add: server_start_def)
  ultimately have p: "ipc_step\<^sup>*\<^sup>* \<lparr>acts = packet_handler (to_packet Show) @ [], printed_out = [], srv = ?s\<rparr>
      \<lparr>acts = [], printed_out = map (print_bucket (hash_table ?s1)) [0..<256], srv = ?s1\<rparr>"
    unfolding packet_handler_Show append_Nil append_Nil2 by (meson converse_rtranclp_into_rtranclp)
  have "table_ok (hash_table ?s1)" "words (hash_table ?s1) = {}"
    using start_quiet [of "\<lambda>_. 0"] by (simp_all add: quiet_def)
  then have "print_bucket (hash_table ?s1) h = []" if "h < 256" for h
    using print_bucket_set [of "hash_table ?s1" h] that by (simp add: bucket_def)
  then have "map (print_bucket (hash_table ?s1)) [0..<256] = map (\<lambda>_. []) [0..<256]"
    by (intro map_cong) simp_all
  with p have p': "ipc_step\<^sup>*\<^sup>* \<lparr>acts = packet_handler (to_packet Show) @ [], printed_out = [], srv = ?s\<rparr>
      \<lparr>acts = [], printed_out = map (\<lambda>_. []) [0..<256], srv = ?s1\<rparr>" by (simp only:)
  have "\<forall>h<256. sem ?s1 h = 1" using ipc_show_raises_semaphores [OF start_quiet(1) p'] by blast
  then have "sem ?s1 5 = 1" by (rule allE [of _ 5]) simp
  with p' show ?thesis by blast
qed

text \<open>
  A client that adds or removes a word whose bucket is 0, or whose semaphore is up, can go on while
  the server has not looked at the command yet.
\<close>

theorem ipc_change_not_waited:
  assumes "word_ok w" "c = Add w \<or> c = Remove w" "hash_word w = 0 \<or> 0 < sem s (hash_word w)"
    and "length (queue s) < 10"
  shows "\<exists>s'. ipc_step\<^sup>*\<^sup>* \<lparr>acts = packet_handler (to_packet c) @ rest, printed_out = out, srv = s\<rparr>
      \<lparr>acts = rest, printed_out = out, srv = s'\<rparr> \<and>
    queue s' = queue s @ [message_of c] \<and> hash_table s' = hash_table s"
proof -
  define s1 where "s1 = s\<lparr>queue := queue s @ [message_of c]\<rparr>"
  define as where "as = (if hash_word w \<noteq> 0 then [Wait (hash_word w)] else []) @ rest"
  have "ipc_step \<lparr>acts = packet_handler (to_packet c) @ rest, printed_out = out, srv = s\<rparr>
      \<lparr>acts = as, printed_out = out, srv = s1\<rparr>"
    using ipc_step.send [of "\<lparr>acts = packet_handler (to_packet c) @ rest, printed_out = out, srv = s\<rparr>"
      "message_of c" as] packet_handler_word [OF assms(1,2)] assms(4)
    by (simp add: s1_def as_def)
  moreover have "\<exists>s'. ipc_step\<^sup>*\<^sup>* \<lparr>acts = as, printed_out = out, srv = s1\<rparr>
      \<lparr>acts = rest, printed_out = out, srv = s'\<rparr> \<and> queue s' = queue s1 \<and> hash_table s' = hash_table s1"
  proof (cases "hash_word w = 0")
    case True
    then show ?thesis by (auto simp: as_def)
  next
    case False
    then have "ipc_step \<lparr>acts = as, printed_out = out, srv = s1\<rparr> \<lparr>acts = rest, printed_out = out,
        srv = s1\<lparr>sem := (sem s1)(hash_word w := sem s1 (hash_word w) - 1)\<rparr>\<rparr>"
      using ipc_step.wait [of "\<lparr>acts = as, printed_out = out, srv = s1\<rparr>" "hash_word w" rest] assms(3)
      by (simp add: as_def s1_def)
    then show ?thesis by (auto intro!: exI [of _ "s1\<lparr>sem := (sem s1)(hash_word w := sem s1 (hash_word w) - 1)\<rparr>"])
  qed
  ultimately show ?thesis
    by (auto simp: s1_def intro: converse_rtranclp_into_rtranclp)
qed

theorem ipc_change_not_waited_witness:
  "\<exists>s'. ipc_step\<^sup>*\<^sup>* \<lparr>acts = packet_handler (to_packet (Add word_gt)) @ [], printed_out = [],
      srv = server_start (\<lambda>_. 0)\<rparr> \<lparr>acts = [], printed_out = [], srv = s'\<rparr> \<and> queue s' = [message_of (Add word_gt)]"
proof -
  have "length (queue (server_start (\<lambda>_. 0))) < 10" by (simp add: server_start_def)
  moreover have "queue (server_start (\<lambda>_. 0)) = []" by (simp add: server_start_def)
  ultimately show ?thesis
    using ipc_change_not_waited [OF example_words(3) disjI1 [OF refl] disjI1 [OF example_words(4)],
      of "server_start (\<lambda>_. 0)" "[]" "[]"]
    by (metis append_Nil)
qed

end
