(* ===== verification/Uart.thy ===== *)
theory Uart
  imports Base
begin

text \<open>
  What the two serial port drivers share, \<open>src/SerialPortDriverLinux/uart16550.c\<close> and
  \<open>src/SerialPortDriverWindows/uart16550.c\<close>: the ports of the 16550 chip as its data sheet documents
  them, the common fields of a device, the loops of the interrupt handlers, and what these do.

  Ports \<open>base\<close> and \<open>base + 1\<close> are the divisor latch while bit 7 of the line control register
  (\<open>base + 3\<close>) is set. Otherwise writing \<open>base\<close> sends a byte and reading it takes a received one, and
  \<open>base + 1\<close> is the interrupt enable register, which reads as it was written. What the chip answers on
  the other ports is given per port as a list.
\<close>

section \<open>The chip\<close>

record chip =
  regs :: "nat \<Rightarrow> u8"
  latch :: "nat \<Rightarrow> u8"
  answers :: "nat \<Rightarrow> bytes"
  sent :: bytes

definition dlab :: "nat \<Rightarrow> chip \<Rightarrow> bool" where "dlab base c \<longleftrightarrow> bit (regs c (base + 3)) 7"

definition port_out :: "nat \<Rightarrow> u8 \<Rightarrow> nat \<Rightarrow> chip \<Rightarrow> chip" where
  "port_out base v p c =
     (if dlab base c \<and> (p = base \<or> p = base + 1) then c\<lparr>latch := (latch c)(p := v)\<rparr>
      else if p = base then c\<lparr>sent := sent c @ [v]\<rparr>
      else c\<lparr>regs := (regs c)(p := v)\<rparr>)"

definition port_in :: "nat \<Rightarrow> chip \<Rightarrow> (u8 \<times> chip) option" where
  "port_in p c = (case answers c p of
     [] \<Rightarrow> None
   | v # vs \<Rightarrow> Some (v, c\<lparr>answers := (answers c)(p := vs)\<rparr>))"

definition enable_in :: "nat \<Rightarrow> chip \<Rightarrow> u8" where
  "enable_in base c = (if dlab base c then latch c (base + 1) else regs c (base + 1))"

lemma port_out_simps [simp]:
  "answers (port_out base v p c) = answers c"
  by (simp add: port_out_def)

lemma port_out_enable:
  "\<not> dlab base c \<Longrightarrow> \<not> dlab base (port_out base v (base + 1) c)"
  "\<not> dlab base c \<Longrightarrow> enable_in base (port_out base v (base + 1) c) = v"
  "\<not> dlab base c \<Longrightarrow> sent (port_out base v (base + 1) c) = sent c"
  by (simp_all add: port_out_def enable_in_def dlab_def)

lemma port_out_send:
  "\<not> dlab base c \<Longrightarrow> port_out base v base c = c\<lparr>sent := sent c @ [v]\<rparr>"
  by (simp add: port_out_def)

text \<open>What the drivers write to the chip when the line is set.\<close>

definition line_settings :: "nat \<Rightarrow> u8 \<Rightarrow> u8 \<Rightarrow> chip \<Rightarrow> chip" where
  "line_settings base low frame c = c
     \<lparr>latch := (latch c)(base := low, base + 1 := 0), regs := (regs c)(base + 3 := frame)\<rparr>"

lemma set_line_chip:
  "port_out base frame (base + 3) (port_out base 0 (base + 3) (port_out base 0 (base + 1)
     (port_out base low base (port_out base 0x80 (base + 3) c)))) = line_settings base low frame c"
proof -
  define c1 where "c1 = c\<lparr>regs := (regs c)(base + 3 := 0x80)\<rparr>"
  have "bit (2 ^ 7 :: u8) 7" by (simp only: bit_exp_iff) simp
  then have b: "bit (0x80 :: u8) 7" by simp
  have 1: "port_out base 0x80 (base + 3) c = c1" by (simp add: port_out_def c1_def)
  have 2: "port_out base 0 (base + 1) (port_out base low base c1) =
      c1\<lparr>latch := (latch c)(base := low, base + 1 := 0)\<rparr>"
    using b by (simp add: port_out_def dlab_def c1_def)
  show ?thesis
    unfolding 1 2 by (simp add: port_out_def c1_def line_settings_def)
qed

section \<open>Registers\<close>

definition IER :: "nat \<Rightarrow> nat" where "IER baseport = baseport + 1"
definition IIR :: "nat \<Rightarrow> nat" where "IIR baseport = baseport + 2"
definition FCR :: "nat \<Rightarrow> nat" where "FCR baseport = baseport + 2"
definition MCR :: "nat \<Rightarrow> nat" where "MCR baseport = baseport + 4"
definition LSR :: "nat \<Rightarrow> nat" where "LSR baseport = baseport + 5"
definition IIR_RDAI :: "u8 \<Rightarrow> u8" where "IIR_RDAI x = drop_bit 2 x AND 1"
definition IIR_THREI :: "u8 \<Rightarrow> u8" where "IIR_THREI x = drop_bit 1 x AND 1"
definition IER_RDAI :: u8 where "IER_RDAI = 0x01"
definition IER_THREI :: u8 where "IER_THREI = 0x02"
definition COM1_BASEPORT :: nat where "COM1_BASEPORT = 0x3F8"
definition COM1_IRQ :: nat where "COM1_IRQ = 4"
definition COM2_BASEPORT :: nat where "COM2_BASEPORT = 0x2F8"
definition COM2_IRQ :: nat where "COM2_IRQ = 3"
definition SIZE :: nat where "SIZE = 512"

lemmas port_defs = IER_def IIR_def FCR_def MCR_def LSR_def

section \<open>A device of either driver\<close>

text \<open>
  The fields the two device structures have in common. Reads and writes of ports, the line settings and
  the loops of the interrupt handlers are the same text in both drivers. The loops run over the answers
  of the line status register and over the bytes to send.
\<close>

record port_dev =
  read_buffer :: bytes
  write_buffer :: bytes
  rd :: nat
  wr :: nat
  base_port :: nat
  chip_of :: chip

definition inb :: "nat \<Rightarrow> 'a port_dev_scheme \<Rightarrow> (u8 \<times> 'a port_dev_scheme) option" where
  "inb p d =
     (if p = IER (base_port d) then Some (enable_in (base_port d) (chip_of d), d)
      else do { (v, c) \<leftarrow> port_in p (chip_of d); Some (v, d\<lparr>chip_of := c\<rparr>) })"

definition outb :: "u8 \<Rightarrow> nat \<Rightarrow> 'a port_dev_scheme \<Rightarrow> 'a port_dev_scheme" where
  "outb v p d = d\<lparr>chip_of := port_out (base_port d) v p (chip_of d)\<rparr>"

definition SET_LINE :: "u8 \<Rightarrow> u8 \<Rightarrow> u8 \<Rightarrow> u8 \<Rightarrow> nat \<Rightarrow> 'a port_dev_scheme \<Rightarrow> 'a port_dev_scheme" where
  "SET_LINE baud len stop par base d =
     (let baud = ucast baud :: u32;
        d = outb 0x80 (base + 3) d;
        d = outb (ucast (baud AND 0x00FF)) base d;
        d = outb (ucast (baud AND 0xFF00)) (base + 1) d;
        d = outb 0 (base + 3) d
      in outb (len OR stop OR par) (base + 3) d)"

fun read_loop :: "bytes \<Rightarrow> 'a port_dev_scheme \<Rightarrow> 'a port_dev_scheme option" where
  "read_loop [] d = None"
| "read_loop (lsr # lsrs) d =
     (let d = d\<lparr>chip_of := (chip_of d)\<lparr>answers := (answers (chip_of d))(LSR (base_port d) := lsrs)\<rparr>\<rparr> in
      if lsr AND 0x01 \<noteq> 0 then do {
        (ch, d) \<leftarrow> inb (base_port d) d;
        if rd d < SIZE then read_loop lsrs (d\<lparr>read_buffer := (read_buffer d)[rd d := ch], rd := rd d + 1\<rparr>)
        else None
      }
      else Some d)"

fun write_loop :: "nat list \<Rightarrow> 'a port_dev_scheme \<Rightarrow> 'a port_dev_scheme" where
  "write_loop [] d = d"
| "write_loop (i # is) d = write_loop is (outb (write_buffer d ! i) (base_port d) d)"

text \<open>The two halves of an interrupt: mask it, then empty or fill the chip.\<close>

definition receive_bytes :: "'a port_dev_scheme \<Rightarrow> 'a port_dev_scheme option" where
  "receive_bytes d = do {
     (ier, d) \<leftarrow> inb (IER (base_port d)) d;
     let d = outb (ier AND NOT IER_RDAI) (IER (base_port d)) d;
     read_loop (answers (chip_of d) (LSR (base_port d))) d
   }"

definition transmit_bytes :: "'a port_dev_scheme \<Rightarrow> 'a port_dev_scheme option" where
  "transmit_bytes d = do {
     (ier, d) \<leftarrow> inb (IER (base_port d)) d;
     let d = outb (ier AND NOT IER_THREI) (IER (base_port d)) d;
     if wr d > SIZE then None else Some (write_loop [0..<wr d] d)
   }"

section \<open>What an interrupt does\<close>

text \<open>The chip's answers when \<open>bs\<close> have arrived, and when the transmitter is empty.\<close>

definition rx_ready :: "bytes \<Rightarrow> 'a port_dev_scheme \<Rightarrow> 'a port_dev_scheme" where
  "rx_ready bs d = d\<lparr>chip_of := (chip_of d)\<lparr>answers := (\<lambda>p.
     if p = IIR (base_port d) then [4]
     else if p = LSR (base_port d) then map (\<lambda>_. 1) bs @ [0]
     else if p = base_port d then bs else [])\<rparr>\<rparr>"

definition tx_ready :: "'a port_dev_scheme \<Rightarrow> 'a port_dev_scheme" where
  "tx_ready d = d\<lparr>chip_of := (chip_of d)\<lparr>answers := (\<lambda>p. if p = IIR (base_port d) then [2] else [])\<rparr>\<rparr>"

definition rx_armed :: "'a port_dev_scheme \<Rightarrow> bool" where
  "rx_armed d \<longleftrightarrow> bit (enable_in (base_port d) (chip_of d)) 0"

definition tx_armed :: "'a port_dev_scheme \<Rightarrow> bool" where
  "tx_armed d \<longleftrightarrow> bit (enable_in (base_port d) (chip_of d)) 1"

definition held :: "'a port_dev_scheme \<Rightarrow> bytes" where "held d = take (rd d) (read_buffer d)"

definition port_ok :: "'a port_dev_scheme \<Rightarrow> bool" where
  "port_ok d \<longleftrightarrow> length (read_buffer d) = SIZE \<and> rd d \<le> SIZE \<and> length (write_buffer d) = SIZE \<and> wr d \<le> 14 \<and>
     \<not> dlab (base_port d) (chip_of d)"

lemma port_neq [simp]:
  "base_port d \<noteq> IER (base_port d)" "IIR b \<noteq> b" "LSR b \<noteq> b" "IER b \<noteq> b" "IIR b \<noteq> LSR b" "LSR b \<noteq> IIR b"
  "IIR b \<noteq> IER b" "LSR b \<noteq> IER b" "b \<noteq> IIR b" "b \<noteq> LSR b" "b \<noteq> IER b"
  by (simp_all add: port_defs)

lemma chip_other [simp]:
  "dlab b (c\<lparr>sent := x\<rparr>) = dlab b c" "enable_in b (c\<lparr>sent := x\<rparr>) = enable_in b c"
  "dlab b (c\<lparr>answers := a\<rparr>) = dlab b c" "enable_in b (c\<lparr>answers := a\<rparr>) = enable_in b c"
  by (simp_all add: dlab_def enable_in_def)

lemma inb_other: "p \<noteq> IER (base_port d) \<Longrightarrow> answers (chip_of d) p = v # vs \<Longrightarrow>
    inb p d = Some (v, d\<lparr>chip_of := (chip_of d)\<lparr>answers := (answers (chip_of d))(p := vs)\<rparr>\<rparr>)"
  by (simp add: inb_def port_in_def)

lemma inb_IER: "b = base_port d \<Longrightarrow> inb (IER b) d = Some (enable_in b (chip_of d), d)"
  by (simp add: inb_def)

text \<open>Writing the interrupt enable register of a device whose latch is closed.\<close>

definition set_ier :: "u8 \<Rightarrow> 'a port_dev_scheme \<Rightarrow> 'a port_dev_scheme" where
  "set_ier v d = d\<lparr>chip_of := (chip_of d)\<lparr>regs := (regs (chip_of d))(IER (base_port d) := v)\<rparr>\<rparr>"

lemma outb_IER: "b = base_port d \<Longrightarrow> \<not> dlab b (chip_of d) \<Longrightarrow> outb v (IER b) d = set_ier v d"
  by (simp add: outb_def port_out_def set_ier_def port_defs)

lemma set_ier_simps [simp]:
  "read_buffer (set_ier v d) = read_buffer d" "write_buffer (set_ier v d) = write_buffer d"
  "rd (set_ier v d) = rd d" "wr (set_ier v d) = wr d" "base_port (set_ier v d) = base_port d"
  "answers (chip_of (set_ier v d)) = answers (chip_of d)" "sent (chip_of (set_ier v d)) = sent (chip_of d)"
  by (simp_all add: set_ier_def)

lemma set_ier_enable [simp]:
  "b = base_port d \<Longrightarrow> \<not> dlab b (chip_of d) \<Longrightarrow> enable_in b (chip_of (set_ier v d)) = v"
  "b = base_port d \<Longrightarrow> dlab b (chip_of (set_ier v d)) = dlab b (chip_of d)"
  by (simp_all add: set_ier_def dlab_def enable_in_def port_defs)

lemma ier_bits:
  "bit (v AND NOT IER_RDAI) n \<longleftrightarrow> bit v n \<and> n \<noteq> 0" "bit (v AND NOT IER_THREI) n \<longleftrightarrow> bit v n \<and> n \<noteq> 1"
  "bit (v OR IER_RDAI) n \<longleftrightarrow> bit v n \<or> n = 0" "bit (v OR IER_THREI) n \<longleftrightarrow> bit v n \<or> n = 1"
  using bit_2_iff [of n, where ?'a = "8 word"]
  by (auto simp: IER_RDAI_def IER_THREI_def bit_simps dest: bit_imp_le_length)

lemma read_loop_rx:
  fixes d :: "'a port_dev_scheme"
  assumes "read_loop (map (\<lambda>_. 1) bs @ [0]) d = Some d'" "answers (chip_of d) (base_port d) = bs"
    "length (read_buffer d) = SIZE" "rd d \<le> SIZE"
  obtains b a where "d' = d\<lparr>read_buffer := b, rd := rd d + length bs, chip_of := (chip_of d)\<lparr>answers := a\<rparr>\<rparr>"
    "length b = SIZE" "rd d + length bs \<le> SIZE" "take (rd d + length bs) b = take (rd d) (read_buffer d) @ bs"
proof -
  have "\<exists>b a. d' = d\<lparr>read_buffer := b, rd := rd d + length bs, chip_of := (chip_of d)\<lparr>answers := a\<rparr>\<rparr> \<and>
      length b = SIZE \<and> rd d + length bs \<le> SIZE \<and> take (rd d + length bs) b = take (rd d) (read_buffer d) @ bs"
    using assms
  proof (induction bs arbitrary: d)
    case Nil
    then show ?case by (auto intro!: exI [of _ "read_buffer d"])
  next
    case (Cons x bs)
    define d1 where "d1 = d\<lparr>chip_of := (chip_of d)\<lparr>answers := (answers (chip_of d))
      (LSR (base_port d) := map (\<lambda>_. 1) bs @ [0], base_port d := bs)\<rparr>\<rparr>"
    define d2 where "d2 = d1\<lparr>read_buffer := (read_buffer d)[rd d := x], rd := rd d + 1\<rparr>"
    have "inb (base_port d) (d\<lparr>chip_of := (chip_of d)\<lparr>answers := (answers (chip_of d))
      (LSR (base_port d) := map (\<lambda>_. 1) bs @ [0])\<rparr>\<rparr>) = Some (x, d1)"
      using Cons.prems(2) by (subst inb_other [where v = x and vs = bs]) (simp_all add: d1_def)
    then have r: "rd d < SIZE" "read_loop (map (\<lambda>_. 1) bs @ [0]) d2 = Some d'"
      using Cons.prems(1) by (simp_all add: Let_def d1_def d2_def split: if_splits)
    have "answers (chip_of d2) (base_port d2) = bs" "length (read_buffer d2) = SIZE" "rd d2 \<le> SIZE"
      using Cons.prems(3) r(1) by (simp_all add: d2_def d1_def)
    from Cons.IH [OF r(2) this] obtain b a where
      "d' = d2\<lparr>read_buffer := b, rd := rd d2 + length bs, chip_of := (chip_of d2)\<lparr>answers := a\<rparr>\<rparr>"
      "length b = SIZE" "rd d2 + length bs \<le> SIZE" "take (rd d2 + length bs) b = take (rd d2) (read_buffer d2) @ bs"
      by blast
    moreover have "take (rd d2) (read_buffer d2) = take (rd d) (read_buffer d) @ [x]"
      using r(1) Cons.prems(3) by (simp add: d2_def take_Suc_conv_app_nth)
    ultimately show ?case by (intro exI [of _ b] exI [of _ a]) (simp add: d2_def d1_def)
  qed
  with that show ?thesis by blast
qed

lemma write_loop_sent:
  "\<not> dlab (base_port d) (chip_of d) \<Longrightarrow> write_loop is d =
     d\<lparr>chip_of := (chip_of d)\<lparr>sent := sent (chip_of d) @ map (\<lambda>i. write_buffer d ! i) is\<rparr>\<rparr>"
proof (induction "is" arbitrary: d)
  case Nil
  then show ?case by simp
next
  case (Cons i "is")
  have "outb (write_buffer d ! i) (base_port d) d =
      d\<lparr>chip_of := (chip_of d)\<lparr>sent := sent (chip_of d) @ [write_buffer d ! i]\<rparr>\<rparr>"
    using Cons.prems by (simp add: outb_def port_out_send)
  then show ?case using Cons by (simp add: dlab_def)
qed

lemma iir_bits: "IIR_RDAI 4 = 1" "IIR_THREI 4 = 0" "IIR_RDAI 2 = 0" "IIR_THREI 2 = 1"
  by (simp_all add: IIR_RDAI_def IIR_THREI_def drop_bit_eq_div)

text \<open>The device after the handler has read which interrupt it is.\<close>

definition rx_left :: "bytes \<Rightarrow> 'a port_dev_scheme \<Rightarrow> 'a port_dev_scheme" where
  "rx_left bs d = d\<lparr>chip_of := (chip_of d)\<lparr>answers :=
     (answers (chip_of (rx_ready bs d)))(IIR (base_port d) := [])\<rparr>\<rparr>"

definition tx_left :: "'a port_dev_scheme \<Rightarrow> 'a port_dev_scheme" where
  "tx_left d = d\<lparr>chip_of := (chip_of d)\<lparr>answers := (answers (chip_of (tx_ready d)))(IIR (base_port d) := [])\<rparr>\<rparr>"

lemma left_simps [simp]:
  "base_port (rx_left bs d) = base_port d" "rd (rx_left bs d) = rd d" "read_buffer (rx_left bs d) = read_buffer d"
  "dlab b (chip_of (rx_left bs d)) = dlab b (chip_of d)" "sent (chip_of (rx_left bs d)) = sent (chip_of d)"
  "enable_in b (chip_of (rx_left bs d)) = enable_in b (chip_of d)"
  "answers (chip_of (rx_left bs d)) (base_port d) = bs"
  "answers (chip_of (rx_left bs d)) (LSR (base_port d)) = map (\<lambda>_. 1) bs @ [0]"
  "base_port (tx_left d) = base_port d" "wr (tx_left d) = wr d" "write_buffer (tx_left d) = write_buffer d"
  "dlab b (chip_of (tx_left d)) = dlab b (chip_of d)" "sent (chip_of (tx_left d)) = sent (chip_of d)"
  "enable_in b (chip_of (tx_left d)) = enable_in b (chip_of d)"
  by (simp_all add: rx_left_def tx_left_def rx_ready_def)

lemma iir_in:
  "inb (IIR (base_port d)) (rx_ready bs d) = Some (4, rx_left bs d)"
  "inb (IIR (base_port d)) (tx_ready d) = Some (2, tx_left d)"
  "base_port (rx_ready bs d) = base_port d" "base_port (tx_ready d) = base_port d"
proof -
  show "inb (IIR (base_port d)) (rx_ready bs d) = Some (4, rx_left bs d)"
    by (subst inb_other [where v = 4 and vs = "[]"]) (simp_all add: rx_ready_def rx_left_def)
  show "inb (IIR (base_port d)) (tx_ready d) = Some (2, tx_left d)"
    by (subst inb_other [where v = 2 and vs = "[]"]) (simp_all add: tx_ready_def tx_left_def)
qed (simp_all add: rx_ready_def tx_ready_def)

text \<open>A receive interrupt: the bytes go to the end of the buffer, and further ones are masked.\<close>

lemma receive_bytes_rx:
  fixes d :: "'a port_dev_scheme"
  assumes "port_ok d" "receive_bytes (rx_left bs d) = Some d'"
  obtains b n c where "d' = d\<lparr>read_buffer := b, rd := n, chip_of := c\<rparr>" "port_ok d'" "\<not> rx_armed d'"
    "tx_armed d' \<longleftrightarrow> tx_armed d" "held d' = held d @ bs" "sent c = sent (chip_of d)"
proof -
  define v where "v = enable_in (base_port d) (chip_of d) AND NOT IER_RDAI"
  define d2 where "d2 = set_ier v (rx_left bs d)"
  have ok: "length (read_buffer d) = SIZE" "rd d \<le> SIZE" "\<not> dlab (base_port d) (chip_of d)"
    using assms(1) by (simp_all add: port_ok_def)
  have d2: "rd d2 = rd d" "read_buffer d2 = read_buffer d" "base_port d2 = base_port d"
    "answers (chip_of d2) (base_port d2) = bs" by (simp_all add: d2_def)
  have "read_loop (map (\<lambda>_. 1) bs @ [0]) d2 = Some d'"
    using assms(2) ok(3) by (simp add: receive_bytes_def inb_IER outb_IER Let_def d2_def v_def)
  then obtain b a where b: "d' = d2\<lparr>read_buffer := b, rd := rd d2 + length bs, chip_of := (chip_of d2)\<lparr>answers := a\<rparr>\<rparr>"
    "length b = SIZE" "rd d2 + length bs \<le> SIZE" "take (rd d2 + length bs) b = take (rd d2) (read_buffer d2) @ bs"
    by (rule read_loop_rx) (use ok d2 in simp_all)
  have d': "d' = d\<lparr>read_buffer := b, rd := rd d + length bs, chip_of := (chip_of d2)\<lparr>answers := a\<rparr>\<rparr>"
    by (simp add: b(1) d2(1)) (simp add: d2_def set_ier_def rx_left_def)
  have e: "enable_in (base_port d) (chip_of d') = v" "\<not> dlab (base_port d) (chip_of d')"
    using ok(3) by (simp_all add: d' d2_def)
  show ?thesis
  proof (rule that [OF d'])
    show "port_ok d'" using assms(1) e b(2,3) d2(1) by (simp add: port_ok_def d')
    show "\<not> rx_armed d'" "tx_armed d' \<longleftrightarrow> tx_armed d"
      using e by (simp_all add: rx_armed_def tx_armed_def d' v_def ier_bits)
    show "held d' = held d @ bs" using b(4) d2(1,2) by (simp add: held_def d')
    show "sent ((chip_of d2)\<lparr>answers := a\<rparr>) = sent (chip_of d)" by (simp add: d2_def)
  qed
qed

text \<open>A transmit interrupt: the write buffer is sent, and further interrupts are masked.\<close>

lemma transmit_bytes_tx:
  fixes d :: "'a port_dev_scheme"
  assumes "port_ok d"
  obtains c where "transmit_bytes (tx_left d) = Some (d\<lparr>chip_of := c\<rparr>)" "port_ok (d\<lparr>chip_of := c\<rparr>)"
    "\<not> tx_armed (d\<lparr>chip_of := c\<rparr>)" "rx_armed (d\<lparr>chip_of := c\<rparr>) \<longleftrightarrow> rx_armed d"
    "sent c = sent (chip_of d) @ take (wr d) (write_buffer d)"
proof -
  define v where "v = enable_in (base_port d) (chip_of d) AND NOT IER_THREI"
  define c1 where "c1 = chip_of (set_ier v (tx_left d))"
  define c where "c = c1\<lparr>sent := sent (chip_of d) @ take (wr d) (write_buffer d)\<rparr>"
  have ok: "length (write_buffer d) = SIZE" "wr d \<le> 14" "\<not> dlab (base_port d) (chip_of d)"
    using assms(1) by (simp_all add: port_ok_def)
  have w: "map (\<lambda>i. write_buffer d ! i) [0..<wr d] = take (wr d) (write_buffer d)"
    using ok by (intro nth_equalityI) (simp_all add: SIZE_def)
  have s: "set_ier v (tx_left d) = d\<lparr>chip_of := c1\<rparr>" by (simp add: c1_def set_ier_def tx_left_def)
  have e: "enable_in (base_port d) c1 = v" "\<not> dlab (base_port d) c1" "sent c1 = sent (chip_of d)"
    using ok(3) by (simp_all add: c1_def)
  have "transmit_bytes (tx_left d) = Some (write_loop [0..<wr d] (set_ier v (tx_left d)))"
    using ok by (simp add: transmit_bytes_def inb_IER outb_IER Let_def v_def SIZE_def)
  also have "\<dots> = Some (d\<lparr>chip_of := c\<rparr>)" using e by (simp add: s write_loop_sent w c_def)
  finally show ?thesis
    using that [of c] e assms by (simp add: c_def port_ok_def rx_armed_def tx_armed_def v_def ier_bits)
qed

section \<open>Writing and setting the line\<close>

definition filled :: "bytes \<Rightarrow> 'a port_dev_scheme \<Rightarrow> 'a port_dev_scheme" where
  "filled bs d = d\<lparr>wr := min 14 (length bs), write_buffer := take (min 14 (length bs)) bs @
     drop (min 14 (length bs)) (write_buffer d)\<rparr>"

lemma filled_simps [simp]:
  "base_port (filled bs d) = base_port d" "chip_of (filled bs d) = chip_of d" "rd (filled bs d) = rd d"
  "read_buffer (filled bs d) = read_buffer d" "wr (filled bs d) = min 14 (length bs)"
  by (simp_all add: filled_def)

lemma filled_ok:
  assumes "port_ok d"
  shows "port_ok (filled bs d)" "take (wr (filled bs d)) (write_buffer (filled bs d)) = take 14 bs"
  using assms by (auto simp: port_ok_def SIZE_def min_def) (simp_all add: filled_def min_def SIZE_def)

lemma set_ier_ok:
  assumes "port_ok d"
  shows "port_ok (set_ier v d)" "rx_armed (set_ier v d) \<longleftrightarrow> bit v 0" "tx_armed (set_ier v d) \<longleftrightarrow> bit v 1"
    "held (set_ier v d) = held d"
  using assms by (simp_all add: port_ok_def rx_armed_def tx_armed_def held_def)

lemma SET_LINE_chip:
  "SET_LINE baud len stop par (base_port d) d =
     d\<lparr>chip_of := line_settings (base_port d) baud (len OR stop OR par) (chip_of d)\<rparr>"
proof -
  have "ucast (ucast baud AND 0x00FF :: u32) = baud"
  proof -
    have m: "(0x00FF :: u32) = mask 8" by (simp add: mask_eq_exp_minus_1)
    show ?thesis unfolding m by (rule bit_word_eqI) (simp add: bit_simps del: mask_numeral)
  qed
  moreover have "ucast (ucast baud AND 0xFF00 :: u32) = (0 :: u8)"
  proof -
    have m: "(0xFF00 :: u32) = push_bit 8 (mask 8)" by (simp add: mask_eq_exp_minus_1 push_bit_eq_mult)
    show ?thesis unfolding m by (rule bit_word_eqI) (simp add: bit_simps del: mask_numeral)
  qed
  ultimately show ?thesis
    using set_line_chip [of "base_port d" "len OR stop OR par" baud "chip_of d"]
    by (simp add: SET_LINE_def Let_def outb_def)
qed

lemma SET_LINE_ok:
  fixes d :: "'a port_dev_scheme"
  assumes "port_ok d" "\<not> bit (len OR stop OR par) 7"
  shows "port_ok (SET_LINE baud len stop par (base_port d) d)"
    "rx_armed (SET_LINE baud len stop par (base_port d) d) \<longleftrightarrow> rx_armed d"
    "held (SET_LINE baud len stop par (base_port d) d) = held d"
proof -
  let ?c = "line_settings (base_port d) baud (len OR stop OR par) (chip_of d)"
  have "\<not> dlab (base_port d) ?c" using assms(2) by (simp add: dlab_def line_settings_def)
  moreover from this have "enable_in (base_port d) ?c = enable_in (base_port d) (chip_of d)"
    using assms(1) by (simp add: enable_in_def port_ok_def) (simp add: line_settings_def)
  ultimately show "port_ok (SET_LINE baud len stop par (base_port d) d)"
    "rx_armed (SET_LINE baud len stop par (base_port d) d) \<longleftrightarrow> rx_armed d"
    "held (SET_LINE baud len stop par (base_port d) d) = held d"
    using assms(1) by (simp_all add: SET_LINE_chip port_ok_def rx_armed_def held_def)
qed

end
