(* ===== verification/RxHandoff.thy ===== *)
theory RxHandoff
  imports Base
begin

text \<open>
  The contract of a driver's receive path, which hands bytes from an interrupt handler to a reader
  through a buffer, and what follows for all its runs.
\<close>

section \<open>Handing received bytes to a reader\<close>

text \<open>
  \<open>fill\<close> is the handler when bytes have arrived, which it may only be while \<open>armed\<close>; \<open>fetch\<close> is a read,
  \<open>None\<close> while it waits; \<open>held\<close> is what has been taken from the chip and not been read; \<open>other\<close> are
  the remaining steps of the driver.
\<close>

inductive rx_run ::
  "('s \<Rightarrow> bool) \<Rightarrow> (bytes \<Rightarrow> 's \<Rightarrow> 's option) \<Rightarrow> ('s \<Rightarrow> (bytes \<times> 's) option) \<Rightarrow> ('s \<Rightarrow> 's \<Rightarrow> bool) \<Rightarrow>
   's \<Rightarrow> bytes \<Rightarrow> bytes \<Rightarrow> 's \<Rightarrow> bool" for armed fill fetch other s where
  start: "rx_run armed fill fetch other s [] [] s"
| arrive: "rx_run armed fill fetch other s arrived got s1 \<Longrightarrow> armed s1 \<Longrightarrow> fill bs s1 = Some s2 \<Longrightarrow>
    rx_run armed fill fetch other s (arrived @ bs) got s2"
| take: "rx_run armed fill fetch other s arrived got s1 \<Longrightarrow> fetch s1 = Some (d, s2) \<Longrightarrow>
    rx_run armed fill fetch other s arrived (got @ d) s2"
| step: "rx_run armed fill fetch other s arrived got s1 \<Longrightarrow> other s1 s2 \<Longrightarrow>
    rx_run armed fill fetch other s arrived got s2"

text \<open>In a run, \<open>arrived\<close> is what the chip received and \<open>got\<close> what the reads returned.\<close>

locale rx_handoff =
  fixes inv :: "'s \<Rightarrow> bool"
    and armed :: "'s \<Rightarrow> bool"
    and held :: "'s \<Rightarrow> bytes"
    and fill :: "bytes \<Rightarrow> 's \<Rightarrow> 's option"
    and fetch :: "'s \<Rightarrow> (bytes \<times> 's) option"
    and other :: "'s \<Rightarrow> 's \<Rightarrow> bool"
  assumes fill: "inv s \<Longrightarrow> armed s \<Longrightarrow> fill bs s = Some s' \<Longrightarrow>
      inv s' \<and> \<not> armed s' \<and> held s' = held s @ bs"
    and fetch: "inv s \<Longrightarrow> fetch s = Some (d, s') \<Longrightarrow> inv s' \<and> armed s' \<and> d = held s \<and> held s' = []"
    and other: "inv s \<Longrightarrow> other s s' \<Longrightarrow> inv s' \<and> (armed s' \<longleftrightarrow> armed s) \<and> held s' = held s"
begin

lemma rx_run_inv:
  "rx_run armed fill fetch other s arrived got s' \<Longrightarrow> inv s \<Longrightarrow> inv s' \<and> held s @ arrived = got @ held s'"
proof (induction rule: rx_run.induct)
  case start
  then show ?case by simp
next
  case (arrive arrived got s1 bs s2)
  then show ?case using fill [of s1 bs s2] by simp
next
  case (take arrived got s1 d s2)
  then show ?case using fetch [of s1 d s2] by simp
next
  case (step arrived got s1 s2)
  then show ?case using other [of s1 s2] by simp
qed

lemma nothing_lost:
  "rx_run armed fill fetch other s arrived got s' \<Longrightarrow> inv s \<Longrightarrow> held s = [] \<Longrightarrow> arrived = got @ held s'"
  using rx_run_inv by fastforce

end

end
