(* ===== verification/UartLinux.thy ===== *)
theory UartLinux
  imports Uart RxHandoff
begin

text \<open>
  The serial port driver for Linux, \<open>src/SerialPortDriverLinux/uart16550.c\<close>: two ports, each with a
  buffer that the interrupt handler fills and a read empties, and one that a write fills and the
  handler sends.

  A device carries its chip. \<open>None\<close> is an access outside a buffer, a loop the chip gives no more
  answers for, or a wait that does not end yet. Whether a wait is interrupted, a copy fails or a
  request of the module is granted are arguments. The wait queues are the conditions waited for.
\<close>

section \<open>A device\<close>

record serial_dev = port_dev +
  read_ready :: nat
  write_ready :: nat

section \<open>The interrupt handler\<close>

definition serial_interrupt_handle :: "serial_dev \<Rightarrow> serial_dev option" where
  "serial_interrupt_handle d = do {
     (iir, d) \<leftarrow> inb (IIR (base_port d)) d;
     d \<leftarrow> (if IIR_RDAI iir \<noteq> 0 then do { d \<leftarrow> receive_bytes d; Some (d\<lparr>read_ready := 1\<rparr>) } else Some d);
     (if IIR_THREI iir \<noteq> 0 then do { d \<leftarrow> transmit_bytes d; Some (d\<lparr>write_ready := 0\<rparr>) } else Some d)
   }"

section \<open>The operations of the file\<close>

definition ERESTARTSYS :: int where "ERESTARTSYS = 512"
definition EFAULT :: int where "EFAULT = 14"
definition EINVAL_l :: int where "EINVAL_l = 22"

definition serial_open :: "serial_dev \<Rightarrow> int \<times> serial_dev" where "serial_open d = (0, d)"

definition serial_close :: "serial_dev \<Rightarrow> int \<times> serial_dev" where "serial_close d = (0, d)"

text \<open>A read gives its result, the bytes copied to the user and the device.\<close>

definition serial_read :: "nat \<Rightarrow> bool \<Rightarrow> bool \<Rightarrow> serial_dev \<Rightarrow> (int \<times> bytes \<times> serial_dev) option" where
  "serial_read count interrupted faults d =
     (if count = 0 then Some (0, [], d)
      else if read_ready d \<noteq> 1 then (if interrupted then Some (- ERESTARTSYS, [], d) else None)
      else let result = rd d in
      if faults then Some (- EFAULT, [], d)
      else do {
        let copied = take result (read_buffer d);
        let d = d\<lparr>rd := 0, read_ready := 0\<rparr>;
        (ier, d) \<leftarrow> inb (IER (base_port d)) d;
        Some (int result, copied, outb (ier OR IER_RDAI) (IER (base_port d)) d)
      })"

text \<open>A write up to its wait, for the user's bytes, and what it returns after the wait.\<close>

definition serial_write :: "bytes \<Rightarrow> bool \<Rightarrow> serial_dev \<Rightarrow> (int \<times> serial_dev) option" where
  "serial_write user_buffer faults d =
     (if length user_buffer = 0 then Some (0, d)
      else let d = d\<lparr>wr := (if length user_buffer \<ge> 14 then 14 else length user_buffer)\<rparr>; result = wr d in
      if faults then Some (- EFAULT, d)
      else do {
        let d = d\<lparr>write_buffer := take result user_buffer @ drop result (write_buffer d), write_ready := 1\<rparr>;
        (ier, d) \<leftarrow> inb (IER (base_port d)) d;
        Some (int result, outb (ier OR IER_THREI) (IER (base_port d)) d)
      })"

definition serial_write_end :: "int \<Rightarrow> bool \<Rightarrow> serial_dev \<Rightarrow> int option" where
  "serial_write_end result interrupted d = (if write_ready d = 0 \<or> interrupted then Some result else None)"

record line_info =
  li_baud :: u8
  li_len :: u8
  li_par :: u8
  li_stop :: u8

definition UART16550_IOCTL_SET_LINE :: nat where "UART16550_IOCTL_SET_LINE = 1"

definition serial_ioctl :: "nat \<Rightarrow> line_info \<Rightarrow> bool \<Rightarrow> serial_dev \<Rightarrow> int \<times> serial_dev" where
  "serial_ioctl cmd i faults d =
     (if cmd = UART16550_IOCTL_SET_LINE then
        (if faults then (- EFAULT, d)
         else (0, SET_LINE (li_baud i) (li_len i) (li_stop i) (li_par i) (base_port d) d))
      else (- EINVAL_l, d))"

section \<open>Loading and unloading\<close>

datatype grant = Cdev nat | Region nat | Irq nat nat | Chrdev nat

record serial_module =
  uart :: "nat \<Rightarrow> serial_dev"
  info0 :: nat
  info1 :: nat
  grants :: "grant list"

text \<open>The kernel's answers to a port's requests.\<close>

record port_answers =
  cdev_err :: int
  region_ok :: bool
  irq_err :: int

definition do_requests :: "nat \<Rightarrow> nat \<Rightarrow> nat \<Rightarrow> nat \<Rightarrow> port_answers \<Rightarrow> serial_module \<Rightarrow> int \<times> serial_module" where
  "do_requests baseport irq index minor a s =
     (let d = (uart s index)\<lparr>read_ready := 0, write_ready := 0, rd := 0, wr := 0, base_port := baseport\<rparr>;
        s = s\<lparr>uart := (uart s)(index := d)\<rparr> in
      if cdev_err a \<noteq> 0 then (cdev_err a, s)
      else let s = s\<lparr>grants := Cdev index # grants s\<rparr> in
      if \<not> region_ok a then (- EINVAL_l, s)
      else let s = s\<lparr>grants := Region baseport # grants s\<rparr> in
      if irq_err a \<noteq> 0 then (irq_err a, s)
      else let s = s\<lparr>grants := Irq irq index # grants s\<rparr>;
        d = outb 0x01 (IER baseport) (outb 0x08 (MCR baseport) (outb 0xc7 (FCR baseport) (uart s index)))
      in (0, s\<lparr>uart := (uart s)(index := d)\<rparr>))"

definition OPTION_COM1 :: int where "OPTION_COM1 = 1"
definition OPTION_COM2 :: int where "OPTION_COM2 = 2"
definition OPTION_BOTH :: int where "OPTION_BOTH = 3"

definition serial_cdev_init :: "int \<Rightarrow> int \<Rightarrow> port_answers \<Rightarrow> port_answers \<Rightarrow> serial_module \<Rightarrow> int \<times> serial_module" where
  "serial_cdev_init opt chrdev_err a1 a2 s =
     (let (s, minors) =
        (if opt = OPTION_BOTH then (s\<lparr>info0 := 1, info1 := 1\<rparr>, 2)
         else if opt = OPTION_COM1 then (s\<lparr>info0 := 1\<rparr>, 1)
         else if opt = OPTION_COM2 then (s\<lparr>info1 := 1\<rparr>, 1)
         else (s, 0));
        l_close = (\<lambda>(err, s). (err, s\<lparr>grants := remove1 (Chrdev minors) (grants s)\<rparr>)) in
      if info0 s + info1 s = 0 then (0, s)
      else if chrdev_err \<noteq> 0 then (chrdev_err, s)
      else let s = s\<lparr>grants := Chrdev minors # grants s\<rparr> in
      if info0 s + info1 s = 1 then
        (let (err, s) = (if info0 s \<noteq> 0 then do_requests COM1_BASEPORT COM1_IRQ 0 0 a1 s
           else do_requests COM2_BASEPORT COM2_IRQ 1 0 a2 s)
         in if err \<noteq> 0 then l_close (err, s) else (0, s))
      else
        (let (err, s) = do_requests COM1_BASEPORT COM1_IRQ 0 0 a1 s in
         if err \<noteq> 0 then l_close (err, s)
         else let (err, s) = do_requests COM2_BASEPORT COM2_IRQ 1 1 a2 s in
         if err \<noteq> 0 then l_close (err, s) else (0, s)))"

definition release_port :: "nat \<Rightarrow> nat \<Rightarrow> nat \<Rightarrow> serial_module \<Rightarrow> serial_module" where
  "release_port baseport irq index s =
     s\<lparr>uart := (uart s)(index := outb 0 (IER baseport) (outb 0 (MCR baseport) (uart s index))),
       grants := remove1 (Cdev index) (remove1 (Region baseport) (remove1 (Irq irq index) (grants s)))\<rparr>"

definition serial_cdev_exit :: "serial_module \<Rightarrow> serial_module" where
  "serial_cdev_exit s =
     (let minors = info0 s + info1 s;
        s = (if info0 s \<noteq> 0 then release_port COM1_BASEPORT COM1_IRQ 0 s else s);
        s = (if info1 s \<noteq> 0 then release_port COM2_BASEPORT COM2_IRQ 1 s else s)
      in s\<lparr>grants := remove1 (Chrdev minors) (grants s)\<rparr>)"

end
