(* ===== verification/UartLinuxCorrect.thy ===== *)
theory UartLinuxCorrect
  imports UartLinux
begin

text \<open>
  The Linux serial driver: its receive path meets the contract \<open>rx_handoff\<close>, what a write sends, what
  the line settings do, and what is kept when loading fails.
\<close>

section \<open>The interrupt handler and the operations\<close>

definition dev_ok :: "serial_dev \<Rightarrow> bool" where
  "dev_ok d \<longleftrightarrow> port_ok d \<and> (rx_armed d \<longrightarrow> read_ready d = 0)"

lemma ready_simps [simp]:
  "read_ready (set_ier v d) = read_ready d" "write_ready (set_ier v d) = write_ready d"
  "read_ready (filled bs d) = read_ready d" "write_ready (filled bs d) = write_ready d"
  by (simp_all add: set_ier_def filled_def)

lemma rx_interrupt:
  assumes "dev_ok d" "serial_interrupt_handle (rx_ready bs d) = Some d'"
  shows "dev_ok d' \<and> \<not> rx_armed d' \<and> held d' = held d @ bs \<and> read_ready d' = 1"
proof -
  have "port_ok d" using assms(1) by (simp add: dev_ok_def)
  obtain d1 where 1: "receive_bytes (rx_left bs d) = Some d1" "d' = d1\<lparr>read_ready := 1\<rparr>"
    using assms(2) by (auto simp: serial_interrupt_handle_def iir_in iir_bits split: bind_splits)
  show ?thesis
    by (rule receive_bytes_rx [OF \<open>port_ok d\<close> 1(1)])
      (simp add: 1(2) dev_ok_def port_ok_def rx_armed_def held_def)
qed

lemma tx_interrupt:
  assumes "dev_ok d"
  obtains d' where "serial_interrupt_handle (tx_ready d) = Some d'" "dev_ok d'" "\<not> tx_armed d'"
    "rx_armed d' \<longleftrightarrow> rx_armed d" "held d' = held d" "write_ready d' = 0"
    "sent (chip_of d') = sent (chip_of d) @ take (wr d) (write_buffer d)"
proof -
  have "port_ok d" using assms(1) by (simp add: dev_ok_def)
  then obtain c where c: "transmit_bytes (tx_left d) = Some (d\<lparr>chip_of := c\<rparr>)" "port_ok (d\<lparr>chip_of := c\<rparr>)"
    "\<not> tx_armed (d\<lparr>chip_of := c\<rparr>)" "rx_armed (d\<lparr>chip_of := c\<rparr>) \<longleftrightarrow> rx_armed d"
    "sent c = sent (chip_of d) @ take (wr d) (write_buffer d)"
    by (rule transmit_bytes_tx)
  show ?thesis
  proof (rule that [of "d\<lparr>chip_of := c, write_ready := 0\<rparr>"])
    show "serial_interrupt_handle (tx_ready d) = Some (d\<lparr>chip_of := c, write_ready := 0\<rparr>)"
      using c(1) by (simp add: serial_interrupt_handle_def iir_in iir_bits)
  qed (use c assms in \<open>simp_all add: dev_ok_def port_ok_def rx_armed_def tx_armed_def held_def\<close>)
qed

text \<open>A read that gets through.\<close>

lemma serial_read_ready:
  assumes "dev_ok d" "0 < n" "read_ready d = 1"
  shows "serial_read n i False d = Some (int (rd d), held d,
    set_ier (enable_in (base_port d) (chip_of d) OR IER_RDAI) (d\<lparr>rd := 0, read_ready := 0\<rparr>))"
proof -
  have "\<not> dlab (base_port d) (chip_of d)" using assms(1) by (simp add: dev_ok_def port_ok_def)
  then show ?thesis
    using assms(2,3) by (simp add: serial_read_def Let_def inb_IER outb_IER held_def)
qed

lemma serial_write_state:
  assumes "dev_ok d" "bs \<noteq> []"
  shows "serial_write bs False d = Some (int (min 14 (length bs)),
    set_ier (enable_in (base_port d) (chip_of d) OR IER_THREI) (filled bs d\<lparr>write_ready := 1\<rparr>))"
proof -
  have c: "\<not> dlab (base_port d) (chip_of d)" using assms(1) by (simp add: dev_ok_def port_ok_def)
  have e: "(if length bs \<ge> 14 then 14 else length bs) = min 14 (length bs)" by auto
  show ?thesis
    using assms(2) c by (simp add: serial_write_def Let_def e inb_IER outb_IER) (simp add: filled_def inb_IER outb_IER)
qed

lemma written_ok:
  assumes "dev_ok d" "bit v 0 \<longleftrightarrow> rx_armed d"
  shows "dev_ok (set_ier v (filled bs d\<lparr>write_ready := 1\<rparr>))"
    "rx_armed (set_ier v (filled bs d\<lparr>write_ready := 1\<rparr>)) \<longleftrightarrow> rx_armed d"
    "tx_armed (set_ier v (filled bs d\<lparr>write_ready := 1\<rparr>)) \<longleftrightarrow> bit v 1"
    "held (set_ier v (filled bs d\<lparr>write_ready := 1\<rparr>)) = held d"
    "take (wr (set_ier v (filled bs d\<lparr>write_ready := 1\<rparr>)))
      (write_buffer (set_ier v (filled bs d\<lparr>write_ready := 1\<rparr>))) = take 14 bs"
    "sent (chip_of (set_ier v (filled bs d\<lparr>write_ready := 1\<rparr>))) = sent (chip_of d)"
proof -
  have p: "port_ok (filled bs d\<lparr>write_ready := 1\<rparr>)"
    using filled_ok(1) [of d bs] assms(1) by (simp add: dev_ok_def port_ok_def)
  show "dev_ok (set_ier v (filled bs d\<lparr>write_ready := 1\<rparr>))"
    using set_ier_ok [OF p] assms by (simp add: dev_ok_def)
  show "rx_armed (set_ier v (filled bs d\<lparr>write_ready := 1\<rparr>)) \<longleftrightarrow> rx_armed d"
    "tx_armed (set_ier v (filled bs d\<lparr>write_ready := 1\<rparr>)) \<longleftrightarrow> bit v 1"
    "held (set_ier v (filled bs d\<lparr>write_ready := 1\<rparr>)) = held d"
    using set_ier_ok [OF p] assms(2) by (simp_all add: held_def)
  show "take (wr (set_ier v (filled bs d\<lparr>write_ready := 1\<rparr>)))
      (write_buffer (set_ier v (filled bs d\<lparr>write_ready := 1\<rparr>))) = take 14 bs"
    using filled_ok(2) [of d bs] assms(1) by (simp add: dev_ok_def)
  show "sent (chip_of (set_ier v (filled bs d\<lparr>write_ready := 1\<rparr>))) = sent (chip_of d)" by simp
qed

lemma serial_write_ok:
  assumes "dev_ok d" "serial_write bs faults d = Some (r, d')"
  shows "dev_ok d' \<and> (rx_armed d' \<longleftrightarrow> rx_armed d) \<and> held d' = held d"
proof (cases "bs = [] \<or> faults")
  case True
  with assms show ?thesis
    by (auto simp: serial_write_def Let_def dev_ok_def port_ok_def rx_armed_def held_def split: if_splits)
next
  case False
  then have "d' = set_ier (enable_in (base_port d) (chip_of d) OR IER_THREI) (filled bs d\<lparr>write_ready := 1\<rparr>)"
    using serial_write_state [OF assms(1)] assms(2) by simp
  then show ?thesis
    using written_ok [OF assms(1), of "enable_in (base_port d) (chip_of d) OR IER_THREI" bs]
    by (simp add: rx_armed_def ier_bits)
qed

section \<open>Runs of a device\<close>

definition uart_fill :: "bytes \<Rightarrow> serial_dev \<Rightarrow> serial_dev option" where
  "uart_fill bs d = serial_interrupt_handle (rx_ready bs d)"

definition uart_fetch :: "serial_dev \<Rightarrow> (bytes \<times> serial_dev) option" where
  "uart_fetch d = map_option snd (serial_read 1 False False d)"

inductive uart_other :: "serial_dev \<Rightarrow> serial_dev \<Rightarrow> bool" where
  written: "serial_write bs faults d = Some (r, d') \<Longrightarrow> uart_other d d'"
| transmitted: "serial_interrupt_handle (tx_ready d) = Some d' \<Longrightarrow> uart_other d d'"
| line_set: "\<not> bit (li_len i OR li_stop i OR li_par i) 7 \<Longrightarrow> uart_other d (snd (serial_ioctl cmd i faults d))"
| refused: "serial_read n i faults d = Some (r, c, d') \<Longrightarrow> n = 0 \<or> r < 0 \<Longrightarrow> uart_other d d'"

lemma serial_read_refused:
  assumes "serial_read n i faults d = Some (r, c, d')" "n = 0 \<or> r < 0"
  shows "d' = d"
  using assms by (auto simp: serial_read_def Let_def split: if_splits bind_splits)

lemma line_set_ok:
  assumes "dev_ok d" "\<not> bit (li_len i OR li_stop i OR li_par i) 7"
  shows "dev_ok (snd (serial_ioctl cmd i faults d)) \<and>
    (rx_armed (snd (serial_ioctl cmd i faults d)) \<longleftrightarrow> rx_armed d) \<and> held (snd (serial_ioctl cmd i faults d)) = held d"
proof -
  have "port_ok d" using assms(1) by (simp add: dev_ok_def)
  moreover have "read_ready (SET_LINE b l s p (base_port d) d) = read_ready d" for b l s p
    by (simp add: SET_LINE_chip)
  ultimately show ?thesis
    using assms SET_LINE_ok [of d "li_len i" "li_stop i" "li_par i" "li_baud i"]
    by (simp add: serial_ioctl_def dev_ok_def)
qed

lemma uart_other_ok:
  "dev_ok d \<Longrightarrow> uart_other d d' \<Longrightarrow> dev_ok d' \<and> (rx_armed d' \<longleftrightarrow> rx_armed d) \<and> held d' = held d"
proof -
  assume ok: "dev_ok d"
  assume "uart_other d d'"
  then show ?thesis
  proof cases
    case written
    then show ?thesis using serial_write_ok [OF ok] by blast
  next
    case transmitted
    then show ?thesis using tx_interrupt [OF ok] by (metis option.inject)
  next
    case line_set
    then show ?thesis using line_set_ok [OF ok] by simp
  next
    case refused
    then show ?thesis using serial_read_refused ok by blast
  qed
qed

lemma uart_fetch_eq:
  assumes "dev_ok d"
  shows "uart_fetch d = (if read_ready d = 1 then Some (held d,
    set_ier (enable_in (base_port d) (chip_of d) OR IER_RDAI) (d\<lparr>rd := 0, read_ready := 0\<rparr>)) else None)"
  using serial_read_ready [OF assms, of 1] by (simp add: uart_fetch_def serial_read_def)

interpretation lin_rx: rx_handoff dev_ok rx_armed held uart_fill uart_fetch uart_other
proof unfold_locales
  fix d bs d' assume "dev_ok d" "rx_armed d" "uart_fill bs d = Some d'"
  then show "dev_ok d' \<and> \<not> rx_armed d' \<and> held d' = held d @ bs"
    using rx_interrupt [of d bs d'] by (simp add: uart_fill_def)
next
  fix d c d' assume ok: "dev_ok d" and "uart_fetch d = Some (c, d')"
  then have e: "c = held d" "d' = set_ier (enable_in (base_port d) (chip_of d) OR IER_RDAI) (d\<lparr>rd := 0, read_ready := 0\<rparr>)"
    by (auto simp: uart_fetch_eq split: if_splits)
  have "port_ok (d\<lparr>rd := 0, read_ready := 0\<rparr>)" using ok by (simp add: dev_ok_def port_ok_def)
  from set_ier_ok [OF this] show "dev_ok d' \<and> rx_armed d' \<and> c = held d \<and> held d' = []"
    by (simp add: e dev_ok_def ier_bits) (simp add: held_def)
next
  fix d d' assume "dev_ok d" "uart_other d d'"
  then show "dev_ok d' \<and> (rx_armed d' \<longleftrightarrow> rx_armed d) \<and> held d' = held d" by (rule uart_other_ok)
qed

section \<open>What the module holds\<close>

definition port_granted :: "port_answers \<Rightarrow> bool" where
  "port_granted a \<longleftrightarrow> cdev_err a = 0 \<and> region_ok a \<and> irq_err a = 0"

lemmas option_defs = OPTION_BOTH_def OPTION_COM1_def OPTION_COM2_def

lemma count_list_remove1: "count_list (remove1 x xs) y = count_list xs y - of_bool (x = y)"
  by (induction xs) auto

lemma do_requests_result:
  assumes "do_requests base irq idx minor a s = (r, s')"
  shows "info0 s' = info0 s \<and> info1 s' = info1 s \<and> (r = 0 \<longleftrightarrow> port_granted a) \<and>
    set (grants s) \<subseteq> set (grants s') \<and> (\<forall>n. count_list (grants s') (Chrdev n) = count_list (grants s) (Chrdev n))"
  using assms by (auto simp: do_requests_def Let_def port_granted_def EINVAL_l_def split: if_splits)

lemma do_requests_granted:
  assumes "do_requests base irq idx minor a s = (r, s')" "r = 0"
  shows "info0 s' = info0 s \<and> info1 s' = info1 s \<and> grants s' = Irq irq idx # Region base # Cdev idx # grants s"
  using assms by (auto simp: do_requests_def Let_def EINVAL_l_def split: if_splits)

text \<open>A device as a load leaves it, one that has received two bytes, and a module before loading.\<close>

definition dev0 :: serial_dev where
  "dev0 = \<lparr>read_buffer = replicate SIZE 0, write_buffer = replicate SIZE 0,
    rd = 0, wr = 0, base_port = COM1_BASEPORT,
    chip_of = \<lparr>regs = (\<lambda>_. 0)(IER COM1_BASEPORT := 1), latch = (\<lambda>_. 0), answers = (\<lambda>_. []), sent = []\<rparr>,
    read_ready = 0, write_ready = 0\<rparr>"

definition dev2 :: serial_dev where
  "dev2 = dev0\<lparr>read_buffer := [7, 9] @ replicate 510 0, rd := 2,
    chip_of := (chip_of dev0)\<lparr>regs := (\<lambda>_. 0)\<rparr>, read_ready := 1\<rparr>"

definition module0 :: serial_module where
  "module0 = \<lparr>uart = (\<lambda>_. dev0), info0 = 0, info1 = 0, grants = []\<rparr>"

lemma dev0_ok: "dev_ok dev0" "held dev0 = []" "rx_armed dev0" "sent (chip_of dev0) = []"
  by (simp_all add: dev0_def dev_ok_def port_ok_def dlab_def port_defs held_def rx_armed_def enable_in_def)

lemma dev2_ok: "dev_ok dev2" "held dev2 = [7, 9]" "read_ready dev2 = 1"
  by (simp_all add: dev2_def dev0_def dev_ok_def port_ok_def dlab_def held_def rx_armed_def enable_in_def SIZE_def)

lemma dev0_fill: "\<exists>d. uart_fill [7, 9] dev0 = Some d"
  by (simp add: uart_fill_def serial_interrupt_handle_def receive_bytes_def inb_def port_in_def rx_ready_def
      dev0_def iir_bits outb_def port_out_def dlab_def enable_in_def port_defs COM1_BASEPORT_def SIZE_def)

section \<open>Properties\<close>



text \<open>
  A write of some bytes gives the first 14 of them to the transmitter and waits; its wait ends when
  the transmit interrupt has sent exactly them, and the write returns their number. A write whose wait
  is interrupted returns the same although nothing was sent.
\<close>

theorem uart_write_sends:
  assumes "dev_ok d" "bs \<noteq> []"
  shows "\<exists>d1. serial_write bs False d = Some (int (min 14 (length bs)), d1) \<and> tx_armed d1 \<and>
    sent (chip_of d1) = sent (chip_of d) \<and>
    serial_write_end (int (min 14 (length bs))) False d1 = None \<and>
    serial_write_end (int (min 14 (length bs))) True d1 = Some (int (min 14 (length bs))) \<and>
    (\<exists>d2. serial_interrupt_handle (tx_ready d1) = Some d2 \<and>
      sent (chip_of d2) = sent (chip_of d) @ take 14 bs \<and> \<not> tx_armed d2 \<and>
      serial_write_end (int (min 14 (length bs))) False d2 = Some (int (min 14 (length bs))))"
proof -
  let ?v = "enable_in (base_port d) (chip_of d) OR IER_THREI"
  let ?d1 = "set_ier ?v (filled bs d\<lparr>write_ready := 1\<rparr>)"
  have "bit ?v 0 \<longleftrightarrow> rx_armed d" by (simp add: rx_armed_def ier_bits)
  note ok = written_ok [OF assms(1) this, of bs]
  obtain d2 where "serial_interrupt_handle (tx_ready ?d1) = Some d2" "\<not> tx_armed d2" "write_ready d2 = 0"
    "sent (chip_of d2) = sent (chip_of d) @ take 14 bs"
    by (rule tx_interrupt [OF ok(1)]) (use ok(5,6) in simp)
  moreover have "write_ready ?d1 = 1" by (simp add: set_ier_def)
  ultimately show ?thesis
    using serial_write_state [OF assms] ok(3,6) by (simp add: serial_write_end_def ier_bits)
qed

theorem uart_write_sends_witness:
  "\<exists>d1 d2. serial_write [1, 2, 3] False dev0 = Some (3, d1) \<and>
     serial_interrupt_handle (tx_ready d1) = Some d2 \<and> sent (chip_of d2) = [1, 2, 3]"
  using uart_write_sends [OF dev0_ok(1), of "[1, 2, 3]"] by (auto simp: dev0_ok)

text \<open>
  A read that asks for fewer bytes than are buffered gets all of them.
\<close>

theorem uart_read_ignores_count:
  assumes "dev_ok d" "read_ready d = 1" "0 < n"
  shows "\<exists>d'. serial_read n i False d = Some (int (length (held d)), held d, d')"
  using serial_read_ready [OF assms(1,3,2)] assms(1) by (simp add: held_def dev_ok_def port_ok_def)

theorem uart_read_ignores_count_witness:
  "\<exists>d'. serial_read 1 False False dev2 = Some (2, [7, 9], d')"
  using uart_read_ignores_count [OF dev2_ok(1,3), of 1 False] by (simp add: dev2_ok)

text \<open>
  When a second write comes before the transmit interrupt of a first one, the first one's bytes are
  never sent, and both writes return their numbers of bytes.
\<close>

theorem uart_second_write_wins:
  assumes "dev_ok d" "as \<noteq> []" "bs \<noteq> []"
  shows "\<exists>d1 d2 d3. serial_write as False d = Some (int (min 14 (length as)), d1) \<and>
    serial_write bs False d1 = Some (int (min 14 (length bs)), d2) \<and>
    serial_interrupt_handle (tx_ready d2) = Some d3 \<and> sent (chip_of d3) = sent (chip_of d) @ take 14 bs \<and>
    serial_write_end (int (min 14 (length as))) False d3 = Some (int (min 14 (length as))) \<and>
    serial_write_end (int (min 14 (length bs))) False d3 = Some (int (min 14 (length bs)))"
proof -
  obtain d1 where w1: "serial_write as False d = Some (int (min 14 (length as)), d1)"
    using serial_write_state [OF assms(1,2)] by blast
  let ?v = "enable_in (base_port d) (chip_of d) OR IER_THREI"
  have d1: "d1 = set_ier ?v (filled as d\<lparr>write_ready := 1\<rparr>)" using w1 serial_write_state [OF assms(1,2)] by simp
  have "bit ?v 0 \<longleftrightarrow> rx_armed d" by (simp add: rx_armed_def ier_bits)
  then have ok1: "dev_ok d1" "sent (chip_of d1) = sent (chip_of d)"
    using written_ok [OF assms(1), of ?v as] by (simp_all add: d1)
  let ?w = "enable_in (base_port d1) (chip_of d1) OR IER_THREI"
  let ?d2 = "set_ier ?w (filled bs d1\<lparr>write_ready := 1\<rparr>)"
  note w2 = serial_write_state [OF ok1(1) assms(3)]
  have "bit ?w 0 \<longleftrightarrow> rx_armed d1" by (simp add: rx_armed_def ier_bits)
  note ok2 = written_ok [OF ok1(1) this, of bs]
  obtain d3 where "serial_interrupt_handle (tx_ready ?d2) = Some d3" "write_ready d3 = 0"
    "sent (chip_of d3) = sent (chip_of d) @ take 14 bs"
    by (rule tx_interrupt [OF ok2(1)]) (use ok1(2) ok2(5,6) in simp)
  then show ?thesis using w1 w2 by (auto simp: serial_write_end_def)
qed

theorem uart_second_write_wins_witness:
  "\<exists>d1 d2 d3. serial_write [1] False dev0 = Some (1, d1) \<and> serial_write [2] False d1 = Some (1, d2) \<and>
     serial_interrupt_handle (tx_ready d2) = Some d3 \<and> sent (chip_of d3) = [2]"
  using uart_second_write_wins [OF dev0_ok(1), of "[1]" "[2]"] by (auto simp: dev0_ok)

text \<open>
  C40: unloading after a successful load gives back everything the kernel granted; but when both ports
  are asked for and the second one is refused, the failed load keeps the first port's device, region and
  interrupt handler although it gives the device numbers back.
\<close>

theorem uart_load_unload:
  assumes "info0 s = 0" "info1 s = 0" "serial_cdev_init opt 0 a1 a2 s = (r, s')"
    and "opt = OPTION_BOTH \<or> opt = OPTION_COM1 \<or> opt = OPTION_COM2"
  shows "(r = 0 \<longrightarrow> grants (serial_cdev_exit s') = grants s) \<and>
    (r \<noteq> 0 \<and> opt = OPTION_BOTH \<and> port_granted a1 \<longrightarrow>
       {Cdev 0, Region COM1_BASEPORT, Irq COM1_IRQ 0} \<subseteq> set (grants s') \<and>
       count_list (grants s') (Chrdev 2) = count_list (grants s) (Chrdev 2))"
proof -
  consider (both) "opt = OPTION_BOTH" | (one) "opt = OPTION_COM1" | (two) "opt = OPTION_COM2" using assms(4) by blast
  then show ?thesis
  proof cases
    case one
    then have i: "serial_cdev_init opt 0 a1 a2 s = (let (r, x) = do_requests COM1_BASEPORT COM1_IRQ 0 0 a1
        (s\<lparr>info0 := 1, grants := Chrdev 1 # grants s\<rparr>)
      in if r \<noteq> 0 then (r, x\<lparr>grants := remove1 (Chrdev 1) (grants x)\<rparr>) else (0, x))"
      using assms(1,2) by (simp add: serial_cdev_init_def Let_def option_defs split: prod.split)
    show ?thesis
      using assms(1-3) one unfolding i
      by (cases "do_requests COM1_BASEPORT COM1_IRQ 0 0 a1 (s\<lparr>info0 := 1, grants := Chrdev 1 # grants s\<rparr>)")
        (auto simp: option_defs serial_cdev_exit_def release_port_def Let_def split: if_splits dest!: do_requests_granted)
  next
    case two
    then have i: "serial_cdev_init opt 0 a1 a2 s = (let (r, x) = do_requests COM2_BASEPORT COM2_IRQ 1 0 a2
        (s\<lparr>info1 := 1, grants := Chrdev 1 # grants s\<rparr>)
      in if r \<noteq> 0 then (r, x\<lparr>grants := remove1 (Chrdev 1) (grants x)\<rparr>) else (0, x))"
      using assms(1,2) by (simp add: serial_cdev_init_def Let_def option_defs split: prod.split)
    show ?thesis
      using assms(1-3) two unfolding i
      by (cases "do_requests COM2_BASEPORT COM2_IRQ 1 0 a2 (s\<lparr>info1 := 1, grants := Chrdev 1 # grants s\<rparr>)")
        (auto simp: option_defs serial_cdev_exit_def release_port_def Let_def split: if_splits dest!: do_requests_granted)
  next
    case both
    define s0 where "s0 = s\<lparr>info0 := 1, info1 := 1, grants := Chrdev 2 # grants s\<rparr>"
    obtain r1 s1 where 1: "do_requests COM1_BASEPORT COM1_IRQ 0 0 a1 s0 = (r1, s1)" by fastforce
    obtain r2 s2 where 2: "do_requests COM2_BASEPORT COM2_IRQ 1 1 a2 s1 = (r2, s2)" by fastforce
    have i: "serial_cdev_init opt 0 a1 a2 s =
        (if r1 \<noteq> 0 then (r1, s1\<lparr>grants := remove1 (Chrdev 2) (grants s1)\<rparr>)
         else if r2 \<noteq> 0 then (r2, s2\<lparr>grants := remove1 (Chrdev 2) (grants s2)\<rparr>) else (0, s2))"
      using both 1 2 by (simp add: serial_cdev_init_def Let_def option_defs s0_def)
    have "r1 = 0" if "port_granted a1" using do_requests_result [OF 1] that by simp
    moreover have "count_list (grants s2) (Chrdev 2) = count_list (Chrdev 2 # grants s) (Chrdev 2)"
      using do_requests_result [OF 1] do_requests_result [OF 2] by (simp add: s0_def)
    ultimately show ?thesis
      using assms(3) both do_requests_result [OF 1] do_requests_result [OF 2] unfolding i
      by (auto simp: option_defs serial_cdev_exit_def release_port_def Let_def s0_def count_list_remove1
          dest!: do_requests_granted [OF 1] do_requests_granted [OF 2] split: if_splits)
  qed
qed

theorem uart_load_unload_witness:
  "\<exists>s'. serial_cdev_init OPTION_BOTH 0 \<lparr>cdev_err = 0, region_ok = True, irq_err = 0\<rparr>
      \<lparr>cdev_err = 0, region_ok = True, irq_err = -16\<rparr> module0 = (-16, s') \<and> Irq COM1_IRQ 0 \<in> set (grants s')"
proof -
  define a where "a = \<lparr>cdev_err = 0, region_ok = True, irq_err = 0 :: int\<rparr>"
  define a' where "a' = \<lparr>cdev_err = 0, region_ok = True, irq_err = -16 :: int\<rparr>"
  obtain r s' where i: "serial_cdev_init OPTION_BOTH 0 a a' module0 = (r, s')" by fastforce
  then have "r = -16"
    by (auto simp: serial_cdev_init_def do_requests_def Let_def option_defs module0_def a_def a'_def)
  moreover have "port_granted a" by (simp add: port_granted_def a_def)
  moreover have "info0 module0 = 0" "info1 module0 = 0" by (simp_all add: module0_def)
  ultimately show ?thesis
    using uart_load_unload [OF _ _ i disjI1 [OF refl]] i unfolding a_def a'_def by auto
qed

end
