(* ===== verification/UartWindows.thy ===== *)
theory UartWindows
  imports Uart RxHandoff
begin

text \<open>
  The serial port driver for Windows, \<open>src/SerialPortDriverWindows/uart16550.c\<close>: the device and the
  interrupt handler of the Linux driver, with events in place of the wait conditions.

  The events are synchronization events: a wait that a signalled event satisfies resets it. \<open>None\<close> is a
  wait that does not end yet, an access outside a buffer, a loop the chip gives no more answers
  for, or a value read before it is set. Options from the registry, the kernel's statuses and whether a
  wait is alerted are arguments. The dispatch table, interrupt vectors and names as strings are left out.
\<close>

section \<open>A device\<close>

record uart_device = port_dev +
  interruptObj :: bool
  bufferSize :: nat
  event_reads :: bool
  event_writes :: bool

definition ReadUartSyncRoutine :: "uart_device \<Rightarrow> uart_device" where
  "ReadUartSyncRoutine d = d\<lparr>event_reads := True\<rparr>"

definition WriteUartSyncRoutine :: "uart_device \<Rightarrow> uart_device" where
  "WriteUartSyncRoutine d = d\<lparr>event_writes := True\<rparr>"

definition UartInterruptHandler :: "uart_device \<Rightarrow> uart_device option" where
  "UartInterruptHandler d = do {
     (iir, d) \<leftarrow> inb (IIR (base_port d)) d;
     d \<leftarrow> (if IIR_RDAI iir \<noteq> 0 then do { d \<leftarrow> receive_bytes d; Some (ReadUartSyncRoutine d) } else Some d);
     (if IIR_THREI iir \<noteq> 0 then do { d \<leftarrow> transmit_bytes d; Some (WriteUartSyncRoutine d) } else Some d)
   }"

text \<open>A completed request: its status, its count and the bytes in the system buffer.\<close>

record completion =
  irp_status :: ntstatus
  irp_information :: nat
  irp_data :: bytes

definition UartOpen :: "uart_device \<Rightarrow> ntstatus \<times> completion option \<times> uart_device" where
  "UartOpen d = (STATUS_SUCCESS, Some \<lparr>irp_status = STATUS_SUCCESS, irp_information = 0, irp_data = []\<rparr>, d)"

definition UartClose :: "uart_device \<Rightarrow> ntstatus \<times> completion option \<times> uart_device" where
  "UartClose d = (STATUS_SUCCESS, Some \<lparr>irp_status = STATUS_SUCCESS, irp_information = 0, irp_data = []\<rparr>, d)"

text \<open>\<open>alert\<close> is the status of a wait that is alerted.\<close>

definition UartRead :: "ntstatus option \<Rightarrow> uart_device \<Rightarrow> (ntstatus \<times> completion option \<times> uart_device) option" where
  "UartRead alert d =
     (if event_reads d then do {
        let d = d\<lparr>event_reads := False\<rparr>;
        let result = rd d;
        let readBuffer = take result (read_buffer d);
        let d = d\<lparr>rd := 0\<rparr>;
        (ier, d) \<leftarrow> inb (IER (base_port d)) d;
        Some (STATUS_SUCCESS, Some \<lparr>irp_status = STATUS_SUCCESS, irp_information = result, irp_data = readBuffer\<rparr>,
          outb (ier OR IER_RDAI) (IER (base_port d)) d)
      }
      else (case alert of None \<Rightarrow> None | Some status \<Rightarrow> Some (status, None, d)))"

text \<open>A write up to its wait, and from it.\<close>

definition UartWrite :: "bytes \<Rightarrow> uart_device \<Rightarrow> nat \<times> uart_device" where
  "UartWrite writeBuffer d =
     (let d = d\<lparr>wr := (if length writeBuffer < 14 then length writeBuffer else 14)\<rparr>; result = wr d in
      (result, d\<lparr>write_buffer := take result writeBuffer @ drop result (write_buffer d)\<rparr>))"

definition UartWrite_end :: "nat \<Rightarrow> bool \<Rightarrow> uart_device \<Rightarrow> (ntstatus \<times> completion option \<times> uart_device) option" where
  "UartWrite_end result alerted d =
     (if event_writes d \<or> alerted then do {
        let d = (if event_writes d then d\<lparr>event_writes := False\<rparr> else d);
        (ier, d) \<leftarrow> inb (IER (base_port d)) d;
        Some (STATUS_SUCCESS, Some \<lparr>irp_status = STATUS_SUCCESS, irp_information = result, irp_data = []\<rparr>,
          outb (ier OR IER_THREI) (IER (base_port d)) d)
      }
      else None)"

record line_info_w =
  liw_baud :: u8
  liw_len :: u8
  liw_par :: u8
  liw_stop :: u8

definition IOCTL_SET_LINE_W :: nat where "IOCTL_SET_LINE_W = 0xf000 * 2 ^ 16 + 2 * 2 ^ 14 + 0x801 * 2 ^ 2"

definition UartDeviceIoControl :: "nat \<Rightarrow> line_info_w \<Rightarrow> uart_device \<Rightarrow> ntstatus \<times> completion option \<times> uart_device" where
  "UartDeviceIoControl controlCode i d =
     (let (status, d) =
        (if controlCode = IOCTL_SET_LINE_W
         then (STATUS_SUCCESS, SET_LINE (liw_baud i) (liw_len i) (liw_stop i) (liw_par i) (base_port d) d)
         else (STATUS_INVALID_PARAMETER, d))
      in (status, Some \<lparr>irp_status = status, irp_information = 0, irp_data = []\<rparr>, d))"

section \<open>Loading and unloading\<close>

text \<open>
  The device objects of the driver, newest first, the symbolic links by port, the base ports of the
  connected interrupts, how many converted names are allocated, and what unloading writes to the ports.
\<close>

record uart_driver =
  option_w :: u32
  port_info :: "nat \<Rightarrow> bool"
  device_list :: "uart_device list"
  sym_links :: "nat list"
  connected :: "nat list"
  names :: nat
  unload_out :: "(nat \<times> u8) list"

record load_answers =
  name_ok :: bool
  device_status :: ntstatus
  link_ok :: bool
  link_status :: ntstatus
  interrupt_status :: ntstatus
  fresh_device :: uart_device

definition OPTION_COM1_W :: u32 where "OPTION_COM1_W = 1"
definition OPTION_COM2_W :: u32 where "OPTION_COM2_W = 2"

definition loadParameters :: "ntstatus \<Rightarrow> u32 \<Rightarrow> uart_driver \<Rightarrow> ntstatus \<times> uart_driver" where
  "loadParameters status buffer s =
     (let s = s\<lparr>port_info := (\<lambda>_. False)\<rparr> in
      if status = STATUS_SUCCESS then (STATUS_SUCCESS, s\<lparr>option_w := buffer\<rparr>)
      else (STATUS_INVALID_PARAMETER, s))"

fun delete_devices_w :: "uart_device list \<Rightarrow> nat list \<Rightarrow> uart_device list \<times> nat list" where
  "delete_devices_w [] irqs = ([], irqs)"
| "delete_devices_w (device # rest) irqs =
     delete_devices_w rest (if interruptObj device then remove1 (base_port device) irqs else irqs)"

text \<open>Unloading; \<open>name_ok\<close> says whether the name of the link could be converted.\<close>

definition DriverUnload_u :: "bool \<Rightarrow> uart_driver \<Rightarrow> uart_driver option" where
  "DriverUnload_u named s =
     (if \<not> named then None
      else let out = (\<lambda>base. [(MCR base, 0), (IER base, 0)]);
        port = (if option_w s = OPTION_COM1_W then 0 else 1);
        (devices, irqs) = delete_devices_w (device_list s) (connected s) in
      Some (s\<lparr>sym_links := remove1 port (sym_links s), device_list := devices, connected := irqs,
        unload_out := unload_out s @ (if port_info s 0 then out COM1_BASEPORT else []) @
          (if port_info s 1 then out COM2_BASEPORT else [])\<rparr>))"

definition do_requests_w :: "nat \<Rightarrow> load_answers \<Rightarrow> bool \<Rightarrow> uart_driver \<Rightarrow> (ntstatus \<times> uart_driver) option" where
  "do_requests_w port a named s =
     (let names0 = names s;
        s = (if name_ok a then s\<lparr>names := names s + 1\<rparr> else s);
        fail = (\<lambda>status s. do { s \<leftarrow> DriverUnload_u named (s\<lparr>names := names0\<rparr>); Some (status, s) }) in
      if device_status a \<noteq> STATUS_SUCCESS then fail (device_status a) s
      else let s = s\<lparr>device_list := fresh_device a # device_list s\<rparr>;
        s = (if link_ok a then s\<lparr>names := names s + 1\<rparr> else s) in
      if link_status a \<noteq> STATUS_SUCCESS then fail (link_status a) s
      else let s = s\<lparr>sym_links := port # sym_links s\<rparr>;
        data = (fresh_device a)\<lparr>base_port := (if port = 0 then COM1_BASEPORT else COM2_BASEPORT), bufferSize := 14,
          rd := 0, event_reads := False, wr := 0, event_writes := False,
          read_buffer := replicate SIZE 0, write_buffer := replicate SIZE 0\<rparr>;
        s = s\<lparr>names := names0\<rparr> in
      if interrupt_status a \<noteq> STATUS_SUCCESS
      then fail (interrupt_status a) (s\<lparr>device_list := data # tl (device_list s)\<rparr>)
      else let data = data\<lparr>interruptObj := True\<rparr>; base = base_port data;
        data = outb (IER_THREI OR IER_RDAI) (IER base) (outb 0x08 (MCR base) (outb 0xc7 (FCR base) data))
      in Some (STATUS_SUCCESS, s\<lparr>device_list := data # tl (device_list s), connected := base # connected s\<rparr>))"

fun load_ports :: "nat list \<Rightarrow> (nat \<Rightarrow> load_answers) \<Rightarrow> bool \<Rightarrow> uart_driver \<Rightarrow> (ntstatus \<times> uart_driver) option" where
  "load_ports [] a named s = Some (STATUS_SUCCESS, s)"
| "load_ports (i # is) a named s =
     (if port_info s i then do {
        (status, s) \<leftarrow> do_requests_w i (a i) named s;
        if status \<noteq> STATUS_SUCCESS then Some (status, s) else load_ports is a named s
      }
      else load_ports is a named s)"

definition DriverEntry_u :: "ntstatus \<Rightarrow> u32 \<Rightarrow> (nat \<Rightarrow> load_answers) \<Rightarrow> bool \<Rightarrow> uart_driver
    \<Rightarrow> (ntstatus \<times> uart_driver) option" where
  "DriverEntry_u reg_status reg_option a named s =
     (let (status, s) = loadParameters reg_status reg_option s in
      if status \<noteq> STATUS_SUCCESS then Some (status, s)
      else load_ports [0, 1] a named
        (s\<lparr>port_info := (\<lambda>i. i = 0 \<and> option_w s AND OPTION_COM1_W \<noteq> 0 \<or> i = 1 \<and> option_w s AND OPTION_COM2_W \<noteq> 0)\<rparr>))"

end
