(* ===== verification/UartWindowsCorrect.thy ===== *)
theory UartWindowsCorrect
  imports UartWindows "HOL-Library.Multiset"
begin

text \<open>
  The Windows serial driver: its receive path meets the contract \<open>rx_handoff\<close>, its writes finish before
  they are sent, and unloading forgets a link.
\<close>

section \<open>The interrupt handler and the operations\<close>

lemma rx_interrupt_w:
  assumes "port_ok d" "UartInterruptHandler (rx_ready bs d) = Some d'"
  shows "port_ok d' \<and> \<not> rx_armed d' \<and> held d' = held d @ bs \<and> event_reads d'"
proof -
  obtain d1 where 1: "receive_bytes (rx_left bs d) = Some d1" "d' = d1\<lparr>event_reads := True\<rparr>"
    using assms(2) by (auto simp: UartInterruptHandler_def ReadUartSyncRoutine_def iir_in iir_bits split: bind_splits)
  show ?thesis
    by (rule receive_bytes_rx [OF assms(1) 1(1)]) (simp add: 1(2) port_ok_def rx_armed_def held_def)
qed

lemma tx_interrupt_w:
  assumes "port_ok d"
  obtains d' where "UartInterruptHandler (tx_ready d) = Some d'" "port_ok d'" "\<not> tx_armed d'"
    "rx_armed d' \<longleftrightarrow> rx_armed d" "held d' = held d" "event_writes d'"
    "sent (chip_of d') = sent (chip_of d) @ take (wr d) (write_buffer d)"
    "wr d' = wr d" "write_buffer d' = write_buffer d"
proof -
  obtain c where c: "transmit_bytes (tx_left d) = Some (d\<lparr>chip_of := c\<rparr>)" "port_ok (d\<lparr>chip_of := c\<rparr>)"
    "\<not> tx_armed (d\<lparr>chip_of := c\<rparr>)" "rx_armed (d\<lparr>chip_of := c\<rparr>) \<longleftrightarrow> rx_armed d"
    "sent c = sent (chip_of d) @ take (wr d) (write_buffer d)"
    by (rule transmit_bytes_tx [OF assms])
  show ?thesis
  proof (rule that [of "d\<lparr>chip_of := c, event_writes := True\<rparr>"])
    show "UartInterruptHandler (tx_ready d) = Some (d\<lparr>chip_of := c, event_writes := True\<rparr>)"
      using c(1) by (simp add: UartInterruptHandler_def WriteUartSyncRoutine_def iir_in iir_bits)
  qed (use c assms in \<open>simp_all add: port_ok_def rx_armed_def tx_armed_def held_def\<close>)
qed

lemma UartRead_ready:
  assumes "port_ok d" "event_reads d"
  shows "UartRead alert d = Some (STATUS_SUCCESS,
    Some \<lparr>irp_status = STATUS_SUCCESS, irp_information = rd d, irp_data = held d\<rparr>,
    set_ier (enable_in (base_port d) (chip_of d) OR IER_RDAI) (d\<lparr>event_reads := False, rd := 0\<rparr>))"
proof -
  have "\<not> dlab (base_port d) (chip_of d)" using assms(1) by (simp add: port_ok_def)
  then show ?thesis
    using assms(2) by (simp add: UartRead_def Let_def inb_IER outb_IER held_def)
qed

lemma UartWrite_filled: "UartWrite bs d = (min 14 (length bs), filled bs d)"
proof -
  have "(if length bs < 14 then length bs else 14) = min 14 (length bs)" by auto
  then show ?thesis by (simp add: UartWrite_def Let_def filled_def)
qed

lemma UartWrite_end_ready:
  assumes "port_ok d" "event_writes d"
  shows "UartWrite_end n alerted d = Some (STATUS_SUCCESS,
    Some \<lparr>irp_status = STATUS_SUCCESS, irp_information = n, irp_data = []\<rparr>,
    set_ier (enable_in (base_port d) (chip_of d) OR IER_THREI) (d\<lparr>event_writes := False\<rparr>))"
proof -
  have "\<not> dlab (base_port d) (chip_of d)" using assms(1) by (simp add: port_ok_def)
  then show ?thesis
    using assms(2) by (simp add: UartWrite_end_def Let_def inb_IER outb_IER)
qed

section \<open>Runs of a device\<close>

definition uart_fill_w :: "bytes \<Rightarrow> uart_device \<Rightarrow> uart_device option" where
  "uart_fill_w bs d = UartInterruptHandler (rx_ready bs d)"

definition uart_fetch_w :: "uart_device \<Rightarrow> (bytes \<times> uart_device) option" where
  "uart_fetch_w d = (case UartRead None d of
     Some (status, Some c, d') \<Rightarrow> Some (irp_data c, d') | _ \<Rightarrow> None)"

inductive uart_other_w :: "uart_device \<Rightarrow> uart_device \<Rightarrow> bool" where
  write_begin: "uart_other_w d (snd (UartWrite bs d))"
| write_end: "UartWrite_end n alerted d = Some (status, c, d') \<Longrightarrow> uart_other_w d d'"
| transmitted: "UartInterruptHandler (tx_ready d) = Some d' \<Longrightarrow> uart_other_w d d'"
| line_set: "\<not> bit (liw_len i OR liw_stop i OR liw_par i) 7 \<Longrightarrow>
    uart_other_w d (snd (snd (UartDeviceIoControl cmd i d)))"
| alerted: "\<not> event_reads d \<Longrightarrow> UartRead (Some st) d = Some (status, c, d') \<Longrightarrow> uart_other_w d d'"

lemma event_simps [simp]:
  "port_ok (d\<lparr>event_writes := e\<rparr>) = port_ok d" "rx_armed (d\<lparr>event_writes := e\<rparr>) = rx_armed d"
  "held (d\<lparr>event_writes := e\<rparr>) = held d" "event_writes (set_ier v d) = event_writes d"
  "event_reads (set_ier v d) = event_reads d" "event_writes (filled bs d) = event_writes d"
  by (simp_all add: port_ok_def rx_armed_def held_def set_ier_def filled_def)

lemma uart_other_w_ok:
  assumes ok: "port_ok d" and "uart_other_w d d'"
  shows "port_ok d' \<and> (rx_armed d' \<longleftrightarrow> rx_armed d) \<and> held d' = held d"
  using assms(2)
proof cases
  case (write_begin bs)
  then show ?thesis using filled_ok(1) [OF ok, of bs] by (simp add: UartWrite_filled rx_armed_def held_def)
next
  case (write_end n alerted status c)
  have n: "\<not> dlab (base_port d) (chip_of d)" using ok by (simp add: port_ok_def)
  define d1 where "d1 = (if event_writes d then d\<lparr>event_writes := False\<rparr> else d)"
  have d1: "port_ok d1" "rx_armed d1 = rx_armed d" "held d1 = held d" "base_port d1 = base_port d" "chip_of d1 = chip_of d"
    using ok by (simp_all add: d1_def)
  have "d' = set_ier (enable_in (base_port d) (chip_of d) OR IER_THREI) d1"
    using write_end n by (auto simp: UartWrite_end_def Let_def inb_IER outb_IER d1_def split: if_splits)
  then show ?thesis using set_ier_ok [OF d1(1)] d1 by (simp add: rx_armed_def ier_bits)
next
  case transmitted
  then show ?thesis using tx_interrupt_w [OF ok] by (metis option.inject)
next
  case (line_set i cmd)
  then show ?thesis
    using SET_LINE_ok [OF ok, of "liw_len i" "liw_stop i" "liw_par i" "liw_baud i"] ok
    by (simp add: UartDeviceIoControl_def)
next
  case alerted
  then show ?thesis using ok by (simp add: UartRead_def)
qed

interpretation win_rx: rx_handoff port_ok rx_armed held uart_fill_w uart_fetch_w uart_other_w
proof unfold_locales
  fix d bs d' assume "port_ok d" "rx_armed d" "uart_fill_w bs d = Some d'"
  then show "port_ok d' \<and> \<not> rx_armed d' \<and> held d' = held d @ bs"
    using rx_interrupt_w [of d bs d'] by (simp add: uart_fill_w_def)
next
  fix d c d' assume ok: "port_ok d" and f: "uart_fetch_w d = Some (c, d')"
  have "event_reads d" using f by (cases "event_reads d") (simp_all add: uart_fetch_w_def UartRead_def)
  with f have e: "c = held d"
    "d' = set_ier (enable_in (base_port d) (chip_of d) OR IER_RDAI) (d\<lparr>event_reads := False, rd := 0\<rparr>)"
    by (simp_all add: uart_fetch_w_def UartRead_ready [OF ok])
  have "port_ok (d\<lparr>event_reads := False, rd := 0\<rparr>)" using ok by (simp add: port_ok_def)
  from set_ier_ok [OF this] show "port_ok d' \<and> rx_armed d' \<and> c = held d \<and> held d' = []"
    by (simp add: e ier_bits) (simp add: held_def)
qed (rule uart_other_w_ok)

section \<open>What the driver holds\<close>

lemma delete_devices_w_eq:
  "fst (delete_devices_w ds irqs) = []"
  "mset (snd (delete_devices_w ds irqs)) = mset irqs - mset (map base_port (filter interruptObj ds))"
  by (induction ds arbitrary: irqs) (simp_all add: mset_remove1)

text \<open>The links and interrupts of the devices a load has made.\<close>

definition driver_ok :: "uart_driver \<Rightarrow> bool" where
  "driver_ok s \<longleftrightarrow> mset (connected s) = mset (map base_port (filter interruptObj (device_list s)))"

lemma DriverUnload_u_state:
  assumes "driver_ok s" "DriverUnload_u named s = Some s'"
  shows "device_list s' = [] \<and> connected s' = [] \<and> names s' = names s \<and>
    sym_links s' = remove1 (if option_w s = OPTION_COM1_W then 0 else 1) (sym_links s)"
proof -
  obtain ds irqs where d: "delete_devices_w (device_list s) (connected s) = (ds, irqs)" by fastforce
  have "ds = []" "irqs = []"
    using delete_devices_w_eq [of "device_list s" "connected s"] assms(1) d by (simp_all add: driver_ok_def)
  then show ?thesis using assms(2) d by (auto simp: DriverUnload_u_def Let_def split: if_splits)
qed

lemma do_requests_w_success:
  assumes "do_requests_w port a named s = Some (STATUS_SUCCESS, s')" "driver_ok s" "\<not> interruptObj (fresh_device a)"
  shows "driver_ok s' \<and> sym_links s' = port # sym_links s \<and> names s' = names s \<and> option_w s' = option_w s \<and>
    port_info s' = port_info s"
  using assms
  by (auto simp: do_requests_w_def Let_def driver_ok_def outb_def split: if_splits bind_splits)

lemma load_both:
  assumes "load_ports [0, 1] a named s = Some (STATUS_SUCCESS, s')" "port_info s 0" "port_info s 1"
    and "driver_ok s" "\<And>i. \<not> interruptObj (fresh_device (a i))"
  shows "driver_ok s' \<and> sym_links s' = 1 # 0 # sym_links s \<and> names s' = names s \<and> option_w s' = option_w s"
proof -
  obtain s1 where 1: "do_requests_w 0 (a 0) named s = Some (STATUS_SUCCESS, s1)"
    and r: "load_ports [1] a named s1 = Some (STATUS_SUCCESS, s')"
    using assms(1,2) by (auto split: bind_splits if_splits)
  note a1 = do_requests_w_success [OF 1 assms(4,5)]
  obtain s2 where 2: "do_requests_w 1 (a 1) named s1 = Some (STATUS_SUCCESS, s2)" and "s' = s2"
    using r a1 assms(3) by (auto split: bind_splits if_splits)
  with do_requests_w_success [OF 2 _ assms(5)] a1 show ?thesis by simp
qed

section \<open>Properties\<close>

text \<open>A device as a load leaves it, after the transmitter has reported that it is empty.\<close>

definition wdev0 :: uart_device where
  "wdev0 = \<lparr>read_buffer = replicate SIZE 0, write_buffer = replicate SIZE 0, rd = 0, wr = 0,
    base_port = COM2_BASEPORT,
    chip_of = \<lparr>regs = (\<lambda>_. 0)(IER COM2_BASEPORT := 1), latch = (\<lambda>_. 0), answers = (\<lambda>_. []), sent = []\<rparr>,
    interruptObj = True, bufferSize = 14, event_reads = False, event_writes = True\<rparr>"

lemma wdev0_ok: "port_ok wdev0" "held wdev0 = []" "rx_armed wdev0" "event_writes wdev0" "sent (chip_of wdev0) = []"
  by (simp_all add: wdev0_def port_ok_def dlab_def port_defs held_def rx_armed_def enable_in_def)

lemma wdev0_fill: "\<exists>d. uart_fill_w [7, 9] wdev0 = Some d"
  by (simp add: uart_fill_w_def UartInterruptHandler_def receive_bytes_def inb_def port_in_def rx_ready_def
      wdev0_def iir_bits outb_def port_out_def dlab_def enable_in_def port_defs COM2_BASEPORT_def SIZE_def)

text \<open>
  In any run of receive interrupts while they are enabled, reads, writes, transmit interrupts and
  line settings that keep the latch closed, what the completed reads returned, followed by what is
  buffered, is exactly what the chip received, in order.
\<close>

theorem win_uart_reads_deliver:
  assumes "port_ok d" "held d = []" "rx_run rx_armed uart_fill_w uart_fetch_w uart_other_w d arrived got d'"
  shows "arrived = got @ held d'"
  by (rule win_rx.nothing_lost [OF assms(3,1,2)])

theorem win_uart_reads_deliver_witness:
  "\<exists>d got. rx_run rx_armed uart_fill_w uart_fetch_w uart_other_w wdev0 [7, 9] got d \<and> got @ held d = [7, 9]"
proof -
  obtain d where d: "uart_fill_w [7, 9] wdev0 = Some d" using wdev0_fill by blast
  have "rx_run rx_armed uart_fill_w uart_fetch_w uart_other_w wdev0 ([] @ [7, 9]) [] d"
    by (rule rx_run.arrive [where armed = rx_armed and fill = uart_fill_w]) (rule rx_run.start wdev0_ok(3) d)+
  from win_uart_reads_deliver [OF wdev0_ok(1,2) this] this show ?thesis by auto
qed

text \<open>
  A write completes with its count before its bytes are sent. If the next transmit interrupt comes
  first it sends them; if another write starts before it, that write's bytes are sent twice, the first
  one's never, and both complete successfully.
\<close>

theorem win_uart_write_lost:
  assumes "port_ok d" "event_writes d"
  shows "\<exists>d1 d2. UartWrite as d = (min 14 (length as), d1) \<and>
    UartWrite_end (min 14 (length as)) False d1 = Some (STATUS_SUCCESS,
      Some \<lparr>irp_status = STATUS_SUCCESS, irp_information = min 14 (length as), irp_data = []\<rparr>, d2) \<and>
    sent (chip_of d2) = sent (chip_of d) \<and> tx_armed d2 \<and>
    (\<exists>d3. UartInterruptHandler (tx_ready d2) = Some d3 \<and> sent (chip_of d3) = sent (chip_of d) @ take 14 as) \<and>
    (\<exists>d3 d4 d5 d6. UartWrite bs d2 = (min 14 (length bs), d3) \<and>
      UartInterruptHandler (tx_ready d3) = Some d4 \<and>
      UartWrite_end (min 14 (length bs)) False d4 = Some (STATUS_SUCCESS,
        Some \<lparr>irp_status = STATUS_SUCCESS, irp_information = min 14 (length bs), irp_data = []\<rparr>, d5) \<and>
      UartInterruptHandler (tx_ready d5) = Some d6 \<and>
      sent (chip_of d6) = sent (chip_of d) @ take 14 bs @ take 14 bs)"
proof -
  define d1 where "d1 = filled as d"
  define d2 where "d2 = set_ier (enable_in (base_port d1) (chip_of d1) OR IER_THREI) (d1\<lparr>event_writes := False\<rparr>)"
  define d3 where "d3 = filled bs d2"
  have p1: "port_ok d1" "event_writes d1" using filled_ok(1) [OF assms(1)] assms(2) by (simp_all add: d1_def)
  note e1 = UartWrite_end_ready [OF p1, of "min 14 (length as)" False]
  have "port_ok (d1\<lparr>event_writes := False\<rparr>)" using p1(1) by simp
  note s2 = set_ier_ok [OF this]
  have p2: "port_ok d2" "tx_armed d2" "sent (chip_of d2) = sent (chip_of d)" "wr d2 = wr d1"
      "write_buffer d2 = write_buffer d1"
    using s2 by (simp_all add: d2_def ier_bits d1_def)
  obtain x where x: "UartInterruptHandler (tx_ready d2) = Some x" "sent (chip_of x) = sent (chip_of d) @ take 14 as"
    by (rule tx_interrupt_w [OF p2(1)]) (use p2 filled_ok(2) [OF assms(1), of as] in \<open>simp add: d1_def\<close>)
  have p3: "port_ok d3" using filled_ok(1) [OF p2(1)] by (simp add: d3_def)
  obtain d4 where d4: "UartInterruptHandler (tx_ready d3) = Some d4" "port_ok d4" "event_writes d4"
    "sent (chip_of d4) = sent (chip_of d) @ take 14 bs" "take (wr d4) (write_buffer d4) = take 14 bs"
    by (rule tx_interrupt_w [OF p3]) (use p2 filled_ok(2) [OF p2(1), of bs] in \<open>simp add: d3_def\<close>)
  define d5 where "d5 = set_ier (enable_in (base_port d4) (chip_of d4) OR IER_THREI) (d4\<lparr>event_writes := False\<rparr>)"
  note e5 = UartWrite_end_ready [OF d4(2,3), of "min 14 (length bs)" False, folded d5_def]
  have "port_ok (d4\<lparr>event_writes := False\<rparr>)" using d4(2) by simp
  then have p5: "port_ok d5" unfolding d5_def by (rule set_ier_ok(1))
  obtain d6 where "UartInterruptHandler (tx_ready d5) = Some d6"
    "sent (chip_of d6) = sent (chip_of d) @ take 14 bs @ take 14 bs"
    by (rule tx_interrupt_w [OF p5]) (use d4(4,5) in \<open>simp add: d5_def\<close>)
  then show ?thesis
    using e1 e5 x d4(1) p2 UartWrite_filled [of as d] UartWrite_filled [of bs d2]
    unfolding d1_def [symmetric] d2_def [symmetric] d3_def [symmetric] by blast
qed

theorem win_uart_write_lost_witness:
  "\<exists>d2 d3 d4 d5 d6. UartWrite [2] d2 = (1, d3) \<and> UartInterruptHandler (tx_ready d3) = Some d4 \<and>
     UartInterruptHandler (tx_ready d5) = Some d6 \<and> sent (chip_of d6) = [2, 2]"
proof -
  have l: "min 14 (length [2 :: u8]) = 1" "take 14 [2 :: u8] = [2]" by simp_all
  show ?thesis
    using win_uart_write_lost [OF wdev0_ok(1,4), of "[1]" "[2]"] unfolding l wdev0_ok(5) by auto
qed

text \<open>
  After a load of both ports, unloading deletes the devices and disconnects their interrupts but
  leaves the symbolic link of the first port behind.
\<close>

theorem win_uart_unload_keeps_link:
  assumes "DriverEntry_u STATUS_SUCCESS 3 a named s = Some (STATUS_SUCCESS, s1)" "driver_ok s"
    and "\<And>i. \<not> interruptObj (fresh_device (a i))"
    and "DriverUnload_u True s1 = Some s2"
  shows "device_list s2 = [] \<and> connected s2 = [] \<and> names s2 = names s \<and> sym_links s2 = 0 # sym_links s"
proof -
  define s0 where "s0 = s\<lparr>option_w := 3, port_info := (\<lambda>i. i = 0 \<or> i = 1)\<rparr>"
  have o: "(3 :: u32) AND OPTION_COM1_W \<noteq> 0" "(3 :: u32) AND OPTION_COM2_W \<noteq> 0" "(3 :: u32) \<noteq> OPTION_COM1_W"
    by (simp_all add: OPTION_COM1_W_def OPTION_COM2_W_def)
  have l: "load_ports [0, 1] a named s0 = Some (STATUS_SUCCESS, s1)"
    using assms(1) o by (simp add: DriverEntry_u_def loadParameters_def Let_def s0_def)
  have "driver_ok s0" "port_info s0 0" "port_info s0 1" using assms(2) by (simp_all add: driver_ok_def s0_def)
  note r = load_both [OF l this(2,3,1) assms(3)]
  have "driver_ok s1" using r by blast
  from DriverUnload_u_state [OF this assms(4)] show ?thesis using r o(3) by (simp add: s0_def)
qed

definition granted_all :: "nat \<Rightarrow> load_answers" where
  "granted_all = (\<lambda>_. \<lparr>name_ok = True, device_status = STATUS_SUCCESS, link_ok = True, link_status = STATUS_SUCCESS,
     interrupt_status = STATUS_SUCCESS, fresh_device = wdev0\<lparr>interruptObj := False\<rparr>\<rparr>)"

definition driver0 :: uart_driver where
  "driver0 = \<lparr>option_w = 0, port_info = (\<lambda>_. False), device_list = [], sym_links = [], connected = [],
     names = 0, unload_out = []\<rparr>"

theorem win_uart_unload_keeps_link_witness:
  "\<exists>s1 s2. DriverEntry_u STATUS_SUCCESS 3 granted_all True driver0 = Some (STATUS_SUCCESS, s1) \<and>
     DriverUnload_u True s1 = Some s2 \<and> sym_links s2 = [0]"
proof -
  have "driver_ok driver0" by (simp add: driver0_def driver_ok_def)
  moreover obtain s1 where s1: "DriverEntry_u STATUS_SUCCESS 3 granted_all True driver0 = Some (STATUS_SUCCESS, s1)"
    by (simp add: DriverEntry_u_def loadParameters_def Let_def do_requests_w_def granted_all_def driver0_def
        OPTION_COM1_W_def OPTION_COM2_W_def)
  moreover obtain s2 where "DriverUnload_u True s1 = Some s2"
    by (cases "delete_devices_w (device_list s1) (connected s1)") (simp add: DriverUnload_u_def Let_def)
  moreover have "\<not> interruptObj (fresh_device (granted_all i))" for i by (simp add: granted_all_def)
  ultimately show ?thesis
    using win_uart_unload_keeps_link [OF s1] by (auto simp: driver0_def)
qed

end
