(* ===== verification/Text.thy ===== *)
theory Text
  imports Base
begin

text \<open>
  Numbers as text, as the C library writes and reads them (\<open>%d\<close>, \<open>atoi\<close>), the range of an \<open>int\<close>, and lines
  and tokens (\<open>fgets\<close>, \<open>strtok\<close>). The file server, the pictures and the remote shell share it.
\<close>

section \<open>Printing and reading\<close>

definition digit :: "nat \<Rightarrow> u8" where "digit n = of_nat (48 + n)"

fun dec_nat :: "nat \<Rightarrow> bytes" where
  "dec_nat n = (if n < 10 then [digit n] else dec_nat (n div 10) @ [digit (n mod 10)])"

declare dec_nat.simps [simp del]

text \<open>\<open>sprintf\<close> with \<open>%d\<close>, and \<open>atoi\<close>.\<close>

definition dec_int :: "int \<Rightarrow> bytes" where
  "dec_int i = (if i < 0 then 45 # dec_nat (nat (- i)) else dec_nat (nat i))"

definition is_digit :: "u8 \<Rightarrow> bool" where "is_digit c \<longleftrightarrow> 48 \<le> c \<and> c \<le> 57"

definition is_space :: "u8 \<Rightarrow> bool" where "is_space c \<longleftrightarrow> c = 32 \<or> 9 \<le> c \<and> c \<le> 13"

fun digits :: "int \<Rightarrow> bytes \<Rightarrow> int" where
  "digits acc [] = acc"
| "digits acc (c # cs) = (if is_digit c then digits (10 * acc + int (unat c - 48)) cs else acc)"

definition atoi :: "bytes \<Rightarrow> int" where
  "atoi s = (let s = dropWhile is_space s in
     case s of
       [] \<Rightarrow> 0
     | c # cs \<Rightarrow> if c = 45 then - digits 0 cs else if c = 43 then digits 0 cs else digits 0 s)"

definition int32 :: "int \<Rightarrow> bool" where "int32 i \<longleftrightarrow> - (2 ^ 31) \<le> i \<and> i < 2 ^ 31"

section \<open>Lines and tokens\<close>

definition ascii :: "string \<Rightarrow> bytes" where "ascii s = map of_char s"

text \<open>The next line of a file, cut to a buffer of \<open>n\<close> bytes: whether there was one, the buffer, and the rest.\<close>

definition fgets :: "nat \<Rightarrow> bytes \<Rightarrow> bytes \<Rightarrow> bool \<times> bytes \<times> bytes" where
  "fgets n old f = (if f = [] then (False, old, [])
     else let k = min (n - 1) (Suc (length (takeWhile (\<lambda>c. c \<noteq> 10) f))) in (True, take k f, drop k f))"

text \<open>\<open>strtok\<close>: the token, and what follows the delimiter that ends it.\<close>

definition strtok :: "(u8 \<Rightarrow> bool) \<Rightarrow> bytes \<Rightarrow> (bytes \<times> bytes) option" where
  "strtok delim s = (let s = dropWhile delim (takeWhile (\<lambda>c. c \<noteq> 0) s) in
     if s = [] then None
     else Some (takeWhile (\<lambda>c. \<not> delim c) s, drop 1 (dropWhile (\<lambda>c. \<not> delim c) s)))"

lemma strtok_shorter: "strtok delim s = Some (t, r) \<Longrightarrow> length r < length s"
proof -
  assume *: "strtok delim s = Some (t, r)"
  let ?s = "dropWhile delim (takeWhile (\<lambda>c. c \<noteq> 0) s)" and ?u = "dropWhile (\<lambda>c. \<not> delim c) (dropWhile delim (takeWhile (\<lambda>c. c \<noteq> 0) s))"
  have s: "?s \<noteq> []" "r = drop 1 ?u" using * by (auto simp: strtok_def Let_def split: if_splits)
  have "length ?u \<le> length ?s" "length ?s \<le> length s" by (meson length_dropWhile_le length_takeWhile_le le_trans)+
  then show "length r < length s" using s by (cases ?u) auto
qed

section \<open>Reading what was printed\<close>

lemma unat_digit: "n < 10 \<Longrightarrow> unat (digit n) = 48 + n"
  by (simp add: digit_def unat_of_nat take_bit_nat_eq_self del: of_nat_add)

lemma is_digit_of_nat: "n < 10 \<Longrightarrow> is_digit (digit n)"
  using unat_digit [of n] by (simp add: is_digit_def word_le_nat_alt)

lemma digits_append: "\<forall>c\<in>set xs. is_digit c \<Longrightarrow> digits acc (xs @ ys) = digits (digits acc xs) ys"
  by (induction xs arbitrary: acc) auto

lemma dec_nat_digits: "\<forall>c\<in>set (dec_nat n). is_digit c"
  by (induction n rule: dec_nat.induct) (subst dec_nat.simps, auto simp: is_digit_of_nat)

lemma digits_dec_nat: "digits 0 (dec_nat n) = int n"
proof (induction n rule: dec_nat.induct)
  case (1 n)
  show ?case
  proof (cases "n < 10")
    case True
    then show ?thesis using unat_digit [of n] is_digit_of_nat [of n] by (subst dec_nat.simps) simp
  next
    case False
    have "n mod 10 < 10" by simp
    then have "digits 0 (dec_nat n) = 10 * int (n div 10) + int (n mod 10)"
      using 1 False dec_nat_digits [of "n div 10"] unat_digit [of "n mod 10"] is_digit_of_nat [of "n mod 10"]
      by (subst dec_nat.simps) (simp add: digits_append)
    then show ?thesis by presburger
  qed
qed

lemma length_dec_nat: "n < 10 ^ Suc k \<Longrightarrow> length (dec_nat n) \<le> Suc k"
proof (induction k arbitrary: n)
  case 0
  then show ?case by (subst dec_nat.simps) simp
next
  case (Suc k)
  then have "n div 10 < 10 ^ Suc k" by simp
  from Suc.IH [OF this] show ?case by (subst dec_nat.simps) simp
qed

lemma dec_nat_Cons: "\<exists>c cs. dec_nat n = c # cs \<and> is_digit c"
  using dec_nat_digits [of n] by (cases "dec_nat n") (auto simp: dec_nat.simps [of n] split: if_splits)

lemma is_digit_not: "is_digit c \<Longrightarrow> \<not> is_space c \<and> c \<noteq> 45 \<and> c \<noteq> 43 \<and> c \<noteq> 0"
  by (auto simp: is_digit_def is_space_def word_le_nat_alt)

lemma atoi_dec_int: "atoi (dec_int i) = i"
proof (cases "i < 0")
  case True
  have "dropWhile is_space (45 # xs) = 45 # xs" for xs by (simp add: is_space_def word_le_nat_alt)
  with True show ?thesis by (simp add: atoi_def dec_int_def digits_dec_nat)
next
  case False
  obtain c cs where c: "dec_nat (nat i) = c # cs" "is_digit c" using dec_nat_Cons by blast
  then have "dropWhile is_space (dec_nat (nat i)) = c # cs" by (simp add: is_digit_not)
  with False c show ?thesis
    using digits_dec_nat [of "nat i"] by (simp add: atoi_def dec_int_def is_digit_not)
qed

lemma takeWhile_stop: "x \<notin> set l \<Longrightarrow> takeWhile (\<lambda>c. c \<noteq> x) (l @ x # r) = l"
  by (induction l) auto

lemma fgets_line: "10 \<notin> set l \<Longrightarrow> length l < n - 1 \<Longrightarrow> fgets n old (l @ 10 # r) = (True, l @ [10], r)"
  by (simp add: fgets_def takeWhile_stop Let_def)

lemma strtok_token:
  assumes "t \<noteq> []" and "\<forall>c\<in>set t. \<not> delim c \<and> c \<noteq> 0" and "delim d" "d \<noteq> 0" and "0 \<notin> set r" and "\<forall>c\<in>set ds. delim c \<and> c \<noteq> 0"
  shows "strtok delim (ds @ t @ d # r) = Some (t, r)"
proof -
  have "\<forall>c\<in>set (ds @ t @ d # r). c \<noteq> 0" using assms(2,4-6) by (metis Un_iff set_append set_ConsD)
  then have z: "takeWhile (\<lambda>c. c \<noteq> 0) (ds @ t @ d # r) = ds @ t @ d # r" using takeWhile_eq_all_conv by blast
  have "dropWhile delim (ds @ t @ d # r) = t @ d # r" using assms(1,2,6) by (cases t) (simp_all add: dropWhile_append)
  moreover have "takeWhile (\<lambda>c. \<not> delim c) (t @ d # r) = t" "dropWhile (\<lambda>c. \<not> delim c) (t @ d # r) = d # r"
    using assms(2,3) by (simp_all add: takeWhile_append dropWhile_append)
  ultimately show ?thesis using assms(1) by (simp add: strtok_def z Let_def)
qed

end
