(* ===== verification/FilesProtocol.thy ===== *)
theory FilesProtocol
  imports Text
begin

text \<open>
  The file server and its client, \<open>src/FilesServerLinux\<close>: packets of fixed size, in which strings and
  numbers are stored after their length in one byte.

  Buffers are byte lists of their C size, strings are byte lists without the final NUL. \<open>None\<close> is an
  access outside a buffer, a length that does not fit a \<open>char\<close> or an assertion that fails. What directories hold, the sizes of
  files and what arrives on sockets are arguments; the socket calls and \<open>epoll\<close> succeed.
\<close>

section \<open>Constants\<close>

definition MAX_PACKET :: nat where "MAX_PACKET = 4096"
definition MAX_STRING_SIZE :: nat where "MAX_STRING_SIZE = 128"
definition READ :: u8 where "READ = 1"
definition WRITE :: u8 where "WRITE = 2"
definition LS :: u8 where "LS = 3"

section \<open>Strings and numbers in a packet\<close>

text \<open>The text of a packet variable, and storing bytes at an offset.\<close>

definition cstr :: "bytes \<Rightarrow> bytes" where "cstr bs = takeWhile (\<lambda>b. b \<noteq> 0) bs"

definition put_bytes :: "nat \<Rightarrow> bytes \<Rightarrow> bytes \<Rightarrow> bytes option" where
  "put_bytes off bs buffer =
     (if off + length bs \<le> length buffer then Some (take off buffer @ bs @ drop (off + length bs) buffer) else None)"

text \<open>Each conversion gives the buffer and the next offset.\<close>

definition STRING_CONVERT :: "bytes \<Rightarrow> nat \<Rightarrow> bytes \<Rightarrow> (bytes \<times> nat) option" where
  "STRING_CONVERT buffer current_size string =
     (if length string > 127 then None
      else do {
        buffer \<leftarrow> put_bytes current_size (of_nat (length string) # string) buffer;
        Some (buffer, current_size + length string + 1)
      })"

definition NUMBER_CONVERT :: "bytes \<Rightarrow> nat \<Rightarrow> int \<Rightarrow> (bytes \<times> nat) option" where
  "NUMBER_CONVERT buffer current_size number = STRING_CONVERT buffer current_size (dec_int number)"

definition get_bytes :: "nat \<Rightarrow> nat \<Rightarrow> bytes \<Rightarrow> bytes option" where
  "get_bytes off n buffer = (if off + n \<le> length buffer then Some (take n (drop off buffer)) else None)"

definition STRING_CONVERT_REVERSE :: "bytes \<Rightarrow> nat \<Rightarrow> (bytes \<times> nat) option" where
  "STRING_CONVERT_REVERSE buffer offset =
     (if offset \<ge> length buffer then None
      else let n = unat (buffer ! offset) in
      if n > 127 then None
      else do {
        bs \<leftarrow> get_bytes (offset + 1) n buffer;
        Some (cstr bs, offset + n + 1)
      })"

definition NUMBER_CONVERT_REVERSE :: "bytes \<Rightarrow> nat \<Rightarrow> (int \<times> nat) option" where
  "NUMBER_CONVERT_REVERSE buffer offset = do {
     (s, offset) \<leftarrow> STRING_CONVERT_REVERSE buffer offset;
     Some (atoi s, offset)
   }"

definition COMMAND_GENERIC :: "bytes \<Rightarrow> nat \<Rightarrow> bytes \<Rightarrow> int \<Rightarrow> int \<Rightarrow> (bytes \<times> nat) option" where
  "COMMAND_GENERIC buffer current_size fisier offset len = do {
     (buffer, current_size) \<leftarrow> STRING_CONVERT buffer current_size fisier;
     (buffer, current_size) \<leftarrow> NUMBER_CONVERT buffer current_size offset;
     NUMBER_CONVERT buffer current_size len
   }"

definition COMMAND_GENERIC_REVERSE :: "bytes \<Rightarrow> nat \<Rightarrow> int \<Rightarrow> int \<Rightarrow> (bytes \<times> bytes \<times> nat) option" where
  "COMMAND_GENERIC_REVERSE buffer current_size offset len = do {
     (fisier, current_size) \<leftarrow> STRING_CONVERT_REVERSE buffer current_size;
     (buffer, current_size) \<leftarrow> NUMBER_CONVERT buffer current_size offset;
     (buffer, current_size) \<leftarrow> NUMBER_CONVERT buffer current_size len;
     Some (fisier, buffer, current_size)
   }"

section \<open>The client\<close>

datatype client_op = Op_ls | Op_read | Op_write

text \<open>The command line, without the program's name.\<close>

definition is_word :: "bytes \<Rightarrow> u8 \<Rightarrow> u8 \<Rightarrow> bool" where
  "is_word w a b \<longleftrightarrow> length w = 2 \<and> (w ! 0 = a \<or> w ! 0 = a - 32) \<and> (w ! 1 = b \<or> w ! 1 = b - 32)"

definition client_args :: "bytes list \<Rightarrow> (client_op \<times> bytes \<times> int \<times> int) option" where
  "client_args args = (case args of
     [ip, op, director] \<Rightarrow> if is_word op 0x6C 0x73 then Some (Op_ls, director, -1, -1) else None
   | [ip, op, fisier, offset, len] \<Rightarrow>
       if is_word op 0x72 0x64 then Some (Op_read, fisier, atoi offset, atoi len)
       else if is_word op 0x77 0x72 then Some (Op_write, fisier, atoi offset, atoi len)
       else None
   | _ \<Rightarrow> None)"

definition empty_packet :: bytes where "empty_packet = replicate MAX_PACKET 0"

definition ls_request :: "bytes \<Rightarrow> bytes option" where
  "ls_request director = put_bytes 0 (LS # director @ [0]) empty_packet"

definition read_request :: "bytes \<Rightarrow> int \<Rightarrow> int \<Rightarrow> bytes option" where
  "read_request fisier offset len = do {
     buffer \<leftarrow> put_bytes 0 [READ] empty_packet;
     (buffer, current_size) \<leftarrow> COMMAND_GENERIC buffer 1 fisier offset len;
     Some buffer
   }"

text \<open>\<open>line\<close> is what \<open>fgets\<close> finds on the input, up to and with a newline.\<close>

definition write_request :: "bytes \<Rightarrow> int \<Rightarrow> int \<Rightarrow> bytes \<Rightarrow> bytes option" where
  "write_request fisier offset len line = do {
     buffer \<leftarrow> put_bytes 0 [WRITE] empty_packet;
     (buffer, current_size) \<leftarrow> COMMAND_GENERIC buffer 1 fisier offset len;
     if len < 1 \<or> line = [] then None
     else let got = take (nat len - 1) line in
     if length got + 1 > MAX_STRING_SIZE then None
     else put_bytes current_size (take (nat len) (cstr got @ replicate (nat len) 0)) buffer
   }"

lemma reverse_advances:
  "STRING_CONVERT_REVERSE buffer off = Some (s, off') \<Longrightarrow> off < off' \<and> off < length buffer"
  "NUMBER_CONVERT_REVERSE buffer off = Some (i, off') \<Longrightarrow> off < off' \<and> off < length buffer"
  by (auto simp: NUMBER_CONVERT_REVERSE_def STRING_CONVERT_REVERSE_def Let_def split: if_splits bind_splits)

text \<open>The loop over the answer to \<open>ls\<close>; each turn moves the offset forward.\<close>

function ls_entries :: "bytes \<Rightarrow> nat \<Rightarrow> (bytes \<times> int) list option" where
  "ls_entries buffer off =
     (if off \<ge> length buffer then None
      else if buffer ! off = 0 then Some []
      else (case STRING_CONVERT_REVERSE buffer off of
        None \<Rightarrow> None
      | Some (nume, off1) \<Rightarrow> (case NUMBER_CONVERT_REVERSE buffer off1 of
          None \<Rightarrow> None
        | Some (dim, off2) \<Rightarrow>
            (case ls_entries buffer off2 of None \<Rightarrow> None | Some es \<Rightarrow> Some ((nume, dim) # es)))))"
  by pat_completeness auto
termination
  by (relation "measure (\<lambda>(buffer, off). length buffer - off)") (auto dest!: reverse_advances)

declare ls_entries.simps [simp del]

datatype ls_answer = Ls_failed | Ls_list "(bytes \<times> int) list"

definition ls_answer :: "bytes \<Rightarrow> ls_answer option" where
  "ls_answer buffer =
     (if length buffer < 2 \<or> buffer ! 0 \<noteq> LS then None
      else if buffer ! 1 = 1 then Some Ls_failed
      else map_option Ls_list (ls_entries buffer 2))"

section \<open>The server\<close>

record file_server =
  sbuffer :: bytes
  soffset :: int
  slen :: int
  conns :: "nat list"
  running :: bool

text \<open>The entries of a directory that can be opened, and the size of a file that exists.\<close>

record files =
  opendir :: "bytes \<Rightarrow> bytes list option"
  st_size :: "bytes \<Rightarrow> int option"

fun ls_loop :: "files \<Rightarrow> bytes \<Rightarrow> bytes list \<Rightarrow> bytes \<times> nat \<Rightarrow> (bytes \<times> nat) option" where
  "ls_loop f director [] b = Some b"
| "ls_loop f director (d_name # rest) (buffer, current_size) = do {
     (buffer, current_size) \<leftarrow> STRING_CONVERT buffer current_size d_name;
     if length (director @ d_name) + 1 > MAX_STRING_SIZE then None
     else do {
       size \<leftarrow> st_size f (director @ d_name);
       b \<leftarrow> NUMBER_CONVERT buffer current_size size;
       ls_loop f director rest b
     }
   }"

definition serve_ls :: "files \<Rightarrow> bytes \<Rightarrow> bytes option" where
  "serve_ls f buffer =
     (let director = cstr (tl buffer) in
      case opendir f director of
        None \<Rightarrow> do { b \<leftarrow> put_bytes 1 [1] empty_packet; put_bytes 0 [LS] b }
      | Some names \<Rightarrow> do {
          (b, current_size) \<leftarrow> ls_loop f director names (empty_packet, 2);
          put_bytes 0 [LS] b
        })"

text \<open>What one request makes the server send, print and keep.\<close>

record served =
  sent_packet :: bytes
  shown :: "(bytes \<times> int \<times> int) list"
  after_buffer :: bytes

definition serve :: "files \<Rightarrow> file_server \<Rightarrow> served option" where
  "serve f s =
     (let buffer = sbuffer s in
      if hd buffer = LS then do {
        b \<leftarrow> serve_ls f buffer;
        Some \<lparr>sent_packet = b, shown = [], after_buffer = b\<rparr>
      }
      else if hd buffer = READ then do {
        (fisier, b, current_size) \<leftarrow> COMMAND_GENERIC_REVERSE buffer 1 (soffset s) (slen s);
        b' \<leftarrow> put_bytes 0 [READ, 0] b;
        Some \<lparr>sent_packet = b, shown = [(fisier, soffset s, slen s)], after_buffer = b'\<rparr>
      }
      else if hd buffer = WRITE then do {
        b \<leftarrow> put_bytes 0 [WRITE, 1] buffer;
        Some \<lparr>sent_packet = b, shown = [], after_buffer = b\<rparr>
      }
      else None)"

text \<open>One turn of the main loop: a connection, the console, the end of a connection or data on it.\<close>

datatype server_event = Connect nat | Console | Gone nat | Data nat bytes

definition server_turn :: "files \<Rightarrow> server_event \<Rightarrow> file_server \<Rightarrow> ((nat \<times> served) option \<times> file_server) option" where
  "server_turn f e s = (case e of
     Connect fd \<Rightarrow> Some (None, s\<lparr>conns := fd # conns s, slen := 16\<rparr>)
   | Console \<Rightarrow> Some (None, s\<lparr>running := False\<rparr>)
   | Gone fd \<Rightarrow> Some (None, s\<lparr>conns := remove1 fd (conns s)\<rparr>)
   | Data fd bs \<Rightarrow> do {
       b \<leftarrow> put_bytes 0 bs (sbuffer s);
       r \<leftarrow> serve f (s\<lparr>sbuffer := b\<rparr>);
       Some (Some (fd, r), s\<lparr>sbuffer := after_buffer r\<rparr>)
     })"

fun server_loop :: "files \<Rightarrow> server_event list \<Rightarrow> file_server \<Rightarrow> ((nat \<times> served) list \<times> file_server) option" where
  "server_loop f [] s = Some ([], s)"
| "server_loop f (e # es) s =
     (if \<not> running s then Some ([], s)
      else do {
        (r, s) \<leftarrow> server_turn f e s;
        (rs, s) \<leftarrow> server_loop f es s;
        Some ((case r of None \<Rightarrow> rs | Some x \<Rightarrow> x # rs), s)
      })"

end
