(* ===== verification/FilesProtocolCorrect.thy ===== *)
theory FilesProtocolCorrect
  imports FilesProtocol
begin

text \<open>
  The file protocol: numbers and strings survive a packet, a directory listing arrives as it was sent, and
  the server does not read the numbers of a read request.
\<close>

section \<open>Numbers\<close>

definition string_ok :: "bytes \<Rightarrow> bool" where "string_ok s \<longleftrightarrow> length s \<le> 127 \<and> 0 \<notin> set s"

lemma dec_int_ok: "int32 i \<Longrightarrow> string_ok (dec_int i) \<and> length (dec_int i) \<le> 11 \<and> dec_int i \<noteq> []"
proof -
  assume i: "int32 i"
  have l: "length (dec_nat (nat \<bar>i\<bar>)) \<le> Suc 9" by (rule length_dec_nat) (use i in \<open>auto simp: int32_def\<close>)
  have "0 \<notin> set (dec_nat n)" for n using dec_nat_digits [of n] is_digit_not by blast
  moreover have "dec_nat n \<noteq> []" for n using dec_nat_Cons [of n] by auto
  ultimately show ?thesis using l by (auto simp: dec_int_def string_ok_def split: if_splits)
qed

section \<open>Strings\<close>

definition field :: "bytes \<Rightarrow> bytes" where "field s = of_nat (length s) # s"

lemma length_field [simp]: "length (field s) = length s + 1"
  by (simp add: field_def)

text \<open>A packet that has been written up to an offset and is zero from there.\<close>

definition packet_of :: "bytes \<Rightarrow> bytes" where "packet_of bs = bs @ replicate (MAX_PACKET - length bs) 0"

lemma length_packet_of [simp]: "length bs \<le> MAX_PACKET \<Longrightarrow> length (packet_of bs) = MAX_PACKET"
  by (simp add: packet_of_def)

lemma put_at_end:
  "length bs + length cs \<le> MAX_PACKET \<Longrightarrow> put_bytes (length bs) cs (packet_of bs) = Some (packet_of (bs @ cs))"
  by (simp add: put_bytes_def packet_of_def)

lemma put_at_start:
  "length cs \<le> length bs \<Longrightarrow> length bs \<le> MAX_PACKET \<Longrightarrow>
   put_bytes 0 cs (packet_of bs) = Some (packet_of (cs @ drop (length cs) bs))"
  by (simp add: put_bytes_def packet_of_def)

lemma empty_packet: "empty_packet = packet_of []"
  by (simp add: empty_packet_def packet_of_def)

lemma packet_of_zeros: "length bs + n \<le> MAX_PACKET \<Longrightarrow> packet_of (bs @ replicate n 0) = packet_of bs"
  by (simp add: packet_of_def flip: replicate_add)

lemma STRING_CONVERT_packet:
  assumes "length s \<le> 127" "length bs + length s + 1 \<le> MAX_PACKET"
  shows "STRING_CONVERT (packet_of bs) (length bs) s = Some (packet_of (bs @ field s), length (bs @ field s))"
  using assms put_at_end [of bs "field s"] by (simp add: STRING_CONVERT_def field_def)

lemma cstr_id [simp]: "0 \<notin> set s \<Longrightarrow> cstr s = s"
  by (auto simp: cstr_def takeWhile_eq_all_conv)

lemma STRING_REVERSE:
  assumes "string_ok s"
  shows "STRING_CONVERT_REVERSE (bs @ field s @ rest) (length bs) = Some (s, length (bs @ field s))"
proof -
  have "unat (of_nat (length s) :: u8) = length s" using assms by (simp add: string_ok_def unat_of_nat)
  then show ?thesis
    using assms by (simp add: STRING_CONVERT_REVERSE_def field_def get_bytes_def string_ok_def nth_append)
qed

lemma NUMBER_REVERSE:
  assumes "int32 i"
  shows "NUMBER_CONVERT_REVERSE (bs @ field (dec_int i) @ rest) (length bs) = Some (i, length (bs @ field (dec_int i)))"
  using dec_int_ok [OF assms] by (simp add: NUMBER_CONVERT_REVERSE_def STRING_REVERSE atoi_dec_int)

lemma put_over:
  "length cs \<le> length rest \<Longrightarrow> put_bytes (length bs) cs (bs @ rest) = Some (bs @ cs @ drop (length cs) rest)"
  by (simp add: put_bytes_def)

lemma NUMBER_CONVERT_over:
  assumes "int32 i" "12 \<le> length rest"
  obtains rest' where "NUMBER_CONVERT (bs @ rest) (length bs) i =
      Some (bs @ field (dec_int i) @ rest', length (bs @ field (dec_int i)))" "length rest' \<ge> length rest - 12"
proof -
  have l: "length (dec_int i) \<le> 11" using dec_int_ok [OF assms(1)] by simp
  then have "put_bytes (length bs) (field (dec_int i)) (bs @ rest) =
      Some (bs @ field (dec_int i) @ drop (length (field (dec_int i))) rest)"
    using assms(2) by (intro put_over) simp
  with l show ?thesis
    using that [of "drop (length (field (dec_int i))) rest"]
    by (simp add: NUMBER_CONVERT_def STRING_CONVERT_def field_def)
qed

section \<open>Directory listings\<close>

definition entry :: "bytes \<times> int \<Rightarrow> bytes" where "entry e = field (fst e) @ field (dec_int (snd e))"

definition entries :: "(bytes \<times> int) list \<Rightarrow> bytes" where "entries es = concat (map entry es)"

definition entry_ok :: "bytes \<times> int \<Rightarrow> bool" where
  "entry_ok e \<longleftrightarrow> string_ok (fst e) \<and> fst e \<noteq> [] \<and> int32 (snd e)"

lemma entries_simps [simp]: "entries [] = []" "entries (e # es) = entry e @ entries es"
  by (simp_all add: entries_def)

lemma ls_entries_packet:
  assumes "\<forall>e\<in>set es. entry_ok e"
  shows "ls_entries (bs @ entries es @ 0 # rest) (length bs) = Some es"
  using assms
proof (induction es arbitrary: bs)
  case Nil
  then show ?case by (subst ls_entries.simps) (simp add: nth_append)
next
  case (Cons e es)
  obtain n i where e: "e = (n, i)" by fastforce
  have ok: "string_ok n" "n \<noteq> []" "int32 i" using Cons.prems e by (simp_all add: entry_ok_def)
  let ?b = "bs @ entries (e # es) @ 0 # rest"
  have s: "STRING_CONVERT_REVERSE ?b (length bs) = Some (n, length (bs @ field n))"
    using STRING_REVERSE [OF ok(1), of bs] by (simp add: e entry_def)
  have i: "NUMBER_CONVERT_REVERSE ?b (length (bs @ field n)) = Some (i, length (bs @ entry e))"
    using NUMBER_REVERSE [OF ok(3), of "bs @ field n"] by (simp add: e entry_def)
  have "ls_entries ?b (length (bs @ entry e)) = Some es"
    using Cons.IH [of "bs @ entry e"] Cons.prems by simp
  moreover have "?b ! length bs \<noteq> 0"
  proof -
    have "unat (of_nat (length n) :: u8) = length n" using ok(1) by (simp add: string_ok_def unat_of_nat)
    then have "(of_nat (length n) :: u8) \<noteq> 0" using ok(2) by (metis length_0_conv unat_0)
    then show ?thesis by (simp add: e entry_def field_def nth_append)
  qed
  ultimately show ?case using s i by (subst ls_entries.simps) (simp add: e)
qed

lemma ls_loop_packet:
  assumes "\<forall>e\<in>set es. entry_ok e \<and> length (director @ fst e) < MAX_STRING_SIZE \<and>
      st_size f (director @ fst e) = Some (snd e)"
    and "length bs + length (entries es) \<le> MAX_PACKET"
  shows "ls_loop f director (map fst es) (packet_of bs, length bs) =
    Some (packet_of (bs @ entries es), length (bs @ entries es))"
  using assms
proof (induction es arbitrary: bs)
  case Nil
  then show ?case by simp
next
  case (Cons e es)
  have ok: "entry_ok e" "length (director @ fst e) + 1 \<le> MAX_STRING_SIZE" "st_size f (director @ fst e) = Some (snd e)"
    using Cons.prems(1) by auto
  have len: "length bs + length (field (fst e)) + length (field (dec_int (snd e))) \<le> MAX_PACKET"
    using Cons.prems(2) by (simp add: entry_def)
  have "length (fst e) \<le> 127" "length (dec_int (snd e)) \<le> 127"
    using ok(1) dec_int_ok [of "snd e"] by (auto simp: entry_ok_def string_ok_def)
  then have "STRING_CONVERT (packet_of bs) (length bs) (fst e) = Some (packet_of (bs @ field (fst e)), length (bs @ field (fst e)))"
    "NUMBER_CONVERT (packet_of (bs @ field (fst e))) (length (bs @ field (fst e))) (snd e) =
      Some (packet_of (bs @ entry e), length (bs @ entry e))"
    using len STRING_CONVERT_packet [of "fst e" bs] STRING_CONVERT_packet [of "dec_int (snd e)" "bs @ field (fst e)"]
    by (simp_all add: NUMBER_CONVERT_def entry_def)
  moreover have "ls_loop f director (map fst es) (packet_of (bs @ entry e), length (bs @ entry e)) =
      Some (packet_of (bs @ entries (e # es)), length (bs @ entries (e # es)))"
    using Cons.IH [of "bs @ entry e"] Cons.prems by simp
  ultimately show ?case using ok by (simp add: not_less del: length_append entries_simps)
qed

section \<open>Properties\<close>

text \<open>
  The client's request for a directory, answered by the server and read by the client, gives the
  names and sizes of its files in order, when these fit the packet with a zero byte after them, the names
  have 1 to 127 characters, and the directory's name followed by a file's name is shorter than 128
  characters and names the file.
\<close>

theorem files_ls_roundtrip:
  assumes "0 \<notin> set director" "length director < MAX_STRING_SIZE"
    and "opendir f director = Some (map fst es)"
    and "\<forall>e\<in>set es. entry_ok e \<and> length (director @ fst e) < MAX_STRING_SIZE \<and>
      st_size f (director @ fst e) = Some (snd e)"
    and "length (entries es) + 2 < MAX_PACKET"
  shows "\<exists>request answer. ls_request director = Some request \<and>
    map_option sent_packet (serve f (s\<lparr>sbuffer := request\<rparr>)) = Some answer \<and> length answer = MAX_PACKET \<and>
    ls_answer answer = Some (Ls_list es)"
proof -
  let ?r = "packet_of (LS # director @ [0])"
  have len: "length director < 128" "MAX_PACKET = 4096" using assms(2) by (simp_all add: MAX_STRING_SIZE_def MAX_PACKET_def)
  have r: "ls_request director = Some ?r"
    using put_at_end [of "[]" "LS # director @ [0]"] len by (simp add: ls_request_def empty_packet)
  have d: "cstr (tl ?r) = director"
    using assms(1) by (simp add: packet_of_def cstr_def takeWhile_append)
  have z: "packet_of [] = packet_of [0, 0]"
    using packet_of_zeros [of "[]" 2] len by (simp add: numeral_2_eq_2)
  have "ls_loop f director (map fst es) (empty_packet, 2) = Some (packet_of ([0, 0] @ entries es), length ([0, 0 :: u8] @ entries es))"
    using ls_loop_packet [OF assms(4), of "[0, 0]"] assms(5) by (simp add: empty_packet z numeral_2_eq_2)
  moreover have "put_bytes 0 [LS] (packet_of ([0, 0] @ entries es)) = Some (packet_of ([LS, 0] @ entries es))"
    using put_at_start [of "[LS]" "[0, 0] @ entries es"] assms(5) by simp
  ultimately have a: "map_option sent_packet (serve f (s\<lparr>sbuffer := ?r\<rparr>)) = Some (packet_of ([LS, 0] @ entries es))"
    using assms(3) d by (simp add: serve_def serve_ls_def Let_def) (simp add: packet_of_def)
  obtain k where k: "MAX_PACKET - length ([LS, 0] @ entries es) = Suc k"
    using assms(5) by (cases "MAX_PACKET - length ([LS, 0] @ entries es)") auto
  have "packet_of ([LS, 0] @ entries es) = [LS, 0] @ entries es @ 0 # replicate k 0"
    unfolding packet_of_def k by simp
  moreover have "\<forall>e\<in>set es. entry_ok e" using assms(4) by blast
  ultimately have "ls_answer (packet_of ([LS, 0] @ entries es)) = Some (Ls_list es)"
    using ls_entries_packet [of es "[LS, 0]" "replicate k 0"] by (simp add: ls_answer_def numeral_2_eq_2)
  then show ?thesis using r a assms(5) by auto
qed

theorem files_ls_roundtrip_witness:
  "\<exists>request answer. ls_request [100, 47] = Some request \<and>
     map_option sent_packet (serve \<lparr>opendir = (\<lambda>d. Some [[97], [98]]), st_size = (\<lambda>n. Some (int (length n) * 100))\<rparr>
       \<lparr>sbuffer = request, soffset = 0, slen = 16, conns = [4], running = True\<rparr>) = Some answer \<and>
     ls_answer answer = Some (Ls_list [([97], 300), ([98], 300)])"
proof -
  define f where "f = \<lparr>opendir = (\<lambda>d. Some [[97], [98 :: u8]]), st_size = (\<lambda>n :: bytes. Some (int (length n) * 100))\<rparr>"
  have "(0 :: u8) \<notin> set [100, 47]" "length [100, 47 :: u8] < MAX_STRING_SIZE" by (simp_all add: MAX_STRING_SIZE_def)
  moreover have "opendir f [100, 47] = Some (map fst [([97], 300 :: int), ([98], 300)])" by (simp add: f_def)
  moreover have "\<forall>e\<in>set [([97], 300), ([98], 300)]. entry_ok e \<and> length ([100, 47] @ fst e) < MAX_STRING_SIZE \<and>
      st_size f ([100, 47] @ fst e) = Some (snd e)"
    by (simp add: entry_ok_def string_ok_def int32_def f_def MAX_STRING_SIZE_def)
  moreover have "length (entries [([97], 300), ([98], 300)]) + 2 < MAX_PACKET"
    using dec_int_ok [of 300] by (simp add: entry_def int32_def MAX_PACKET_def)
  ultimately show ?thesis
    using files_ls_roundtrip [of "[100, 47]" f "[([97], 300), ([98], 300)]"
      "\<lparr>sbuffer = [], soffset = 0, slen = 16, conns = [4], running = True\<rparr>"]
    by (auto simp: f_def)
qed

text \<open>
  For a request to read, the server takes the file's name from the packet but not its two numbers: it
  shows its own variables and writes them over the client's, whatever the client asked for.
\<close>

theorem files_read_numbers_lost:
  assumes "string_ok fisier" "int32 offset" "int32 len" "int32 (soffset s)" "int32 (slen s)"
  shows "\<exists>request r. read_request fisier offset len = Some request \<and>
    serve f (s\<lparr>sbuffer := request\<rparr>) = Some r \<and> shown r = [(fisier, soffset s, slen s)] \<and>
    NUMBER_CONVERT_REVERSE (sent_packet r) (length fisier + 2) =
      Some (soffset s, length fisier + 2 + length (field (dec_int (soffset s)))) \<and>
    NUMBER_CONVERT_REVERSE (sent_packet r) (length fisier + 2 + length (field (dec_int (soffset s)))) =
      Some (slen s, length fisier + 2 + length (field (dec_int (soffset s))) + length (field (dec_int (slen s))))"
proof -
  have l: "length fisier \<le> 127" "length (dec_int offset) \<le> 11" "length (dec_int len) \<le> 11"
    using assms dec_int_ok by (auto simp: string_ok_def)
  have big: "MAX_PACKET = 4096" by (simp add: MAX_PACKET_def)
  let ?h = "[READ] @ field fisier"
  let ?p = "packet_of (?h @ field (dec_int offset) @ field (dec_int len))"
  have "put_bytes 0 [READ] empty_packet = Some (packet_of [READ])"
    using put_at_end [of "[]" "[READ]"] big by (simp add: empty_packet)
  moreover have "STRING_CONVERT (packet_of [READ]) 1 fisier = Some (packet_of ?h, length ?h)"
    using STRING_CONVERT_packet [of fisier "[READ]"] l big by simp
  moreover have "NUMBER_CONVERT (packet_of ?h) (length ?h) offset =
      Some (packet_of (?h @ field (dec_int offset)), length (?h @ field (dec_int offset)))"
    using STRING_CONVERT_packet [of "dec_int offset" ?h] l big by (simp add: NUMBER_CONVERT_def)
  moreover have "NUMBER_CONVERT (packet_of (?h @ field (dec_int offset))) (length (?h @ field (dec_int offset))) len =
      Some (?p, length (?h @ field (dec_int offset) @ field (dec_int len)))"
    using STRING_CONVERT_packet [of "dec_int len" "?h @ field (dec_int offset)"] l big
    by (simp add: NUMBER_CONVERT_def)
  ultimately have r: "read_request fisier offset len = Some ?p"
    by (simp add: read_request_def COMMAND_GENERIC_def del: append.simps length_append)
  define rest where "rest = field (dec_int offset) @ field (dec_int len) @
    replicate (MAX_PACKET - length (?h @ field (dec_int offset) @ field (dec_int len))) 0"
  have p: "?p = ?h @ rest" by (simp add: packet_of_def rest_def)
  have "length rest \<ge> 24" using l big by (simp add: rest_def)
  then obtain r1 where 1: "NUMBER_CONVERT (?h @ rest) (length ?h) (soffset s) =
      Some (?h @ field (dec_int (soffset s)) @ r1, length (?h @ field (dec_int (soffset s))))" "length r1 \<ge> 12"
    by - (rule NUMBER_CONVERT_over [OF assms(4), of rest ?h], auto)
  obtain r2 where 2: "NUMBER_CONVERT ((?h @ field (dec_int (soffset s))) @ r1) (length (?h @ field (dec_int (soffset s)))) (slen s) =
      Some ((?h @ field (dec_int (soffset s))) @ field (dec_int (slen s)) @ r2,
        length ((?h @ field (dec_int (soffset s))) @ field (dec_int (slen s))))"
    by (rule NUMBER_CONVERT_over [OF assms(5) 1(2), of "?h @ field (dec_int (soffset s))"])
  let ?b = "?h @ field (dec_int (soffset s)) @ field (dec_int (slen s)) @ r2"
  have "STRING_CONVERT_REVERSE (?h @ rest) 1 = Some (fisier, length ?h)"
    using STRING_REVERSE [OF assms(1), of "[READ]" rest] by simp
  then have c: "\<exists>n. COMMAND_GENERIC_REVERSE (?h @ rest) 1 (soffset s) (slen s) = Some (fisier, ?b, n)"
    using 1(1) 2 by (simp add: COMMAND_GENERIC_REVERSE_def del: append.simps length_append)
  then obtain n where n: "COMMAND_GENERIC_REVERSE ?p 1 (soffset s) (slen s) = Some (fisier, ?b, n)"
    unfolding p by blast
  have h: "hd ?p = READ" "READ \<noteq> LS" by (simp_all add: READ_def LS_def packet_of_def)
  obtain b' where b': "put_bytes 0 [READ, 0] ?b = Some b'" by (simp add: put_bytes_def)
  have "serve f (s\<lparr>sbuffer := ?p\<rparr>) =
      Some \<lparr>sent_packet = ?b, shown = [(fisier, soffset s, slen s)], after_buffer = b'\<rparr>"
    using h n b' by (simp add: serve_def Let_def del: append.simps)
  then have "\<exists>r. serve f (s\<lparr>sbuffer := ?p\<rparr>) = Some r \<and> shown r = [(fisier, soffset s, slen s)] \<and> sent_packet r = ?b"
    by simp
  moreover have "NUMBER_CONVERT_REVERSE ?b (length ?h) = Some (soffset s, length (?h @ field (dec_int (soffset s))))"
    using NUMBER_REVERSE [OF assms(4), of ?h] by simp
  moreover have "NUMBER_CONVERT_REVERSE ?b (length (?h @ field (dec_int (soffset s)))) =
      Some (slen s, length (?h @ field (dec_int (soffset s)) @ field (dec_int (slen s))))"
    using NUMBER_REVERSE [OF assms(5), of "?h @ field (dec_int (soffset s))" r2] by simp
  ultimately show ?thesis using r by auto
qed

theorem files_read_numbers_lost_witness:
  "\<exists>request r. read_request [102] 10 20 = Some request \<and>
     serve \<lparr>opendir = \<lambda>_. None, st_size = \<lambda>_. None\<rparr> \<lparr>sbuffer = request, soffset = 0, slen = 16, conns = [4], running = True\<rparr> = Some r \<and>
     shown r = [([102], 0, 16)]"
proof -
  have "string_ok [102]" "int32 10" "int32 20" "int32 0" "int32 16" by (simp_all add: string_ok_def int32_def)
  then show ?thesis
    using files_read_numbers_lost [of "[102]" 10 20
      "\<lparr>sbuffer = [], soffset = 0, slen = 16, conns = [4], running = True\<rparr>"
      "\<lparr>opendir = \<lambda>_. None, st_size = \<lambda>_. None\<rparr>"] by auto
qed

end
