(* ===== verification/FilesSockets.thy ===== *)
theory FilesSockets
  imports FilesProtocolCorrect
begin

text \<open>
  The sockets of the file server (\<open>os_wrapper.c\<close>), the whole run of its client (\<open>main\<close> in \<open>client.c\<close>) and the start of the
  server. The kernel is the descriptors it has open, the peers of the connected ones and the ports of the listening ones; what
  a call answers is an argument. TCP delivers the bytes of a packet in any number of pieces.
\<close>

section \<open>The calls\<close>

record kernel =
  open_fds :: "nat list"
  peers :: "(nat \<times> bytes \<times> bytes) list"
  listening :: "(nat \<times> bytes \<times> nat) list"

definition SERVER_PORT :: "16 word" where "SERVER_PORT = 8192"
definition SLOTS :: nat where "SLOTS = 100"

text \<open>Network byte order.\<close>

definition htons :: "16 word \<Rightarrow> bytes" where "htons p = [ucast (drop_bit 8 p), ucast p]"

definition init_sockets :: int where "init_sockets = 0"

definition new_socket :: "nat option \<Rightarrow> kernel \<Rightarrow> int \<times> kernel" where
  "new_socket socket k = (case socket of
     None \<Rightarrow> (- 1, k)
   | Some fd \<Rightarrow> (int fd, k\<lparr>open_fds := fd # open_fds k\<rparr>))"

definition os_close :: "int \<Rightarrow> kernel \<Rightarrow> kernel" where
  "os_close fd k = k\<lparr>open_fds := filter (\<lambda>d. int d \<noteq> fd) (open_fds k), peers := filter (\<lambda>(d, _). int d \<noteq> fd) (peers k),
     listening := filter (\<lambda>(d, _). int d \<noteq> fd) (listening k)\<rparr>"

text \<open>A socket that cannot be shut down is not closed.\<close>

definition close_socket :: "bool \<Rightarrow> int \<Rightarrow> kernel \<Rightarrow> int \<times> kernel" where
  "close_socket shutdown_ok sockfd k =
     (if \<not> shutdown_ok then (- 1, k) else (if sockfd < 0 then - 1 else 0, os_close sockfd k))"

definition connect_to_server :: "(bytes \<Rightarrow> bytes option) \<Rightarrow> bool \<Rightarrow> int \<Rightarrow> bytes \<Rightarrow> 16 word \<Rightarrow> kernel \<Rightarrow> int \<times> kernel" where
  "connect_to_server gethostbyname connect_ok server_socket ip port k = (case gethostbyname ip of
     None \<Rightarrow> (- 1, k)
   | Some addr \<Rightarrow>
       if \<not> connect_ok then (- 1, k)
       else (0, k\<lparr>peers := (nat server_socket, addr, htons port) # peers k\<rparr>))"

text \<open>The answers of the calls of \<open>build_server\<close>, which ends the process if the option cannot be set.\<close>

record build_answers =
  a_socket :: "nat option"
  a_setsockopt :: bool
  a_bind :: bool
  a_listen :: bool

datatype built = Exits kernel | Returns int kernel

definition build_server :: "build_answers \<Rightarrow> 16 word \<Rightarrow> nat \<Rightarrow> kernel \<Rightarrow> built" where
  "build_server a port slots k = (case a_socket a of
     None \<Rightarrow> Returns (- 1) k
   | Some fd \<Rightarrow>
       let k = k\<lparr>open_fds := fd # open_fds k\<rparr> in
       if \<not> a_setsockopt a then Exits k
       else if \<not> a_bind a then Returns (- 1) k
       else if \<not> a_listen a then Returns (- 1) k
       else Returns (int fd) (k\<lparr>listening := (fd, htons port, slots) # listening k\<rparr>))"

text \<open>\<open>my_recv\<close> gives what \<open>recv\<close> stores at the start of the buffer, at most \<open>max_size\<close> bytes; \<open>None\<close> is an error.\<close>

definition my_recv :: "bytes option \<Rightarrow> nat \<Rightarrow> bytes \<Rightarrow> (int \<times> bytes) option" where
  "my_recv recv max_size buffer = (case recv of
     None \<Rightarrow> Some (- 1, buffer)
   | Some bs \<Rightarrow> do {
       b \<leftarrow> put_bytes 0 (take max_size bs) buffer;
       Some (int (length (take max_size bs)), b)
     })"

section \<open>The client\<close>

record net =
  net_socket :: "nat option"
  net_host :: "bytes \<Rightarrow> bytes option"
  net_connect :: bool
  net_recv :: "bytes option"
  net_shutdown :: bool

text \<open>What a run of the client does; \<open>None\<close> is a failed assertion.\<close>

record client_run =
  success :: bool
  sent :: "bytes list"
  listing :: "ls_answer option"
  sockets :: kernel

definition SEND_AND_RECEIVE :: "bytes \<Rightarrow> net \<Rightarrow> bytes option" where
  "SEND_AND_RECEIVE buffer n = do { (r, b) \<leftarrow> my_recv (net_recv n) MAX_PACKET empty_packet; Some b }"

definition client_request :: "client_op \<Rightarrow> bytes \<Rightarrow> int \<Rightarrow> int \<Rightarrow> bytes \<Rightarrow> bytes option" where
  "client_request op fisier offset len line = (case op of
     Op_ls \<Rightarrow> ls_request fisier
   | Op_read \<Rightarrow> read_request fisier offset len
   | Op_write \<Rightarrow> write_request fisier offset len line)"

definition files_client_main :: "bytes list \<Rightarrow> bytes \<Rightarrow> net \<Rightarrow> kernel \<Rightarrow> client_run option" where
  "files_client_main args line n k = (case client_args args of
     None \<Rightarrow> Some \<lparr>success = False, sent = [], listing = None, sockets = k\<rparr>
   | Some (op, fisier, offset, len) \<Rightarrow>
       let (server_socket, k) = new_socket (net_socket n) k;
           (r, k) = connect_to_server (net_host n) (net_connect n) server_socket (hd args) SERVER_PORT k in do {
         request \<leftarrow> client_request op fisier offset len line;
         buffer \<leftarrow> SEND_AND_RECEIVE request n;
         shown \<leftarrow> (if op = Op_ls then map_option Some (ls_answer buffer) else Some None);
         let (r, k) = close_socket (net_shutdown n) server_socket k;
         Some \<lparr>success = True, sent = [request], listing = shown, sockets = k\<rparr>
       })"

section \<open>The start of the server\<close>

text \<open>The descriptors that \<open>epoll\<close> watches when the loop begins; adding one that is not open fails and is not noticed.\<close>

definition files_server_start :: "build_answers \<Rightarrow> kernel \<Rightarrow> (nat list \<times> kernel) option" where
  "files_server_start a k = (case build_server a SERVER_PORT SLOTS k of
     Exits k \<Rightarrow> None
   | Returns fd k \<Rightarrow> Some (if fd < 0 then [0] else [0, nat fd], k))"

section \<open>Properties\<close>


text \<open>A server with two files in the directory.\<close>

definition two_files :: files where
  "two_files = \<lparr>opendir = (\<lambda>d. Some [[97], [98]]), st_size = (\<lambda>n. Some (int (length n) * 100))\<rparr>"

definition idle_server :: file_server where
  "idle_server = \<lparr>sbuffer = empty_packet, soffset = 0, slen = 16, conns = [4], running = True\<rparr>"

definition connected_net :: net where
  "connected_net = \<lparr>net_socket = Some 3, net_host = (\<lambda>ip. Some [127, 0, 0, 1]), net_connect = True, net_recv = None, net_shutdown = True\<rparr>"

definition no_sockets :: kernel where "no_sockets = \<lparr>open_fds = [0, 1, 2], peers = [], listening = []\<rparr>"


text \<open>C2: A request that arrives in two pieces, the second of which does not begin like a request, ends the server with a failed
  assertion: every piece is taken for a request.\<close>

theorem server_split_request:
  assumes "running s" "length request = MAX_PACKET" "0 < i" "i < MAX_PACKET" "request ! i \<notin> {LS, READ, WRITE}"
  shows "server_loop f [Data fd (take i request), Data fd (drop i request)] s = None"
proof -
  have hd: "b \<noteq> [] \<and> hd b = request ! i" if "put_bytes 0 (drop i request) b0 = Some b" for b b0
    using that assms(2,4) by (auto simp: put_bytes_def hd_append hd_drop_conv_nth split: if_splits)
  have "server_turn f (Data fd (drop i request)) s' = None" for s'
    using hd [of "sbuffer s'"] assms(5) by (auto simp: server_turn_def serve_def Let_def split: bind_splits)
  moreover have "running s'" if "server_turn f (Data fd bs) s = Some (r, s')" for bs r s'
    using that assms(1) by (auto simp: server_turn_def split: bind_splits)
  ultimately show ?thesis using assms(1) by (auto split: bind_splits)
qed

theorem server_split_request_witness:
  "\<exists>request. ls_request [100, 47] = Some request \<and>
     server_loop f [Data fd (take 10 request), Data fd (drop 10 request)]
       \<lparr>sbuffer = empty_packet, soffset = 0, slen = 16, conns = [fd], running = True\<rparr> = None"
proof -
  obtain request where r: "ls_request [100, 47] = Some request"
    by (auto simp: ls_request_def put_bytes_def empty_packet_def MAX_PACKET_def)
  then have "length request = MAX_PACKET" "request ! 10 = 0"
    by (auto simp: ls_request_def put_bytes_def empty_packet_def MAX_PACKET_def nth_append split: if_splits)
  then show ?thesis
    using r server_split_request [of _ request 10 f fd] by (auto simp: MAX_PACKET_def LS_def READ_def WRITE_def)
qed

text \<open>C3: The server listens on the port it was asked for exactly if all calls succeed; if binding or listening fails the socket
  stays open and the server goes on without it, watching the console only. A client that reads or writes a file
  without reaching the server ends with success.\<close>

theorem socket_errors:
  assumes "fd \<notin> set (open_fds k)"
  shows "files_server_start \<lparr>a_socket = Some fd, a_setsockopt = opt, a_bind = bound, a_listen = lst\<rparr> k =
      (if \<not> opt then None
       else if bound \<and> lst then Some ([0, fd], k\<lparr>open_fds := fd # open_fds k, listening := (fd, [0x20, 0], 100) # listening k\<rparr>)
       else Some ([0], k\<lparr>open_fds := fd # open_fds k\<rparr>)) \<and>
    (is_word op 0x72 0x64 \<and> read_request fisier (atoi off) (atoi len) = Some request \<longrightarrow>
      files_client_main [ip, op, fisier, off, len] line \<lparr>net_socket = Some fd, net_host = \<lambda>_. None, net_connect = False,
        net_recv = None, net_shutdown = False\<rparr> k =
      Some \<lparr>success = True, sent = [request], listing = None, sockets = k\<lparr>open_fds := fd # open_fds k\<rparr>\<rparr>)"
proof -
  have "htons SERVER_PORT = [0x20, 0]" by (simp add: htons_def SERVER_PORT_def)
  then show ?thesis
    by (auto simp: files_server_start_def build_server_def SLOTS_def files_client_main_def client_args_def new_socket_def connect_to_server_def
        client_request_def SEND_AND_RECEIVE_def my_recv_def close_socket_def Let_def)
qed

theorem socket_errors_witness:
  "files_server_start \<lparr>a_socket = Some 3, a_setsockopt = True, a_bind = False, a_listen = True\<rparr> no_sockets =
     Some ([0], no_sockets\<lparr>open_fds := [3, 0, 1, 2]\<rparr>)"
  using socket_errors [of 3 no_sockets True False True] by (simp add: no_sockets_def)

end
