(* ===== verification/Monitor.thy ===== *)
theory Monitor
  imports Base
begin

text \<open>
  The monitor of \<open>LibMonitor.cpp\<close>: its state with the semaphores its threads block on, and every
  call cut at the points where other threads can run. A thread between two such points is in the
  state \<open>at\<close>; a call takes it to the first one, \<open>resume\<close> to the next. The mutex is a default one
  of Linux: it does not know its owner, so any thread can unlock it. The callbacks of the
  test program are a log. Semaphores get a new number each; a freed one has no value.
\<close>

section \<open>State\<close>

definition SIGNAL_AND_WAIT :: int where "SIGNAL_AND_WAIT = 0"
definition SIGNAL_AND_CONTINUE :: int where "SIGNAL_AND_CONTINUE = 1"

datatype callback = IncEnter | DecEnter | IncSignal | DecSignal | IncWait | DecWait
  | IncCond int | DecCond int

datatype place =
    Running
  | Enter_busy
  | Enter_blocked nat
  | Enter_woken
  | Leave_unlock
  | Wait_unlock nat
  | Wait_blocked nat
  | Signal_unlock nat
  | Signal_blocked nat

record monitor =
  conditions :: int
  policy :: int
  destroyed :: bool
  entry_queue :: "nat list"
  signaled_queue :: "nat list"
  waiting_queue :: "nat list"
  conditions_queue :: "nat list list"
  mutex :: bool
  entered_threads :: "nat set"
  sems :: "nat \<Rightarrow> nat option"
  fresh_sem :: nat
  callbacks :: "callback list"
  at :: "nat \<Rightarrow> place"

text \<open>What a step comes to: undefined behaviour or a failed assertion, waiting, or a new state with
  the call's result if it has returned.\<close>

datatype 'a outcome = Fault | Blocked | Goes 'a "int option"

section \<open>Semaphores and the mutex\<close>

definition new_sem :: "'a monitor_scheme \<Rightarrow> nat \<times> 'a monitor_scheme" where
  "new_sem m = (fresh_sem m, m\<lparr>sems := (sems m)(fresh_sem m := Some 0), fresh_sem := fresh_sem m + 1\<rparr>)"

definition sem_post_m :: "nat \<Rightarrow> 'a monitor_scheme \<Rightarrow> 'a monitor_scheme option" where
  "sem_post_m sem m = (case sems m sem of
     None \<Rightarrow> None
   | Some v \<Rightarrow> Some (m\<lparr>sems := (sems m)(sem := Some (v + 1))\<rparr>))"

definition goto :: "nat \<Rightarrow> place \<Rightarrow> 'a monitor_scheme \<Rightarrow> 'a monitor_scheme" where
  "goto t p m = m\<lparr>at := (at m)(t := p)\<rparr>"

section \<open>Creating and destroying\<close>

text \<open>A negative number of conditions makes the vector's constructor throw.\<close>

datatype created = Null | Throws | Created monitor

definition new_monitor :: "int \<Rightarrow> int \<Rightarrow> monitor" where
  "new_monitor n p = \<lparr>conditions = n, policy = p, destroyed = False, entry_queue = [],
     signaled_queue = [], waiting_queue = [], conditions_queue = replicate (nat n) [], mutex = False,
     entered_threads = {}, sems = (\<lambda>_. None), fresh_sem = 0, callbacks = [], at = (\<lambda>_. Running)\<rparr>"

definition Create :: "int \<Rightarrow> int \<Rightarrow> created" where
  "Create n p =
     (if n < 0 \<and> p \<noteq> SIGNAL_AND_WAIT \<and> p \<noteq> SIGNAL_AND_CONTINUE then Null
      else if n < 0 then Throws
      else Created (new_monitor n p))"

text \<open>The memory is freed; \<open>destroyed\<close> says so, and every later use of it is a fault.\<close>

definition Destroy :: "'a monitor_scheme \<Rightarrow> 'a monitor_scheme outcome" where
  "Destroy m =
     (if destroyed m then Fault
      else if mutex m then Goes m (Some (-1))
      else Goes (m\<lparr>destroyed := True\<rparr>) (Some 0))"

section \<open>Scheduling\<close>

text \<open>\<open>planifica\<close> up to the unlocking of the mutex, which is the thread's next step.\<close>

function planifica :: "'a monitor_scheme \<Rightarrow> (bool \<times> 'a monitor_scheme) option" where
  "planifica m =
     (case waiting_queue m of
       sem # q \<Rightarrow> map_option (Pair True)
         (sem_post_m sem (m\<lparr>waiting_queue := q, callbacks := callbacks m @ [DecWait]\<rparr>))
     | [] \<Rightarrow>
       (case signaled_queue m of
         sem # q \<Rightarrow> planifica (m\<lparr>signaled_queue := q, waiting_queue := waiting_queue m @ [sem],
           callbacks := callbacks m @ [DecSignal, IncWait]\<rparr>)
       | [] \<Rightarrow>
         (case entry_queue m of
           sem # q \<Rightarrow> map_option (Pair True)
             (sem_post_m sem (m\<lparr>entry_queue := q, callbacks := callbacks m @ [DecEnter]\<rparr>))
         | [] \<Rightarrow> Some (False, m))))"
  by pat_completeness auto
termination by (relation "measure (\<lambda>m. length (signaled_queue m))") auto

declare planifica.simps [simp del]

definition unlock :: "'a monitor_scheme \<Rightarrow> 'a monitor_scheme" where
  "unlock m = m\<lparr>mutex := False\<rparr>"

text \<open>What \<open>Leave\<close>, \<open>Wait\<close> and \<open>Signal\<close> do with it.\<close>

definition schedule :: "nat \<Rightarrow> place \<Rightarrow> 'a monitor_scheme \<Rightarrow> 'a monitor_scheme outcome" where
  "schedule t p m = (case planifica m of None \<Rightarrow> Fault | Some (ok, m) \<Rightarrow> Goes (goto t p m) None)"

section \<open>The calls\<close>

definition Enter :: "nat \<Rightarrow> 'a monitor_scheme \<Rightarrow> 'a monitor_scheme outcome" where
  "Enter t m =
     (if destroyed m then Fault
      else if t \<in> entered_threads m then Goes m (Some (-1))
      else if \<not> mutex m
      then Goes (m\<lparr>mutex := True, entered_threads := insert t (entered_threads m)\<rparr>) (Some 0)
      else Goes (goto t Enter_busy m) None)"

definition Enter_push :: "nat \<Rightarrow> 'a monitor_scheme \<Rightarrow> 'a monitor_scheme outcome" where
  "Enter_push t m =
     (if destroyed m then Fault
      else let (sem, m) = new_sem m in
        Goes (goto t (Enter_blocked sem) (m\<lparr>entry_queue := entry_queue m @ [sem],
          callbacks := callbacks m @ [IncEnter]\<rparr>)) None)"

definition Enter_lock :: "nat \<Rightarrow> 'a monitor_scheme \<Rightarrow> 'a monitor_scheme outcome" where
  "Enter_lock t m =
     (if destroyed m then Fault
      else if mutex m then Blocked
      else Goes (goto t Running (m\<lparr>mutex := True, entered_threads := insert t (entered_threads m)\<rparr>)) (Some 0))"

definition Leave :: "nat \<Rightarrow> 'a monitor_scheme \<Rightarrow> 'a monitor_scheme outcome" where
  "Leave t m =
     (if destroyed m then Fault
      else if t \<notin> entered_threads m then Goes m (Some (-1))
      else schedule t Leave_unlock (m\<lparr>entered_threads := entered_threads m - {t}\<rparr>))"

definition Wait :: "nat \<Rightarrow> int \<Rightarrow> 'a monitor_scheme \<Rightarrow> 'a monitor_scheme outcome" where
  "Wait t c m =
     (if destroyed m then Fault
      else if c \<ge> conditions m then Goes m (Some (-1))
      else if c < 0 then Fault
      else let (sem, m) = new_sem m in
        schedule t (Wait_unlock sem) (m\<lparr>
          conditions_queue := (conditions_queue m)[nat c := conditions_queue m ! nat c @ [sem]],
          callbacks := callbacks m @ [IncCond c]\<rparr>))"

text \<open>The end of \<open>Signal\<close> and \<open>Broadcast\<close>; they differ in what they return for another policy.\<close>

definition signal_end :: "nat \<Rightarrow> int \<Rightarrow> 'a monitor_scheme \<Rightarrow> 'a monitor_scheme outcome" where
  "signal_end t other m =
     (if policy m = SIGNAL_AND_WAIT
      then let (sem, m) = new_sem m in
        schedule t (Signal_unlock sem) (m\<lparr>signaled_queue := signaled_queue m @ [sem],
          callbacks := callbacks m @ [IncSignal]\<rparr>)
      else if policy m = SIGNAL_AND_CONTINUE then Goes m (Some 0)
      else Goes m (Some other))"

text \<open>The first thread that waits for a condition becomes ready.\<close>

definition signal_one :: "int \<Rightarrow> 'a monitor_scheme \<Rightarrow> 'a monitor_scheme" where
  "signal_one c m = (case conditions_queue m ! nat c of
     [] \<Rightarrow> m
   | sem # q \<Rightarrow> m\<lparr>conditions_queue := (conditions_queue m)[nat c := q],
       waiting_queue := waiting_queue m @ [sem], callbacks := callbacks m @ [DecCond c, IncWait]\<rparr>)"

definition Signal :: "nat \<Rightarrow> int \<Rightarrow> 'a monitor_scheme \<Rightarrow> 'a monitor_scheme outcome" where
  "Signal t c m =
     (if destroyed m then Fault
      else if c \<ge> conditions m then Goes m (Some (-1))
      else if c < 0 then Fault
      else signal_end t 0 (signal_one c m))"

text \<open>The loop of \<open>Broadcast\<close>, over the semaphores in the condition's queue.\<close>

fun broadcast_loop :: "int \<Rightarrow> nat list \<Rightarrow> 'a monitor_scheme \<Rightarrow> 'a monitor_scheme" where
  "broadcast_loop c [] m = m"
| "broadcast_loop c (sem # q) m = broadcast_loop c q (m\<lparr>
     conditions_queue := (conditions_queue m)[nat c := q],
     waiting_queue := waiting_queue m @ [sem], callbacks := callbacks m @ [IncWait, DecCond c]\<rparr>)"

definition Broadcast :: "nat \<Rightarrow> int \<Rightarrow> 'a monitor_scheme \<Rightarrow> 'a monitor_scheme outcome" where
  "Broadcast t c m =
     (if destroyed m then Fault
      else if c \<ge> conditions m then Goes m (Some (-1))
      else if c < 0 then Fault
      else signal_end t (-1) (broadcast_loop c (conditions_queue m ! nat c) m))"

section \<open>Going on with a call\<close>

definition unlock_step :: "nat \<Rightarrow> place \<Rightarrow> int option \<Rightarrow> 'a monitor_scheme \<Rightarrow> 'a monitor_scheme outcome" where
  "unlock_step t p r m = (if destroyed m then Fault else Goes (goto t p (unlock m)) r)"

text \<open>\<open>sem_wait\<close>, after which every caller destroys and frees its semaphore.\<close>

definition wait_step :: "nat \<Rightarrow> nat \<Rightarrow> place \<Rightarrow> int option \<Rightarrow> 'a monitor_scheme \<Rightarrow> 'a monitor_scheme outcome" where
  "wait_step t sem p r m = (case sems m sem of
     None \<Rightarrow> Fault
   | Some v \<Rightarrow> if v = 0 then Blocked else Goes (goto t p (m\<lparr>sems := (sems m)(sem := None)\<rparr>)) r)"

definition resume :: "nat \<Rightarrow> 'a monitor_scheme \<Rightarrow> 'a monitor_scheme outcome" where
  "resume t m = (case at m t of
     Running \<Rightarrow> Blocked
   | Enter_busy \<Rightarrow> Enter_push t m
   | Enter_blocked sem \<Rightarrow> wait_step t sem Enter_woken None m
   | Enter_woken \<Rightarrow> Enter_lock t m
   | Leave_unlock \<Rightarrow> unlock_step t Running (Some 0) m
   | Wait_unlock sem \<Rightarrow> unlock_step t (Wait_blocked sem) None m
   | Wait_blocked sem \<Rightarrow> wait_step t sem Running (Some 0) m
   | Signal_unlock sem \<Rightarrow> unlock_step t (Signal_blocked sem) None m
   | Signal_blocked sem \<Rightarrow> wait_step t sem Running (Some 0) m)"

section \<open>Runs\<close>

datatype mcall = Do_enter | Do_leave | Do_wait int | Do_signal int | Do_broadcast int | Do_destroy

fun call :: "nat \<Rightarrow> mcall \<Rightarrow> 'a monitor_scheme \<Rightarrow> 'a monitor_scheme outcome" where
  "call t Do_enter m = Enter t m"
| "call t Do_leave m = Leave t m"
| "call t (Do_wait c) m = Wait t c m"
| "call t (Do_signal c) m = Signal t c m"
| "call t (Do_broadcast c) m = Broadcast t c m"
| "call t Do_destroy m = Destroy m"

text \<open>A thread that is not in a call starts one of those allowed; a thread in a call goes on.\<close>

definition move :: "nat \<Rightarrow> mcall option \<Rightarrow> 'a monitor_scheme \<Rightarrow> 'a monitor_scheme outcome" where
  "move t c m = (case c of
     Some c \<Rightarrow> if at m t = Running then call t c m else Blocked
   | None \<Rightarrow> resume t m)"

inductive reached :: "mcall set \<Rightarrow> 'a monitor_scheme \<Rightarrow> 'a monitor_scheme \<Rightarrow> bool"
  for C m where
  start: "reached C m m"
| step: "reached C m m1 \<Longrightarrow> move t c m1 = Goes m2 r \<Longrightarrow> set_option c \<subseteq> C \<Longrightarrow> reached C m m2"

fun steps :: "(nat \<times> mcall option) list \<Rightarrow> 'a monitor_scheme \<Rightarrow> 'a monitor_scheme outcome" where
  "steps [] m = Goes m None"
| "steps ((t, c) # ms) m = (case move t c m of Goes m r \<Rightarrow> steps ms m | x \<Rightarrow> x)"

lemma steps_reached:
  "steps ms m1 = Goes m2 r \<Longrightarrow> reached C m m1 \<Longrightarrow> \<Union> (set_option ` snd ` set ms) \<subseteq> C \<Longrightarrow> reached C m m2"
  by (induction ms m1 rule: steps.induct) (auto split: outcome.splits intro: reached.step)

end
