(* ===== verification/MonitorCorrect.thy ===== *)
theory MonitorCorrect
  imports Monitor "HOL-Library.Multiset"
begin

text \<open>
  What holds in every run of the monitor: its semaphores and queues, its callbacks, the order in
  which threads are woken; and when its threads exclude each other.
\<close>

lemmas call_defs = Enter_def Leave_def Wait_def Signal_def Broadcast_def Destroy_def Enter_push_def
  Enter_lock_def signal_end_def schedule_def unlock_step_def wait_step_def unlock_def goto_def new_sem_def

section \<open>Semaphores\<close>

definition queued :: "'a monitor_scheme \<Rightarrow> nat list" where
  "queued m = waiting_queue m @ signaled_queue m @ entry_queue m @ concat (conditions_queue m)"

fun sem_of :: "place \<Rightarrow> nat option" where
  "sem_of (Enter_blocked x) = Some x"
| "sem_of (Wait_unlock x) = Some x"
| "sem_of (Wait_blocked x) = Some x"
| "sem_of (Signal_unlock x) = Some x"
| "sem_of (Signal_blocked x) = Some x"
| "sem_of Running = None"
| "sem_of Enter_busy = None"
| "sem_of Enter_woken = None"
| "sem_of Leave_unlock = None"

text \<open>A semaphore belongs to one thread; it is down exactly while it is in a queue, and in one only.\<close>

definition sems_ok :: "nat list \<Rightarrow> (nat \<Rightarrow> nat option) \<Rightarrow> (nat \<Rightarrow> nat option) \<Rightarrow> nat \<Rightarrow> bool" where
  "sems_ok q S b n \<longleftrightarrow> distinct q \<and> (\<forall>x. x \<in> set q \<longleftrightarrow> S x = Some 0) \<and>
     (\<forall>x v. S x = Some v \<longrightarrow> v \<le> 1) \<and> (\<forall>x. (S x = None) = (\<forall>t. b t \<noteq> Some x)) \<and>
     (\<forall>t u x. b t = Some x \<longrightarrow> b u = Some x \<longrightarrow> t = u) \<and> (\<forall>x\<ge>n. S x = None)"

definition holds :: "(nat \<Rightarrow> place) \<Rightarrow> nat \<Rightarrow> nat option" where
  "holds a = (\<lambda>t. sem_of (a t))"

lemma holds_upd [simp]: "holds (a(t := p)) = (holds a)(t := sem_of p)"
  by (auto simp: holds_def)

lemma sems_ok_perm: "mset q = mset q' \<Longrightarrow> sems_ok q S b n = sems_ok q' S b n"
  using mset_eq_imp_distinct_iff [of q q'] mset_eq_setD [of q q'] by (simp add: sems_ok_def)

lemma sems_ok_post: "sems_ok (x # q) S b n \<Longrightarrow> sems_ok q (S(x := Some (Suc 0))) b n"
  unfolding sems_ok_def by (auto simp: not_le) (metis not_less option.simps(3))+

lemma sems_ok_new:
  assumes "sems_ok q S b n" "b t = None"
  shows "sems_ok (n # q) (S(n := Some 0)) (b(t \<mapsto> n)) (Suc n)"
proof -
  have "S n = None" using assms(1) by (auto simp: sems_ok_def)
  moreover from this have "\<And>u. b u \<noteq> Some n" using assms(1) unfolding sems_ok_def by blast
  ultimately show ?thesis
    using assms unfolding sems_ok_def by (auto simp: Suc_le_eq) (metis option.simps(3))
qed

lemma sems_ok_same [simp]: "b t = v \<Longrightarrow> sems_ok q S (b(t := v)) n = sems_ok q S b n"
  by (simp add: fun_upd_idem)

lemma sems_ok_free:
  assumes "sems_ok q S b n" "b t = Some x" "S x = Some v" "v \<noteq> 0"
  shows "sems_ok q (S(x := None)) (b(t := None)) n"
  using assms unfolding sems_ok_def by auto (metis option.inject)

lemma sems_ok_head: "sems_ok (x # q) S b n \<Longrightarrow> S x = Some 0"
  unfolding sems_ok_def by (metis list.set_intros(1))

section \<open>Scheduling\<close>

text \<open>The ready threads in the order in which \<open>planifica\<close> takes them.\<close>

definition ready :: "'a monitor_scheme \<Rightarrow> nat list" where
  "ready m = waiting_queue m @ signaled_queue m @ entry_queue m"

text \<open>It wakes the first ready thread, and touches nothing but queues, semaphores and callbacks.\<close>

definition core :: "'a monitor_scheme \<Rightarrow> 'a monitor_scheme" where
  "core m = m\<lparr>waiting_queue := [], signaled_queue := [], entry_queue := [], sems := \<lambda>_. None, callbacks := []\<rparr>"

lemma core_eqD:
  assumes "core m' = core m"
  shows "conditions m' = conditions m" "policy m' = policy m" "destroyed m' = destroyed m"
    "conditions_queue m' = conditions_queue m" "mutex m' = mutex m"
    "entered_threads m' = entered_threads m" "fresh_sem m' = fresh_sem m" "at m' = at m"
    "monitor.more m' = monitor.more m"
  using assms by (cases m, cases m', simp add: core_def)+

lemma planifica_nothing: "ready m = [] \<Longrightarrow> planifica m = Some (False, m)"
  by (subst planifica.simps) (simp add: ready_def)

lemma planifica_first:
  assumes "ready m = x # q" "sems m x = Some v"
  shows "\<exists>m'. planifica m = Some (True, m') \<and> ready m' = q \<and> sems m' = (sems m)(x := Some (Suc v)) \<and> core m' = core m"
proof (cases "waiting_queue m")
  case Nil
  show ?thesis
  proof (cases "signaled_queue m")
    case Nil
    then show ?thesis
      using assms \<open>waiting_queue m = []\<close>
      by (subst planifica.simps) (auto simp: ready_def sem_post_m_def core_def)
  next
    case (Cons y s)
    then show ?thesis
      using assms \<open>waiting_queue m = []\<close>
      by (subst planifica.simps, subst planifica.simps) (auto simp: ready_def sem_post_m_def core_def)
  qed
next
  case (Cons y w)
  then show ?thesis
    using assms by (subst planifica.simps) (auto simp: ready_def sem_post_m_def core_def)
qed

section \<open>The invariant\<close>

definition sound :: "'a monitor_scheme \<Rightarrow> bool" where
  "sound m \<longleftrightarrow> sems_ok (queued m) (sems m) (holds (at m)) (fresh_sem m) \<and>
     length (conditions_queue m) = nat (conditions m) \<and> \<not> destroyed m"

lemma queued_ready: "queued m = ready m @ concat (conditions_queue m)"
  by (simp add: queued_def ready_def)

lemma mset_concat_update:
  "i < length xs \<Longrightarrow> mset (concat (xs[i := ys])) + mset (xs ! i) = mset (concat xs) + mset ys"
  by (induction xs arbitrary: i) (auto split: nat.splits simp: ac_simps)

lemma planifica_sound:
  assumes "sems_ok (queued m) (sems m) b n"
  shows "\<exists>ok m'. planifica m = Some (ok, m') \<and> core m' = core m \<and> sems_ok (queued m') (sems m') b n"
proof (cases "ready m")
  case Nil
  show ?thesis
    by (intro exI [of _ False] exI [of _ m]) (simp add: assms planifica_nothing [OF Nil])
next
  case (Cons x q)
  then have ok: "sems_ok (x # q @ concat (conditions_queue m)) (sems m) b n"
    using assms by (simp add: queued_ready)
  from planifica_first [OF Cons sems_ok_head [OF ok]] obtain m' where
    "planifica m = Some (True, m')" "ready m' = q" "sems m' = (sems m)(x := Some (Suc 0))" "core m' = core m"
    by blast
  then show ?thesis
    using sems_ok_post [OF ok] core_eqD(4) [of m' m]
    by (intro exI [of _ True] exI [of _ m']) (simp add: queued_ready)
qed

lemma schedule_sound:
  assumes "sems_ok (queued m) (sems m) ((holds (at m))(t := sem_of p)) (fresh_sem m)"
    "length (conditions_queue m) = nat (conditions m)" "\<not> destroyed m"
  shows "\<exists>m'. schedule t p m = Goes m' None \<and> sound m'"
proof -
  obtain ok m' where p: "planifica m = Some (ok, m')" and c: "core m' = core m"
    and s: "sems_ok (queued m') (sems m') ((holds (at m))(t := sem_of p)) (fresh_sem m)"
    using planifica_sound [OF assms(1)] by blast
  have "queued (goto t p m') = queued m'" by (simp add: goto_def queued_def)
  with s show ?thesis using assms(2,3) core_eqD [OF c] by (simp add: schedule_def sound_def p goto_def)
qed

lemma sound_goto: "sound m \<Longrightarrow> sem_of p = sem_of (at m t) \<Longrightarrow> sound (goto t p m)"
  using sems_ok_same [of "holds (at m)" t "sem_of p" "queued m"]
  by (simp add: sound_def goto_def queued_def) (simp add: holds_def)

lemma sound_frame:
  "sound (m\<lparr>mutex := l\<rparr>) = sound m" "sound (m\<lparr>entered_threads := e\<rparr>) = sound m"
  by (simp_all add: sound_def queued_def)

text \<open>Semaphores that move from one queue to another.\<close>

lemma sound_moved:
  assumes "sound m" "mset (queued m') = mset (queued m)" "sems m' = sems m" "at m' = at m"
    "fresh_sem m' = fresh_sem m" "conditions m' = conditions m" "destroyed m' = destroyed m"
    "length (conditions_queue m') = length (conditions_queue m)"
  shows "sound m'"
  using assms sems_ok_perm [of "queued m'" "queued m"] by (simp add: sound_def)

text \<open>A new semaphore that is put into a queue.\<close>

lemma new_sem_ok:
  assumes "sound m" "sem_of (at m t) = None" "mset q = add_mset (fresh_sem m) (mset (queued m))"
  shows "sems_ok q ((sems m)(fresh_sem m := Some 0)) ((holds (at m))(t \<mapsto> fresh_sem m)) (Suc (fresh_sem m))"
proof -
  have "sems_ok (fresh_sem m # queued m) ((sems m)(fresh_sem m := Some 0))
      ((holds (at m))(t \<mapsto> fresh_sem m)) (Suc (fresh_sem m))"
    using assms by (auto simp: sound_def holds_def intro!: sems_ok_new)
  then show ?thesis using sems_ok_perm [of q "fresh_sem m # queued m"] assms(3) by simp
qed

section \<open>Every call keeps it\<close>

definition goes_sound :: "'a monitor_scheme outcome \<Rightarrow> bool" where
  "goes_sound out \<longleftrightarrow> (\<exists>m r. out = Goes m r \<and> sound m)"

lemma goes_soundI [simp]: "goes_sound (Goes m r) = sound m"
  by (simp add: goes_sound_def)

lemma Enter_sound: "sound m \<Longrightarrow> at m t = Running \<Longrightarrow> goes_sound (Enter t m)"
  by (auto simp: Enter_def sound_frame sound_goto) (simp_all add: sound_def)

lemma Leave_sound:
  assumes "sound m" "at m t = Running" shows "goes_sound (Leave t m)"
proof -
  let ?m = "m\<lparr>entered_threads := entered_threads m - {t}\<rparr>"
  have "sound ?m" using assms by (simp add: sound_frame)
  moreover have "holds (at m) t = None" using assms(2) by (simp add: holds_def)
  ultimately show ?thesis
    using assms schedule_sound [of ?m t Leave_unlock]
    by (auto simp: Leave_def sound_def goes_sound_def)
qed

lemma Wait_sound:
  assumes "sound m" "at m t = Running" "0 \<le> c" shows "goes_sound (Wait t c m)"
proof (cases "c \<ge> conditions m")
  case True
  then show ?thesis using assms by (auto simp: Wait_def sound_def goes_sound_def)
next
  case False
  then have i: "nat c < length (conditions_queue m)" using assms by (simp add: sound_def)
  define cq where "cq = (conditions_queue m)[nat c := conditions_queue m ! nat c @ [fresh_sem m]]"
  define m' where "m' = m\<lparr>sems := (sems m)(fresh_sem m := Some 0), fresh_sem := fresh_sem m + 1,
    conditions_queue := cq, callbacks := callbacks m @ [IncCond c]\<rparr>"
  have "mset (concat cq) = add_mset (fresh_sem m) (mset (concat (conditions_queue m)))"
    using mset_concat_update [OF i, of "conditions_queue m ! nat c @ [fresh_sem m]"] by (simp add: cq_def)
  then have "mset (queued m') = add_mset (fresh_sem m) (mset (queued m))"
    by (simp add: queued_def m'_def)
  from new_sem_ok [OF assms(1) _ this, of t]
  have "sems_ok (queued m') (sems m') ((holds (at m'))(t := sem_of (Wait_unlock (fresh_sem m)))) (fresh_sem m')"
    using assms(2) by (simp add: m'_def)
  from schedule_sound [OF this] have "goes_sound (schedule t (Wait_unlock (fresh_sem m)) m')"
    using assms(1) by (auto simp: m'_def cq_def sound_def goes_sound_def)
  then show ?thesis
    using assms False by (simp add: Wait_def new_sem_def Let_def sound_def m'_def cq_def)
qed

lemma signal_end_sound:
  assumes "sound m" "at m t = Running" shows "goes_sound (signal_end t r m)"
proof (cases "policy m = SIGNAL_AND_WAIT")
  case False
  then show ?thesis using assms by (simp add: signal_end_def)
next
  case True
  define m' where "m' = m\<lparr>sems := (sems m)(fresh_sem m := Some 0), fresh_sem := fresh_sem m + 1,
    signaled_queue := signaled_queue m @ [fresh_sem m], callbacks := callbacks m @ [IncSignal]\<rparr>"
  have "mset (queued m') = add_mset (fresh_sem m) (mset (queued m))"
    by (simp add: queued_def m'_def)
  from new_sem_ok [OF assms(1) _ this, of t]
  have "sems_ok (queued m') (sems m') ((holds (at m'))(t := sem_of (Signal_unlock (fresh_sem m)))) (fresh_sem m')"
    using assms(2) by (simp add: m'_def)
  from schedule_sound [OF this] have "goes_sound (schedule t (Signal_unlock (fresh_sem m)) m')"
    using assms(1) by (auto simp: m'_def sound_def goes_sound_def)
  then show ?thesis
    using True by (simp add: signal_end_def new_sem_def Let_def m'_def)
qed

lemma signal_one_frame [simp]:
  "sems (signal_one c m) = sems m" "at (signal_one c m) = at m"
  "fresh_sem (signal_one c m) = fresh_sem m" "conditions (signal_one c m) = conditions m"
  "destroyed (signal_one c m) = destroyed m" "policy (signal_one c m) = policy m"
  "length (conditions_queue (signal_one c m)) = length (conditions_queue m)"
  "entered_threads (signal_one c m) = entered_threads m" "mutex (signal_one c m) = mutex m"
  "monitor.more (signal_one c m) = monitor.more m"
  by (simp_all add: signal_one_def split: list.split)

lemma signal_one_queued:
  "nat c < length (conditions_queue m) \<Longrightarrow> mset (queued (signal_one c m)) = mset (queued m)"
  using mset_concat_update [of "nat c" "conditions_queue m" "tl (conditions_queue m ! nat c)"]
  by (auto simp: signal_one_def queued_def split: list.split)

text \<open>The loop of \<open>Broadcast\<close> empties the condition's queue into the waiting queue.\<close>

lemma broadcast_loop:
  "conditions_queue m ! nat c = q \<Longrightarrow> nat c < length (conditions_queue m) \<Longrightarrow>
   \<exists>cs. broadcast_loop c q m = m\<lparr>conditions_queue := (conditions_queue m)[nat c := []],
     waiting_queue := waiting_queue m @ q, callbacks := cs\<rparr>"
proof (induction c q m rule: broadcast_loop.induct)
  case (1 c m)
  then have "(conditions_queue m)[nat c := []] = conditions_queue m" by (metis list_update_id)
  then show ?case by (intro exI [of _ "callbacks m"]) simp
next
  case (2 c sem q m)
  then show ?case by auto
qed

lemma broadcast_loop_sound:
  assumes "sound m" "nat c < length (conditions_queue m)"
  shows "sound (broadcast_loop c (conditions_queue m ! nat c) m)"
    "at (broadcast_loop c (conditions_queue m ! nat c) m) = at m"
proof -
  obtain cs where b: "broadcast_loop c (conditions_queue m ! nat c) m =
      m\<lparr>conditions_queue := (conditions_queue m)[nat c := []],
        waiting_queue := waiting_queue m @ conditions_queue m ! nat c, callbacks := cs\<rparr>"
    using broadcast_loop [OF refl assms(2)] by blast
  show "sound (broadcast_loop c (conditions_queue m ! nat c) m)"
    using mset_concat_update [OF assms(2), of "[]"] by (intro sound_moved [OF assms(1)]) (simp_all add: b queued_def add.commute)
  show "at (broadcast_loop c (conditions_queue m ! nat c) m) = at m" by (simp add: b)
qed

text \<open>The calls a run may make: no condition below 0, and nobody destroys the monitor.\<close>

fun in_bounds :: "mcall \<Rightarrow> bool" where
  "in_bounds (Do_wait c) = (0 \<le> c)"
| "in_bounds (Do_signal c) = (0 \<le> c)"
| "in_bounds (Do_broadcast c) = (0 \<le> c)"
| "in_bounds Do_destroy = False"
| "in_bounds c = True"

lemma call_sound:
  assumes "sound m" "at m t = Running" "in_bounds c"
  shows "goes_sound (call t c m)"
proof -
  have d: "\<not> destroyed m" and len: "\<And>c. 0 \<le> c \<Longrightarrow> c < conditions m \<Longrightarrow> nat c < length (conditions_queue m)"
    using assms(1) by (simp_all add: sound_def)
  show ?thesis
  proof (cases c)
    case (Do_signal i)
    then have "0 \<le> i" using assms(3) by simp
    then show ?thesis
      using Do_signal d len [of i] sound_moved [OF assms(1) signal_one_queued, of i] assms(1,2)
        signal_end_sound [of "signal_one i m" t]
      by (auto simp: Signal_def goes_sound_def)
  next
    case (Do_broadcast i)
    then have "0 \<le> i" using assms(3) by simp
    then show ?thesis
      using Do_broadcast d len [of i] broadcast_loop_sound [OF assms(1), of i] assms(1,2)
        signal_end_sound [of "broadcast_loop i (conditions_queue m ! nat i) m" t]
      by (auto simp: Broadcast_def goes_sound_def)
  qed (use assms Enter_sound Leave_sound Wait_sound in auto)
qed

lemma wait_step_sound:
  assumes "sound m" "sem_of (at m t) = Some x" "sem_of p = None"
  shows "wait_step t x p r m \<noteq> Fault" "wait_step t x p r m = Goes m' r' \<Longrightarrow> sound m'"
proof -
  have b: "holds (at m) t = Some x" using assms(2) by (simp add: holds_def)
  have s: "sems_ok (queued m) (sems m) (holds (at m)) (fresh_sem m)" using assms(1) by (simp add: sound_def)
  have "sems m x \<noteq> None" using s b unfolding sems_ok_def by blast
  then obtain v where v: "sems m x = Some v" by blast
  show "wait_step t x p r m \<noteq> Fault" by (simp add: wait_step_def v)
  have q: "queued (goto t p (m\<lparr>sems := S\<rparr>)) = queued m" for S by (simp add: goto_def queued_def)
  show "sound m'" if "wait_step t x p r m = Goes m' r'"
    using that sems_ok_free [OF s b v] assms(1,3)
    by (auto simp: wait_step_def v sound_def q split: if_splits) (auto simp: goto_def)
qed

lemma resume_sound:
  assumes "sound m"
  shows "resume t m \<noteq> Fault" "resume t m = Goes m' r \<Longrightarrow> sound m'"
proof -
  have d: "\<not> destroyed m" using assms by (simp add: sound_def)
  have push: "goes_sound (Enter_push t m)" if "at m t = Enter_busy"
  proof -
    define m' where "m' = goto t (Enter_blocked (fresh_sem m)) (m\<lparr>sems := (sems m)(fresh_sem m := Some 0),
      fresh_sem := fresh_sem m + 1, entry_queue := entry_queue m @ [fresh_sem m],
      callbacks := callbacks m @ [IncEnter]\<rparr>)"
    have "mset (queued m') = add_mset (fresh_sem m) (mset (queued m))"
      by (simp add: queued_def m'_def goto_def)
    from new_sem_ok [OF assms _ this, of t] have "sound m'"
      using assms that by (simp add: sound_def) (simp add: m'_def goto_def)
    then show ?thesis by (simp add: Enter_push_def d new_sem_def m'_def)
  qed
  have unl: "sound (goto t p (unlock m))" if "sem_of p = sem_of (at m t)" for p
    using that assms by (intro sound_goto) (simp_all add: unlock_def sound_frame)
  show "resume t m \<noteq> Fault"
    using push wait_step_sound(1) [OF assms] d
    by (auto simp: resume_def Enter_lock_def unlock_step_def goes_sound_def split: place.split)
  have lock: "sound (goto t Running (m\<lparr>mutex := True, entered_threads := insert t (entered_threads m)\<rparr>))"
    if "at m t = Enter_woken"
    using that assms by (intro sound_goto) (simp_all add: sound_frame)
  show "sound m'" if "resume t m = Goes m' r"
  proof (cases "at m t")
    case Enter_busy
    then show ?thesis using that push by (simp add: resume_def)
  next
    case Enter_woken
    then show ?thesis using that lock by (auto simp: resume_def Enter_lock_def split: if_splits)
  next
    case (Enter_blocked x)
    then show ?thesis
      using that wait_step_sound(2) [OF assms, of t x Enter_woken None m' r] by (simp add: resume_def)
  next
    case (Wait_blocked x)
    then show ?thesis
      using that wait_step_sound(2) [OF assms, of t x Running "Some 0" m' r] by (simp add: resume_def)
  next
    case (Signal_blocked x)
    then show ?thesis
      using that wait_step_sound(2) [OF assms, of t x Running "Some 0" m' r] by (simp add: resume_def)
  qed (use that unl d in \<open>auto simp: resume_def unlock_step_def\<close>)
qed

lemma move_sound:
  assumes "sound m" "\<forall>x\<in>set_option c. in_bounds x"
  shows "move t c m \<noteq> Fault" "move t c m = Goes m' r \<Longrightarrow> sound m'"
proof -
  have "goes_sound (call t x m)" if "c = Some x" "at m t = Running" for x
    using call_sound [OF assms(1) that(2)] assms(2) that(1) by simp
  then show "move t c m \<noteq> Fault" "move t c m = Goes m' r \<Longrightarrow> sound m'"
    using resume_sound [OF assms(1), of t] assms
    by (auto simp: move_def goes_sound_def split: option.splits if_splits)
qed

lemma new_monitor_sound: "sound (new_monitor n p)"
  by (simp add: sound_def new_monitor_def queued_def sems_ok_def holds_def)

lemma reached_sound:
  assumes "reached C m m'" "sound m" "\<forall>c\<in>C. in_bounds c"
  shows "sound m'"
  using assms
proof (induction rule: reached.induct)
  case (step m1 t c m2 r)
  then show ?case using move_sound(2) [of m1 c t m2 r] by auto
qed simp

section \<open>What a step leaves alone\<close>

lemma planifica_core: "planifica m = Some (ok, m') \<Longrightarrow> core m' = core m"
proof (induction m rule: planifica.induct)
  case (1 m)
  note p = "1.prems" [unfolded planifica.simps [of m]]
  show ?case
  proof (cases "waiting_queue m")
    case Cons
    then show ?thesis using p by (auto simp: sem_post_m_def core_def split: option.splits)
  next
    case w: Nil
    show ?thesis
    proof (cases "signaled_queue m")
      case Nil
      then show ?thesis using p w by (auto simp: sem_post_m_def core_def split: list.splits option.splits)
    next
      case (Cons x q)
      then show ?thesis using "1.IH" [OF w Cons] p w by (simp add: core_def)
    qed
  qed
qed

definition step_frame :: "nat \<Rightarrow> 'a monitor_scheme \<Rightarrow> 'a monitor_scheme \<Rightarrow> bool" where
  "step_frame t m m' \<longleftrightarrow> conditions m' = conditions m \<and> policy m' = policy m \<and>
     length (conditions_queue m') = length (conditions_queue m) \<and>
     monitor.more m' = monitor.more m \<and> (\<forall>u. u \<noteq> t \<longrightarrow> at m' u = at m u)"

lemma schedule_core:
  assumes "schedule t p m = Goes m' r"
  shows "r = None \<and> at m' = (at m)(t := p) \<and> mutex m' = mutex m \<and> entered_threads m' = entered_threads m \<and>
    conditions_queue m' = conditions_queue m \<and> step_frame t m m'"
proof -
  obtain ok m1 where p: "planifica m = Some (ok, m1)" "m' = goto t p m1" "r = None"
    using assms by (auto simp: schedule_def split: option.splits)
  show ?thesis using core_eqD [OF planifica_core [OF p(1)]] by (simp add: p goto_def step_frame_def)
qed

lemma signal_end_core:
  "signal_end t i m = Goes m' r \<Longrightarrow> mutex m' = mutex m \<and> entered_threads m' = entered_threads m \<and> step_frame t m m' \<and>
     (at m' = at m \<or> at m' = (at m)(t := Signal_unlock (fresh_sem m)) \<and> r = None)"
  (is "_ \<Longrightarrow> ?thesis")
proof (cases "policy m = SIGNAL_AND_WAIT")
  case False
  then show "signal_end t i m = Goes m' r \<Longrightarrow> ?thesis" by (auto simp: signal_end_def step_frame_def split: if_splits)
next
  case True
  define m1 where "m1 = m\<lparr>sems := (sems m)(fresh_sem m := Some 0), fresh_sem := fresh_sem m + 1,
    signaled_queue := signaled_queue m @ [fresh_sem m], callbacks := callbacks m @ [IncSignal]\<rparr>"
  have f: "step_frame t m m' = step_frame t m1 m'" "mutex m1 = mutex m"
    "entered_threads m1 = entered_threads m" "at m1 = at m" by (simp_all add: m1_def step_frame_def)
  assume "signal_end t i m = Goes m' r"
  then have "schedule t (Signal_unlock (fresh_sem m)) m1 = Goes m' r"
    using True by (simp add: signal_end_def new_sem_def m1_def)
  from schedule_core [OF this] show ?thesis by (simp add: f)
qed

lemma broadcast_loop_frame: "step_frame t m m1 \<Longrightarrow> step_frame t m (broadcast_loop c q m1)"
  by (induction c q m1 rule: broadcast_loop.induct) (simp_all add: step_frame_def)

lemma planifica_nonempty:
  "waiting_queue m = x # q \<Longrightarrow> planifica m = map_option (Pair True)
     (sem_post_m x (m\<lparr>waiting_queue := q, callbacks := callbacks m @ [DecWait]\<rparr>))"
  "waiting_queue m = [] \<Longrightarrow> signaled_queue m = x # q \<Longrightarrow> planifica m =
     planifica (m\<lparr>signaled_queue := q, waiting_queue := [x], callbacks := callbacks m @ [DecSignal, IncWait]\<rparr>)"
  "waiting_queue m = [] \<Longrightarrow> signaled_queue m = [] \<Longrightarrow> entry_queue m = x # q \<Longrightarrow> planifica m = map_option (Pair True)
     (sem_post_m x (m\<lparr>entry_queue := q, callbacks := callbacks m @ [DecEnter]\<rparr>))"
  "waiting_queue m = [] \<Longrightarrow> signaled_queue m = [] \<Longrightarrow> entry_queue m = [] \<Longrightarrow> planifica m = Some (False, m)"
  by (simp_all add: planifica.simps [of m])

lemmas run_defs = call_defs move_def resume_def new_monitor_def signal_one_def sem_post_m_def planifica_nonempty
  SIGNAL_AND_WAIT_def SIGNAL_AND_CONTINUE_def



section \<open>The callbacks count the queues\<close>

definition counts :: "callback \<Rightarrow> callback \<Rightarrow> 'a monitor_scheme \<Rightarrow> nat \<Rightarrow> bool" where
  "counts i d m n \<longleftrightarrow> count_list (callbacks m) i = count_list (callbacks m) d + n"

definition callbacks_ok :: "'a monitor_scheme \<Rightarrow> bool" where
  "callbacks_ok m \<longleftrightarrow> counts IncEnter DecEnter m (length (entry_queue m)) \<and>
     counts IncSignal DecSignal m (length (signaled_queue m)) \<and>
     counts IncWait DecWait m (length (waiting_queue m)) \<and>
     (\<forall>i<length (conditions_queue m). counts (IncCond (int i)) (DecCond (int i)) m (length (conditions_queue m ! i)))"

lemmas count_defs = callbacks_ok_def counts_def count_list_append

lemma planifica_callbacks: "planifica m = Some (ok, m') \<Longrightarrow> callbacks_ok m \<Longrightarrow> callbacks_ok m'"
proof (induction m rule: planifica.induct)
  case (1 m)
  note p = "1.prems"(1) [unfolded planifica.simps [of m]]
  show ?case
  proof (cases "waiting_queue m")
    case Cons
    then show ?thesis using p "1.prems"(2) by (auto simp: sem_post_m_def count_defs split: option.splits)
  next
    case w: Nil
    show ?thesis
    proof (cases "signaled_queue m")
      case Nil
      then show ?thesis
        using p w "1.prems"(2) by (auto simp: sem_post_m_def count_defs split: list.splits option.splits)
    next
      case (Cons x q)
      have "callbacks_ok (m\<lparr>signaled_queue := q, waiting_queue := waiting_queue m @ [x],
          callbacks := callbacks m @ [DecSignal, IncWait]\<rparr>)"
        using w Cons "1.prems"(2) by (auto simp: count_defs)
      then show ?thesis using p w Cons by (intro "1.IH" [OF w Cons]) simp_all
    qed
  qed
qed

lemma callbacks_frame [simp]:
  "callbacks_ok (goto t p m) = callbacks_ok m" "callbacks_ok (m\<lparr>mutex := l\<rparr>) = callbacks_ok m"
  "callbacks_ok (m\<lparr>sems := S\<rparr>) = callbacks_ok m" "callbacks_ok (m\<lparr>fresh_sem := f\<rparr>) = callbacks_ok m"
  "callbacks_ok (m\<lparr>entered_threads := e\<rparr>) = callbacks_ok m" "callbacks_ok (m\<lparr>destroyed := d\<rparr>) = callbacks_ok m"
  by (simp_all add: goto_def callbacks_ok_def counts_def)

lemma schedule_callbacks: "schedule t p m = Goes m' r \<Longrightarrow> callbacks_ok m \<Longrightarrow> callbacks_ok m'"
  using planifica_callbacks by (auto simp: schedule_def split: option.splits)

text \<open>A new semaphore at the end of a queue, with its callback.\<close>

lemma callbacks_push:
  assumes "callbacks_ok m"
  shows "callbacks_ok (m\<lparr>sems := S, fresh_sem := f, signaled_queue := signaled_queue m @ [x],
      callbacks := callbacks m @ [IncSignal]\<rparr>)"
    "callbacks_ok (m\<lparr>sems := S, fresh_sem := f, entry_queue := entry_queue m @ [x],
      callbacks := callbacks m @ [IncEnter]\<rparr>)"
    "0 \<le> c \<Longrightarrow> nat c < length (conditions_queue m) \<Longrightarrow> callbacks_ok (m\<lparr>sems := S, fresh_sem := f,
      conditions_queue := (conditions_queue m)[nat c := conditions_queue m ! nat c @ [x]],
      callbacks := callbacks m @ [IncCond c]\<rparr>)"
  using assms by (auto simp: count_defs nth_list_update)

lemma signal_end_callbacks: "signal_end t i m = Goes m' r \<Longrightarrow> callbacks_ok m \<Longrightarrow> callbacks_ok m'"
  by (auto simp: signal_end_def new_sem_def callbacks_push split: if_splits elim!: schedule_callbacks)

lemma signal_one_callbacks:
  "nat c < length (conditions_queue m) \<Longrightarrow> 0 \<le> c \<Longrightarrow> callbacks_ok m \<Longrightarrow> callbacks_ok (signal_one c m)"
  by (auto simp: signal_one_def count_defs nth_list_update split: list.split)

lemma broadcast_loop_callbacks:
  "conditions_queue m ! nat c = q \<Longrightarrow> nat c < length (conditions_queue m) \<Longrightarrow> 0 \<le> c \<Longrightarrow> callbacks_ok m \<Longrightarrow>
   callbacks_ok (broadcast_loop c q m)"
proof (induction c q m rule: broadcast_loop.induct)
  case (2 c sem q m)
  have "callbacks_ok (m\<lparr>conditions_queue := (conditions_queue m)[nat c := q],
     waiting_queue := waiting_queue m @ [sem], callbacks := callbacks m @ [IncWait, DecCond c]\<rparr>)"
    using "2.prems" by (auto simp: count_defs nth_list_update)
  then show ?case using 2 by simp
qed simp

lemma call_callbacks:
  assumes "call t c m = Goes m' r" "callbacks_ok m" "length (conditions_queue m) = nat (conditions m)"
  shows "callbacks_ok m'"
proof (cases c)
  case Do_enter
  then show ?thesis using assms by (auto simp: Enter_def split: if_splits)
next
  case Do_leave
  then show ?thesis using assms by (auto simp: Leave_def split: if_splits elim!: schedule_callbacks)
next
  case (Do_wait i)
  then show ?thesis
    using assms by (auto simp: Wait_def new_sem_def callbacks_push split: if_splits elim!: schedule_callbacks)
next
  case (Do_signal i)
  then show ?thesis
    using assms by (auto simp: Signal_def signal_one_callbacks split: if_splits elim!: signal_end_callbacks)
next
  case (Do_broadcast i)
  then show ?thesis
    using assms by (auto simp: Broadcast_def broadcast_loop_callbacks split: if_splits elim!: signal_end_callbacks)
next
  case Do_destroy
  then show ?thesis using assms by (auto simp: Destroy_def split: if_splits)
qed

lemma resume_callbacks: "resume t m = Goes m' r \<Longrightarrow> callbacks_ok m \<Longrightarrow> callbacks_ok m'"
  by (auto simp: resume_def Enter_push_def Enter_lock_def unlock_step_def wait_step_def new_sem_def
    unlock_def callbacks_push split: place.splits if_splits option.splits)

lemma step_frame_refl: "step_frame t m m"
  by (simp add: step_frame_def)

lemma call_frame:
  assumes "call t c m = Goes m' r"
  shows "step_frame t m m'"
proof (cases c)
  case (Do_wait i)
  define m1 where "m1 = m\<lparr>sems := (sems m)(fresh_sem m := Some 0), fresh_sem := fresh_sem m + 1,
    conditions_queue := (conditions_queue m)[nat i := conditions_queue m ! nat i @ [fresh_sem m]],
    callbacks := callbacks m @ [IncCond i]\<rparr>"
  have "step_frame t m m' = step_frame t m1 m'" by (simp add: m1_def step_frame_def)
  moreover have "m' = m \<or> schedule t (Wait_unlock (fresh_sem m)) m1 = Goes m' r"
    using assms Do_wait by (auto simp: Wait_def new_sem_def m1_def split: if_splits)
  ultimately show ?thesis using schedule_core step_frame_refl by metis
next
  case Do_leave
  have "step_frame t m m' = step_frame t (m\<lparr>entered_threads := entered_threads m - {t}\<rparr>) m'"
    by (simp add: step_frame_def)
  then show ?thesis using assms Do_leave schedule_core step_frame_refl by (fastforce simp: Leave_def split: if_splits)
next
  case (Do_signal i)
  have "step_frame t m m' = step_frame t (signal_one i m) m'" by (simp add: step_frame_def)
  then show ?thesis
    using assms Do_signal signal_end_core step_frame_refl by (fastforce simp: Signal_def split: if_splits)
next
  case (Do_broadcast i)
  let ?b = "broadcast_loop i (conditions_queue m ! nat i) m"
  have "step_frame t m m' = step_frame t ?b m'"
    using broadcast_loop_frame [OF step_frame_refl, of t m i "conditions_queue m ! nat i"]
    by (simp add: step_frame_def)
  then show ?thesis
    using assms Do_broadcast signal_end_core step_frame_refl by (fastforce simp: Broadcast_def split: if_splits)
qed (use assms in \<open>auto simp: Enter_def Destroy_def goto_def step_frame_def split: if_splits\<close>)

lemma resume_frame: "resume t m = Goes m' r \<Longrightarrow> step_frame t m m'"
  by (auto simp: resume_def Enter_push_def Enter_lock_def unlock_step_def wait_step_def new_sem_def
    unlock_def goto_def step_frame_def split: place.splits if_splits option.splits)

lemma move_frame:
  "move t c m = Goes m' r \<Longrightarrow> step_frame t m m'"
  using call_frame resume_frame by (auto simp: move_def split: option.splits if_splits)

lemma move_callbacks:
  "move t c m = Goes m' r \<Longrightarrow> callbacks_ok m \<Longrightarrow> length (conditions_queue m) = nat (conditions m) \<Longrightarrow> callbacks_ok m'"
  using call_callbacks resume_callbacks by (auto simp: move_def split: option.splits if_splits)

text \<open>
  In every run of a new monitor the callbacks account for the queues: how often the callback for
  entering a queue has been made, less how often the one for leaving it, is the length of the queue,
  for the entry queue, the signaled and the waiting queue and the queue of each condition.
\<close>

theorem monitor_callbacks:
  assumes "Create n p = Created m0" "reached C m0 m"
  shows "count_list (callbacks m) IncEnter = count_list (callbacks m) DecEnter + length (entry_queue m) \<and>
    count_list (callbacks m) IncSignal = count_list (callbacks m) DecSignal + length (signaled_queue m) \<and>
    count_list (callbacks m) IncWait = count_list (callbacks m) DecWait + length (waiting_queue m) \<and>
    (\<forall>i<nat n. count_list (callbacks m) (IncCond (int i)) =
       count_list (callbacks m) (DecCond (int i)) + length (conditions_queue m ! i))"
proof -
  have m0: "m0 = new_monitor n p" using assms(1) by (auto simp: Create_def split: if_splits)
  have "callbacks_ok m \<and> length (conditions_queue m) = nat (conditions m) \<and> conditions m = n"
    using assms(2)
  proof (induction rule: reached.induct)
    case start
    then show ?case by (simp add: m0 new_monitor_def count_defs)
  next
    case (step m1 t c m2 r)
    then show ?case using move_frame [OF step(2)] move_callbacks [OF step(2)] by (simp add: step_frame_def)
  qed
  then show ?thesis by (simp add: count_defs)
qed

theorem monitor_callbacks_witness:
  "\<exists>m. reached {Do_enter} (new_monitor 1 1) m \<and> entry_queue m = [0] \<and>
     count_list (callbacks m) IncEnter = count_list (callbacks m) DecEnter + 1"
proof -
  have c: "Create 1 1 = Created (new_monitor 1 1)" by (simp add: Create_def)
  obtain m where s: "steps [(3, Some Do_enter), (4, Some Do_enter), (4, None)] (new_monitor 1 1) = Goes m None"
    and q: "entry_queue m = [0]" by (simp add: run_defs)
  have r: "reached {Do_enter} (new_monitor 1 1) m" by (rule steps_reached [OF s reached.start]) simp
  from monitor_callbacks [OF c r] r q show ?thesis by auto
qed

end
