(* ===== verification/MonitorRuns.thy ===== *)
theory MonitorRuns
  imports MonitorCorrect
begin

text \<open>
  When the threads of a monitor exclude each other, and when not: with entering and leaving alone
  they do, with conditions two of them can be inside; and a thread can wait for ever to enter a
  monitor that nobody is in.
\<close>

definition inside :: "'a monitor_scheme \<Rightarrow> nat \<Rightarrow> bool" where
  "inside m t \<longleftrightarrow> t \<in> entered_threads m \<and> at m t = Running"

section \<open>Entering and leaving\<close>

text \<open>Nobody has the mutex, or one thread is inside, or one is about to unlock at the end of \<open>Leave\<close>.\<close>

fun no_condition :: "place \<Rightarrow> bool" where
  "no_condition (Wait_unlock x) = False"
| "no_condition (Wait_blocked x) = False"
| "no_condition (Signal_unlock x) = False"
| "no_condition (Signal_blocked x) = False"
| "no_condition p = True"

definition exclusive :: "bool \<Rightarrow> nat set \<Rightarrow> (nat \<Rightarrow> place) \<Rightarrow> bool" where
  "exclusive l E a \<longleftrightarrow> (\<forall>t. no_condition (a t)) \<and>
     (\<not> l \<and> E = {} \<and> (\<forall>t. a t \<noteq> Leave_unlock) \<or>
      l \<and> (\<exists>h. E = {h} \<and> a h = Running \<and> (\<forall>t. a t \<noteq> Leave_unlock)) \<or>
      l \<and> E = {} \<and> (\<exists>h. \<forall>t. a t = Leave_unlock \<longleftrightarrow> t = h))"

lemma exclusive_enter:
  "exclusive False E a \<Longrightarrow> exclusive True (insert t E) (a(t := Running))"
  by (auto simp: exclusive_def)

lemma exclusive_leave:
  "exclusive l E a \<Longrightarrow> t \<in> E \<Longrightarrow> exclusive l (E - {t}) (a(t := Leave_unlock))"
  by (auto simp: exclusive_def)

lemma exclusive_unlock:
  "exclusive l E a \<Longrightarrow> a t = Leave_unlock \<Longrightarrow> exclusive False E (a(t := Running))"
  by (auto simp: exclusive_def)

lemma exclusive_goto:
  "exclusive l E a \<Longrightarrow> t \<notin> E \<Longrightarrow> a t \<noteq> Leave_unlock \<Longrightarrow> p \<noteq> Leave_unlock \<Longrightarrow> no_condition p \<Longrightarrow>
   exclusive l E (a(t := p))"
  by (auto simp: exclusive_def)

lemma exclusive_running: "exclusive l E a \<Longrightarrow> a t \<noteq> Running \<Longrightarrow> t \<notin> E"
  by (auto simp: exclusive_def)

lemma exclusive_move:
  assumes ex: "exclusive (mutex m) (entered_threads m) (at m)" and "move t c m = Goes m' r"
    "set_option c \<subseteq> {Do_enter, Do_leave}"
  shows "exclusive (mutex m') (entered_threads m') (at m')"
proof (cases c)
  case (Some d)
  then have run: "at m t = Running" and "d = Do_enter \<or> d = Do_leave" and call: "call t d m = Goes m' r"
    using assms(2,3) by (auto simp: move_def split: if_splits)
  then show ?thesis
  proof (elim disjE)
    assume "d = Do_enter"
    then show ?thesis
      using call ex run exclusive_enter [of "entered_threads m" "at m" t]
        exclusive_goto [OF ex, of t Enter_busy]
      by (auto simp: Enter_def goto_def fun_upd_idem split: if_splits)
  next
    assume d: "d = Do_leave"
    show ?thesis
    proof (cases "t \<in> entered_threads m")
      case True
      then have "schedule t Leave_unlock (m\<lparr>entered_threads := entered_threads m - {t}\<rparr>) = Goes m' r"
        using call d by (simp add: Leave_def split: if_splits)
      from schedule_core [OF this] show ?thesis using exclusive_leave [OF ex True] by simp
    qed (use call d ex in \<open>auto simp: Leave_def split: if_splits\<close>)
  qed
next
  case None
  have "no_condition (at m t)" using ex by (simp add: exclusive_def)
  moreover have r: "resume t m = Goes m' r" using None assms(2) by (simp add: move_def)
  ultimately consider "at m t = Enter_busy" | x where "at m t = Enter_blocked x"
    | "at m t = Enter_woken" | "at m t = Leave_unlock"
    by (cases "at m t") (auto simp: resume_def)
  then show ?thesis
  proof cases
    case 3
    then show ?thesis
      using r ex exclusive_enter [of "entered_threads m" "at m" t]
      by (auto simp: resume_def Enter_lock_def goto_def split: if_splits)
  next
    case 4
    then show ?thesis
      using r exclusive_unlock [OF ex] by (auto simp: resume_def unlock_step_def unlock_def goto_def split: if_splits)
  qed (use r exclusive_goto [OF ex exclusive_running [OF ex]] in
      \<open>auto simp: resume_def Enter_push_def wait_step_def new_sem_def goto_def split: if_splits option.splits\<close>)
qed

text \<open>
  C16: In every run in which threads only enter and leave, at most one thread is inside, and the
  mutex is taken exactly while one is inside or on its way out.
\<close>

theorem monitor_exclusion:
  assumes "Create n p = Created m0" "reached {Do_enter, Do_leave} m0 m"
  shows "(\<forall>t u. inside m t \<longrightarrow> inside m u \<longrightarrow> t = u) \<and>
    (mutex m \<longleftrightarrow> (\<exists>t. inside m t \<or> at m t = Leave_unlock))"
proof -
  have m0: "m0 = new_monitor n p" using assms(1) by (auto simp: Create_def split: if_splits)
  have "exclusive (mutex m) (entered_threads m) (at m)"
    using assms(2)
  proof (induction rule: reached.induct)
    case start
    then show ?case by (simp add: m0 new_monitor_def exclusive_def)
  next
    case (step m1 t c m2 r)
    show ?case by (rule exclusive_move [OF step(4) step(2,3)])
  qed
  then show ?thesis by (auto simp: exclusive_def inside_def)
qed

theorem monitor_exclusion_witness:
  "\<exists>m0 m. Create 1 1 = Created m0 \<and> reached {Do_enter, Do_leave} m0 m \<and> inside m 7 \<and>
     (\<forall>t u. inside m t \<longrightarrow> inside m u \<longrightarrow> t = u)"
proof -
  define m0 where "m0 = new_monitor 1 1"
  define m where "m = m0\<lparr>mutex := True, entered_threads := {7}\<rparr>"
  have c: "Create 1 1 = Created m0" by (simp add: Create_def m0_def)
  have "move 7 (Some Do_enter) m0 = Goes m (Some 0)"
    by (simp add: move_def Enter_def m0_def m_def new_monitor_def)
  then have r: "reached {Do_enter, Do_leave} m0 m" using reached.step [OF reached.start] by fastforce
  have "inside m 7" by (simp add: inside_def m_def m0_def new_monitor_def)
  with monitor_exclusion [OF c r] c r show ?thesis by blast
qed

section \<open>With conditions\<close>

text \<open>
  A thread that returns from \<open>Wait\<close> does not have the mutex, so another one can enter while
  it is inside: under either policy a run with one condition, in which every thread enters before it waits,
  signals or leaves, comes to a state with two threads inside.
\<close>

theorem monitor_two_inside:
  "(\<exists>m. steps [(1, Some Do_enter), (1, Some (Do_wait 0)), (1, None), (2, Some Do_enter), (2, Some (Do_signal 0)),
       (2, Some Do_leave), (2, None), (1, None), (2, Some Do_enter)]
     (new_monitor 1 SIGNAL_AND_CONTINUE) = Goes m None \<and> inside m 1 \<and> inside m 2) \<and>
   (\<exists>m. steps [(1, Some Do_enter), (1, Some (Do_wait 0)), (1, None), (2, Some Do_enter), (2, Some (Do_signal 0)),
       (2, None), (1, None), (3, Some Do_enter)]
     (new_monitor 1 SIGNAL_AND_WAIT) = Goes m None \<and> inside m 1 \<and> inside m 3)"
  by (simp add: run_defs inside_def)

section \<open>A thread that nobody wakes\<close>

text \<open>No thread is on its way to \<open>planifica\<close> or woken, and entering does not bring one there.\<close>

definition sleeps :: "'a monitor_scheme \<Rightarrow> nat \<Rightarrow> bool" where
  "sleeps m t \<longleftrightarrow> at m t = Running \<or> at m t = Enter_busy \<or>
     (\<exists>x. at m t = Enter_blocked x \<and> sems m x = Some 0 \<and> x < fresh_sem m)"

lemma sleeps_move:
  assumes s: "\<forall>v. sleeps m v" and "move t c m = Goes m' r" "set_option c \<subseteq> {Do_enter}" "at m u = Enter_blocked x"
  shows "sleeps m' v \<and> at m' u = Enter_blocked x"
proof (cases c)
  case (Some d)
  then have "at m t = Running" "Enter t m = Goes m' r" using assms(2,3) by (auto simp: move_def split: if_splits)
  then show ?thesis using s [rule_format, of v] assms(4) by (auto simp: Enter_def goto_def sleeps_def split: if_splits)
next
  case None
  then have r: "resume t m = Goes m' r" using assms(2) by (simp add: move_def)
  from s consider "at m t = Running" | "at m t = Enter_busy" | y where "at m t = Enter_blocked y" "sems m y = Some 0"
    unfolding sleeps_def by blast
  then show ?thesis
  proof cases
    case 2
    then have m': "m' = goto t (Enter_blocked (fresh_sem m)) (m\<lparr>sems := (sems m)(fresh_sem m := Some 0),
        fresh_sem := fresh_sem m + 1, entry_queue := entry_queue m @ [fresh_sem m],
        callbacks := callbacks m @ [IncEnter]\<rparr>)"
      using r by (simp add: resume_def Enter_push_def new_sem_def split: if_splits)
    show ?thesis using assms(4) 2 s [rule_format, of v] by (auto simp: m' goto_def sleeps_def) (metis less_irrefl)
  qed (use r in \<open>simp_all add: resume_def wait_step_def\<close>)
qed

text \<open>
  A thread that finds the mutex taken can be overtaken by the \<open>Leave\<close> that should wake it: a run
  comes to a state in which thread 2 is blocked although the mutex is free, nobody is inside and every other
  thread is outside, and it stays blocked whatever threads enter from then on.
\<close>

theorem monitor_lost_wakeup:
  "\<exists>m. steps [(1, Some Do_enter), (2, Some Do_enter), (1, Some Do_leave), (1, None), (2, None)]
      (new_monitor n p) = Goes m None \<and>
     at m 2 = Enter_blocked 0 \<and> \<not> mutex m \<and> entered_threads m = {} \<and> (\<forall>t. t \<noteq> 2 \<longrightarrow> at m t = Running) \<and>
     (\<forall>m'. reached {Do_enter} m m' \<longrightarrow> at m' 2 = Enter_blocked 0 \<and> resume 2 m' = Blocked)"
proof -
  obtain m where m: "steps [(1, Some Do_enter), (2, Some Do_enter), (1, Some Do_leave), (1, None), (2, None)]
      (new_monitor n p) = Goes m None" "at m 2 = Enter_blocked 0" "\<not> mutex m" "entered_threads m = {}"
      "\<forall>t. t \<noteq> 2 \<longrightarrow> at m t = Running" "sems m 0 = Some 0" "fresh_sem m = 1"
    by (simp add: run_defs)
  have "sleeps m v" for v using m(2,5,6,7) by (cases "v = 2") (simp_all add: sleeps_def)
  moreover have "(\<forall>v. sleeps m' v) \<and> at m' 2 = Enter_blocked 0" if "reached {Do_enter} m m'" for m'
    using that
  proof (induction rule: reached.induct)
    case start
    then show ?case using calculation m(2) by simp
  next
    case (step m1 t c m2 r)
    then show ?case using sleeps_move [OF _ step(2,3)] by blast
  qed
  moreover have "resume 2 m' = Blocked" if "sleeps m' 2" "at m' 2 = Enter_blocked 0" for m' :: monitor
    using that by (simp add: resume_def wait_step_def sleeps_def)
  ultimately show ?thesis using m(1-5) by blast
qed

theorem monitor_lost_wakeup_witness:
  "\<exists>m. steps [(1, Some Do_enter), (2, Some Do_enter), (1, Some Do_leave), (1, None), (2, None)]
      (new_monitor 2 1) = Goes m None \<and> \<not> mutex m \<and> at m 5 = Running \<and> resume 2 m = Blocked"
proof -
  obtain m where m: "steps [(1, Some Do_enter), (2, Some Do_enter), (1, Some Do_leave), (1, None), (2, None)]
      (new_monitor 2 1) = Goes m None" "\<not> mutex m" "\<forall>t. t \<noteq> 2 \<longrightarrow> at m t = Running"
      "\<forall>m'. reached {Do_enter} m m' \<longrightarrow> at m' 2 = Enter_blocked 0 \<and> resume 2 m' = Blocked"
    using monitor_lost_wakeup [of 2 1] by blast
  have "at m 5 = Running" using m(3) [rule_format, of 5] by simp
  moreover have "resume 2 m = Blocked" using m(4) [rule_format, OF reached.start] by blast
  ultimately show ?thesis using m(1,2) by blast
qed

end
