(* ===== verification/ReadersWriters.thy ===== *)
theory ReadersWriters
  imports Monitor
begin

text \<open>
  The readers and writers of \<open>LibRW.cpp\<close>, over the model of the monitor: its counters, and
  each of the four functions as the instructions between which other threads can run. A thread's
  \<open>pc\<close> is the instruction it does next once it is not in a call of the monitor. The results of the monitor's
  calls are ignored, as in the code.
\<close>

section \<open>State\<close>

datatype rw_pc =
    Outside
  | Read_check | Read_count | Read_wait | Read_woken | Read_in | Read_leave | Read_announce
  | Reading
  | Unread_out | Unread_wake | Unread_leave | Unread_announce
  | Write_check | Write_count | Write_wait | Write_woken | Write_in | Write_leave | Write_announce
  | Writing
  | Unwrite_out | Unwrite_wake | Unwrite_leave | Unwrite_announce

datatype announcement = AnnounceStartCit | AnnounceStopCit | AnnounceStartScrit | AnnounceStopScrit

record rw = monitor +
  nreaders :: int
  nwaitingreaders :: int
  nwriters :: int
  nwaitingwriters :: int
  announced :: "(nat \<times> announcement) list"
  pc :: "nat \<Rightarrow> rw_pc"

definition CreateRWMonitor :: created where
  "CreateRWMonitor = Create 2 SIGNAL_AND_CONTINUE"

definition GetNrConds :: int where "GetNrConds = 2"

definition rw_of :: "monitor \<Rightarrow> rw" where
  "rw_of m = monitor.extend m \<lparr>nreaders = 0, nwaitingreaders = 0, nwriters = 0, nwaitingwriters = 0,
     announced = [], pc = \<lambda>_. Outside\<rparr>"

definition ResetScritCit :: "rw \<Rightarrow> rw" where
  "ResetScritCit s = s\<lparr>nreaders := 0, nwaitingreaders := 0, nwriters := 0\<rparr>"

section \<open>Instructions\<close>

definition next_pc :: "nat \<Rightarrow> rw_pc \<Rightarrow> rw \<Rightarrow> rw" where
  "next_pc t p s = s\<lparr>pc := (pc s)(t := p)\<rparr>"

definition do_call :: "nat \<Rightarrow> mcall \<Rightarrow> rw_pc \<Rightarrow> rw \<Rightarrow> rw outcome" where
  "do_call t c p s = (case call t c s of Goes s r \<Rightarrow> Goes (next_pc t p s) None | x \<Rightarrow> x)"

definition announce :: "nat \<Rightarrow> announcement \<Rightarrow> rw_pc \<Rightarrow> rw \<Rightarrow> rw outcome" where
  "announce t a p s = Goes (next_pc t p (s\<lparr>announced := announced s @ [(t, a)]\<rparr>)) None"

definition StartCit :: "nat \<Rightarrow> rw \<Rightarrow> rw outcome" where
  "StartCit t s = (case pc s t of
     Outside \<Rightarrow> do_call t Do_enter Read_check s
   | Read_check \<Rightarrow> Goes (next_pc t (if nwriters s + nwaitingwriters s > 0 then Read_count else Read_in) s) None
   | Read_count \<Rightarrow> Goes (next_pc t Read_wait (s\<lparr>nwaitingreaders := nwaitingreaders s + 1\<rparr>)) None
   | Read_wait \<Rightarrow> do_call t (Do_wait 0) Read_woken s
   | Read_woken \<Rightarrow> Goes (next_pc t Read_check (s\<lparr>nwaitingreaders := nwaitingreaders s - 1\<rparr>)) None
   | Read_in \<Rightarrow> Goes (next_pc t Read_leave (s\<lparr>nreaders := nreaders s + 1\<rparr>)) None
   | Read_leave \<Rightarrow> do_call t Do_leave Read_announce s
   | Read_announce \<Rightarrow> announce t AnnounceStartCit Reading s
   | _ \<Rightarrow> Blocked)"

definition StopCit :: "nat \<Rightarrow> rw \<Rightarrow> rw outcome" where
  "StopCit t s = (case pc s t of
     Reading \<Rightarrow> do_call t Do_enter Unread_out s
   | Unread_out \<Rightarrow> Goes (next_pc t Unread_wake (s\<lparr>nreaders := nreaders s - 1\<rparr>)) None
   | Unread_wake \<Rightarrow>
       if nreaders s = 0 \<and> nwaitingwriters s > 0 then do_call t (Do_signal 1) Unread_leave s
       else Goes (next_pc t Unread_leave s) None
   | Unread_leave \<Rightarrow> do_call t Do_leave Unread_announce s
   | Unread_announce \<Rightarrow> announce t AnnounceStopCit Outside s
   | _ \<Rightarrow> Blocked)"

definition StartScrit :: "nat \<Rightarrow> rw \<Rightarrow> rw outcome" where
  "StartScrit t s = (case pc s t of
     Outside \<Rightarrow> do_call t Do_enter Write_check s
   | Write_check \<Rightarrow> Goes (next_pc t (if nreaders s + nwriters s > 0 then Write_count else Write_in) s) None
   | Write_count \<Rightarrow> Goes (next_pc t Write_wait (s\<lparr>nwaitingwriters := nwaitingwriters s + 1\<rparr>)) None
   | Write_wait \<Rightarrow> do_call t (Do_wait 1) Write_woken s
   | Write_woken \<Rightarrow> Goes (next_pc t Write_check (s\<lparr>nwaitingwriters := nwaitingwriters s - 1\<rparr>)) None
   | Write_in \<Rightarrow> Goes (next_pc t Write_leave (s\<lparr>nwriters := nwriters s + 1\<rparr>)) None
   | Write_leave \<Rightarrow> do_call t Do_leave Write_announce s
   | Write_announce \<Rightarrow> announce t AnnounceStartScrit Writing s
   | _ \<Rightarrow> Blocked)"

definition StopScrit :: "nat \<Rightarrow> rw \<Rightarrow> rw outcome" where
  "StopScrit t s = (case pc s t of
     Writing \<Rightarrow> do_call t Do_enter Unwrite_out s
   | Unwrite_out \<Rightarrow> Goes (next_pc t Unwrite_wake (s\<lparr>nwriters := nwriters s - 1\<rparr>)) None
   | Unwrite_wake \<Rightarrow>
       if nwaitingwriters s > 0 then do_call t (Do_signal 1) Unwrite_leave s
       else if nwaitingreaders s > 0 then do_call t (Do_broadcast 0) Unwrite_leave s
       else Goes (next_pc t Unwrite_leave s) None
   | Unwrite_leave \<Rightarrow> do_call t Do_leave Unwrite_announce s
   | Unwrite_announce \<Rightarrow> announce t AnnounceStopScrit Outside s
   | _ \<Rightarrow> Blocked)"

text \<open>A step of a thread: it goes on in the monitor's call it is in, or does the next instruction of the
  function named.\<close>

datatype rw_function = F_StartCit | F_StopCit | F_StartScrit | F_StopScrit

definition rw_function :: "rw_function \<Rightarrow> nat \<Rightarrow> rw \<Rightarrow> rw outcome" where
  "rw_function f = (case f of F_StartCit \<Rightarrow> StartCit | F_StopCit \<Rightarrow> StopCit
     | F_StartScrit \<Rightarrow> StartScrit | F_StopScrit \<Rightarrow> StopScrit)"

definition rw_move :: "nat \<Rightarrow> rw_function \<Rightarrow> rw \<Rightarrow> rw outcome" where
  "rw_move t f s = (if at s t = Running then rw_function f t s else resume t s)"

fun rw_steps :: "(nat \<times> rw_function) list \<Rightarrow> rw \<Rightarrow> rw outcome" where
  "rw_steps [] s = Goes s None"
| "rw_steps ((t, f) # ms) s = (case rw_move t f s of Goes s r \<Rightarrow> rw_steps ms s | x \<Rightarrow> x)"

text \<open>A thread is inside the monitor from the return of \<open>Enter\<close> or \<open>Wait\<close> to the next call that gives it up.\<close>

fun in_section :: "rw_pc \<Rightarrow> bool" where
  "in_section Outside = False"
| "in_section Read_announce = False"
| "in_section Reading = False"
| "in_section Unread_announce = False"
| "in_section Write_announce = False"
| "in_section Writing = False"
| "in_section Unwrite_announce = False"
| "in_section p = True"

definition rw_inside :: "rw \<Rightarrow> nat \<Rightarrow> bool" where
  "rw_inside s t \<longleftrightarrow> at s t = Running \<and> in_section (pc s t)"

end
