(* ===== verification/MonitorRule.thy ===== *)
theory MonitorRule
  imports Base
begin

text \<open>
  The rule by which programs with a monitor are verified: if only the thread inside changes the data, an
  assertion that it establishes there holds until it leaves, and an invariant that every section keeps holds
  whenever a thread comes in.
\<close>

text \<open>Runs in whose every state at most one thread is inside.\<close>

inductive alone_run :: "(nat \<Rightarrow> 's \<Rightarrow> 's \<Rightarrow> bool) \<Rightarrow> ('s \<Rightarrow> nat \<Rightarrow> bool) \<Rightarrow> 's \<Rightarrow> 's \<Rightarrow> bool"
  for step inside s where
  start: "alone_run step inside s s"
| step: "alone_run step inside s s1 \<Longrightarrow> step t s1 s2 \<Longrightarrow> (\<forall>u v. inside s2 u \<longrightarrow> inside s2 v \<longrightarrow> u = v) \<Longrightarrow>
    alone_run step inside s s2"

locale monitor_rule =
  fixes step :: "nat \<Rightarrow> 's \<Rightarrow> 's \<Rightarrow> bool"
    and inside :: "'s \<Rightarrow> nat \<Rightarrow> bool"
    and here :: "'s \<Rightarrow> nat \<Rightarrow> 'p"
    and data :: "'s \<Rightarrow> 'd"
    and pre :: "'p \<Rightarrow> 'd \<Rightarrow> bool"
    and inv :: "'d \<Rightarrow> bool"
    and ok :: "'s \<Rightarrow> bool"
  assumes stays_ok: "ok s \<Longrightarrow> step t s s' \<Longrightarrow> ok s'"
    and others: "ok s \<Longrightarrow> step t s s' \<Longrightarrow> u \<noteq> t \<Longrightarrow> here s' u = here s u \<and> (inside s' u \<longleftrightarrow> inside s u)"
    and outside: "ok s \<Longrightarrow> step t s s' \<Longrightarrow> \<not> inside s t \<Longrightarrow> data s' = data s"
    and comes_in: "ok s \<Longrightarrow> step t s s' \<Longrightarrow> \<not> inside s t \<Longrightarrow> inside s' t \<Longrightarrow> pre (here s' t) d"
    and works: "ok s \<Longrightarrow> step t s s' \<Longrightarrow> inside s t \<Longrightarrow> inv (data s) \<Longrightarrow> pre (here s t) (data s) \<Longrightarrow>
      inv (data s') \<and> (inside s' t \<longrightarrow> pre (here s' t) (data s'))"
begin

lemma alone_run_inv:
  assumes "alone_run step inside s s'" "ok s" "inv (data s)" "\<forall>t. \<not> inside s t"
  shows "ok s' \<and> inv (data s') \<and> (\<forall>t. inside s' t \<longrightarrow> pre (here s' t) (data s')) \<and>
    (\<forall>u v. inside s' u \<longrightarrow> inside s' v \<longrightarrow> u = v)"
  using assms
proof (induction rule: alone_run.induct)
  case start
  then show ?case by simp
next
  case (step s1 t s2)
  then have ok: "ok s1" and inv: "inv (data s1)" and pre: "\<And>u. inside s1 u \<Longrightarrow> pre (here s1 u) (data s1)"
    and one: "\<And>u v. inside s1 u \<Longrightarrow> inside s1 v \<Longrightarrow> u = v" by auto
  note laws = others [OF ok step(2)] outside [OF ok step(2)] comes_in [OF ok step(2)] works [OF ok step(2)]
  have "inv (data s2)" using laws inv pre by (cases "inside s1 t") auto
  moreover have "pre (here s2 u) (data s2)" if u: "inside s2 u" for u
  proof (cases "u = t")
    case True
    then show ?thesis using laws inv pre u by (cases "inside s1 t") auto
  next
    case False
    then have "inside s1 u" "here s2 u = here s1 u" using laws(1) u by auto
    moreover from this have "\<not> inside s1 t" using one False by blast
    ultimately show ?thesis using laws(2) pre by simp
  qed
  ultimately show ?case using step(3) stays_ok [OF ok step(2)] by blast
qed

end

end
