(* ===== verification/ReadersWritersCorrect.thy ===== *)
theory ReadersWritersCorrect
  imports ReadersWriters MonitorRule MonitorCorrect
begin

text \<open>
  The readers and writers exclude each other as long as the monitor's threads do, by the
  monitor rule; with the monitor as it is two writers can be writing at once.
\<close>

section \<open>What is counted\<close>

datatype role = Nothing | Reads | Waits_to_read | Writes | Waits_to_write

fun role_of :: "rw_pc \<Rightarrow> role" where
  "role_of Read_leave = Reads"
| "role_of Read_announce = Reads"
| "role_of Reading = Reads"
| "role_of Unread_out = Reads"
| "role_of Read_wait = Waits_to_read"
| "role_of Read_woken = Waits_to_read"
| "role_of Write_leave = Writes"
| "role_of Write_announce = Writes"
| "role_of Writing = Writes"
| "role_of Unwrite_out = Writes"
| "role_of Write_wait = Waits_to_write"
| "role_of Write_woken = Waits_to_write"
| "role_of p = Nothing"

text \<open>The data of the readers and writers: the counters, and each thread's role.\<close>

record rw_data =
  dreaders :: int
  dwaitingreaders :: int
  dwriters :: int
  dwaitingwriters :: int
  roles :: "nat \<Rightarrow> role"

definition rw_data_of :: "rw \<Rightarrow> rw_data" where
  "rw_data_of s = \<lparr>dreaders = nreaders s, dwaitingreaders = nwaitingreaders s, dwriters = nwriters s,
     dwaitingwriters = nwaitingwriters s, roles = \<lambda>t. role_of (pc s t)\<rparr>"

definition number :: "role \<Rightarrow> (nat \<Rightarrow> role) \<Rightarrow> int" where
  "number r f = int (card {t. f t = r})"

text \<open>The counters count; there is at most one writer, and no reader beside it.\<close>

definition rw_inv :: "rw_data \<Rightarrow> bool" where
  "rw_inv d \<longleftrightarrow> (\<forall>r. r \<noteq> Nothing \<longrightarrow> finite {t. roles d t = r}) \<and>
     dreaders d = number Reads (roles d) \<and> dwaitingreaders d = number Waits_to_read (roles d) \<and>
     dwriters d = number Writes (roles d) \<and> dwaitingwriters d = number Waits_to_write (roles d) \<and>
     dwriters d \<le> 1 \<and> (dwriters d = 1 \<longrightarrow> dreaders d = 0)"

text \<open>What a thread has found out inside.\<close>

fun rw_pre :: "rw_pc \<Rightarrow> rw_data \<Rightarrow> bool" where
  "rw_pre Read_in d = (dwriters d = 0)"
| "rw_pre Write_in d = (dreaders d = 0 \<and> dwriters d = 0)"
| "rw_pre p d = True"

lemma number_upd:
  assumes "\<forall>r. r \<noteq> Nothing \<longrightarrow> finite {t. f t = r}" "q \<noteq> Nothing"
  shows "number q (f(t := r)) = number q f - of_bool (f t = q) + of_bool (r = q)"
    "finite {u. (f(t := r)) u = q}"
proof -
  have fin: "finite {u. f u = q}" using assms by blast
  have e: "{u. (f(t := r)) u = q} = (if r = q then insert t {u. f u = q} else {u. f u = q} - {t})" by auto
  show "finite {u. (f(t := r)) u = q}" unfolding e using fin by simp
  show "number q (f(t := r)) = number q f - of_bool (f t = q) + of_bool (r = q)"
  proof -
    have "number q (f(t := r)) = int (card (if r = q then insert t {u. f u = q} else {u. f u = q} - {t}))"
      by (simp only: number_def e)
    also have "\<dots> = number q f - of_bool (f t = q) + of_bool (r = q)"
      using fin card_Suc_Diff1 [OF fin, of t] by (auto simp: number_def card_insert_if insert_absorb)
    finally show ?thesis .
  qed
qed

lemma number_ge: "finite {t. f t = q} \<Longrightarrow> f t = q \<Longrightarrow> number q f \<ge> 1"
  unfolding number_def by (metis (mono_tags) card_gt_0_iff emptyE mem_Collect_eq of_nat_0_less_iff zless_iff_Suc_zadd int_one_le_iff_zero_less)

lemma number_0: "number q f \<ge> 0" by (simp add: number_def)

section \<open>Calls do not touch the data\<close>

lemma more_eqD:
  fixes s s' :: rw
  assumes "monitor.more s' = monitor.more s"
  shows "nreaders s' = nreaders s" "nwaitingreaders s' = nwaitingreaders s" "nwriters s' = nwriters s"
    "nwaitingwriters s' = nwaitingwriters s" "pc s' = pc s"
  using assms by (cases s, cases s', simp)+

definition rw_step :: "nat \<Rightarrow> rw \<Rightarrow> rw \<Rightarrow> bool" where
  "rw_step t s s' \<longleftrightarrow> (\<exists>f r. rw_move t f s = Goes s' r)"

lemma do_call_effect:
  assumes "do_call t c p s = Goes s' r"
  shows "nreaders s' = nreaders s" "nwaitingreaders s' = nwaitingreaders s" "nwriters s' = nwriters s"
    "nwaitingwriters s' = nwaitingwriters s" "pc s' = (pc s)(t := p)" "u \<noteq> t \<Longrightarrow> at s' u = at s u"
proof -
  obtain s1 r1 where c: "call t c s = Goes s1 r1" and s': "s' = next_pc t p s1"
    using assms by (auto simp: do_call_def split: outcome.splits)
  from call_frame [OF c] have m: "monitor.more s1 = monitor.more s" and a: "\<And>u. u \<noteq> t \<Longrightarrow> at s1 u = at s u"
    by (simp_all add: step_frame_def)
  show "nreaders s' = nreaders s" "nwaitingreaders s' = nwaitingreaders s" "nwriters s' = nwriters s"
    "nwaitingwriters s' = nwaitingwriters s" "pc s' = (pc s)(t := p)" "u \<noteq> t \<Longrightarrow> at s' u = at s u"
    using more_eqD [OF m] a by (simp_all add: s' next_pc_def)
qed

lemma resume_effect:
  fixes s s' :: rw
  assumes "resume t s = Goes s' r"
  shows "nreaders s' = nreaders s" "nwaitingreaders s' = nwaitingreaders s" "nwriters s' = nwriters s"
    "nwaitingwriters s' = nwaitingwriters s" "pc s' = pc s" "u \<noteq> t \<Longrightarrow> at s' u = at s u"
proof -
  have m: "monitor.more s' = monitor.more s" and a: "\<And>u. u \<noteq> t \<Longrightarrow> at s' u = at s u"
    using resume_frame [OF assms] by (simp_all add: step_frame_def)
  show "nreaders s' = nreaders s" "nwaitingreaders s' = nwaitingreaders s" "nwriters s' = nwriters s"
    "nwaitingwriters s' = nwaitingwriters s" "pc s' = pc s" "u \<noteq> t \<Longrightarrow> at s' u = at s u"
    using more_eqD [OF m] a by simp_all
qed

section \<open>One instruction\<close>

text \<open>The counters follow the thread's role, and the thread goes on to \<open>p\<close>.\<close>

definition follows :: "nat \<Rightarrow> rw \<Rightarrow> rw_pc \<Rightarrow> rw \<Rightarrow> bool" where
  "follows t s p s' \<longleftrightarrow> pc s' = (pc s)(t := p) \<and> (\<forall>u. u \<noteq> t \<longrightarrow> at s' u = at s u) \<and>
     nreaders s' = nreaders s - of_bool (role_of (pc s t) = Reads) + of_bool (role_of p = Reads) \<and>
     nwaitingreaders s' = nwaitingreaders s - of_bool (role_of (pc s t) = Waits_to_read) + of_bool (role_of p = Waits_to_read) \<and>
     nwriters s' = nwriters s - of_bool (role_of (pc s t) = Writes) + of_bool (role_of p = Writes) \<and>
     nwaitingwriters s' = nwaitingwriters s - of_bool (role_of (pc s t) = Waits_to_write) + of_bool (role_of p = Waits_to_write) \<and>
     (p = Read_in \<longrightarrow> nwriters s + nwaitingwriters s \<le> 0 \<and> at s' t = Running) \<and>
     (p = Write_in \<longrightarrow> nreaders s + nwriters s \<le> 0 \<and> at s' t = Running) \<and>
     (role_of p = Reads \<longrightarrow> role_of (pc s t) = Reads \<or> pc s t = Read_in) \<and>
     (role_of p = Writes \<longrightarrow> role_of (pc s t) = Writes \<or> pc s t = Write_in) \<and>
     (\<not> in_section (pc s t) \<longrightarrow> role_of p = role_of (pc s t) \<and> p \<noteq> Read_in \<and> p \<noteq> Write_in)"

lemma follows_call:
  assumes "do_call t c p s = Goes s' r"
    "role_of p = role_of (pc s t) \<and> p \<noteq> Read_in \<and> p \<noteq> Write_in"
  shows "follows t s (pc s' t) s'"
  using assms(2) do_call_effect [OF assms(1)] by (simp add: follows_def)

lemma follows_next:
  assumes "next_pc t p s1 = s' \<and> None = r" "follows t s p (next_pc t p s1)"
  shows "follows t s (pc s' t) s'"
  using assms by (auto simp: next_pc_def)

lemma StartCit_follows: "StartCit t s = Goes s' r \<Longrightarrow> at s t = Running \<Longrightarrow> follows t s (pc s' t) s'"
  by (cases "pc s t")
    (simp_all add: StartCit_def announce_def split: if_splits,
      (erule follows_call follows_next; simp add: follows_def next_pc_def)+)

lemma StopCit_follows: "StopCit t s = Goes s' r \<Longrightarrow> at s t = Running \<Longrightarrow> follows t s (pc s' t) s'"
  by (cases "pc s t")
    (simp_all add: StopCit_def announce_def split: if_splits,
      (erule follows_call follows_next; simp add: follows_def next_pc_def)+)

lemma StartScrit_follows: "StartScrit t s = Goes s' r \<Longrightarrow> at s t = Running \<Longrightarrow> follows t s (pc s' t) s'"
  by (cases "pc s t")
    (simp_all add: StartScrit_def announce_def split: if_splits,
      (erule follows_call follows_next; simp add: follows_def next_pc_def)+)

lemma StopScrit_follows: "StopScrit t s = Goes s' r \<Longrightarrow> at s t = Running \<Longrightarrow> follows t s (pc s' t) s'"
  by (cases "pc s t")
    (simp_all add: StopScrit_def announce_def split: if_splits,
      (erule follows_call follows_next; simp add: follows_def next_pc_def)+)

lemma rw_follows:
  "rw_function f t s = Goes s' r \<Longrightarrow> at s t = Running \<Longrightarrow> follows t s (pc s' t) s'"
  using StartCit_follows StopCit_follows StartScrit_follows StopScrit_follows
  by (simp add: rw_function_def split: rw_function.splits)

section \<open>The monitor rule\<close>

definition rw_ok :: "rw \<Rightarrow> bool" where
  "rw_ok s \<longleftrightarrow> (\<forall>t. at s t \<noteq> Running \<longrightarrow> pc s t \<noteq> Read_in \<and> pc s t \<noteq> Write_in)"

lemma role_upd: "(\<lambda>u. role_of (((pc s)(t := p)) u)) = (\<lambda>u. role_of (pc s u))(t := role_of p)"
  by auto

lemma follows_inv:
  assumes f: "follows t s p s'" and inv: "rw_inv (rw_data_of s)" and pre: "rw_pre (pc s t) (rw_data_of s)"
  shows "rw_inv (rw_data_of s') \<and> rw_pre p (rw_data_of s')"
proof -
  let ?f = "\<lambda>u. role_of (pc s u)"
  have fin: "\<forall>r. r \<noteq> Nothing \<longrightarrow> finite {u. ?f u = r}"
    and n: "nreaders s = number Reads ?f" "nwaitingreaders s = number Waits_to_read ?f"
      "nwriters s = number Writes ?f" "nwaitingwriters s = number Waits_to_write ?f"
    and b: "nwriters s \<le> 1" "nwriters s = 1 \<longrightarrow> nreaders s = 0"
    using inv unfolding rw_inv_def rw_data_of_def rw_data.simps by blast+
  have pc: "pc s' = (pc s)(t := p)" using f by (simp add: follows_def)
  define g where "g = ?f(t := role_of p)"
  have g: "(\<lambda>u. role_of (pc s' u)) = g" by (simp only: g_def pc role_upd)
  have fin': "finite {u. g u = r}" if "r \<noteq> Nothing" for r
    using number_upd(2) [OF fin that, of t "role_of p"] by (simp only: g_def)
  have num: "number q g = number q ?f - of_bool (?f t = q) + of_bool (role_of p = q)" if "q \<noteq> Nothing" for q
    using number_upd(1) [OF fin that, of t "role_of p"] by (simp only: g_def)
  have counts: "nreaders s' = number Reads g" "nwaitingreaders s' = number Waits_to_read g"
    "nwriters s' = number Writes g" "nwaitingwriters s' = number Waits_to_write g"
    using f n by (simp_all add: num follows_def)
  have ge: "0 \<le> nreaders s" "0 \<le> nwriters s" "0 \<le> nwaitingwriters s" using n by (simp_all add: number_0)
  have had: "?f t = Writes \<Longrightarrow> number Writes ?f \<ge> 1" and had': "?f t = Reads \<Longrightarrow> number Reads ?f \<ge> 1"
    using number_ge [of ?f _ t] fin by blast+
  have had: "nwriters s \<ge> 1" if "?f t = Writes" using had [OF that] n(3) by simp
  have had': "nreaders s \<ge> 1" if "?f t = Reads" using had' [OF that] n(1) by simp
  have w: "nwriters s' = nwriters s - of_bool (?f t = Writes) + of_bool (role_of p = Writes)"
    and r: "nreaders s' = nreaders s - of_bool (?f t = Reads) + of_bool (role_of p = Reads)"
    and to_read: "role_of p = Reads \<longrightarrow> ?f t = Reads \<or> pc s t = Read_in"
    and to_write: "role_of p = Writes \<longrightarrow> ?f t = Writes \<or> pc s t = Write_in"
    and gate: "p = Read_in \<longrightarrow> nwriters s + nwaitingwriters s \<le> 0" "p = Write_in \<longrightarrow> nreaders s + nwriters s \<le> 0"
    using f by (simp_all add: follows_def)
  have in_read: "nwriters s = 0" if "pc s t = Read_in" using pre that by (simp add: rw_data_of_def)
  have in_write: "nwriters s = 0 \<and> nreaders s = 0" if "pc s t = Write_in"
    using pre that by (simp add: rw_data_of_def)
  have "nwriters s' \<le> 1 \<and> (nwriters s' = 1 \<longrightarrow> nreaders s' = 0)"
  proof (cases "role_of p")
    case Reads
    then show ?thesis using w r to_read in_read b ge had' by auto
  next
    case Writes
    then show ?thesis using w r to_write in_write b ge had by auto
  qed (use w r b ge had had' in auto)
  moreover have "rw_pre p (rw_data_of s')"
  proof (cases "p = Read_in \<or> p = Write_in")
    case True
    then show ?thesis using gate ge w r had had' by (auto simp: rw_data_of_def)
  next
    case False
    then show ?thesis by (cases p) simp_all
  qed
  ultimately show ?thesis using counts fin' by (simp add: rw_inv_def rw_data_of_def g)
qed

lemma rw_step_cases:
  assumes "rw_step t s s'"
  obtains (resume) r where "at s t \<noteq> Running" "resume t s = Goes s' r"
  | (works) p where "at s t = Running" "follows t s p s'"
proof -
  obtain f r where m: "rw_move t f s = Goes s' r" using assms by (auto simp: rw_step_def)
  show ?thesis
  proof (cases "at s t = Running")
    case True
    then show ?thesis using m rw_follows [of f t s s' r] works by (auto simp: rw_move_def)
  next
    case False
    then show ?thesis using m resume by (simp add: rw_move_def)
  qed
qed

interpretation rw_rule: monitor_rule rw_step rw_inside pc rw_data_of rw_pre rw_inv rw_ok
proof
  fix s s' t u d
  assume ok: "rw_ok s" and step: "rw_step t s s'"
  show "rw_ok s'" unfolding rw_ok_def
  proof
    fix v
    show "at s' v \<noteq> Running \<longrightarrow> pc s' v \<noteq> Read_in \<and> pc s' v \<noteq> Write_in"
      using step ok [unfolded rw_ok_def, rule_format, of v] ok [unfolded rw_ok_def, rule_format, of t]
      by (cases rule: rw_step_cases; cases "v = t") (auto simp: resume_effect follows_def)
  qed
  show "pc s' u = pc s u \<and> (rw_inside s' u \<longleftrightarrow> rw_inside s u)" if "u \<noteq> t"
    using step that by (cases rule: rw_step_cases) (simp_all add: rw_inside_def resume_effect follows_def)
  show "rw_data_of s' = rw_data_of s" if "\<not> rw_inside s t"
    using step that
    by (cases rule: rw_step_cases) (auto simp: rw_inside_def rw_data_of_def resume_effect follows_def)
  show "rw_pre (pc s' t) d" if "\<not> rw_inside s t" "rw_inside s' t"
    using step
  proof (cases rule: rw_step_cases)
    case (resume r)
    then show ?thesis
      using ok [unfolded rw_ok_def, rule_format, of t] resume_effect(5) [OF resume(2)] by (cases "pc s t") auto
  next
    case (works p)
    then show ?thesis using that by (cases p) (auto simp: rw_inside_def follows_def)
  qed
  show "rw_inv (rw_data_of s') \<and> (rw_inside s' t \<longrightarrow> rw_pre (pc s' t) (rw_data_of s'))"
    if "rw_inside s t" "rw_inv (rw_data_of s)" "rw_pre (pc s t) (rw_data_of s)"
    using step
  proof (cases rule: rw_step_cases)
    case resume
    then show ?thesis using that(1) by (simp add: rw_inside_def)
  next
    case (works p)
    then show ?thesis using follows_inv [OF works(2) that(2,3)] by (simp add: follows_def)
  qed
qed

text \<open>
  C17: In every run of readers and writers in which never two threads are inside the monitor, at most one
  thread is writing and no thread is reading while one is, and the counters of the readers and writers that are
  active and that wait are what they say.
\<close>

theorem rw_exclusive:
  assumes "CreateRWMonitor = Created m" "alone_run rw_step rw_inside (rw_of m) s"
  shows "(\<forall>t u. pc s t = Writing \<longrightarrow> pc s u = Writing \<longrightarrow> t = u) \<and>
    (\<forall>t u. pc s t = Writing \<longrightarrow> pc s u \<noteq> Reading) \<and>
    nreaders s = int (card {t. role_of (pc s t) = Reads}) \<and> nwriters s = int (card {t. role_of (pc s t) = Writes}) \<and>
    nwaitingreaders s = int (card {t. role_of (pc s t) = Waits_to_read}) \<and>
    nwaitingwriters s = int (card {t. role_of (pc s t) = Waits_to_write})"
proof -
  have m: "m = new_monitor 2 SIGNAL_AND_CONTINUE" using assms(1) by (simp add: CreateRWMonitor_def Create_def)
  have start: "rw_ok (rw_of m)" "rw_inv (rw_data_of (rw_of m))" "\<forall>t. \<not> rw_inside (rw_of m) t"
    by (simp_all add: m rw_of_def monitor.defs new_monitor_def rw_ok_def rw_inv_def rw_data_of_def number_def rw_inside_def)
  have inv: "rw_inv (rw_data_of s)" using rw_rule.alone_run_inv [OF assms(2) start] by blast
  let ?W = "{t. role_of (pc s t) = Writes}"
  have fin: "finite ?W" "finite {t. role_of (pc s t) = Reads}" and one: "card ?W \<le> 1"
    and none: "card ?W = 1 \<longrightarrow> card {t. role_of (pc s t) = Reads} = 0"
    using inv by (auto simp: rw_inv_def rw_data_of_def number_def)
  have "t = u" if "pc s t = Writing" "pc s u = Writing" for t u
    using one fin(1) that card_le_Suc0_iff_eq [OF fin(1)] by simp
  moreover have "pc s u \<noteq> Reading" if "pc s t = Writing" for t u
  proof
    assume "pc s u = Reading"
    then have "card {t. role_of (pc s t) = Reads} \<noteq> 0" using fin(2) by (auto simp: card_eq_0_iff intro!: exI [of _ u])
    moreover have "card ?W \<noteq> 0" using fin(1) that by (auto simp: card_eq_0_iff intro!: exI [of _ t])
    ultimately show False using one none by linarith
  qed
  ultimately show ?thesis using inv by (auto simp: rw_inv_def rw_data_of_def number_def)
qed

theorem rw_exclusive_witness:
  "\<exists>m s. CreateRWMonitor = Created m \<and> alone_run rw_step rw_inside (rw_of m) s \<and> rw_inside s 5 \<and>
     nreaders s = int (card {t. role_of (pc s t) = Reads})"
proof -
  define m where "m = new_monitor 2 SIGNAL_AND_CONTINUE"
  define s where "s = next_pc 5 Read_check ((rw_of m)\<lparr>mutex := True, entered_threads := {5}\<rparr>)"
  have c: "CreateRWMonitor = Created m" by (simp add: CreateRWMonitor_def Create_def m_def)
  have at: "at (rw_of m) t = Running" "pc (rw_of m) t = Outside" for t
    by (simp_all add: m_def rw_of_def monitor.defs new_monitor_def)
  have e: "mutex (rw_of m) = False" "entered_threads (rw_of m) = {}" "destroyed (rw_of m) = False"
    by (simp_all add: m_def rw_of_def monitor.defs new_monitor_def)
  have "rw_move 5 F_StartCit (rw_of m) = Goes s None"
    by (simp add: rw_move_def rw_function_def StartCit_def do_call_def Enter_def at e s_def)
  then have "rw_step 5 (rw_of m) s" by (auto simp: rw_step_def)
  moreover have "rw_inside s u = (u = 5)" for u by (simp add: rw_inside_def s_def next_pc_def at)
  ultimately have r: "alone_run rw_step rw_inside (rw_of m) s" "rw_inside s 5"
    using alone_run.step [OF alone_run.start, of rw_step 5 "rw_of m" s rw_inside] by simp_all
  from rw_exclusive [OF c r(1)] c r show ?thesis by blast
qed

text \<open>
  With the monitor as it is two threads come to be writing at once: a writer that was waiting
  is woken, finds no other and is overtaken by one that enters then; both count themselves in.
\<close>

theorem rw_two_writers:
  "\<exists>s. rw_steps (replicate 6 (1, F_StartScrit) @ replicate 5 (2, F_StartScrit) @ replicate 6 (1, F_StopScrit) @
       replicate 3 (2, F_StartScrit) @ replicate 6 (1, F_StartScrit) @ replicate 4 (2, F_StartScrit))
     (rw_of (new_monitor 2 SIGNAL_AND_CONTINUE)) = Goes s None \<and>
     pc s 1 = Writing \<and> pc s 2 = Writing \<and> nwriters s = 2"
proof -
  have "case rw_steps (replicate 6 (1, F_StartScrit) @ replicate 5 (2, F_StartScrit) @ replicate 6 (1, F_StopScrit) @
       replicate 3 (2, F_StartScrit) @ replicate 6 (1, F_StartScrit) @ replicate 4 (2, F_StartScrit))
     (rw_of (new_monitor 2 SIGNAL_AND_CONTINUE)) of
       Goes s r \<Rightarrow> r = None \<and> pc s 1 = Writing \<and> pc s 2 = Writing \<and> nwriters s = 2 | _ \<Rightarrow> False"
    by code_simp
  then show ?thesis by (auto split: outcome.splits)
qed

end
