(* ===== verification/MiniShell.thy ===== *)
theory MiniShell
  imports Base
begin

text \<open>
  The mini shell of \<open>tema1_mini_shell.cpp\<close>, from the command tree the parser gives it on. A process
  has an environment, a directory and file descriptors; its system calls are answered by \<open>system\<close>,
  which is asked with the process and the number of the call. What a process does is a list of
  events, in which a child's events stand at its fork, so that nothing is said about their order
  until it is waited for. The parser, the programs and the files are arguments.
\<close>

unbundle bit_operations_syntax

section \<open>Commands\<close>

text \<open>A part of a word is a string, or the name of a variable if it is to be expanded.\<close>

record part =
  part_string :: string
  expand :: bool

type_synonym word_parts = "part list"

definition IO_REGULAR :: nat where "IO_REGULAR = 0"
definition IO_OUT_APPEND :: nat where "IO_OUT_APPEND = 1"
definition IO_ERR_APPEND :: nat where "IO_ERR_APPEND = 2"

record simple_command =
  verb :: "word_parts list"
  params :: "word_parts list"
  sc_in :: "word_parts list"
  sc_out :: "word_parts list"
  sc_err :: "word_parts list"
  io_flags :: nat

datatype operator = OP_SEQUENTIAL | OP_PARALLEL | OP_CONDITIONAL_ZERO | OP_CONDITIONAL_NZERO | OP_PIPE

datatype command = Simple simple_command | Node operator command command

section \<open>Processes\<close>

type_synonym pid = "nat list"

datatype mode = Mode_read | Mode_truncate | Mode_append

text \<open>What a descriptor is open on: a stream the shell was started with, a file opened by some process as its
  \<open>n\<close>th call, or an end of the pipe that a process made.\<close>

datatype stream = Inherited nat | Opened string mode pid nat | Pipe_read pid | Pipe_write pid

record process =
  pid :: pid
  forks :: nat
  calls :: nat
  env :: "string \<Rightarrow> string option"
  cwd :: "string list"
  fds :: "stream option list"

text \<open>\<open>cwd\<close> is the list of directories changed to, in order.\<close>

datatype outcome = Cannot_exec | Exited nat | Killed nat

text \<open>Whether the \<open>n\<close>th call of a process succeeds, and how a process ends that loads a program.\<close>

record system =
  answer :: "pid \<Rightarrow> nat \<Rightarrow> bool"
  program :: "pid \<Rightarrow> outcome"

record image =
  argv :: "string list"
  img_env :: "string \<Rightarrow> string option"
  img_cwd :: "string list"
  img_fds :: "stream option list"

datatype event = Exec pid image | Say string | Child pid "event list" | Waited pid

datatype ending = Result int process | Exit int | Undefined

definition exit_code :: "int \<Rightarrow> int" where "exit_code r = r mod 256"

text \<open>The status that \<open>waitpid\<close> stores.\<close>

definition raw_exit :: "int \<Rightarrow> int" where "raw_exit r = exit_code r * 256"

section \<open>System calls\<close>

definition ask :: "system \<Rightarrow> process \<Rightarrow> bool \<times> process" where
  "ask sys p = (answer sys (pid p) (calls p), p\<lparr>calls := calls p + 1\<rparr>)"

definition fork :: "system \<Rightarrow> process \<Rightarrow> (process \<times> process) option" where
  "fork sys p = (let (ok, p) = ask sys p in
     if ok then Some (p\<lparr>pid := forks p # pid p, forks := 0, calls := 0\<rparr>, p\<lparr>forks := forks p + 1\<rparr>)
     else None)"

text \<open>The lowest descriptor that is free.\<close>

fun free_fd :: "stream option list \<Rightarrow> nat" where
  "free_fd [] = 0"
| "free_fd (None # r) = 0"
| "free_fd (Some s # r) = Suc (free_fd r)"

definition set_fd :: "nat \<Rightarrow> stream option \<Rightarrow> stream option list \<Rightarrow> stream option list" where
  "set_fd n s f = (f @ replicate (Suc n - length f) None)[n := s]"

definition get_fd :: "nat \<Rightarrow> stream option list \<Rightarrow> stream option" where
  "get_fd n f = (if n < length f then f ! n else None)"

definition open_fd :: "system \<Rightarrow> string \<Rightarrow> mode \<Rightarrow> process \<Rightarrow> nat option \<times> process" where
  "open_fd sys path m p = (let s = Opened path m (pid p) (calls p); n = free_fd (fds p);
       (ok, p) = ask sys p in
     if ok then (Some n, p\<lparr>fds := set_fd n (Some s) (fds p)\<rparr>) else (None, p))"

definition close_fd :: "nat \<Rightarrow> process \<Rightarrow> process" where
  "close_fd n p = p\<lparr>fds := set_fd n None (fds p)\<rparr>"

definition make_pipe :: "system \<Rightarrow> process \<Rightarrow> (nat \<times> nat) option \<times> process" where
  "make_pipe sys p = (let (ok, p) = ask sys p in
     if ok then
       let r = free_fd (fds p); f = set_fd r (Some (Pipe_read (pid p))) (fds p);
         w = free_fd f
       in (Some (r, w), p\<lparr>fds := set_fd w (Some (Pipe_write (pid p))) f\<rparr>)
     else (None, p))"

text \<open>\<open>redirect\<close>: \<open>None\<close> is the exit of the process. All callers pass a descriptor from 0 to 2 as the second one.\<close>

definition redirect :: "nat option \<Rightarrow> nat \<Rightarrow> process \<Rightarrow> process option" where
  "redirect oldfd newfd p = (case oldfd of
     None \<Rightarrow> None
   | Some n \<Rightarrow> (case get_fd n (fds p) of
       None \<Rightarrow> None
     | Some s \<Rightarrow> Some (p\<lparr>fds := set_fd newfd (Some s) (fds p)\<rparr>)))"

section \<open>Words\<close>

definition display_word :: "process \<Rightarrow> word_parts \<Rightarrow> string list" where
  "display_word p w = map (\<lambda>x. if expand x then (case env p (part_string x) of None \<Rightarrow> '''' | Some v \<Rightarrow> v)
     else part_string x) w"

definition display_list :: "process \<Rightarrow> word_parts list \<Rightarrow> string list list" where
  "display_list p ws = map (display_word p) ws"

definition flatten :: "string list list \<Rightarrow> string list" where
  "flatten data = map concat data"

record internal_command =
  ic_command :: "string list list"
  ic_params :: "string list list"
  ic_in :: "string list list"
  ic_out :: "string list list"
  ic_err :: "string list list"
  ic_flags :: nat

definition display_simple :: "process \<Rightarrow> simple_command \<Rightarrow> internal_command" where
  "display_simple p s = \<lparr>ic_command = display_list p (verb s), ic_params = display_list p (params s),
     ic_in = display_list p (sc_in s), ic_out = display_list p (sc_out s),
     ic_err = display_list p (sc_err s), ic_flags = io_flags s\<rparr>"

section \<open>Simple commands\<close>

text \<open>\<open>string::find\<close> for an equals sign, with a \<open>size_t\<close> of the given width.\<close>

definition npos :: "nat \<Rightarrow> nat" where "npos width = 2 ^ width - 1"

definition find_eq :: "nat \<Rightarrow> string \<Rightarrow> nat" where
  "find_eq width s = (let n = length (takeWhile (\<lambda>c. c \<noteq> CHR ''='') s) in if n < length s then n else npos width)"

text \<open>The result is kept in an \<open>unsigned int\<close>.\<close>

definition eq_pos :: "nat \<Rightarrow> string \<Rightarrow> nat" where
  "eq_pos width s = find_eq width s mod 2 ^ 32"

definition setenv :: "string \<Rightarrow> string \<Rightarrow> process \<Rightarrow> int \<times> process" where
  "setenv name value p = (if name = '''' then (-1, p) else (0, p\<lparr>env := (env p)(name \<mapsto> value)\<rparr>))"

definition chdir :: "system \<Rightarrow> string \<Rightarrow> process \<Rightarrow> int \<times> process" where
  "chdir sys d p = (let (ok, p) = ask sys p in if ok \<and> d \<noteq> '''' then (0, p\<lparr>cwd := cwd p @ [d]\<rparr>) else (-1, p))"

definition append_mode :: "nat \<Rightarrow> nat \<Rightarrow> mode" where
  "append_mode flags f = (if flags AND f \<noteq> 0 then Mode_append else Mode_truncate)"

text \<open>The three redirections of the child; \<open>None\<close> if one fails and the child exits.\<close>

definition redirect_in :: "system \<Rightarrow> string \<Rightarrow> process \<Rightarrow> process option" where
  "redirect_in sys i p = (if i = '''' then Some p
     else let (fd, p) = open_fd sys i Mode_read p in redirect fd 0 p)"

definition redirect_out :: "system \<Rightarrow> nat \<Rightarrow> string \<Rightarrow> process \<Rightarrow> (nat option \<times> process) option" where
  "redirect_out sys flags ofile p = (if ofile = '''' then Some (None, p)
     else let (fd, p) = open_fd sys ofile (append_mode flags IO_OUT_APPEND) p in
       map_option (Pair fd) (redirect fd 1 p))"

definition redirect_err :: "system \<Rightarrow> nat \<Rightarrow> string \<Rightarrow> string \<Rightarrow> nat option \<Rightarrow> process \<Rightarrow> process option" where
  "redirect_err sys flags ofile e fdout p = (if e = '''' then Some p
     else let (fd, p) = (if e = ofile then (fdout, p) else open_fd sys e (append_mode flags IO_ERR_APPEND) p) in
       redirect fd 2 p)"

definition redirections :: "system \<Rightarrow> internal_command \<Rightarrow> process \<Rightarrow> process option" where
  "redirections sys com p =
     (let i = concat (flatten (ic_in com)); ofile = concat (flatten (ic_out com)); e = concat (flatten (ic_err com)) in
      do {
        p \<leftarrow> redirect_in sys i p;
        (fdout, p) \<leftarrow> redirect_out sys (ic_flags com) ofile p;
        redirect_err sys (ic_flags com) ofile e fdout p
      })"

text \<open>The child: how it ends and what it does. The array of arguments has room for the
  name, 98 parameters and the end mark.\<close>

definition simple_child :: "system \<Rightarrow> internal_command \<Rightarrow> string \<Rightarrow> process \<Rightarrow> outcome option \<times> event list" where
  "simple_child sys com load p =
     (let params = flatten (ic_params com) in
      if length params > 98 then (None, [])
      else (case redirections sys com p of
        None \<Rightarrow> (Some (Exited 1), [Say ''Dup2 failed !''])
      | Some p \<Rightarrow> (case program sys (pid p) of
          Cannot_exec \<Rightarrow> (Some (Exited 255), [Say (''Execution failed for '' @ load)])
        | out \<Rightarrow> (Some out, [Exec (pid p) \<lparr>argv = load # params, img_env = env p, img_cwd = cwd p,
              img_fds = fds p\<rparr>]))))"

definition wait_result :: "outcome \<Rightarrow> int" where
  "wait_result out = (case out of Exited n \<Rightarrow> exit_code (int n) | _ \<Rightarrow> -1)"

definition execute_simple_command :: "nat \<Rightarrow> system \<Rightarrow> internal_command \<Rightarrow> process \<Rightarrow> ending \<times> event list" where
  "execute_simple_command width sys com p =
     (let load = concat (flatten (ic_command com)); pos = eq_pos width load in
      if load = ''cd'' then
        let (r, p) = chdir sys (concat (flatten (ic_params com))) p in (Result r p, [])
      else if load = ''true'' then (Result 0 p, [])
      else if load = ''false'' then (Result 1 p, [])
      else if pos \<noteq> npos width then
        let (r, p) = setenv (take pos load) (drop ((pos + 1) mod 2 ^ 32) load) p in (Result r p, [])
      else (case fork sys p of
        None \<Rightarrow> (Exit (-1), [Say ''fork failed!''])
      | Some (q, p) \<Rightarrow>
          let (out, evs) = simple_child sys com load q in
          (case out of
            None \<Rightarrow> (Undefined, [Child (pid q) evs])
          | Some out \<Rightarrow> (Result (wait_result out) p, [Child (pid q) evs, Waited (pid q)]))))"

section \<open>The command tree\<close>

text \<open>What a process does with the result of its command: it exits with it.\<close>

definition exits :: "ending \<Rightarrow> int option" where
  "exits e = (case e of Result r p \<Rightarrow> Some r | Exit r \<Rightarrow> Some r | Undefined \<Rightarrow> None)"

definition and_then :: "ending \<times> event list \<Rightarrow> (int \<Rightarrow> process \<Rightarrow> ending \<times> event list) \<Rightarrow> ending \<times> event list" where
  "and_then x f = (case x of
     (Result r p, evs) \<Rightarrow> let (e, evs') = f r p in (e, evs @ evs')
   | y \<Rightarrow> y)"

text \<open>The process that a parallel command runs in, once it has been forked: \<open>first\<close> in a child of its own, then \<open>second\<close>.\<close>

definition parallel_child ::
  "system \<Rightarrow> (process \<Rightarrow> ending \<times> event list) \<Rightarrow> (process \<Rightarrow> ending \<times> event list) \<Rightarrow> process \<Rightarrow> int option \<times> event list" where
  "parallel_child sys first second p = (case fork sys p of
     None \<Rightarrow> (Some (-1), [Say ''fork() failed !''])
   | Some (q, p) \<Rightarrow>
       let (e2, evs2) = first q; (e1, evs1) = second p in
       (case exits e2 of
         None \<Rightarrow> (None, Child (pid q) evs2 # evs1)
       | Some r2 \<Rightarrow> (case e1 of
           Result r1 p \<Rightarrow> (Some (r1 OR raw_exit r2), Child (pid q) evs2 # evs1 @ [Waited (pid q)])
         | e \<Rightarrow> (exits e, Child (pid q) evs2 # evs1))))"

text \<open>The process that a pipeline runs in: it makes the pipe, and does not wait for \<open>first\<close>.\<close>

definition pipe_child ::
  "system \<Rightarrow> (process \<Rightarrow> ending \<times> event list) \<Rightarrow> (process \<Rightarrow> ending \<times> event list) \<Rightarrow> process \<Rightarrow> int option \<times> event list" where
  "pipe_child sys first second p = (case make_pipe sys p of
     (None, p) \<Rightarrow> (Some 1, [Say ''pipe() failed !''])
   | (Some (r, w), p) \<Rightarrow> (case fork sys p of
       None \<Rightarrow> (Some (-1), [Say ''fork() failed !''])
     | Some (q, p) \<Rightarrow>
         let (e2, evs2) = (case redirect (Some w) 1 (close_fd r q) of
               None \<Rightarrow> (Exit 1, [Say ''Dup2 failed !'']) | Some q \<Rightarrow> first (close_fd w q));
           (e1, evs1) = (case redirect (Some r) 0 (close_fd w p) of
               None \<Rightarrow> (Exit 1, [Say ''Dup2 failed !'']) | Some p \<Rightarrow> second (close_fd r p))
         in (case exits e2 of
               None \<Rightarrow> (None, Child (pid q) evs2 # evs1)
             | Some r2 \<Rightarrow> (exits e1, Child (pid q) evs2 # evs1))))"

text \<open>A child that the shell forks and waits for; the status is not taken apart.\<close>

definition in_child :: "system \<Rightarrow> (process \<Rightarrow> int option \<times> event list) \<Rightarrow> process \<Rightarrow> ending \<times> event list" where
  "in_child sys f p = (case fork sys p of
     None \<Rightarrow> (Exit (-1), [Say ''fork() failed !''])
   | Some (q, p) \<Rightarrow>
       let (r, evs) = f q in
       (case r of
         None \<Rightarrow> (Undefined, [Child (pid q) evs])
       | Some r \<Rightarrow> (Result (raw_exit r) p, [Child (pid q) evs, Waited (pid q)])))"

fun display_command :: "nat \<Rightarrow> system \<Rightarrow> command \<Rightarrow> process \<Rightarrow> ending \<times> event list" where
  "display_command width sys (Simple s) p = execute_simple_command width sys (display_simple p s) p"
| "display_command width sys (Node OP_SEQUENTIAL c1 c2) p =
     and_then (display_command width sys c1 p) (\<lambda>r p. display_command width sys c2 p)"
| "display_command width sys (Node OP_PARALLEL c1 c2) p =
     in_child sys (parallel_child sys (display_command width sys c1) (display_command width sys c2)) p"
| "display_command width sys (Node OP_CONDITIONAL_ZERO c1 c2) p =
     and_then (display_command width sys c1 p)
       (\<lambda>r p. if r = 0 then display_command width sys c2 p else (Result r p, []))"
| "display_command width sys (Node OP_CONDITIONAL_NZERO c1 c2) p =
     and_then (display_command width sys c1 p)
       (\<lambda>r p. if r \<noteq> 0 then display_command width sys c2 p else (Result r p, []))"
| "display_command width sys (Node OP_PIPE c1 c2) p =
     in_child sys (pipe_child sys (display_command width sys c1) (display_command width sys c2)) p"

section \<open>The main loop\<close>

text \<open>The lines of the input, and what the parser makes of one: an error, nothing or a tree.\<close>

fun shell_main :: "nat \<Rightarrow> system \<Rightarrow> (string \<Rightarrow> command option option) \<Rightarrow> string list \<Rightarrow> process \<Rightarrow> ending \<times> event list" where
  "shell_main width sys parse [] p = (Exit 0, [Say ''> '', Say ''End of file!''])"
| "shell_main width sys parse (line # lines) p =
     and_then (Result 0 p, [Say ''> '']) (\<lambda>r p.
       if line = ''exit'' \<or> line = ''quit'' then (Exit 0, [])
       else (case parse line of
         None \<Rightarrow> shell_main width sys parse lines p
       | Some None \<Rightarrow> and_then (Result 0 p, [Say ''Command is empty!'']) (\<lambda>r p. shell_main width sys parse lines p)
       | Some (Some c) \<Rightarrow> and_then (display_command width sys c p) (\<lambda>r p. shell_main width sys parse lines p)))"

end
