(* ===== verification/MiniShellCorrect.thy ===== *)
theory MiniShellCorrect
  imports MiniShell "HOL-Library.Sublist"
begin

text \<open>
  What commands leave of the shell, who holds the ends of a pipe, what programs are started with,
  and the results that get lost.
\<close>

section \<open>The shell's own state\<close>

text \<open>A process that goes on has its descriptors and its identity, and has forked more.\<close>

definition keeps :: "process \<Rightarrow> process \<Rightarrow> bool" where
  "keeps p p' \<longleftrightarrow> fds p' = fds p \<and> pid p' = pid p \<and> forks p \<le> forks p'"

definition keeps_end :: "process \<Rightarrow> ending \<Rightarrow> bool" where
  "keeps_end p e \<longleftrightarrow> (\<forall>r p'. e = Result r p' \<longrightarrow> keeps p p')"

lemma keeps_trans: "keeps p p' \<Longrightarrow> keeps p' p'' \<Longrightarrow> keeps p p''"
  by (simp add: keeps_def)

lemma fork_parent: "fork sys p = Some (q, p') \<Longrightarrow> keeps p p' \<and> forks p' = Suc (forks p) \<and> env p' = env p \<and> cwd p' = cwd p"
  by (auto simp: fork_def ask_def keeps_def split: if_splits)

lemma fork_child: "fork sys p = Some (q, p') \<Longrightarrow> pid q = forks p # pid p \<and> fds q = fds p \<and> forks q = 0 \<and>
    env q = env p \<and> cwd q = cwd p"
  by (auto simp: fork_def ask_def split: if_splits)

lemma and_then_keeps:
  assumes "keeps_end p (fst x)" "\<And>r p'. fst x = Result r p' \<Longrightarrow> keeps_end p' (fst (f r p'))"
  shows "keeps_end p (fst (and_then x f))"
proof (cases "fst x")
  case (Result r p')
  then have "keeps_end p (fst (f r p'))"
    using assms(1) assms(2) [OF Result] keeps_trans [of p p'] by (auto simp: keeps_end_def)
  then show ?thesis using Result by (cases x; cases "f r p'") (simp add: and_then_def)
qed (cases x, simp add: and_then_def keeps_end_def)+

lemma in_child_keeps: "keeps_end p (fst (in_child sys f p))"
  using fork_parent by (auto simp: in_child_def keeps_end_def split: option.splits prod.splits)

text \<open>A simple command is built in, or cannot fork, or is a child that is waited for.\<close>

lemma simple_cases:
  obtains (builtin) r p' where "execute_simple_command width sys com p = (Result r p', [])" "keeps p p'"
  | (no_fork) "execute_simple_command width sys com p = (Exit (-1), [Say ''fork failed!''])"
  | (child) q p' load where "load = concat (flatten (ic_command com))" "eq_pos width load = npos width"
      "fork sys p = Some (q, p')"
      "execute_simple_command width sys com p = (let (out, evs) = simple_child sys com load q in
         (case out of None \<Rightarrow> (Undefined, [Child (pid q) evs])
          | Some out \<Rightarrow> (Result (wait_result out) p', [Child (pid q) evs, Waited (pid q)])))"
proof -
  define load where "load = concat (flatten (ic_command com))"
  note ex = execute_simple_command_def [of width sys com p, unfolded Let_def, folded load_def]
  have cd: "keeps p (snd (chdir sys d p))" for d by (simp add: chdir_def ask_def keeps_def)
  have set: "keeps p (snd (setenv n v p))" for n v by (simp add: setenv_def keeps_def)
  consider "load = ''cd''" | "load \<noteq> ''cd''" "load = ''true'' \<or> load = ''false''"
    | "load \<noteq> ''cd''" "load \<noteq> ''true''" "load \<noteq> ''false''" "eq_pos width load \<noteq> npos width"
    | "load \<noteq> ''cd''" "load \<noteq> ''true''" "load \<noteq> ''false''" "eq_pos width load = npos width"
    by blast
  then show ?thesis
  proof cases
    case 1
    then show ?thesis using builtin cd [of "concat (flatten (ic_params com))"]
      by (cases "chdir sys (concat (flatten (ic_params com))) p") (simp add: ex)
  next
    case 2
    then show ?thesis using builtin [of _ p] by (auto simp: ex keeps_def)
  next
    case 3
    obtain r p' where se: "setenv (take (eq_pos width load) load) (drop ((eq_pos width load + 1) mod 2 ^ 32) load) p = (r, p')"
      by force
    show ?thesis
      by (rule builtin [of r p'])
        (use 3 set [of "take (eq_pos width load) load" "drop ((eq_pos width load + 1) mod 2 ^ 32) load"] se in
          \<open>simp_all add: ex\<close>)
  next
    case 4
    then show ?thesis using no_fork child [OF load_def] by (cases "fork sys p") (auto simp: ex Let_def)
  qed
qed

lemma simple_keeps: "keeps_end p (fst (execute_simple_command width sys com p))"
proof (cases rule: simple_cases [of width sys com p])
  case (child q p' load)
  then show ?thesis
    using fork_parent [of sys p q p'] by (auto simp: keeps_end_def split: prod.splits option.splits)
qed (simp_all add: keeps_end_def)

lemma display_keeps: "keeps_end p (fst (display_command width sys c p))"
proof (induction width sys c p rule: display_command.induct)
  case (1 width sys s p)
  then show ?case by (simp add: simple_keeps)
next
  case (2 width sys c1 c2 p)
  then show ?case by (simp add: and_then_keeps)
next
  case (3 width sys c1 c2 p)
  then show ?case by (simp add: in_child_keeps)
next
  case (4 width sys c1 c2 p)
  then show ?case by (auto intro!: and_then_keeps) (simp add: keeps_end_def keeps_def)
next
  case (5 width sys c1 c2 p)
  then show ?case by (auto intro!: and_then_keeps) (simp add: keeps_end_def keeps_def)
next
  case (6 width sys c1 c2 p)
  then show ?case by (simp add: in_child_keeps)
qed

text \<open>
  Whatever command is executed, the shell's descriptors are afterwards what they were; and a
  command that runs in parallel or in a pipeline leaves its variables and its directory too.
\<close>

theorem shell_keeps_descriptors:
  assumes "display_command width sys c p = (Result r p', evs)"
  shows "fds p' = fds p \<and> pid p' = pid p \<and>
    (\<forall>c1 c2. c = Node OP_PARALLEL c1 c2 \<or> c = Node OP_PIPE c1 c2 \<longrightarrow> env p' = env p \<and> cwd p' = cwd p)"
proof -
  have "keeps p p'" using display_keeps [of p width sys c] assms by (simp add: keeps_end_def)
  moreover have "env p' = env p \<and> cwd p' = cwd p" if "c = Node OP_PARALLEL c1 c2 \<or> c = Node OP_PIPE c1 c2" for c1 c2
    using that assms fork_parent by (auto simp: in_child_def split: option.splits prod.splits)
  ultimately show ?thesis by (auto simp: keeps_def)
qed

section \<open>Descriptors\<close>

definition streams :: "stream option list \<Rightarrow> stream set" where
  "streams f = {s. \<exists>n. get_fd n f = Some s}"

lemma get_set_fd [simp]: "get_fd k (set_fd n x f) = (if k = n then x else get_fd k f)"
  by (auto simp: get_fd_def set_fd_def nth_append nth_list_update)

lemma get_free_fd [simp]: "get_fd (free_fd f) f = None"
proof (induction f rule: free_fd.induct)
  case (3 s r)
  then show ?case by (auto simp: get_fd_def)
qed (simp_all add: get_fd_def)

fun owner :: "stream \<Rightarrow> pid option" where
  "owner (Inherited n) = None"
| "owner (Opened f m i n) = Some i"
| "owner (Pipe_read i) = Some i"
| "owner (Pipe_write i) = Some i"

section \<open>The programs that are started\<close>

fun images :: "event list \<Rightarrow> (pid \<times> image) list" where
  "images [] = []"
| "images (Exec i m # es) = (i, m) # images es"
| "images (Child i cs # es) = images cs @ images es"
| "images (Say t # es) = images es"
| "images (Waited i # es) = images es"

lemma images_append [simp]: "images (es @ es') = images es @ images es'"
  by (induction es rule: images.induct) simp_all

text \<open>A process is below another if it descends from a child that one forks from its \<open>n\<close>th on.\<close>

definition below :: "pid \<Rightarrow> nat \<Rightarrow> pid \<Rightarrow> bool" where
  "below i n j \<longleftrightarrow> (\<exists>xs k. j = xs @ k # i \<and> n \<le> k)"

lemma below_child: "n \<le> k \<Longrightarrow> below i n (k # i)"
  unfolding below_def by (intro exI [of _ "[]"] exI [of _ k]) simp

lemma below_trans: "below (k # i) m j \<Longrightarrow> n \<le> k \<Longrightarrow> below i n j"
  unfolding below_def by (metis append.assoc append_Cons append_Nil)

lemma below_le: "below i m j \<Longrightarrow> n \<le> m \<Longrightarrow> below i n j"
  unfolding below_def by (metis order_trans)

text \<open>Programs started by descendants hold the descriptors a process has, and what descendants open;
  a child may also load a program itself and open files.\<close>

definition allowed :: "(pid \<Rightarrow> bool) \<Rightarrow> stream option list \<Rightarrow> pid \<times> image \<Rightarrow> bool" where
  "allowed D f x \<longleftrightarrow> D (fst x) \<and>
     (\<forall>s\<in>streams (img_fds (snd x)). s \<in> streams f \<or> (\<exists>j. owner s = Some j \<and> D j))"

definition started :: "(pid \<times> image \<Rightarrow> bool) \<Rightarrow> event list \<Rightarrow> bool" where
  "started P es \<longleftrightarrow> (\<forall>x\<in>set (images es). P x)"

lemma started_simps [simp]:
  "started P []" "started P (Say t # es) = started P es" "started P (Waited i # es) = started P es"
  "started P (Exec i m # es) \<longleftrightarrow> P (i, m) \<and> started P es"
  "started P (Child i cs # es) \<longleftrightarrow> started P cs \<and> started P es"
  "started P (es @ es') \<longleftrightarrow> started P es \<and> started P es'"
  by (auto simp: started_def)

lemma started_mono: "started P es \<Longrightarrow> (\<And>x. P x \<Longrightarrow> Q x) \<Longrightarrow> started Q es"
  by (auto simp: started_def)

abbreviation by_children :: "process \<Rightarrow> pid \<times> image \<Rightarrow> bool" where
  "by_children p \<equiv> allowed (below (pid p) (forks p)) (fds p)"

abbreviation by_child :: "process \<Rightarrow> pid \<times> image \<Rightarrow> bool" where
  "by_child q \<equiv> allowed (\<lambda>j. j = pid q \<or> below (pid q) (forks q) j) (fds q)"

lemma allowed_mono:
  "allowed D f x \<Longrightarrow> (\<And>j. D j \<Longrightarrow> D' j) \<Longrightarrow> streams f \<subseteq> streams f' \<Longrightarrow> allowed D' f' x"
  unfolding allowed_def by blast

lemma started_keeps: "started (by_children p') es \<Longrightarrow> keeps p p' \<Longrightarrow> started (by_children p) es"
  by (erule started_mono, erule allowed_mono) (auto simp: keeps_def intro: below_le)

lemma started_fork:
  assumes "fork sys p = Some (q, p')" "started (by_child q) es"
  shows "started (by_children p) es"
proof (rule started_mono [OF assms(2)], erule allowed_mono)
  note q = fork_child [OF assms(1)]
  show "below (pid p) (forks p) j" if "j = pid q \<or> below (pid q) (forks q) j" for j
    using that q below_child [of "forks p" "forks p" "pid p"] below_trans [of "forks p" "pid p"] by auto
  show "streams (fds q) \<subseteq> streams (fds p)" using q by simp
qed

lemma and_then_started:
  assumes "started (by_children p) (snd x)" "keeps_end p (fst x)"
    "\<And>r p'. fst x = Result r p' \<Longrightarrow> started (by_children p') (snd (f r p'))"
  shows "started (by_children p) (snd (and_then x f))"
proof (cases "fst x")
  case (Result r p')
  then have "started (by_children p) (snd (f r p'))"
    using started_keeps [OF assms(3)] assms(2) by (simp add: keeps_end_def)
  then show ?thesis using assms(1) Result by (cases x; cases "f r p'") (simp add: and_then_def)
qed (use assms(1) in \<open>cases x, simp add: and_then_def\<close>)+

lemma in_child_started:
  assumes "\<And>q p'. fork sys p = Some (q, p') \<Longrightarrow> started (by_child q) (snd (f q))"
  shows "started (by_children p) (snd (in_child sys f p))"
proof (cases "fork sys p")
  case None
  then show ?thesis by (simp add: in_child_def)
next
  case (Some qp)
  obtain q p' where qp: "qp = (q, p')" by force
  have "started (by_children p) (snd (f q))" using started_fork [OF Some [unfolded qp]] assms Some qp by blast
  then show ?thesis by (cases "f q") (simp add: in_child_def Some qp split: option.split)
qed

section \<open>Simple commands\<close>

text \<open>What redirecting keeps, and whose files it opens.\<close>

lemma open_fd_effect:
  "open_fd sys path m p = (n, p') \<Longrightarrow> pid p' = pid p \<and> forks p' = forks p \<and> env p' = env p \<and> cwd p' = cwd p \<and>
     (\<forall>s\<in>streams (fds p'). s \<in> streams (fds p) \<or> owner s = Some (pid p))"
  by (auto simp: open_fd_def ask_def Let_def streams_def split: if_splits)

lemma redirect_effect:
  "redirect old new p = Some p' \<Longrightarrow> pid p' = pid p \<and> forks p' = forks p \<and> env p' = env p \<and> cwd p' = cwd p \<and>
     streams (fds p') \<subseteq> streams (fds p)"
  by (auto simp: redirect_def streams_def split: option.splits if_splits)

definition opened_own :: "process \<Rightarrow> process \<Rightarrow> bool" where
  "opened_own p p' \<longleftrightarrow> pid p' = pid p \<and> env p' = env p \<and> cwd p' = cwd p \<and>
     (\<forall>s\<in>streams (fds p'). s \<in> streams (fds p) \<or> owner s = Some (pid p))"

lemma opened_own_refl: "opened_own p p"
  by (simp add: opened_own_def)

lemma opened_own_trans: "opened_own p p' \<Longrightarrow> opened_own p' p'' \<Longrightarrow> opened_own p p''"
  unfolding opened_own_def by metis

lemma opened_own_redirect:
  assumes "open_fd sys path m p = (n, p1)" "redirect n k p1 = Some p'"
  shows "opened_own p p'"
  using open_fd_effect [OF assms(1)] redirect_effect [OF assms(2)] by (auto simp: opened_own_def)

lemma redirect_in_own: "redirect_in sys i p = Some p' \<Longrightarrow> opened_own p p'"
  using opened_own_refl opened_own_redirect by (auto simp: redirect_in_def split: if_splits prod.splits)

lemma redirect_out_own: "redirect_out sys flags f p = Some (fd, p') \<Longrightarrow> opened_own p p'"
  using opened_own_refl opened_own_redirect by (auto simp: redirect_out_def split: if_splits prod.splits)

lemma redirect_err_own:
  assumes "redirect_err sys flags f e fd p = Some p'" shows "opened_own p p'"
proof (cases "e = '''' \<or> e = f")
  case True
  then show ?thesis using assms redirect_effect [of fd 2 p p']
    by (auto simp: redirect_err_def opened_own_def split: if_splits)
next
  case False
  then show ?thesis using assms opened_own_redirect by (auto simp: redirect_err_def split: prod.splits)
qed

lemma redirections_own:
  assumes "redirections sys com p = Some p'" shows "opened_own p p'"
proof -
  obtain p1 p2 fd where "redirect_in sys (concat (flatten (ic_in com))) p = Some p1"
    "redirect_out sys (ic_flags com) (concat (flatten (ic_out com))) p1 = Some (fd, p2)"
    "redirect_err sys (ic_flags com) (concat (flatten (ic_out com))) (concat (flatten (ic_err com))) fd p2 = Some p'"
    using assms by (auto simp: redirections_def Let_def split: bind_splits)
  then show ?thesis using redirect_in_own redirect_out_own redirect_err_own opened_own_trans by metis
qed

lemma simple_child_started: "started (by_child q) (snd (simple_child sys com load q))"
proof (cases "redirections sys com q")
  case None
  then show ?thesis by (simp add: simple_child_def Let_def)
next
  case (Some q')
  from redirections_own [OF this] show ?thesis
    by (auto simp: simple_child_def Let_def Some allowed_def opened_own_def split: outcome.splits)
qed

lemma simple_started: "started (by_children p) (snd (execute_simple_command width sys com p))"
proof (cases rule: simple_cases [of width sys com p])
  case (child q p' load)
  have "started (by_children p) (snd (simple_child sys com load q))"
    by (rule started_fork [OF child(3) simple_child_started])
  then show ?thesis by (cases "simple_child sys com load q") (simp add: child(4) split: option.split)
qed simp_all

section \<open>Parallel commands and pipelines\<close>

lemma keeps_by_child: "started (by_children p') es \<Longrightarrow> keeps p p' \<Longrightarrow> started (by_child p) es"
  by (erule started_mono, erule allowed_mono) (auto simp: keeps_def intro: below_le)

lemma fork_by_child: "fork sys p = Some (q, p') \<Longrightarrow> started (by_child q) es \<Longrightarrow> started (by_child p) es"
  using keeps_by_child [OF started_fork] by (simp add: keeps_def)

lemma by_childI: "started (by_children q) es \<Longrightarrow> started (by_child q) es"
  by (erule started_mono, erule allowed_mono) auto

lemma parallel_started:
  assumes "\<And>p. started (by_children p) (snd (first p))" "\<And>p. started (by_children p) (snd (second p))"
  shows "started (by_child p) (snd (parallel_child sys first second p))"
proof (cases "fork sys p")
  case None
  then show ?thesis by (simp add: parallel_child_def)
next
  case (Some qp)
  obtain q p' where qp: "qp = (q, p')" by force
  have "started (by_child p) (snd (first q))" "started (by_child p) (snd (second p'))"
    using fork_by_child [OF Some [unfolded qp] by_childI [OF assms(1)]]
      keeps_by_child [OF assms(2)] fork_parent [OF Some [unfolded qp]] by blast+
  then show ?thesis
    by (cases "first q"; cases "second p'") (simp add: parallel_child_def Some qp split: option.split ending.split)
qed

text \<open>What the two sides of a pipeline start with.\<close>

definition pipe_fds :: "pid \<Rightarrow> stream option list \<Rightarrow> nat \<times> nat \<times> stream option list" where
  "pipe_fds i f = (let r = free_fd f; f1 = set_fd r (Some (Pipe_read i)) f; w = free_fd f1
     in (r, w, set_fd w (Some (Pipe_write i)) f1))"

definition left_fds :: "pid \<Rightarrow> stream option list \<Rightarrow> stream option list" where
  "left_fds i f = (let (r, w, f) = pipe_fds i f in
     set_fd w None (set_fd 1 (Some (Pipe_write i)) (set_fd r None f)))"

definition right_fds :: "pid \<Rightarrow> stream option list \<Rightarrow> stream option list" where
  "right_fds i f = (let (r, w, f) = pipe_fds i f in
     set_fd r None (set_fd 0 (Some (Pipe_read i)) (set_fd w None f)))"

lemma pipe_free: "free_fd (set_fd (free_fd f) (Some s) f) \<noteq> free_fd f"
  using get_free_fd [of "set_fd (free_fd f) (Some s) f"] by auto

lemma pipe_child_cases:
  obtains (failed) r t where "pipe_child sys first second p = (Some r, [Say t])" "\<exists>n. \<not> answer sys (pid p) n"
  | (sides) q p' where
      "pid q = forks p # pid p" "forks q = 0" "fds q = left_fds (pid p) (fds p)"
      "env q = env p" "cwd q = cwd p"
      "pid p' = pid p" "forks p' = Suc (forks p)" "fds p' = right_fds (pid p) (fds p)" "env p' = env p" "cwd p' = cwd p"
      "pipe_child sys first second p = (case exits (fst (first q)) of
         None \<Rightarrow> (None, Child (pid q) (snd (first q)) # snd (second p'))
       | Some r \<Rightarrow> (exits (fst (second p')), Child (pid q) (snd (first q)) # snd (second p')))"
proof -
  obtain rws p1 where mp: "make_pipe sys p = (rws, p1)" by force
  show ?thesis
  proof (cases rws)
    case None
    then have "\<not> answer sys (pid p) (calls p)"
      using mp by (auto simp: make_pipe_def ask_def Let_def split: if_splits)
    then show ?thesis using failed [of 1] mp None by (simp add: pipe_child_def) blast
  next
    case (Some rw)
    obtain r w where rw: "rw = (r, w)" by force
    have e: "pid p1 = pid p" "forks p1 = forks p" "env p1 = env p" "cwd p1 = cwd p" "(r, w, fds p1) = pipe_fds (pid p) (fds p)"
      using mp Some rw by (auto simp: make_pipe_def ask_def pipe_fds_def Let_def split: if_splits)
    have "r \<noteq> w" "get_fd r (fds p1) = Some (Pipe_read (pid p))" "get_fd w (fds p1) = Some (Pipe_write (pid p))"
      using e(5) pipe_free [of "fds p" "Pipe_read (pid p)"] not_sym [OF pipe_free [of "fds p" "Pipe_read (pid p)"]] by (auto simp: pipe_fds_def Let_def)
    note ends = this
    show ?thesis
    proof (cases "fork sys p1")
      case None
      then have "\<not> answer sys (pid p) (calls p1)" using e(1) by (auto simp: fork_def ask_def split: if_splits)
      then show ?thesis using failed [of "-1"] mp \<open>rws = Some rw\<close> rw None by (simp add: pipe_child_def) blast
    next
      case (Some qp)
      obtain q p2 where qp: "qp = (q, p2)" by force
      note c = fork_child [OF Some [unfolded qp]] and pa = fork_parent [OF Some [unfolded qp]]
      define l0 where "l0 = (close_fd r q)\<lparr>fds := set_fd 1 (Some (Pipe_write (pid p))) (fds (close_fd r q))\<rparr>"
      define r0 where "r0 = (close_fd w p2)\<lparr>fds := set_fd 0 (Some (Pipe_read (pid p))) (fds (close_fd w p2))\<rparr>"
      have q: "redirect (Some w) 1 (close_fd r q) = Some l0"
        using ends c by (simp add: redirect_def l0_def close_fd_def)
      have p: "redirect (Some r) 0 (close_fd w p2) = Some r0"
        using ends pa by (simp add: redirect_def r0_def close_fd_def keeps_def)
      show ?thesis
      proof (rule sides [of "close_fd w l0" "close_fd r r0"])
        show "fds (close_fd w l0) = left_fds (pid p) (fds p)" "fds (close_fd r r0) = right_fds (pid p) (fds p)"
          using c pa e(5) [symmetric]
          by (simp_all add: close_fd_def left_fds_def right_fds_def keeps_def l0_def r0_def)
        have "pid (close_fd w l0) = pid q" by (simp add: close_fd_def l0_def)
        then show "pipe_child sys first second p = (case exits (fst (first (close_fd w l0))) of
             None \<Rightarrow> (None, Child (pid (close_fd w l0)) (snd (first (close_fd w l0))) # snd (second (close_fd r r0)))
           | Some k \<Rightarrow> (exits (fst (second (close_fd r r0))),
               Child (pid (close_fd w l0)) (snd (first (close_fd w l0))) # snd (second (close_fd r r0))))"
          using mp \<open>rws = Some rw\<close> rw Some qp q p
          by (cases "first (close_fd w l0)"; cases "second (close_fd r r0)") (simp add: pipe_child_def split: option.split)
      qed (use c pa e in \<open>simp_all add: close_fd_def keeps_def l0_def r0_def\<close>)
    qed
  qed
qed

lemma left_fds:
  assumes "\<forall>n. get_fd n f \<noteq> Some (Pipe_read i)"
  shows "get_fd n (left_fds i f) \<noteq> Some (Pipe_read i)"
  using assms by (auto simp: left_fds_def pipe_fds_def Let_def)

lemma right_fds:
  assumes "\<forall>n. get_fd n f \<noteq> Some (Pipe_write i)"
  shows "get_fd n (right_fds i f) \<noteq> Some (Pipe_write i)"
  using assms by (auto simp: right_fds_def pipe_fds_def Let_def)

lemma side_streams: "streams (left_fds i f) \<subseteq> insert (Pipe_write i) (streams f)"
    "streams (right_fds i f) \<subseteq> insert (Pipe_read i) (streams f)"
  using pipe_free [of f "Pipe_read i"]
  by (auto simp: left_fds_def right_fds_def pipe_fds_def Let_def streams_def split: if_splits)

lemma pipe_started:
  assumes "\<And>p. started (by_children p) (snd (first p))" "\<And>p. started (by_children p) (snd (second p))"
  shows "started (by_child p) (snd (pipe_child sys first second p))"
proof (cases rule: pipe_child_cases [of sys first second p])
  case (sides q p')
  have own: "owner s = Some (pid p)" if "s = Pipe_write (pid p) \<or> s = Pipe_read (pid p)" for s
    using that by auto
  have "started (by_child p) (snd (first q))"
  proof (rule started_mono [OF assms(1)])
    fix x assume "allowed (below (pid q) (forks q)) (fds q) x"
    moreover have "below (pid p) (forks p) j" if "below (pid q) (forks q) j" for j
      using that below_trans [of "forks p" "pid p" 0 j "forks p"] sides(1,2) by simp
    ultimately show "by_child p x"
      using side_streams(1) [of "pid p" "fds p"] sides(3) unfolding allowed_def by fastforce
  qed
  moreover have "started (by_child p) (snd (second p'))"
  proof (rule started_mono [OF assms(2)])
    fix x assume "allowed (below (pid p') (forks p')) (fds p') x"
    moreover have "below (pid p) (forks p) j" if "below (pid p') (forks p') j" for j
      using that below_le [of "pid p" "Suc (forks p)" j "forks p"] sides(6,7) by simp
    ultimately show "by_child p x"
      using side_streams(2) [of "pid p" "fds p"] sides(8) unfolding allowed_def by fastforce
  qed
  ultimately show ?thesis by (simp add: sides(11) split: option.split)
qed simp

lemma display_started: "started (by_children p) (snd (display_command width sys c p))"
proof (induction c arbitrary: p)
  case (Simple s)
  then show ?case by (simp add: simple_started)
next
  case (Node opr c1 c2)
  then show ?case
    by (cases opr) (auto intro!: and_then_started display_keeps in_child_started parallel_started pipe_started)
qed

text \<open>
  C18: In a pipeline no program on the left, at whatever depth, holds the end of the pipe that is read from,
  and none on the right the end that is written to, so that the right side sees the end of the data once
  the left side has ended. Here \<open>i\<close> is the process that makes the pipe, and its first child runs the left side.
\<close>

theorem shell_pipe_ends:
  assumes "i = forks p # pid p" "Pipe_read i \<notin> streams (fds p)" "Pipe_write i \<notin> streams (fds p)"
    "(j, m) \<in> set (images (snd (display_command width sys (Node OP_PIPE c1 c2) p)))"
  shows "(suffix (0 # i) j \<longrightarrow> Pipe_read i \<notin> streams (img_fds m)) \<and>
    (\<not> suffix (0 # i) j \<longrightarrow> Pipe_write i \<notin> streams (img_fds m))"
proof -
  let ?first = "display_command width sys c1" and ?second = "display_command width sys c2"
  obtain q p' where f: "fork sys p = Some (q, p')"
    and j: "(j, m) \<in> set (images (snd (pipe_child sys ?first ?second q)))"
    using assms(4) by (auto simp: in_child_def split: option.splits prod.splits)
  note q = fork_child [OF f]
  show ?thesis
  proof (cases rule: pipe_child_cases [of sys ?first ?second q])
    case (failed r t)
    then show ?thesis using j by simp
  next
    case (sides l r)
    have i: "pid q = i" "pid l = 0 # i" "forks l = 0" "pid r = i" "forks r = 1"
      using q sides assms(1) by simp_all
    have no: "owner s = Some i \<Longrightarrow> \<not> (\<exists>k. owner s = Some k \<and> below (0 # i) 0 k)"
      "owner s = Some i \<Longrightarrow> \<not> (\<exists>k. owner s = Some k \<and> below i 1 k)" for s
      by (auto simp: below_def)
    have "(j, m) \<in> set (images (snd (?first l))) \<or> (j, m) \<in> set (images (snd (?second r)))"
      using j sides(11) by (auto split: option.splits)
    then show ?thesis
    proof
      assume "(j, m) \<in> set (images (snd (?first l)))"
      then have a: "allowed (below (0 # i) 0) (left_fds i (fds p)) (j, m)"
        using display_started [of l width sys c1] sides(3) i q by (auto simp: started_def)
      then have "suffix (0 # i) j" by (auto simp: allowed_def below_def suffix_def)
      moreover have "Pipe_read i \<notin> streams (img_fds m)"
        using a no(1) [of "Pipe_read i"] left_fds [of "fds p" i] assms(2) by (auto simp: allowed_def streams_def)
      ultimately show ?thesis by simp
    next
      assume "(j, m) \<in> set (images (snd (?second r)))"
      then have a: "allowed (below i 1) (right_fds i (fds p)) (j, m)"
        using display_started [of r width sys c2] sides(8) i q by (auto simp: started_def)
      then obtain xs k where jk: "j = xs @ k # i" "1 \<le> k" by (auto simp: allowed_def below_def)
      have "\<not> suffix (0 # i) j"
        using jk by (auto simp: suffix_def append_eq_append_conv2 Cons_eq_append_conv append_eq_Cons_conv)
      moreover have "Pipe_write i \<notin> streams (img_fds m)"
        using a no(2) [of "Pipe_write i"] right_fds [of "fds p" i] assms(3) by (auto simp: allowed_def streams_def)
      ultimately show ?thesis by simp
    qed
  qed
qed

section \<open>Results that get lost\<close>

lemma raw_exit_raw [simp]: "raw_exit (raw_exit r) = 0"
  by (simp add: raw_exit_def exit_code_def)

lemma exit_code_or: "exit_code (a OR b) = exit_code a OR exit_code b"
  using take_bit_or [of 8 a b] by (simp add: exit_code_def take_bit_eq_mod)

lemma raw_exit_or [simp]: "raw_exit (r OR raw_exit r') = raw_exit r"
  by (simp add: raw_exit_def exit_code_or) (simp add: exit_code_def)

lemma fork_succeeds: "\<forall>i n. answer sys i n \<Longrightarrow> \<exists>q p'. fork sys p = Some (q, p')"
  by (simp add: fork_def ask_def)

text \<open>What a pipeline or a parallel command comes to when all system calls succeed.\<close>

lemma joined_result:
  assumes "\<forall>i n. answer sys i n" "opr = OP_PARALLEL \<or> opr = OP_PIPE"
    "display_command width sys (Node opr a b) p = (Result r p', evs)"
  obtains q r1 where "exits (fst (display_command width sys b q)) = Some r1" "r = raw_exit r1"
proof -
  let ?first = "display_command width sys a" and ?second = "display_command width sys b"
  obtain q p1 where f: "fork sys p = Some (q, p1)" using fork_succeeds [OF assms(1)] by blast
  have "\<exists>q2 r1. exits (fst (?second q2)) = Some r1 \<and> r = raw_exit r1"
  proof (cases "opr = OP_PIPE")
    case True
    then have r: "fst (in_child sys (pipe_child sys ?first ?second) p) = Result r p'" using assms(3) by simp
    show ?thesis
    proof (cases rule: pipe_child_cases [of sys ?first ?second q])
      case (failed k t)
      then show ?thesis using assms(1) by simp
    next
      case (sides l q2)
      then show ?thesis
        using r f by (intro exI [of _ q2]) (auto simp: in_child_def split: option.splits)
    qed
  next
    case False
    then have r: "fst (in_child sys (parallel_child sys ?first ?second) p) = Result r p'"
      using assms(2,3) by simp
    obtain q1 q2 where f2: "fork sys q = Some (q1, q2)" using fork_succeeds [OF assms(1)] by blast
    show ?thesis
    proof (cases "fst (?second q2)")
      case (Result r1 p2)
      then show ?thesis
        using r f f2
        by (cases "?first q1"; cases "?second q2")
          (auto simp: in_child_def parallel_child_def exits_def split: option.splits ending.splits intro!: exI [of _ q2])
    next
      case (Exit r1)
      then show ?thesis
        using r f f2
        by (intro exI [of _ q2], cases "?first q1"; cases "?second q2")
          (auto simp: in_child_def parallel_child_def exits_def split: option.splits ending.splits)
    next
      case Undefined
      then show ?thesis
        using r f f2
        by (cases "?first q1"; cases "?second q2")
          (auto simp: in_child_def parallel_child_def exits_def split: option.splits ending.splits)
    qed
  qed
  then show ?thesis using that by auto
qed

text \<open>
  The result of a parallel command or a pipeline is the exit code of its right side times 256, whatever the
  left side returns; and if the right side is such a command itself, its failure is lost: the result is 0.
\<close>

theorem shell_joined_status:
  assumes "\<forall>i n. answer sys i n" "opr = OP_PARALLEL \<or> opr = OP_PIPE"
    "display_command width sys (Node opr a b) p = (Result r p', evs)"
  shows "(\<exists>q r1. exits (fst (display_command width sys b q)) = Some r1 \<and> r = (r1 mod 256) * 256) \<and>
    (\<forall>op2 b1 b2. b = Node op2 b1 b2 \<longrightarrow> op2 = OP_PARALLEL \<or> op2 = OP_PIPE \<longrightarrow> r = 0)"
proof -
  obtain q r1 where q: "exits (fst (display_command width sys b q)) = Some r1" "r = raw_exit r1"
    by (rule joined_result [OF assms])
  have "r = 0" if b: "b = Node op2 b1 b2" "op2 = OP_PARALLEL \<or> op2 = OP_PIPE" for op2 b1 b2
  proof (cases "fst (display_command width sys b q)")
    case (Result r2 p2)
    then obtain evs2 where "display_command width sys (Node op2 b1 b2) q = (Result r2 p2, evs2)"
      using b(1) by (metis prod.collapse)
    from joined_result [OF assms(1) b(2) this] obtain r3 where r3: "r2 = raw_exit r3" by blast
    have "r1 = r2" using q Result by (simp add: exits_def)
    then show ?thesis using q r3 by simp
  next
    case (Exit k)
    then show ?thesis
      using b fork_succeeds [OF assms(1), of q]
      by (auto simp: in_child_def split: prod.splits option.splits)
  next
    case Undefined
    then show ?thesis using q by (simp add: exits_def)
  qed
  then show ?thesis using q by (auto simp: raw_exit_def exit_code_def)
qed

section \<open>A wider size_t\<close>

lemma and_then_all:
  assumes "started P (snd x)" "\<And>r p. started P (snd (f r p))" shows "started P (snd (and_then x f))"
proof (cases "fst x")
  case (Result r p)
  then show ?thesis using assms(1) assms(2) [of r p] by (cases x; cases "f r p") (simp add: and_then_def)
qed (use assms(1) in \<open>cases x, simp add: and_then_def\<close>)+

lemma in_child_all: "(\<And>q. started P (snd (f q))) \<Longrightarrow> started P (snd (in_child sys f p))"
  by (auto simp: in_child_def split: option.splits prod.splits) (metis snd_conv)+

lemma parallel_all:
  assumes "\<And>p. started P (snd (first p))" "\<And>p. started P (snd (second p))"
  shows "started P (snd (parallel_child sys first second p))"
proof (cases "fork sys p")
  case (Some qp)
  then show ?thesis using assms(1) [of "fst qp"] assms(2) [of "snd qp"]
    by (cases qp; cases "first (fst qp)"; cases "second (snd qp)")
      (simp add: parallel_child_def split: option.split ending.split)
qed (simp add: parallel_child_def)

lemma pipe_all:
  assumes "\<And>p. started P (snd (first p))" "\<And>p. started P (snd (second p))"
  shows "started P (snd (pipe_child sys first second p))"
  using assms
  by (cases rule: pipe_child_cases [of sys first second p]) (simp_all split: option.split)

lemma wide_never_npos: "32 < width \<Longrightarrow> eq_pos width load \<noteq> npos width"
proof -
  assume "32 < width"
  then have "(2::nat) ^ 32 < 2 ^ width" by (intro power_strict_increasing) simp_all
  moreover have "eq_pos width load < 2 ^ 32" by (simp add: eq_pos_def)
  ultimately show ?thesis by (simp add: npos_def)
qed

text \<open>
  Where \<open>size_t\<close> is wider than the \<open>unsigned int\<close> that keeps the position of the equals sign, no command ever
  starts a program: one that is not built in and has no equals sign sets a variable of its own name to its own name.
\<close>

theorem shell_wide_starts_nothing:
  assumes "32 < width"
  shows "images (snd (display_command width sys c p)) = [] \<and>
    (\<forall>s load. c = Simple s \<longrightarrow> load = concat (flatten (display_list p (verb s))) \<longrightarrow>
       load \<notin> {'''', ''cd'', ''true'', ''false''} \<longrightarrow> CHR ''='' \<notin> set load \<longrightarrow> length load < 2 ^ 32 \<longrightarrow>
       display_command width sys c p = (Result 0 (p\<lparr>env := (env p)(load \<mapsto> load)\<rparr>), []))"
proof
  have "started (\<lambda>x. False) (snd (display_command width sys c p))"
  proof (induction c arbitrary: p)
    case (Simple s)
    show ?case
      by (cases rule: simple_cases [of width sys "display_simple p s" p])
        (use wide_never_npos [OF assms] in auto)
  next
    case (Node opr c1 c2)
    then show ?case by (cases opr) (auto intro!: and_then_all in_child_all parallel_all pipe_all)
  qed
  then show "images (snd (display_command width sys c p)) = []" by (cases "images (snd (display_command width sys c p))") (auto simp: started_def)
  show "\<forall>s load. c = Simple s \<longrightarrow> load = concat (flatten (display_list p (verb s))) \<longrightarrow>
       load \<notin> {'''', ''cd'', ''true'', ''false''} \<longrightarrow> CHR ''='' \<notin> set load \<longrightarrow> length load < 2 ^ 32 \<longrightarrow>
       display_command width sys c p = (Result 0 (p\<lparr>env := (env p)(load \<mapsto> load)\<rparr>), [])"
  proof (intro allI impI)
    fix s load
    assume c: "c = Simple s" and load: "load = concat (flatten (display_list p (verb s)))"
      and l: "load \<notin> {'''', ''cd'', ''true'', ''false''}" "CHR ''='' \<notin> set load" "length load < 2 ^ 32"
    have all: "takeWhile (\<lambda>c. c \<noteq> CHR ''='') load = load" using l(2) by (auto simp: takeWhile_eq_all_conv)
    have "find_eq width load = npos width" unfolding find_eq_def Let_def all by simp
    moreover have "npos width mod 2 ^ 32 = 2 ^ 32 - 1"
      using assms take_bit_of_mask [of 32 width, where ?'a = nat]
      by (simp add: npos_def mask_eq_exp_minus_1 take_bit_eq_mod)
    ultimately have pos: "eq_pos width load = 2 ^ 32 - 1" by (simp add: eq_pos_def)
    then have "take (eq_pos width load) load = load" "(eq_pos width load + 1) mod 2 ^ 32 = 0" using l(3) by simp_all
    then show "display_command width sys c p = (Result 0 (p\<lparr>env := (env p)(load \<mapsto> load)\<rparr>), [])"
      using l(1) wide_never_npos [OF assms, of load]
      by (simp add: c execute_simple_command_def display_simple_def flip: load) (simp add: Let_def setenv_def)
  qed
qed

section \<open>Starting a program\<close>

text \<open>A file that can be opened is put on descriptor \<open>k\<close>; the others that are open stay.\<close>

definition same_process :: "process \<Rightarrow> process \<Rightarrow> bool" where
  "same_process p p' \<longleftrightarrow> pid p' = pid p \<and> env p' = env p \<and> cwd p' = cwd p"

lemma open_redirect:
  assumes "\<forall>i n. answer sys i n"
  shows "\<exists>n p1 p'. open_fd sys path md p = (Some n, p1) \<and> redirect (Some n) k p1 = Some p' \<and> same_process p p' \<and>
    get_fd k (fds p') = Some (Opened path md (pid p) (calls p)) \<and>
    get_fd n (fds p') = Some (Opened path md (pid p) (calls p)) \<and>
    (\<forall>j s. j \<noteq> k \<longrightarrow> get_fd j (fds p) = Some s \<longrightarrow> get_fd j (fds p') = Some s)"
  using assms get_free_fd [of "fds p"]
  by (auto simp: open_fd_def ask_def Let_def redirect_def same_process_def)

lemma redirect_in_ok:
  assumes "\<forall>i n. answer sys i n"
  shows "\<exists>p'. redirect_in sys f p = Some p' \<and> same_process p p' \<and> (f = '''' \<longrightarrow> p' = p) \<and>
    (f \<noteq> '''' \<longrightarrow> get_fd 0 (fds p') = Some (Opened f Mode_read (pid p) (calls p))) \<and>
    (\<forall>j s. j \<noteq> 0 \<longrightarrow> get_fd j (fds p) = Some s \<longrightarrow> get_fd j (fds p') = Some s)"
proof (cases "f = ''''")
  case False
  then show ?thesis using open_redirect [OF assms, of f Mode_read p 0] by (fastforce simp: redirect_in_def)
qed (simp add: redirect_in_def same_process_def)

lemma redirect_out_ok:
  assumes "\<forall>i n. answer sys i n"
  shows "\<exists>fd p'. redirect_out sys fl f p = Some (fd, p') \<and> same_process p p' \<and> (f = '''' \<longrightarrow> p' = p) \<and>
    (f \<noteq> '''' \<longrightarrow> (\<exists>n k. fd = Some n \<and> get_fd 1 (fds p') = Some (Opened f (append_mode fl IO_OUT_APPEND) (pid p) k) \<and>
       get_fd n (fds p') = get_fd 1 (fds p'))) \<and>
    (\<forall>j s. j \<noteq> 1 \<longrightarrow> get_fd j (fds p) = Some s \<longrightarrow> get_fd j (fds p') = Some s)"
proof (cases "f = ''''")
  case False
  then show ?thesis
    using open_redirect [OF assms, of f "append_mode fl IO_OUT_APPEND" p 1] by (fastforce simp: redirect_out_def)
qed (simp add: redirect_out_def same_process_def)

lemma redirect_err_ok:
  assumes "\<forall>i n. answer sys i n" "e \<noteq> '''' \<Longrightarrow> e = f \<Longrightarrow> \<exists>n s. fd = Some n \<and> get_fd n (fds p) = Some s \<and> get_fd 1 (fds p) = Some s"
  shows "\<exists>p'. redirect_err sys fl f e fd p = Some p' \<and> same_process p p' \<and> (e = '''' \<longrightarrow> p' = p) \<and>
    (e \<noteq> '''' \<longrightarrow> (if e = f then get_fd 2 (fds p') = get_fd 1 (fds p)
       else \<exists>k. get_fd 2 (fds p') = Some (Opened e (append_mode fl IO_ERR_APPEND) (pid p) k))) \<and>
    (\<forall>j s. j \<noteq> 2 \<longrightarrow> get_fd j (fds p) = Some s \<longrightarrow> get_fd j (fds p') = Some s)"
proof (cases "e = '''' \<or> e = f")
  case True
  then show ?thesis
    using assms(2) by (cases "e = ''''") (auto simp: redirect_err_def redirect_def same_process_def)
next
  case False
  then show ?thesis
    using open_redirect [OF assms(1), of e "append_mode fl IO_ERR_APPEND" p 2] by (fastforce simp: redirect_err_def)
qed

definition file_of :: "process \<Rightarrow> word_parts list \<Rightarrow> string" where
  "file_of p ws = concat (flatten (display_list p ws))"

text \<open>
  C21: With a \<open>size_t\<close> of 32 bits, a command that is not built in and has no equals sign forks a child that loads
  the program with the expanded words as its arguments, in the shell's directory and with its variables, and with the
  files named in the redirections on its first three descriptors, errors going to the output's file if the two names
  are equal; the shell waits for it and the result is its exit code.
\<close>

theorem shell_runs_program:
  assumes "load = concat (flatten (display_list p (verb s)))" "load \<notin> {''cd'', ''true'', ''false''}"
    "CHR ''='' \<notin> set load" "args = flatten (display_list p (params s))" "length args \<le> 98"
    "\<forall>i n. answer sys i n" "program sys (forks p # pid p) = Exited n"
    "get_fd 0 (fds p) = Some s0" "get_fd 1 (fds p) = Some s1" "get_fd 2 (fds p) = Some s2"
  shows "\<exists>m p'. display_command 32 sys (Simple s) p =
      (Result (int (n mod 256)) p', [Child (forks p # pid p) [Exec (forks p # pid p) m], Waited (forks p # pid p)]) \<and>
    argv m = load # args \<and> img_env m = env p \<and> img_cwd m = cwd p \<and>
    get_fd 0 (img_fds m) = Some (if file_of p (sc_in s) = '''' then s0
      else Opened (file_of p (sc_in s)) Mode_read (forks p # pid p) 0) \<and>
    (if file_of p (sc_out s) = '''' then get_fd 1 (img_fds m) = Some s1
     else \<exists>k. get_fd 1 (img_fds m) =
       Some (Opened (file_of p (sc_out s)) (append_mode (io_flags s) IO_OUT_APPEND) (forks p # pid p) k)) \<and>
    (if file_of p (sc_err s) = '''' then get_fd 2 (img_fds m) = Some s2
     else if file_of p (sc_err s) = file_of p (sc_out s) then get_fd 2 (img_fds m) = get_fd 1 (img_fds m)
     else \<exists>k. get_fd 2 (img_fds m) =
       Some (Opened (file_of p (sc_err s)) (append_mode (io_flags s) IO_ERR_APPEND) (forks p # pid p) k))"
proof -
  let ?i = "forks p # pid p"
  define fi fo fe where "fi = file_of p (sc_in s)" and "fo = file_of p (sc_out s)" and "fe = file_of p (sc_err s)"
  obtain q p' where f: "fork sys p = Some (q, p')" using fork_succeeds [OF assms(6)] by blast
  note q = fork_child [OF f]
  have calls: "calls q = 0" using f by (auto simp: fork_def ask_def split: if_splits)
  have all: "takeWhile (\<lambda>c. c \<noteq> CHR ''='') load = load" using assms(3) by (auto simp: takeWhile_eq_all_conv)
  have pos: "eq_pos 32 load = npos 32" unfolding eq_pos_def find_eq_def Let_def all by (simp add: npos_def)
  from redirect_in_ok [OF assms(6), of fi q] obtain q1 where i: "redirect_in sys fi q = Some q1" "same_process q q1"
    "get_fd 0 (fds q1) = Some (if fi = '''' then s0 else Opened fi Mode_read ?i 0)"
    "get_fd 1 (fds q1) = Some s1" "get_fd 2 (fds q1) = Some s2"
    using q calls assms(8-10) by (cases "fi = ''''") auto
  from redirect_out_ok [OF assms(6), of "io_flags s" fo q1] obtain fd q2 where o':
    "redirect_out sys (io_flags s) fo q1 = Some (fd, q2)" "same_process q1 q2" "fo = '''' \<Longrightarrow> q2 = q1"
    "fo \<noteq> '''' \<Longrightarrow> \<exists>n k. fd = Some n \<and> get_fd 1 (fds q2) = Some (Opened fo (append_mode (io_flags s) IO_OUT_APPEND) ?i k) \<and>
       get_fd n (fds q2) = get_fd 1 (fds q2)"
    "get_fd 0 (fds q2) = get_fd 0 (fds q1)" "get_fd 2 (fds q2) = Some s2"
    using i q by (auto simp: same_process_def)
  have "\<exists>n s. fd = Some n \<and> get_fd n (fds q2) = Some s \<and> get_fd 1 (fds q2) = Some s" if "fe \<noteq> ''''" "fe = fo"
    using o'(4) that by auto
  from redirect_err_ok [OF assms(6) this] obtain q3 where e: "redirect_err sys (io_flags s) fo fe fd q2 = Some q3"
    "same_process q2 q3" "fe = '''' \<Longrightarrow> q3 = q2"
    "fe \<noteq> '''' \<Longrightarrow> if fe = fo then get_fd 2 (fds q3) = get_fd 1 (fds q2)
       else \<exists>k. get_fd 2 (fds q3) = Some (Opened fe (append_mode (io_flags s) IO_ERR_APPEND) (pid q2) k)"
    "\<forall>j s. j \<noteq> 2 \<longrightarrow> get_fd j (fds q2) = Some s \<longrightarrow> get_fd j (fds q3) = Some s"
    by blast
  define m where "m = \<lparr>argv = load # args, img_env = env q3, img_cwd = cwd q3, img_fds = fds q3\<rparr>"
  have same: "pid q3 = ?i" "env q3 = env p" "cwd q3 = cwd p"
    using i(2) o'(2) e(2) q by (simp_all add: same_process_def)
  have r: "redirections sys (display_simple p s) q = Some q3"
    using i(1) o'(1) e(1) by (simp add: redirections_def Let_def display_simple_def fi_def fo_def fe_def file_of_def)
  have "simple_child sys (display_simple p s) load q = (Some (Exited n), [Exec ?i m])"
    using assms(4,5,7) r same by (simp add: simple_child_def Let_def display_simple_def m_def)
  moreover have "ic_command (display_simple p s) = display_list p (verb s)" by (simp add: display_simple_def)
  ultimately have "display_command 32 sys (Simple s) p = (Result (int (n mod 256)) p', [Child ?i [Exec ?i m], Waited ?i])"
    using assms(1,2) pos f q
    by (simp add: execute_simple_command_def wait_result_def exit_code_def of_nat_mod)
  moreover have "get_fd 0 (fds q3) = get_fd 0 (fds q1)" using e(5) o'(5) i(3) by auto
  moreover have "get_fd 1 (fds q3) = get_fd 1 (fds q2)" using e(5) o'(3,4) i(4) by (cases "fo = ''''") auto
  ultimately show ?thesis
    using i(3,4) o'(3,4) o'(6) e(3,4) same m_def o'(2) i(2) q
    by (intro exI [of _ m] exI [of _ p']) (auto simp: fi_def fo_def fe_def same_process_def)
qed

section \<open>Witnesses\<close>

definition word :: "string \<Rightarrow> word_parts list" where
  "word w = [[\<lparr>part_string = w, expand = False\<rparr>]]"

definition plain :: "string \<Rightarrow> command" where
  "plain w = Simple \<lparr>verb = word w, params = [], sc_in = [], sc_out = [], sc_err = [], io_flags = IO_REGULAR\<rparr>"

definition start_process :: process where
  "start_process = \<lparr>pid = [], forks = 0, calls = 0, env = \<lambda>_. None, cwd = [],
     fds = [Some (Inherited 0), Some (Inherited 1), Some (Inherited 2)]\<rparr>"

definition all_well :: system where "all_well = \<lparr>answer = \<lambda>_ _. True, program = \<lambda>_. Exited 3\<rparr>"

lemmas run_shell = word_def plain_def start_process_def all_well_def display_simple_def display_list_def
  display_word_def flatten_def execute_simple_command_def fork_def ask_def eq_pos_def find_eq_def npos_def
  in_child_def pipe_child_def parallel_child_def make_pipe_def redirect_def close_fd_def get_fd_def set_fd_def
  exits_def raw_exit_def exit_code_def simple_child_def redirections_def redirect_in_def redirect_out_def
  redirect_err_def wait_result_def and_then_def

theorem shell_keeps_descriptors_witness:
  "\<exists>p' evs. display_command 32 all_well (Node OP_PIPE (plain ''true'') (plain ''false'')) start_process = (Result 256 p', evs) \<and>
     fds p' = [Some (Inherited 0), Some (Inherited 1), Some (Inherited 2)]"
proof -
  obtain p' evs where d: "display_command 32 all_well (Node OP_PIPE (plain ''true'') (plain ''false'')) start_process =
      (Result 256 p', evs)"
    by (simp add: run_shell numeral_2_eq_2)
  from shell_keeps_descriptors [OF d] d show ?thesis by (simp add: start_process_def)
qed

theorem shell_pipe_ends_witness:
  "\<exists>m. ([0, 0, 0], m) \<in> set (images (snd (display_command 32 all_well (Node OP_PIPE (plain ''ls'') (plain ''wc'')) start_process))) \<and>
     Pipe_read [0] \<notin> streams (img_fds m)"
proof -
  have "\<exists>m. ([0, 0, 0], m) \<in> set (images (snd (display_command 32 all_well
      (Node OP_PIPE (plain ''ls'') (plain ''wc'')) start_process)))"
    by (simp add: run_shell numeral_2_eq_2)
  then obtain m where m: "([0, 0, 0], m) \<in> set (images (snd (display_command 32 all_well
      (Node OP_PIPE (plain ''ls'') (plain ''wc'')) start_process)))" by blast
  have i: "[0] = forks start_process # pid start_process" by (simp add: start_process_def)
  have n: "Pipe_read [0] \<notin> streams (fds start_process)" "Pipe_write [0] \<notin> streams (fds start_process)"
    by (auto simp: streams_def start_process_def get_fd_def less_Suc_eq numeral_3_eq_3)
  have "suffix (0 # [0]) [0, 0, 0 :: nat]" by (simp add: suffix_def)
  with shell_pipe_ends [OF i n m] m show ?thesis by blast
qed

theorem shell_joined_status_witness:
  "\<exists>r p' evs. display_command 32 all_well
     (Node OP_PARALLEL (plain ''true'') (Node OP_PIPE (plain ''true'') (plain ''false''))) start_process = (Result r p', evs) \<and> r = 0"
proof -
  obtain r p' evs where d: "display_command 32 all_well
      (Node OP_PARALLEL (plain ''true'') (Node OP_PIPE (plain ''true'') (plain ''false''))) start_process = (Result r p', evs)"
    by (simp add: run_shell numeral_2_eq_2)
  have "\<forall>i n. answer all_well i n" by (simp add: all_well_def)
  from shell_joined_status [OF this _ d] d show ?thesis by auto
qed

theorem shell_wide_starts_nothing_witness:
  "images (snd (display_command 64 all_well (Node OP_SEQUENTIAL (plain ''ls'') (plain ''wc'')) start_process)) = []"
  using shell_wide_starts_nothing [of 64 all_well "Node OP_SEQUENTIAL (plain ''ls'') (plain ''wc'')" start_process] by simp

theorem shell_runs_program_witness:
  "\<exists>m p'. display_command 32 all_well (plain ''ls'') start_process =
     (Result 3 p', [Child [0] [Exec [0] m], Waited [0]]) \<and> argv m = [''ls''] \<and> get_fd 1 (img_fds m) = Some (Inherited 1)"
proof -
  let ?s = "\<lparr>verb = word ''ls'', params = [], sc_in = [], sc_out = [], sc_err = [], io_flags = IO_REGULAR\<rparr>"
  have "\<forall>i n. answer all_well i n" "program all_well (forks start_process # pid start_process) = Exited 3"
    "''ls'' = concat (flatten (display_list start_process (verb ?s)))"
    "[] = flatten (display_list start_process (params ?s))"
    "get_fd 0 (fds start_process) = Some (Inherited 0)" "get_fd 1 (fds start_process) = Some (Inherited 1)"
    "get_fd 2 (fds start_process) = Some (Inherited 2)"
    by (simp_all add: all_well_def start_process_def flatten_def display_list_def display_word_def word_def get_fd_def)
  from shell_runs_program [OF this(3) _ _ this(4) _ this(1,2,5-7)] show ?thesis
    by (auto simp: plain_def start_process_def file_of_def display_list_def flatten_def)
qed

end
