(* ===== verification/SortTasks.thy ===== *)
theory SortTasks
  imports Base
begin

text \<open>
  The tasks of the fault-tolerant sorting service, \<open>task_manager.cpp\<close>: sorting and merging, the
  packets they travel in, the manager with its queue, and the check-point file. Numbers are C \<open>int\<close>s
  that are only compared and copied. A buffer is modelled by the part that a packet fills:
  what does not fit, and reading past the end of a packet, is \<open>None\<close>.
\<close>

section \<open>Tasks\<close>

definition TASK_NOT_SOLVED :: int where "TASK_NOT_SOLVED = 10"
definition TASK_IN_PROGRESS :: int where "TASK_IN_PROGRESS = 11"
definition TASK_SOLVED :: int where "TASK_SOLVED = 12"
definition SORT_TASK :: int where "SORT_TASK = 111"
definition MERGE_TASK :: int where "MERGE_TASK = 112"
definition MAX_PACKET_INTS :: nat where "MAX_PACKET_INTS = 16 * 1024"
definition MAX_CHILDREN_NUMBER :: nat where "MAX_CHILDREN_NUMBER = 4"

text \<open>The state of a task, its own data, and for merging the two parts.\<close>

datatype task = Sort_task int "int list" | Merge_task int "int list" "int list" "int list"

fun setTaskStatus :: "int \<Rightarrow> task \<Rightarrow> task" where
  "setTaskStatus st (Sort_task st0 d) = Sort_task st d"
| "setTaskStatus st (Merge_task st0 d d1 d2) = Merge_task st d d1 d2"

fun getData :: "task \<Rightarrow> int list" where
  "getData (Sort_task st d) = d"
| "getData (Merge_task st d d1 d2) = d"

definition getSize :: "task \<Rightarrow> nat" where "getSize t = length (getData t)"

definition new_sort :: "int list \<Rightarrow> task" where "new_sort d = Sort_task TASK_NOT_SOLVED d"

definition new_merge :: "int list \<Rightarrow> int list \<Rightarrow> task" where
  "new_merge d1 d2 = Merge_task TASK_NOT_SOLVED [] d1 d2"

section \<open>Computing\<close>

text \<open>The inner loop of the insertion sort, with \<open>j + 1\<close> as its counter.\<close>

fun shift_loop :: "int list \<Rightarrow> int \<Rightarrow> nat \<Rightarrow> int list" where
  "shift_loop a v 0 = a[0 := v]"
| "shift_loop a v (Suc j) = (if a ! j > v then shift_loop (a[Suc j := a ! j]) v j else a[Suc j := v])"

definition sort_loop :: "int list \<Rightarrow> int list" where
  "sort_loop a = fold (\<lambda>i a. shift_loop a (a ! i) i) [0..<length a] a"

text \<open>The three loops of the merge, on what is left of the two parts.\<close>

fun merge_loop :: "int list \<Rightarrow> int list \<Rightarrow> int list" where
  "merge_loop (x # xs) (y # ys) = (if x < y then x # merge_loop xs (y # ys) else y # merge_loop (x # xs) ys)"
| "merge_loop xs [] = xs"
| "merge_loop [] ys = ys"

fun computeResult :: "task \<Rightarrow> task" where
  "computeResult (Sort_task st d) = Sort_task TASK_SOLVED (sort_loop d)"
| "computeResult (Merge_task st d d1 d2) =
     (if length d1 + length d2 = 0 then Merge_task st [] d1 d2
      else Merge_task TASK_SOLVED (merge_loop d1 d2) d1 d2)"

section \<open>Packets\<close>

fun write_task :: "task \<Rightarrow> int list option" where
  "write_task (Sort_task st d) =
     (if length d + 2 \<le> MAX_PACKET_INTS then Some (SORT_TASK # int (length d) # d) else None)"
| "write_task (Merge_task st d d1 d2) =
     (if length d1 + length d2 + 3 \<le> MAX_PACKET_INTS
      then Some (MERGE_TASK # int (length d1) # d1 @ int (length d2) # d2) else None)"

text \<open>\<open>copyData\<close> of \<open>n\<close> numbers from an offset of a packet.\<close>

definition copyData :: "int list \<Rightarrow> nat \<Rightarrow> int \<Rightarrow> int list option" where
  "copyData buffer off n =
     (if n < 0 \<or> off + nat n > length buffer then None else Some (take (nat n) (drop off buffer)))"

definition nth_int :: "int list \<Rightarrow> int \<Rightarrow> int option" where
  "nth_int buffer i = (if i < 0 \<or> nat i \<ge> length buffer then None else Some (buffer ! nat i))"

definition read_task :: "int list \<Rightarrow> task option" where
  "read_task buffer = do {
     header \<leftarrow> nth_int buffer 0;
     size1 \<leftarrow> nth_int buffer 1;
     if header = SORT_TASK then do {
       d \<leftarrow> copyData buffer 2 size1;
       Some (new_sort d)
     }
     else if header = MERGE_TASK then do {
       size2 \<leftarrow> nth_int buffer (size1 + 2);
       d1 \<leftarrow> copyData buffer 2 size1;
       d2 \<leftarrow> copyData buffer (nat size1 + 3) size2;
       Some (new_merge d1 d2)
     }
     else None
   }"

section \<open>The manager\<close>

record tasks_manager =
  m_tasks :: "task list"
  merge_task1 :: "task option"
  m_buffered_tasks :: "task option list"

definition new_manager :: tasks_manager where
  "new_manager = \<lparr>m_tasks = [], merge_task1 = None, m_buffered_tasks = replicate MAX_CHILDREN_NUMBER None\<rparr>"

definition putTask :: "task \<Rightarrow> tasks_manager \<Rightarrow> tasks_manager" where
  "putTask t m = m\<lparr>m_tasks := m_tasks m @ [setTaskStatus TASK_NOT_SOLVED t]\<rparr>"

definition putMergeTask :: "task \<Rightarrow> tasks_manager \<Rightarrow> bool \<times> tasks_manager" where
  "putMergeTask t m = (case merge_task1 m of
     None \<Rightarrow> (False, m\<lparr>merge_task1 := Some t\<rparr>)
   | Some t1 \<Rightarrow> (True, m\<lparr>m_tasks := m_tasks m @ [new_merge (getData t1) (getData t)], merge_task1 := None\<rparr>))"

definition removeTask :: "tasks_manager \<Rightarrow> task option \<times> tasks_manager" where
  "removeTask m = (case m_tasks m of
     [] \<Rightarrow> (None, m)
   | t # ts \<Rightarrow> (Some (setTaskStatus TASK_IN_PROGRESS t), m\<lparr>m_tasks := ts\<rparr>))"

definition removeTask_for :: "nat \<Rightarrow> tasks_manager \<Rightarrow> task option \<times> tasks_manager" where
  "removeTask_for slave_id m = (let (t, m) = removeTask m in
     (t, m\<lparr>m_buffered_tasks := (m_buffered_tasks m)[slave_id := t]\<rparr>))"

definition set_task_failed :: "nat \<Rightarrow> tasks_manager \<Rightarrow> tasks_manager" where
  "set_task_failed slave_id m =
     (let m = (case m_buffered_tasks m ! slave_id of None \<Rightarrow> m | Some t \<Rightarrow> putTask t m) in
      m\<lparr>m_buffered_tasks := (m_buffered_tasks m)[slave_id := None]\<rparr>)"

definition set_task_successed :: "nat \<Rightarrow> tasks_manager \<Rightarrow> tasks_manager" where
  "set_task_successed slave_id m = m\<lparr>m_buffered_tasks := (m_buffered_tasks m)[slave_id := None]\<rparr>"

definition get_queue_size :: "tasks_manager \<Rightarrow> nat" where "get_queue_size m = length (m_tasks m)"

section \<open>The check-point file\<close>

fun serialize_task :: "task \<Rightarrow> int list" where
  "serialize_task (Sort_task st d) = st # int (length d) # d"
| "serialize_task (Merge_task st d d1 d2) =
     st # int (length d) # d @ int (length d1) # d1 @ int (length d2) # d2"

fun header_of :: "task \<Rightarrow> int" where
  "header_of (Sort_task st d) = SORT_TASK"
| "header_of (Merge_task st d d1 d2) = MERGE_TASK"

text \<open>The image of a \<open>MergeTask\<close>: its table of functions and seven members, of 32 bits each.\<close>

definition MERGE_IMAGE :: nat where "MERGE_IMAGE = 8"

definition empty_task :: "int list" where "empty_task = replicate MERGE_IMAGE 0"

definition serialize_slot :: "task option \<Rightarrow> int list" where
  "serialize_slot b = (case b of None \<Rightarrow> empty_task | Some t \<Rightarrow> serialize_task t)"

definition serialize :: "tasks_manager \<Rightarrow> int list" where
  "serialize m = int (length (m_tasks m)) #
     concat (map (\<lambda>t. header_of t # serialize_task t) (m_tasks m)) @
     concat (map serialize_slot (m_buffered_tasks m)) @
     serialize_slot (merge_task1 m)"

text \<open>Reading: the value and the rest of the file, \<open>None\<close> where the file is too short.\<close>

definition fread_int :: "int list \<Rightarrow> (int \<times> int list) option" where
  "fread_int f = (case f of [] \<Rightarrow> None | x # r \<Rightarrow> Some (x, r))"

definition fread_ints :: "int \<Rightarrow> int list \<Rightarrow> (int list \<times> int list) option" where
  "fread_ints n f = (if n < 0 \<or> nat n > length f then None else Some (take (nat n) f, drop (nat n) f))"

definition deserialize_sort :: "int list \<Rightarrow> (task \<times> int list) option" where
  "deserialize_sort f = do {
     (st, f) \<leftarrow> fread_int f;
     (n, f) \<leftarrow> fread_int f;
     (d, f) \<leftarrow> fread_ints n f;
     Some (Sort_task st d, f)
   }"

definition deserialize_merge :: "int list \<Rightarrow> (task \<times> int list) option" where
  "deserialize_merge f = do {
     (st, f) \<leftarrow> fread_int f;
     (n, f) \<leftarrow> fread_int f;
     (d, f) \<leftarrow> (if n > 0 then fread_ints n f else Some ([], f));
     (n1, f) \<leftarrow> fread_int f;
     (d1, f) \<leftarrow> fread_ints n1 f;
     (n2, f) \<leftarrow> fread_int f;
     (d2, f) \<leftarrow> fread_ints n2 f;
     Some (Merge_task st d d1 d2, f)
   }"

fun deserialize_tasks :: "nat \<Rightarrow> int list \<Rightarrow> (task list \<times> int list) option" where
  "deserialize_tasks 0 f = Some ([], f)"
| "deserialize_tasks (Suc n) f = do {
     (header, f) \<leftarrow> fread_int f;
     (t, f) \<leftarrow> (if header = SORT_TASK then deserialize_sort f
              else if header = MERGE_TASK then deserialize_merge f else None);
     (ts, f) \<leftarrow> deserialize_tasks n f;
     Some (t # ts, f)
   }"

text \<open>A slot is read as the image of an object, null if it is all zeros.\<close>

definition deserialize_slot :: "int list \<Rightarrow> (int list option \<times> int list) option" where
  "deserialize_slot f = do {
     (image, f) \<leftarrow> fread_ints (int MERGE_IMAGE) f;
     Some (if image = empty_task then None else Some image, f)
   }"

fun deserialize_slots :: "nat \<Rightarrow> int list \<Rightarrow> (int list option list \<times> int list) option" where
  "deserialize_slots 0 f = Some ([], f)"
| "deserialize_slots (Suc n) f = do {
     (s, f) \<leftarrow> deserialize_slot f;
     (ss, f) \<leftarrow> deserialize_slots n f;
     Some (s # ss, f)
   }"

text \<open>The queue, and the images for the buffered tasks and the task to be merged.\<close>

definition deserialize :: "int list \<Rightarrow> (task list \<times> int list option list \<times> int list option) option" where
  "deserialize f = do {
     (n, f) \<leftarrow> fread_int f;
     (ts, f) \<leftarrow> deserialize_tasks (nat n) f;
     (bs, f) \<leftarrow> deserialize_slots MAX_CHILDREN_NUMBER f;
     (m, f) \<leftarrow> deserialize_slot f;
     Some (ts, bs, m)
   }"

end
