(* ===== verification/SortService.thy ===== *)
theory SortService
  imports SortTasks
begin

text \<open>
  The sorting service: the master's loop over its slaves, what a slave does with a packet, the mirror that takes
  over, and the start of the two masters (\<open>manager.cpp\<close>, \<open>operations.cpp\<close>, \<open>worker.cpp\<close>).
  Whether the \<open>n\<close>th slave that is asked answers is \<open>alive n\<close>; the message library delivers packets in order.
  \<open>None\<close> is a step that C++ leaves undefined or a loop that does not end.
\<close>

section \<open>A slave\<close>

text \<open>What a slave sends back for a packet: always a sorting task with the result.\<close>

definition worker :: "int list \<Rightarrow> int list option" where
  "worker packet = do {
     t \<leftarrow> read_task packet;
     (case computeResult t of
        Sort_task st d \<Rightarrow> write_task (Sort_task st d)
      | Merge_task st d d1 d2 \<Rightarrow> write_task (new_sort d))
   }"

section \<open>The master\<close>

record master =
  mgr :: tasks_manager
  task_sent :: "bool list"
  ntasks_in_queue :: int
  ntasks_to_receive :: int
  current_slave :: nat
  slaves_size :: nat
  packets :: "nat \<Rightarrow> int list option"
  asked :: nat
  sent_to :: "nat list"
  check_point_file :: "int list"

text \<open>\<open>send_task\<close> looks at the task's size first, so a missing one is a null pointer that is followed.\<close>

definition send_task :: "task option \<Rightarrow> nat \<Rightarrow> master \<Rightarrow> master option" where
  "send_task t slave s = (case t of
     None \<Rightarrow> None
   | Some t \<Rightarrow> do {
       p \<leftarrow> write_task t;
       Some (s\<lparr>packets := (packets s)(slave \<mapsto> p), sent_to := sent_to s @ [slave]\<rparr>)
     })"

definition check_point :: "master \<Rightarrow> master" where
  "check_point s = s\<lparr>check_point_file := serialize (mgr s)\<rparr>"

text \<open>A slave that does not answer is replaced, and its task goes back to the queue.\<close>

definition slave_failed :: "nat \<Rightarrow> master \<Rightarrow> master" where
  "slave_failed it s = s\<lparr>packets := (packets s)(it := None), mgr := set_task_failed it (mgr s),
     task_sent := (task_sent s)[it := False], ntasks_to_receive := ntasks_to_receive s - 1\<rparr>"

definition take_answer :: "nat \<Rightarrow> int list \<Rightarrow> master \<Rightarrow> master option" where
  "take_answer it answer s = do {
     t \<leftarrow> read_task answer;
     let (merged, m) = putMergeTask t (set_task_successed it (mgr s));
     Some (s\<lparr>packets := (packets s)(it := None), mgr := m, task_sent := (task_sent s)[it := False],
       ntasks_to_receive := ntasks_to_receive s - 1,
       ntasks_in_queue := ntasks_in_queue s - 1 + (if merged then 1 else 0)\<rparr>)
   }"

definition slave_answered :: "nat \<Rightarrow> master \<Rightarrow> master option" where
  "slave_answered it s = do {
     packet \<leftarrow> packets s it;
     answer \<leftarrow> worker packet;
     take_answer it answer s
   }"

text \<open>The loop over the slaves, which stops at the first answer.\<close>

fun check_recv :: "(nat \<Rightarrow> bool) \<Rightarrow> nat list \<Rightarrow> master \<Rightarrow> master option" where
  "check_recv alive [] s = Some s"
| "check_recv alive (it # its) s =
     (if \<not> task_sent s ! it then check_recv alive its s
      else if alive (asked s) then slave_answered it (s\<lparr>asked := asked s + 1\<rparr>)
      else check_recv alive its (slave_failed it (s\<lparr>asked := asked s + 1\<rparr>)))"

definition check_recv_from_slaves :: "(nat \<Rightarrow> bool) \<Rightarrow> master \<Rightarrow> master option" where
  "check_recv_from_slaves alive s = check_recv alive [0..<MAX_CHILDREN_NUMBER] s"

text \<open>The search for a slave without a task; with \<open>crash\<close>, the first master leaves at its first turn.\<close>

datatype leaving = Crashed master | Stays master

partial_function (option) find_slave :: "bool \<Rightarrow> (nat \<Rightarrow> bool) \<Rightarrow> master \<Rightarrow> leaving option" where
  "find_slave crash alive s =
     (let s = check_point s in
      if crash then Some (Crashed s)
      else if \<not> task_sent s ! current_slave s then
        let (t, m) = removeTask_for (current_slave s) (mgr s) in
        Option.bind (send_task t (current_slave s) (s\<lparr>mgr := m, ntasks_to_receive := ntasks_to_receive s + 1\<rparr>))
          (\<lambda>s. Some (Stays (s\<lparr>task_sent := (task_sent s)[current_slave s := True]\<rparr>)))
      else if slaves_size s = 0 then None
      else Option.bind (check_recv_from_slaves alive (s\<lparr>current_slave := (current_slave s + 1) mod slaves_size s\<rparr>))
        (find_slave crash alive))"

partial_function (option) main_loop :: "bool \<Rightarrow> (nat \<Rightarrow> bool) \<Rightarrow> master \<Rightarrow> leaving option" where
  "main_loop crash alive s =
     (if \<not> ntasks_in_queue s + ntasks_to_receive s > 0 then Some (Stays s)
      else if ntasks_in_queue s > 1 then
        Option.bind (find_slave crash alive s) (\<lambda>l. case l of
          Crashed s \<Rightarrow> Some (Crashed s)
        | Stays s \<Rightarrow> Option.bind (check_recv_from_slaves alive s) (main_loop crash alive))
      else if ntasks_in_queue s = 1 \<and> ntasks_to_receive s = 0 then Some (Stays s)
      else Option.bind (check_recv_from_slaves alive s) (main_loop crash alive))"

text \<open>What the loop starts from; \<open>slaves\<close> is what \<open>spawn_workers\<close> has left in \<open>slaves_size\<close>.\<close>

definition start_loop :: "nat \<Rightarrow> tasks_manager \<Rightarrow> master" where
  "start_loop slaves m = \<lparr>mgr = m, task_sent = replicate MAX_CHILDREN_NUMBER False,
     ntasks_in_queue = int (get_queue_size m), ntasks_to_receive = 0, current_slave = 0, slaves_size = slaves,
     packets = \<lambda>_. None, asked = 0, sent_to = [], check_point_file = serialize m\<rparr>"

section \<open>The result\<close>

text \<open>\<open>check_task\<close>: what is written to the output, the size and the numbers; nothing if they are not sorted.\<close>

fun in_order :: "int list \<Rightarrow> bool" where
  "in_order (x # y # r) \<longleftrightarrow> \<not> x > y \<and> in_order (y # r)"
| "in_order xs = True"

definition check_task :: "task \<Rightarrow> (int \<times> int list) option" where
  "check_task t = (if in_order (getData t) then Some (int (getSize t), getData t) else None)"

definition finish_solving :: "tasks_manager \<Rightarrow> (int \<times> int list) option" where
  "finish_solving m = (case removeTask m of
     (None, m) \<Rightarrow> None
   | (Some t, m) \<Rightarrow>
       let t = computeResult t in
       check_task (case merge_task1 m of
         None \<Rightarrow> t
       | Some b \<Rightarrow> computeResult (new_merge (getData t) (getData b))))"

section \<open>The two masters\<close>

definition get_optim_buffer_size :: nat where "get_optim_buffer_size = 3 * 1024"

text \<open>The numbers a master of \<open>size\<close> reads from the file, and the tasks it cuts them into.\<close>

definition my_part :: "nat \<Rightarrow> nat \<Rightarrow> int list \<Rightarrow> int list" where
  "my_part n rank numbers =
     (let additional_offset = length numbers mod n in
      if rank = 0 then take (length numbers div n + additional_offset) numbers
      else let my_numbers = length numbers div n in
        take my_numbers (drop (my_numbers * rank + additional_offset) numbers))"

function next_tasks :: "nat \<Rightarrow> int list \<Rightarrow> nat \<Rightarrow> task list" where
  "next_tasks optim buffer offset =
     (if offset \<ge> length buffer \<or> optim = 0 then []
      else new_sort (if offset + optim \<le> length buffer then take optim (drop offset buffer) else drop offset buffer) #
        next_tasks optim buffer (offset + optim))"
  by pat_completeness auto
termination by (relation "measure (\<lambda>(optim, buffer, offset). length buffer - offset)") auto

declare next_tasks.simps [simp del]

text \<open>The other master's tasks reach the first one in packets.\<close>

fun receive_tasks :: "task list \<Rightarrow> tasks_manager \<Rightarrow> tasks_manager option" where
  "receive_tasks [] m = Some m"
| "receive_tasks (t # ts) m = do {
     packet \<leftarrow> write_task t;
     t \<leftarrow> read_task packet;
     receive_tasks ts (putTask t m)
   }"

definition start_master :: "nat \<Rightarrow> int list \<Rightarrow> tasks_manager option" where
  "start_master n numbers =
     (let m = fold putTask (next_tasks get_optim_buffer_size (my_part n 0 numbers) 0) new_manager in
      if n = 1 then Some m
      else receive_tasks (next_tasks get_optim_buffer_size (my_part n 1 numbers) 0) m)"

text \<open>The mirror reads the file once, before the loops start; images of objects are not usable.\<close>

definition start_mirror :: "int list \<Rightarrow> tasks_manager option" where
  "start_mirror file = (case deserialize file of
     Some (ts, bs, None) \<Rightarrow> if bs = replicate MAX_CHILDREN_NUMBER None
       then Some (new_manager\<lparr>m_tasks := ts\<rparr>) else None
   | _ \<Rightarrow> None)"

text \<open>The service with two masters; with \<open>crash\<close> the first leaves at its first turn, and the mirror, whose
  \<open>slaves_size\<close> is still 0, does the work.\<close>

definition service :: "bool \<Rightarrow> (nat \<Rightarrow> bool) \<Rightarrow> int list \<Rightarrow> (int \<times> int list) option" where
  "service crash alive numbers = do {
     m \<leftarrow> start_master 2 numbers;
     mirror \<leftarrow> start_mirror (serialize m);
     l \<leftarrow> main_loop crash alive (start_loop MAX_CHILDREN_NUMBER m);
     (case l of
        Stays s \<Rightarrow> finish_solving (mgr s)
      | Crashed s \<Rightarrow> do {
          l \<leftarrow> main_loop False alive (start_loop 0 mirror);
          (case l of Stays s \<Rightarrow> finish_solving (mgr s) | Crashed s \<Rightarrow> None)
        })
   }"

end
