(* ===== verification/SortTalk.thy ===== *)
theory SortTalk
  imports SortService
begin

text \<open>
  What the master and a slave say to each other about one task (\<open>operations.cpp\<close>, \<open>worker.cpp\<close>), message by message, and who is
  told to leave at the end (\<open>manager.cpp\<close>). A task is three messages with tag 1, the call whether the slave is alive and its
  answer are one number with tag 2. The library keeps the messages of a sender and a tag in order and delivers them after any
  time; a message of at most \<open>limit\<close> numbers is taken over by it, for a longer one \<open>MPI_Send\<close> waits until it is received.
\<close>

definition TIMEOUT_SLAVE :: nat where "TIMEOUT_SLAVE = 5"

section \<open>The talk\<close>

text \<open>The master in \<open>send_task\<close>, then in \<open>is_process_alive\<close>, then in the loop over the slaves.\<close>

datatype master_pc = Sends_header | Sends_size | Sends_task | Sent_task | Asks | Polls nat
  | Gets_header | Gets_size | Gets_answer int | Has "int list" | Gives_up

text \<open>The slave at the top of its loop with the polls it has left, in \<open>receive_task\<close>, and in \<open>send_task\<close>.\<close>

datatype slave_pc = Waits nat | Hears int | Takes_header | Takes_size | Takes_task int | Computes "int list"
  | Returns_header "int list" | Returns_size "int list" | Returns_task "int list" | Returned "int list" | Again | Left

record talk =
  at_master :: master_pc
  at_slave :: slave_pc
  head_down :: "int list"
  data_down :: "int list list"
  head_up :: "int list"
  data_up :: "int list list"

text \<open>\<open>call\<close> is the number the master asks with, 1 in one of four cases and else 0; \<open>p\<close> is the packet.\<close>

inductive talk_step :: "nat \<Rightarrow> int \<Rightarrow> int list \<Rightarrow> talk \<Rightarrow> talk \<Rightarrow> bool" for limit call p where
  m_header: "at_master c = Sends_header \<Longrightarrow>
    talk_step limit call p c (c\<lparr>at_master := Sends_size, data_down := data_down c @ [[0]]\<rparr>)"
| m_size: "at_master c = Sends_size \<Longrightarrow>
    talk_step limit call p c (c\<lparr>at_master := Sends_task, data_down := data_down c @ [[int (length p)]]\<rparr>)"
| m_task: "at_master c = Sends_task \<Longrightarrow>
    talk_step limit call p c (c\<lparr>at_master := Sent_task, data_down := data_down c @ [p]\<rparr>)"
| m_sent: "at_master c = Sent_task \<Longrightarrow> length p \<le> limit \<or> data_down c = [] \<Longrightarrow>
    talk_step limit call p c (c\<lparr>at_master := Asks\<rparr>)"
| m_ask: "at_master c = Asks \<Longrightarrow>
    talk_step limit call p c (c\<lparr>at_master := Polls TIMEOUT_SLAVE, head_down := head_down c @ [call]\<rparr>)"
| m_reply: "at_master c = Polls (Suc n) \<Longrightarrow> head_up c = x # r \<Longrightarrow>
    talk_step limit call p c (c\<lparr>at_master := Gets_header, head_up := r\<rparr>)"
| m_poll: "at_master c = Polls (Suc n) \<Longrightarrow> talk_step limit call p c (c\<lparr>at_master := Polls n\<rparr>)"
| m_late: "at_master c = Polls 0 \<Longrightarrow> talk_step limit call p c (c\<lparr>at_master := Gives_up\<rparr>)"
| m_get_header: "at_master c = Gets_header \<Longrightarrow> data_up c = [x] # r \<Longrightarrow>
    talk_step limit call p c (c\<lparr>at_master := Gets_size, data_up := r\<rparr>)"
| m_get_size: "at_master c = Gets_size \<Longrightarrow> data_up c = [n] # r \<Longrightarrow>
    talk_step limit call p c (c\<lparr>at_master := Gets_answer n, data_up := r\<rparr>)"
| m_get_answer: "at_master c = Gets_answer n \<Longrightarrow> data_up c = a # r \<Longrightarrow> int (length a) \<le> n \<Longrightarrow>
    talk_step limit call p c (c\<lparr>at_master := Has a, data_up := r\<rparr>)"
| s_hear: "at_slave c = Waits (Suc n) \<Longrightarrow> head_down c = x # r \<Longrightarrow>
    talk_step limit call p c (c\<lparr>at_slave := Hears x, head_down := r\<rparr>)"
| s_poll: "at_slave c = Waits (Suc n) \<Longrightarrow> talk_step limit call p c (c\<lparr>at_slave := Waits n\<rparr>)"
| s_late: "at_slave c = Waits 0 \<Longrightarrow> talk_step limit call p c (c\<lparr>at_slave := Left\<rparr>)"
| s_quit: "at_slave c = Hears x \<Longrightarrow> x \<noteq> 0 \<Longrightarrow> talk_step limit call p c (c\<lparr>at_slave := Left\<rparr>)"
| s_alive: "at_slave c = Hears 0 \<Longrightarrow>
    talk_step limit call p c (c\<lparr>at_slave := Takes_header, head_up := head_up c @ [0]\<rparr>)"
| s_take_header: "at_slave c = Takes_header \<Longrightarrow> data_down c = [x] # r \<Longrightarrow>
    talk_step limit call p c (c\<lparr>at_slave := (if x \<noteq> 0 then Left else Takes_size), data_down := r\<rparr>)"
| s_take_size: "at_slave c = Takes_size \<Longrightarrow> data_down c = [n] # r \<Longrightarrow>
    talk_step limit call p c (c\<lparr>at_slave := Takes_task n, data_down := r\<rparr>)"
| s_take_task: "at_slave c = Takes_task n \<Longrightarrow> data_down c = q # r \<Longrightarrow> int (length q) \<le> n \<Longrightarrow>
    talk_step limit call p c (c\<lparr>at_slave := Computes q, data_down := r\<rparr>)"
| s_compute: "at_slave c = Computes q \<Longrightarrow> worker q = Some a \<Longrightarrow>
    talk_step limit call p c (c\<lparr>at_slave := Returns_header a\<rparr>)"
| s_return_header: "at_slave c = Returns_header a \<Longrightarrow>
    talk_step limit call p c (c\<lparr>at_slave := Returns_size a, data_up := data_up c @ [[0]]\<rparr>)"
| s_return_size: "at_slave c = Returns_size a \<Longrightarrow>
    talk_step limit call p c (c\<lparr>at_slave := Returns_task a, data_up := data_up c @ [[int (length a)]]\<rparr>)"
| s_return_task: "at_slave c = Returns_task a \<Longrightarrow>
    talk_step limit call p c (c\<lparr>at_slave := Returned a, data_up := data_up c @ [a]\<rparr>)"
| s_again: "at_slave c = Returned a \<Longrightarrow> length a \<le> limit \<or> data_up c = [] \<Longrightarrow>
    talk_step limit call p c (c\<lparr>at_slave := Again\<rparr>)"

inductive_cases talk_stepE: "talk_step limit call p c c'"

definition start_talk :: "nat \<Rightarrow> talk" where
  "start_talk polls = \<lparr>at_master = Sends_header, at_slave = Waits polls, head_down = [], data_down = [], head_up = [], data_up = []\<rparr>"

text \<open>What the master does with the end of the talk with slave \<open>it\<close>.\<close>

fun after_talk :: "nat \<Rightarrow> master_pc \<Rightarrow> master \<Rightarrow> master option" where
  "after_talk it Gives_up s = Some (slave_failed it s)"
| "after_talk it (Has a) s = take_answer it a s"
| "after_talk it _ s = None"

section \<open>Starting and ending processes\<close>

text \<open>
  Communicators are numbers, \<open>MPI_COMM_WORLD\<close> is the first; a spawned process gets a new one. The map of the processes is a
  list of pairs in the order of its keys.
\<close>

definition MPI_COMM_WORLD :: nat where "MPI_COMM_WORLD = 0"

record processes =
  existing :: "(nat \<times> nat) list"
  slaves_comm :: "nat list"
  next_comm :: nat

definition map_insert :: "nat \<Rightarrow> nat \<Rightarrow> (nat \<times> nat) list \<Rightarrow> (nat \<times> nat) list" where
  "map_insert k v m = (if k \<in> set (map fst m) then m else insort_key fst (k, v) m)"

definition map_erase :: "nat \<Rightarrow> (nat \<times> nat) list \<Rightarrow> (nat \<times> nat) list" where
  "map_erase k m = filter (\<lambda>(k', v). k' \<noteq> k) m"

text \<open>\<open>MPI_Comm_spawn\<close> into place \<open>it\<close>, and the pair that is entered for it.\<close>

definition spawn :: "nat \<Rightarrow> processes \<Rightarrow> processes" where
  "spawn it s = s\<lparr>slaves_comm := (slaves_comm s)[it := next_comm s], next_comm := next_comm s + 1,
     existing := map_insert (next_comm s) it (existing s)\<rparr>"

definition spawn_workers :: "nat \<Rightarrow> bool \<Rightarrow> processes \<Rightarrow> processes" where
  "spawn_workers rank mirror_server s =
     (if \<not> mirror_server \<and> rank \<noteq> 0 then s else fold spawn [0..<MAX_CHILDREN_NUMBER] s)"

text \<open>A slave that has failed is replaced.\<close>

definition respawn :: "nat \<Rightarrow> processes \<Rightarrow> processes" where
  "respawn it s = spawn it (s\<lparr>existing := map_erase (slaves_comm s ! it) (existing s)\<rparr>)"

text \<open>The processes of a master before the loop: the first enters the world, in which the mirror is.\<close>

definition start_processes :: "nat \<Rightarrow> processes" where
  "start_processes rank = \<lparr>existing = (if rank = 0 then map_insert MPI_COMM_WORLD 1 [] else []),
     slaves_comm = replicate MAX_CHILDREN_NUMBER MPI_COMM_WORLD, next_comm = 1\<rparr>"

text \<open>The messages of \<open>send_quit_to_slaves\<close>: communicator, rank in it, tag and number.\<close>

record mpi_message = in_comm :: nat to_rank :: nat with_tag :: nat number :: int

definition send_quit_to_slaves :: "processes \<Rightarrow> mpi_message list" where
  "send_quit_to_slaves s = map (\<lambda>(comm, it).
     if comm = MPI_COMM_WORLD then \<lparr>in_comm = comm, to_rank = 1, with_tag = 1, number = 1\<rparr>
     else \<lparr>in_comm = comm, to_rank = 0, with_tag = 2, number = 1\<rparr>) (existing s)"

text \<open>What the mirror does with the number it waits for: go on as the master, or end.\<close>

definition mirror_takes_over :: "int \<Rightarrow> bool" where "mirror_takes_over header \<longleftrightarrow> header = 111"

text \<open>The processes of a master after its loop, in which slaves fail at the places \<open>fails\<close>.\<close>

definition processes_after :: "nat \<Rightarrow> nat list \<Rightarrow> processes" where
  "processes_after rank fails = fold respawn fails (spawn_workers rank (rank \<noteq> 0) (start_processes rank))"

end
