(* ===== verification/SortTasksCorrect.thy ===== *)
theory SortTasksCorrect
  imports SortTasks "HOL-Library.Multiset"
begin

text \<open>
  Sorting and merging give sorted lists with the same numbers, packets carry tasks, and the
  check-point file gives the queue back as long as nothing is buffered.
\<close>

section \<open>Computing\<close>

lemma insort_last: "v < y \<Longrightarrow> insort v (xs @ [y]) = insort v xs @ [y :: int]"
  by (induction xs) auto

lemma insort_end: "sorted xs \<Longrightarrow> \<forall>x\<in>set xs. x \<le> v \<Longrightarrow> insort v xs = xs @ [v :: int]"
  using properties_for_sort [of "xs @ [v]" "v # xs"] by (simp add: sorted_append sorted_sort_id)

text \<open>The inner loop inserts a number into the sorted part before it.\<close>

lemma shift_loop_insort:
  "n < length a \<Longrightarrow> sorted (take n a) \<Longrightarrow> shift_loop a v n = insort v (take n a) @ drop (Suc n) a"
proof (induction a v n rule: shift_loop.induct)
  case (1 a v)
  then show ?case by (cases a) simp_all
next
  case (2 a v j)
  have snoc: "take (Suc j) a = take j a @ [a ! j]" using "2.prems"(1) by (simp add: take_Suc_conv_app_nth)
  show ?case
  proof (cases "a ! j > v")
    case True
    have "shift_loop (a[Suc j := a ! j]) v j = insort v (take j a) @ drop (Suc j) (a[Suc j := a ! j])"
      using "2.IH" [OF True] "2.prems" snoc by (simp add: sorted_append)
    also have "drop (Suc j) (a[Suc j := a ! j]) = a ! j # drop (Suc (Suc j)) a"
      using "2.prems"(1) by (simp add: Cons_nth_drop_Suc [symmetric])
    finally show ?thesis using True by (simp add: snoc insort_last)
  next
    case False
    have "\<forall>x\<in>set (take (Suc j) a). x \<le> v" using False "2.prems"(2) by (auto simp: snoc sorted_append)
    then have "insort v (take (Suc j) a) = take (Suc j) a @ [v]" using insort_end "2.prems"(2) by blast
    then show ?thesis using False "2.prems"(1) by (simp add: upd_conv_take_nth_drop)
  qed
qed

lemma sort_loop_prefix:
  "n \<le> length a \<Longrightarrow> fold (\<lambda>i a. shift_loop a (a ! i) i) [0..<n] a = sort (take n a) @ drop n a"
proof (induction n)
  case (Suc n)
  let ?b = "sort (take n a) @ drop n a"
  have len: "length (sort (take n a)) = n" using Suc.prems by simp
  have "?b ! n = a ! n" "take n ?b = sort (take n a)" "drop (Suc n) ?b = drop (Suc n) a" "n < length ?b"
    using Suc.prems len by (simp_all add: nth_append)
  then have "shift_loop ?b (?b ! n) n = insort (a ! n) (sort (take n a)) @ drop (Suc n) a"
    using shift_loop_insort [of n ?b "a ! n"] by simp
  also have "insort (a ! n) (sort (take n a)) = sort (take (Suc n) a)"
    using Suc.prems by (intro properties_for_sort [symmetric])
      (simp_all add: take_Suc_conv_app_nth sorted_insort)
  finally show ?case using Suc by simp
qed simp

lemma sort_loop: "sort_loop a = sort a"
  using sort_loop_prefix [of "length a" a] by (simp add: sort_loop_def)

lemma merge_loop_mset [simp]: "mset (merge_loop xs ys) = mset xs + mset ys"
  by (induction xs ys rule: merge_loop.induct) auto

lemma merge_loop_set: "set (merge_loop xs ys) = set xs \<union> set ys"
  by (metis merge_loop_mset set_mset_mset set_mset_union)

lemma merge_loop_sorted: "sorted xs \<Longrightarrow> sorted ys \<Longrightarrow> sorted (merge_loop xs ys)"
  by (induction xs ys rule: merge_loop.induct) (auto simp: merge_loop_set)

text \<open>The numbers of a task; a task is good if its parts are sorted.\<close>

fun numbers_of :: "task \<Rightarrow> int multiset" where
  "numbers_of (Sort_task st d) = mset d"
| "numbers_of (Merge_task st d d1 d2) = mset d1 + mset d2"

fun good_task :: "task \<Rightarrow> bool" where
  "good_task (Sort_task st d) = True"
| "good_task (Merge_task st d d1 d2) \<longleftrightarrow> sorted d1 \<and> sorted d2"

lemma computeResult_correct:
  "good_task t \<Longrightarrow> getData (computeResult t) = sorted_list_of_multiset (numbers_of t)"
proof -
  have uniq: "xs = sorted_list_of_multiset m" if "sorted xs" "mset xs = m" for xs :: "int list" and m
    using that by (metis sorted_list_of_multiset_mset sorted_sort_id)
  assume "good_task t"
  then show ?thesis by (cases t) (auto intro!: uniq simp: sort_loop merge_loop_sorted)
qed

lemma status_frame [simp]:
  "numbers_of (setTaskStatus st t) = numbers_of t" "good_task (setTaskStatus st t) = good_task t"
  "getData (setTaskStatus st t) = getData t"
  by (cases t; simp)+

section \<open>Packets\<close>

definition same_task :: "task \<Rightarrow> task \<Rightarrow> bool" where
  "same_task t t' \<longleftrightarrow> numbers_of t' = numbers_of t \<and> good_task t' = good_task t"

lemma nth_int_simps [simp]:
  "nth_int (x # xs) 0 = Some x" "0 < i \<Longrightarrow> nth_int (x # xs) i = nth_int xs (i - 1)"
  "nth_int (xs @ ys) (int (length xs)) = nth_int ys 0"
  by (auto simp: nth_int_def nat_diff_distrib nth_Cons' nth_append)

text \<open>
  A task that fits a packet arrives as it was, except for its status and result: its numbers, and
  for merging its two parts.
\<close>

theorem packets_carry_tasks:
  "(length d + 2 \<le> MAX_PACKET_INTS \<longrightarrow>
     Option.bind (write_task (Sort_task st d)) read_task = Some (new_sort d)) \<and>
   (length d1 + length d2 + 3 \<le> MAX_PACKET_INTS \<longrightarrow>
     Option.bind (write_task (Merge_task st r d1 d2)) read_task = Some (new_merge d1 d2)) \<and>
   (length d1 + length d2 + 3 > MAX_PACKET_INTS \<longrightarrow> write_task (Merge_task st r d1 d2) = None)"
  by (auto simp: read_task_def copyData_def SORT_TASK_def MERGE_TASK_def) (simp add: numeral_3_eq_3)

section \<open>The check-point file\<close>

lemma fread_ints_append [simp]: "fread_ints (int (length d)) (d @ f) = Some (d, f)"
  by (simp add: fread_ints_def)

lemma fread_int_Cons [simp]: "fread_int (x # f) = Some (x, f)"
  by (simp add: fread_int_def)

lemma deserialize_sort: "deserialize_sort (serialize_task (Sort_task st d) @ f) = Some (Sort_task st d, f)"
  by (simp add: deserialize_sort_def)

lemma deserialize_merge:
  "deserialize_merge (serialize_task (Merge_task st d d1 d2) @ f) = Some (Merge_task st d d1 d2, f)"
  by (cases "d = []") (simp_all add: deserialize_merge_def)

lemma deserialize_tasks:
  "deserialize_tasks (length ts) (concat (map (\<lambda>t. header_of t # serialize_task t) ts) @ f) = Some (ts, f)"
proof (induction ts)
  case (Cons t ts)
  then show ?case
    by (cases t) (simp_all add: SORT_TASK_def MERGE_TASK_def deserialize_sort [simplified] deserialize_merge [simplified])
qed simp

lemma deserialize_empty: "deserialize_slot (empty_task @ f) = Some (None, f)"
  using fread_ints_append [of empty_task f] by (simp add: deserialize_slot_def empty_task_def)

lemma deserialize_slots_empty:
  "deserialize_slots n (concat (replicate n empty_task) @ f) = Some (replicate n None, f)"
  by (induction n) (simp_all add: deserialize_empty)

lemma serialize_new: "serialize (new_manager\<lparr>m_tasks := ts, merge_task1 := mt\<rparr>) = int (length ts) #
    concat (map (\<lambda>t. header_of t # serialize_task t) ts) @ concat (replicate MAX_CHILDREN_NUMBER empty_task) @ serialize_slot mt"
  by (simp add: serialize_def new_manager_def serialize_slot_def)

lemma deserialize_new:
  "deserialize (serialize (new_manager\<lparr>m_tasks := ts, merge_task1 := mt\<rparr>)) =
     map_option (\<lambda>(s, f). (ts, replicate MAX_CHILDREN_NUMBER None, s)) (deserialize_slot (serialize_slot mt))"
  by (cases "deserialize_slot (serialize_slot mt)")
    (auto simp: deserialize_def serialize_new deserialize_tasks deserialize_slots_empty)

lemma checkpoint_queue:
  "deserialize (serialize (new_manager\<lparr>m_tasks := ts\<rparr>)) = Some (ts, replicate MAX_CHILDREN_NUMBER None, None)"
proof -
  have "new_manager\<lparr>m_tasks := ts, merge_task1 := None\<rparr> = new_manager\<lparr>m_tasks := ts\<rparr>" by (simp add: new_manager_def)
  then show ?thesis
    using deserialize_new [where ts = ts and mt = None] deserialize_empty [of "[]"] by (simp add: serialize_slot_def)
qed

text \<open>
  C35: The check-point file gives the queue of the manager back, in order and with every task as it was, while no
  task is out with a slave or waits to be merged. With a task waiting to be merged that has at least six
  numbers, reading takes the first eight numbers written for an object, which is not that task.
\<close>

theorem checkpoint_roundtrip:
  "deserialize (serialize (new_manager\<lparr>m_tasks := ts\<rparr>)) = Some (ts, replicate MAX_CHILDREN_NUMBER None, None) \<and>
   (length d \<ge> 6 \<longrightarrow> deserialize (serialize (new_manager\<lparr>m_tasks := ts, merge_task1 := Some (Sort_task TASK_NOT_SOLVED d)\<rparr>)) =
      Some (ts, replicate MAX_CHILDREN_NUMBER None, Some (TASK_NOT_SOLVED # int (length d) # take 6 d)))"
proof (intro conjI checkpoint_queue)
  have "deserialize_slot (TASK_NOT_SOLVED # int (length d) # d) =
      Some (Some (TASK_NOT_SOLVED # int (length d) # take 6 d), drop 6 d)" if "length d \<ge> 6"
    using that by (simp add: deserialize_slot_def fread_ints_def MERGE_IMAGE_def empty_task_def TASK_NOT_SOLVED_def
      numeral_eq_Suc)
  then show "length d \<ge> 6 \<longrightarrow> deserialize (serialize (new_manager\<lparr>m_tasks := ts, merge_task1 := Some (Sort_task TASK_NOT_SOLVED d)\<rparr>)) =
      Some (ts, replicate MAX_CHILDREN_NUMBER None, Some (TASK_NOT_SOLVED # int (length d) # take 6 d))"
    by (simp add: deserialize_new serialize_slot_def)
qed

theorem checkpoint_roundtrip_witness:
  "deserialize (serialize (new_manager\<lparr>m_tasks := [], merge_task1 := Some (Sort_task TASK_NOT_SOLVED [1, 2, 3, 4, 5, 6, 7])\<rparr>)) =
     Some ([], replicate 4 None, Some [10, 7, 1, 2, 3, 4, 5, 6])"
  using checkpoint_roundtrip [where ts = "[]" and d = "[1, 2, 3, 4, 5, 6, 7]"]
  by (simp add: TASK_NOT_SOLVED_def MAX_CHILDREN_NUMBER_def numeral_eq_Suc)

theorem packets_carry_tasks_witness:
  "Option.bind (write_task (Merge_task 11 [] [1, 5] [2])) read_task = Some (new_merge [1, 5] [2])"
  using packets_carry_tasks [where st = 11 and r = "[]" and ?d1.0 = "[1, 5]" and ?d2.0 = "[2]"] by (simp add: MAX_PACKET_INTS_def)

end
