(* ===== verification/SortServiceCorrect.thy ===== *)
theory SortServiceCorrect
  imports SortService SortTasksCorrect
begin

text \<open>
  The service sorts: every turn of the master's loop hands one task to the first slave and gets it back, solved or
  not, no number is lost or doubled on the way, and the loop ends when slaves keep answering.
\<close>

section \<open>The numbers the master holds\<close>

definition held :: "tasks_manager \<Rightarrow> int multiset" where
  "held m = (\<Sum>t\<leftarrow>m_tasks m. numbers_of t) + (case merge_task1 m of None \<Rightarrow> {#} | Some t \<Rightarrow> numbers_of t)"

definition answer_of :: "task \<Rightarrow> task" where
  "answer_of t = new_sort (sorted_list_of_multiset (numbers_of t))"

definition sorted_answer :: "task \<Rightarrow> bool" where
  "sorted_answer t \<longleftrightarrow> (\<exists>st d. t = Sort_task st d \<and> sorted d)"

text \<open>A manager between two turns: nothing is out with a slave, and what it holds fits a packet.\<close>

definition manager_ok :: "tasks_manager \<Rightarrow> bool" where
  "manager_ok m \<longleftrightarrow> (\<forall>t\<in>set (m_tasks m). good_task t) \<and> m_tasks m \<noteq> [] \<and>
     (\<forall>t. merge_task1 m = Some t \<longrightarrow> sorted_answer t) \<and>
     m_buffered_tasks m = replicate MAX_CHILDREN_NUMBER None \<and> size (held m) + 3 \<le> MAX_PACKET_INTS"

definition idle :: "master \<Rightarrow> bool" where
  "idle s \<longleftrightarrow> task_sent s = replicate MAX_CHILDREN_NUMBER False \<and> ntasks_to_receive s = 0 \<and> current_slave s = 0 \<and>
     ntasks_in_queue s = int (get_queue_size (mgr s)) \<and> manager_ok (mgr s)"

lemma idleD:
  assumes "idle s"
  shows "task_sent s = replicate MAX_CHILDREN_NUMBER False" "ntasks_to_receive s = 0" "current_slave s = 0"
    "ntasks_in_queue s = int (length (m_tasks (mgr s)))" "manager_ok (mgr s)"
  using assms by (simp_all add: idle_def get_queue_size_def)

lemma answer_of_simps [simp]:
  "numbers_of (answer_of t) = numbers_of t" "sorted_answer (answer_of t)"
  "getData (answer_of t) = sorted_list_of_multiset (numbers_of t)"
  by (simp_all add: answer_of_def new_sort_def sorted_answer_def)

lemma sorted_answer_numbers: "sorted_answer t \<Longrightarrow> mset (getData t) = numbers_of t \<and> sorted (getData t)"
  by (auto simp: sorted_answer_def)

lemma new_merge_simps [simp]:
  "numbers_of (new_merge d1 d2) = mset d1 + mset d2" "good_task (new_merge d1 d2) = (sorted d1 \<and> sorted d2)"
  by (simp_all add: new_merge_def)

section \<open>A packet to a slave and back\<close>

fun as_read :: "task \<Rightarrow> task" where
  "as_read (Sort_task st d) = new_sort d"
| "as_read (Merge_task st d d1 d2) = new_merge d1 d2"

lemma as_read_simps [simp]: "numbers_of (as_read t) = numbers_of t" "good_task (as_read t) = good_task t"
  by (cases t; simp add: new_sort_def)+

lemma packet_of: 
  "size (numbers_of t) + 3 \<le> MAX_PACKET_INTS \<Longrightarrow> \<exists>p. write_task t = Some p \<and> read_task p = Some (as_read t)"
  by (cases t) (auto simp: read_task_def copyData_def SORT_TASK_def MERGE_TASK_def numeral_3_eq_3)

lemma worker_answers:
  assumes "good_task t" and "size (numbers_of t) + 3 \<le> MAX_PACKET_INTS"
  obtains p a where "write_task t = Some p" "worker p = Some a" "read_task a = Some (answer_of t)"
proof -
  obtain p where p: "write_task t = Some p" "read_task p = Some (as_read t)" using packet_of assms(2) by blast
  let ?d = "getData (computeResult (as_read t))"
  have d: "?d = sorted_list_of_multiset (numbers_of t)" using computeResult_correct [of "as_read t"] assms(1) by simp
  have fit: "size (numbers_of (Sort_task st ?d)) + 3 \<le> MAX_PACKET_INTS" for st using assms(2) by (simp add: d)
  have "\<exists>st. worker p = write_task (Sort_task st ?d)"
    by (cases t) (auto simp: worker_def p(2) new_sort_def new_merge_def)
  then obtain st where w: "worker p = write_task (Sort_task st ?d)" ..
  obtain a where "write_task (Sort_task st ?d) = Some a" "read_task a = Some (answer_of t)"
    using packet_of [OF fit] by (auto simp: answer_of_def d)
  then show thesis using that p(1) w by simp
qed

section \<open>One turn of the loop\<close>

definition turn :: "(nat \<Rightarrow> bool) \<Rightarrow> master \<Rightarrow> master option" where
  "turn alive s = Option.bind (find_slave False alive s) (\<lambda>l. case l of
     Crashed s \<Rightarrow> None | Stays s \<Rightarrow> check_recv_from_slaves alive s)"

text \<open>The first task leaves the queue and is out with the first slave.\<close>

definition handed :: "task \<Rightarrow> task list \<Rightarrow> int list \<Rightarrow> master \<Rightarrow> master" where
  "handed t q p s = (check_point s)\<lparr>mgr := (mgr s)\<lparr>m_tasks := q,
       m_buffered_tasks := (m_buffered_tasks (mgr s))[0 := Some (setTaskStatus TASK_IN_PROGRESS t)]\<rparr>,
     ntasks_to_receive := 1, packets := (packets s)(0 \<mapsto> p), sent_to := sent_to s @ [0],
     task_sent := (task_sent s)[0 := True]\<rparr>"

lemma write_task_status [simp]: "write_task (setTaskStatus st t) = write_task t"
  by (cases t) simp_all

lemma find_slave_idle:
  assumes "idle s" and "m_tasks (mgr s) = t # q" and "write_task t = Some p"
  shows "find_slave False alive s = Some (Stays (handed t q p s))"
  using assms(2,3) idleD(1-3) [OF assms(1)]
  by (subst find_slave.simps) (simp add: check_point_def handed_def removeTask_for_def removeTask_def send_task_def
    MAX_CHILDREN_NUMBER_def numeral_eq_Suc)

lemma check_recv_from_first:
  "task_sent s = (replicate MAX_CHILDREN_NUMBER False)[0 := True] \<Longrightarrow> check_recv_from_slaves alive s =
     (if alive (asked s) then slave_answered 0 (s\<lparr>asked := asked s + 1\<rparr>)
      else Some (slave_failed 0 (s\<lparr>asked := asked s + 1\<rparr>)))"
  by (simp add: check_recv_from_slaves_def MAX_CHILDREN_NUMBER_def upt_rec numeral_eq_Suc slave_failed_def)

text \<open>After a turn: what the manager has become, with the counters.\<close>

definition turned :: "master \<Rightarrow> tasks_manager \<Rightarrow> master \<Rightarrow> bool" where
  "turned s m s' \<longleftrightarrow> mgr s' = m \<and> asked s' = asked s + 1 \<and> sent_to s' = sent_to s @ [0] \<and>
     slaves_size s' = slaves_size s \<and> task_sent s' = replicate MAX_CHILDREN_NUMBER False \<and>
     ntasks_to_receive s' = 0 \<and> current_slave s' = 0 \<and> ntasks_in_queue s' = int (length (m_tasks m))"

lemma turn_failed:
  assumes "idle s" and "m_tasks (mgr s) = t # q" and "write_task t = Some p" and "\<not> alive (asked s)"
  shows "\<exists>s'. turn alive s = Some s' \<and>
    turned s ((mgr s)\<lparr>m_tasks := q @ [setTaskStatus TASK_NOT_SOLVED (setTaskStatus TASK_IN_PROGRESS t)]\<rparr>) s'"
proof -
  have b: "m_buffered_tasks (mgr s) = replicate MAX_CHILDREN_NUMBER None" using idleD(5) [OF assms(1)] by (simp add: manager_ok_def)
  show ?thesis using assms(2,4) idleD(1-4) [OF assms(1)]
    by (simp add: turn_def find_slave_idle [OF assms(1-3)] check_recv_from_first handed_def check_point_def turned_def
      slave_failed_def set_task_failed_def putTask_def b MAX_CHILDREN_NUMBER_def numeral_eq_Suc)
qed

lemma turn_answered:
  assumes "idle s" and "m_tasks (mgr s) = t # q" and "write_task t = Some p" and "alive (asked s)"
    and "worker p = Some a" and "read_task a = Some r"
  shows "\<exists>s'. turn alive s = Some s' \<and> turned s (snd (putMergeTask r ((mgr s)\<lparr>m_tasks := q\<rparr>))) s'"
proof -
  have b: "m_buffered_tasks (mgr s) = replicate MAX_CHILDREN_NUMBER None" using idleD(5) [OF assms(1)] by (simp add: manager_ok_def)
  show ?thesis using assms(2,4-6) idleD(1-4) [OF assms(1)]
    by (cases "merge_task1 (mgr s)") (simp_all add: turn_def find_slave_idle [OF assms(1-3)] check_recv_from_first
      handed_def check_point_def turned_def slave_answered_def take_answer_def set_task_successed_def putMergeTask_def b
      MAX_CHILDREN_NUMBER_def numeral_eq_Suc)
qed

section \<open>The loop\<close>

definition work_left :: "tasks_manager \<Rightarrow> nat" where
  "work_left m = 2 * length (m_tasks m) + (if merge_task1 m = None then 0 else 1)"

text \<open>What a turn keeps of the manager: its numbers and its form.\<close>

definition keeps :: "tasks_manager \<Rightarrow> tasks_manager \<Rightarrow> bool" where
  "keeps m m' \<longleftrightarrow> (manager_ok m \<longrightarrow> held m' = held m \<and> (length (m_tasks m) > 1 \<longrightarrow> manager_ok m'))"

lemma after_failure:
  assumes "m_tasks m = t # q"
  shows "keeps m (m\<lparr>m_tasks := q @ [setTaskStatus a (setTaskStatus b t)]\<rparr>)"
    and "work_left (m\<lparr>m_tasks := q @ [setTaskStatus a (setTaskStatus b t)]\<rparr>) = work_left m"
  using assms by (auto simp: keeps_def held_def manager_ok_def work_left_def split: option.splits)

lemma after_answer:
  assumes "m_tasks m = t # q"
  shows "keeps m (snd (putMergeTask (answer_of t) (m\<lparr>m_tasks := q\<rparr>)))"
    and "work_left m = Suc (work_left (snd (putMergeTask (answer_of t) (m\<lparr>m_tasks := q\<rparr>))))"
proof -
  show "keeps m (snd (putMergeTask (answer_of t) (m\<lparr>m_tasks := q\<rparr>)))"
  proof (cases "merge_task1 m")
    case None
    then show ?thesis using assms by (auto simp: keeps_def held_def manager_ok_def putMergeTask_def)
  next
    case (Some b)
    then show ?thesis using assms
      by (auto simp: keeps_def held_def manager_ok_def putMergeTask_def sorted_answer_numbers ac_simps)
  qed
  show "work_left m = Suc (work_left (snd (putMergeTask (answer_of t) (m\<lparr>m_tasks := q\<rparr>))))"
    using assms by (cases "merge_task1 m") (simp_all add: work_left_def putMergeTask_def)
qed

lemma task_fits:
  assumes "manager_ok m" and "m_tasks m = t # q"
  shows "good_task t" "size (numbers_of t) + 3 \<le> MAX_PACKET_INTS"
  using assms by (auto simp: manager_ok_def held_def)

text \<open>A turn with more than one task in the queue: the work shrinks if the slave answers.\<close>

lemma turn_progress:
  assumes "idle s" and "length (m_tasks (mgr s)) > 1"
  obtains s' where "turn alive s = Some s'" "idle s'" "held (mgr s') = held (mgr s)" "asked s' = asked s + 1"
    "sent_to s' = sent_to s @ [0]"
    "work_left (mgr s) = work_left (mgr s') + (if alive (asked s) then 1 else 0)"
    "\<not> alive (asked s) \<longrightarrow> length (m_tasks (mgr s')) = length (m_tasks (mgr s))"
proof -
  obtain t q where tq: "m_tasks (mgr s) = t # q" using assms(2) by (cases "m_tasks (mgr s)") auto
  note ok = idleD(5) [OF assms(1)]
  obtain p a where w: "write_task t = Some p" "worker p = Some a" "read_task a = Some (answer_of t)"
    using worker_answers [OF task_fits [OF ok tq]] by blast
  have "\<exists>s' m. turn alive s = Some s' \<and> turned s m s' \<and> keeps (mgr s) m \<and>
      work_left (mgr s) = work_left m + (if alive (asked s) then 1 else 0) \<and>
      (\<not> alive (asked s) \<longrightarrow> length (m_tasks m) = length (m_tasks (mgr s)))"
  proof (cases "alive (asked s)")
    case True
    then show ?thesis using turn_answered [OF assms(1) tq w(1) _ w(2,3)] after_answer [OF tq] by fastforce
  next
    case False
    then show ?thesis using turn_failed [OF assms(1) tq w(1)] after_failure [OF tq] tq by fastforce
  qed
  then obtain s' m where t: "turn alive s = Some s'" "turned s m s'" "keeps (mgr s) m"
    "work_left (mgr s) = work_left m + (if alive (asked s) then 1 else 0)"
    "\<not> alive (asked s) \<longrightarrow> length (m_tasks m) = length (m_tasks (mgr s))" by blast
  then show thesis using that ok assms(2) by (auto simp: turned_def keeps_def idle_def get_queue_size_def)
qed

lemma main_loop_turn:
  assumes "idle s" and "length (m_tasks (mgr s)) > 1"
  shows "main_loop False alive s = Option.bind (turn alive s) (main_loop False alive)"
proof -
  obtain t q where tq: "m_tasks (mgr s) = t # q" using assms(2) by (cases "m_tasks (mgr s)") auto
  obtain p where w: "write_task t = Some p"
    using worker_answers [OF task_fits [OF idleD(5) [OF assms(1)] tq]] by blast
  show ?thesis using assms(2) idleD(2,4) [OF assms(1)]
    by (subst main_loop.simps) (auto simp add: turn_def find_slave_idle [OF assms(1) tq w])
qed

lemma main_loop_ends:
  "idle s \<Longrightarrow> length (m_tasks (mgr s)) = 1 \<Longrightarrow> main_loop crash alive s = Some (Stays s)"
  using idleD(2,4) by (subst main_loop.simps) simp

text \<open>If slaves keep answering, the loop ends with one task in the queue and the same numbers.\<close>

definition sorted_out :: "master \<Rightarrow> master \<Rightarrow> bool" where
  "sorted_out s s' \<longleftrightarrow> idle s' \<and> length (m_tasks (mgr s')) = 1 \<and> held (mgr s') = held (mgr s) \<and>
     (\<exists>n. asked s' = asked s + n \<and> sent_to s' = sent_to s @ replicate n 0)"

lemma main_loop_sorts:
  assumes alive: "\<forall>n. \<exists>k\<ge>n. alive k" and "idle s"
  shows "\<exists>s'. main_loop False alive s = Some (Stays s') \<and> sorted_out s s'"
  using assms(2)
proof (induction "(work_left (mgr s), (LEAST k. k \<ge> asked s \<and> alive k) - asked s)" arbitrary: s
    rule: wf_induct_rule [OF wf_lex_prod [OF wf_less_than wf_less_than]])
  case (1 s)
  have "m_tasks (mgr s) \<noteq> []" using idleD(5) [OF "1.prems"] by (simp add: manager_ok_def)
  then consider "length (m_tasks (mgr s)) = 1" | "length (m_tasks (mgr s)) > 1" by (cases "m_tasks (mgr s)") auto
  then show ?case
  proof cases
    case 1
    then show ?thesis using main_loop_ends "1.prems" by (auto simp: sorted_out_def intro!: exI [where x = 0])
  next
    case 2
    obtain s' where t: "turn alive s = Some s'" "idle s'" "held (mgr s') = held (mgr s)" "asked s' = asked s + 1"
      "sent_to s' = sent_to s @ [0]" "work_left (mgr s) = work_left (mgr s') + (if alive (asked s) then 1 else 0)"
      by (rule turn_progress [OF "1.prems" 2])
    let ?next = "\<lambda>n. LEAST k. k \<ge> n \<and> alive k"
    have less: "((work_left (mgr s'), ?next (asked s') - asked s'), (work_left (mgr s), ?next (asked s) - asked s)) \<in> less_than <*lex*> less_than"
    proof (cases "alive (asked s)")
      case False
      have least: "?next n \<ge> n \<and> alive (?next n)" for n using alive LeastI_ex [of "\<lambda>k. k \<ge> n \<and> alive k"] by blast
      have "?next (asked s) \<noteq> asked s" using False least by metis
      then have ge: "?next (asked s) \<ge> asked s + 1" using least [of "asked s"] by simp
      then have "?next (asked s + 1) \<le> ?next (asked s)" using least [of "asked s"] by (intro Least_le) simp
      then have "?next (asked s + 1) - (asked s + 1) < ?next (asked s) - asked s" using ge by arith
      then show ?thesis using False t(4,6) by simp
    qed (simp add: t(6))
    obtain s'' where s'': "main_loop False alive s' = Some (Stays s'')" "sorted_out s' s''"
      using "1.hyps" [OF _ t(2)] less by blast
    then obtain n where "asked s'' = asked s' + n" "sent_to s'' = sent_to s' @ replicate n 0" by (auto simp: sorted_out_def)
    then have "sorted_out s s''" using s''(2) t(3-5) by (auto simp: sorted_out_def intro!: exI [where x = "Suc n"])
    then show ?thesis using s''(1) by (simp add: main_loop_turn [OF "1.prems" 2] t(1))
  qed
qed

text \<open>If no slave ever answers, a loop with two tasks to do does not end.\<close>

lemma main_loop_stuck:
  assumes "\<forall>n. \<not> alive n" and "idle s" and "length (m_tasks (mgr s)) > 1"
  shows "main_loop False alive s = None"
proof -
  let ?busy = "\<lambda>s. idle s \<and> length (m_tasks (mgr s)) > 1"
  have "crash = False \<longrightarrow> a = alive \<longrightarrow> \<not> ?busy s" if "main_loop crash a s = Some l" for crash a s l
  proof (rule main_loop.raw_induct [where P = "\<lambda>crash a s l. crash = False \<longrightarrow> a = alive \<longrightarrow> \<not> ?busy s", OF _ that],
      intro impI notI)
    fix loop crash a s l
    assume ih: "\<And>crash a s l. loop crash a s = Some l \<Longrightarrow> crash = False \<longrightarrow> a = alive \<longrightarrow> \<not> ?busy s"
      and body: "(if \<not> 0 < ntasks_in_queue s + ntasks_to_receive s then Some (Stays s)
        else if 1 < ntasks_in_queue s then find_slave crash a s \<bind> (\<lambda>l. case l of Crashed s \<Rightarrow> Some (Crashed s)
          | Stays s \<Rightarrow> check_recv_from_slaves a s \<bind> loop crash a)
        else if ntasks_in_queue s = 1 \<and> ntasks_to_receive s = 0 then Some (Stays s)
        else check_recv_from_slaves a s \<bind> loop crash a) = Some l"
      and here: "crash = False" "a = alive" "?busy s"
    obtain s' where t: "turn alive s = Some s'" "?busy s'"
      using turn_progress [of s alive] here(3) assms(1) by metis
    have "loop False alive s' = Some l"
      using body [unfolded here(1,2)] here(3) t(1) idleD(2,4) [of s]
      by (auto simp: turn_def split: leaving.splits bind_splits if_splits)
    then show False using ih t(2) by blast
  qed
  then show ?thesis using assms(2,3) by (cases "main_loop False alive s") auto
qed

section \<open>Before and after the loop\<close>

definition packet_task :: "task \<Rightarrow> bool" where
  "packet_task t \<longleftrightarrow> (\<exists>d. t = new_sort d \<and> length d \<le> get_optim_buffer_size)"

text \<open>A part is cut into tasks that together have its numbers, in order.\<close>

lemma next_tasks_cut:
  "0 < n \<Longrightarrow> (\<forall>t\<in>set (next_tasks n b off). \<exists>d. t = new_sort d \<and> length d \<le> n) \<and>
     concat (map getData (next_tasks n b off)) = drop off b"
proof (induction n b off rule: next_tasks.induct)
  case (1 n b off)
  have "take n (drop off b) @ drop (off + n) b = drop off b"
    by (metis add.commute append_take_drop_id drop_drop)
  then show ?case using 1
    by (subst (1 2) next_tasks.simps) (auto simp: new_sort_def)
qed

lemma cut_part:
  "(\<forall>t\<in>set (next_tasks get_optim_buffer_size b 0). packet_task t) \<and>
     concat (map getData (next_tasks get_optim_buffer_size b 0)) = b"
  using next_tasks_cut [of get_optim_buffer_size b 0] by (simp add: packet_task_def get_optim_buffer_size_def)

lemma putTask_new: "putTask (new_sort d) m = m\<lparr>m_tasks := m_tasks m @ [new_sort d]\<rparr>"
  by (simp add: putTask_def new_sort_def)

lemma put_tasks: "\<forall>t\<in>set ts. packet_task t \<Longrightarrow> fold putTask ts m = m\<lparr>m_tasks := m_tasks m @ ts\<rparr>"
proof (induction ts arbitrary: m)
  case (Cons t ts)
  then show ?case by (auto simp: packet_task_def putTask_new)
qed simp

lemma receive_tasks_puts: "\<forall>t\<in>set ts. packet_task t \<Longrightarrow> receive_tasks ts m = Some (m\<lparr>m_tasks := m_tasks m @ ts\<rparr>)"
proof (induction ts arbitrary: m)
  case (Cons t ts)
  obtain d where t: "t = new_sort d" "length d \<le> get_optim_buffer_size" using Cons.prems by (auto simp: packet_task_def)
  have "size (numbers_of t) + 3 \<le> MAX_PACKET_INTS"
    using t by (simp add: new_sort_def get_optim_buffer_size_def MAX_PACKET_INTS_def)
  then obtain p where "write_task t = Some p" "read_task p = Some t"
    using packet_of [of t] t(1) by (auto simp: new_sort_def)
  then show ?case using Cons t(1) by (simp add: putTask_new)
qed simp

text \<open>The parts of the two masters are the input.\<close>

lemma parts_of_two: "my_part 2 0 ns @ my_part 2 1 ns = ns"
proof -
  let ?k = "length ns div 2" and ?r = "length ns mod 2"
  have "length ns = ?k + ?r + ?k" by presburger
  then have "length (drop (?k + ?r) ns) \<le> ?k" by simp
  then show ?thesis by (simp add: my_part_def)
qed

lemma start_master_two:
  obtains ts where "start_master 2 ns = Some (new_manager\<lparr>m_tasks := ts\<rparr>)" "\<forall>t\<in>set ts. packet_task t"
    "concat (map getData ts) = ns"
proof -
  let ?ts = "\<lambda>r. next_tasks get_optim_buffer_size (my_part 2 r ns) 0"
  have "start_master 2 ns = Some (new_manager\<lparr>m_tasks := ?ts 0 @ ?ts 1\<rparr>)"
    using cut_part by (simp add: start_master_def Let_def put_tasks receive_tasks_puts new_manager_def)
  moreover have "\<forall>t\<in>set (?ts 0 @ ?ts 1). packet_task t" using cut_part by auto
  moreover have "concat (map getData (?ts 0 @ ?ts 1)) = ns" using cut_part parts_of_two by simp
  ultimately show thesis using that by blast
qed

lemma held_new:
  "\<forall>t\<in>set ts. packet_task t \<Longrightarrow> held (new_manager\<lparr>m_tasks := ts\<rparr>) = mset (concat (map getData ts))"
  by (induction ts) (auto simp: held_def new_manager_def packet_task_def new_sort_def)

lemma start_idle:
  assumes "\<forall>t\<in>set ts. packet_task t" and "concat (map getData ts) = ns" and "ns \<noteq> []" and "length ns + 3 \<le> MAX_PACKET_INTS"
  shows "idle (start_loop k (new_manager\<lparr>m_tasks := ts\<rparr>))"
proof -
  have "ts \<noteq> []" using assms(2,3) by auto
  moreover have "good_task t" if "t \<in> set ts" for t using assms(1) that by (auto simp: packet_task_def new_sort_def)
  ultimately show ?thesis using assms(4) held_new [OF assms(1)] assms(2)
    by (simp add: idle_def start_loop_def manager_ok_def) (simp add: new_manager_def)
qed

text \<open>The last step: the master solves the task that is left and merges it with the answer that waits.\<close>

lemma in_order_sorted: "in_order xs \<longleftrightarrow> sorted xs"
proof (induction xs rule: in_order.induct)
  case (1 x y r)
  then show ?case by (simp only: in_order.simps sorted2 not_less)
qed simp_all

lemma finish_solving_sorts:
  assumes "manager_ok m" and "length (m_tasks m) = 1"
  shows "finish_solving m = Some (int (size (held m)), sorted_list_of_multiset (held m))"
proof -
  obtain t where t: "m_tasks m = [t]" using assms(2) by (cases "m_tasks m") auto
  have good: "good_task t" using task_fits assms(1) t by blast
  let ?t = "computeResult (setTaskStatus TASK_IN_PROGRESS t)"
  have d: "getData ?t = sorted_list_of_multiset (numbers_of t)" using computeResult_correct good by simp
  have check: "getData u = sorted_list_of_multiset (held m) \<Longrightarrow>
    check_task u = Some (int (size (held m)), sorted_list_of_multiset (held m))" for u
    using size_mset [of "sorted_list_of_multiset (held m)"] by (simp add: check_task_def getSize_def in_order_sorted)
  show ?thesis
  proof (cases "merge_task1 m")
    case None
    then show ?thesis using check [of ?t] t d by (simp add: finish_solving_def removeTask_def held_def)
  next
    case (Some b)
    have "sorted_answer b" using assms(1) Some by (simp add: manager_ok_def)
    then have "getData (computeResult (new_merge (getData ?t) (getData b))) = sorted_list_of_multiset (held m)"
      using Some t sorted_answer_numbers d by (subst computeResult_correct) (auto simp: held_def)
    then show ?thesis using check Some t by (simp add: finish_solving_def removeTask_def)
  qed
qed

section \<open>The service\<close>

lemma queue_of_two:
  assumes "concat (map getData ts) = ns" and "start_master 2 ns = Some (new_manager\<lparr>m_tasks := ts\<rparr>)" and "length ns > 1"
  shows "length ts > 1"
proof -
  let ?ts = "\<lambda>r. next_tasks get_optim_buffer_size (my_part 2 r ns) 0"
  have "start_master 2 ns = Some (new_manager\<lparr>m_tasks := ?ts 0 @ ?ts 1\<rparr>)"
    using cut_part by (simp add: start_master_def Let_def put_tasks receive_tasks_puts new_manager_def)
  then have "ts = ?ts 0 @ ?ts 1" using assms(2) by (simp add: new_manager_def)
  moreover have "length ns div 2 > 0" "length ns div 2 + length ns mod 2 < length ns" using assms(3) by presburger+
  then have "my_part 2 r ns \<noteq> []" if "r < 2" for r
    using that by (auto simp: my_part_def less_2_cases_iff Let_def)
  then have "concat (map getData (?ts 0)) \<noteq> []" "concat (map getData (?ts 1)) \<noteq> []" using cut_part by simp_all
  then have "?ts 0 \<noteq> []" "?ts 1 \<noteq> []" by (metis concat.simps(1) list.simps(8))+
  ultimately show ?thesis by (cases "?ts 0"; cases "?ts 1") auto
qed

lemma service_sorts:
  assumes "ns \<noteq> []" and "length ns + 3 \<le> MAX_PACKET_INTS" and "\<forall>n. \<exists>k\<ge>n. alive k"
  shows "service crash alive ns = Some (int (length ns), sort ns)"
proof -
  obtain ts where ts: "start_master 2 ns = Some (new_manager\<lparr>m_tasks := ts\<rparr>)" "\<forall>t\<in>set ts. packet_task t"
    "concat (map getData ts) = ns" by (rule start_master_two)
  let ?m = "new_manager\<lparr>m_tasks := ts\<rparr>"
  have mirror: "start_mirror (serialize ?m) = Some ?m" by (simp add: start_mirror_def checkpoint_queue)
  have "idle (start_loop k ?m)" for k using start_idle [OF ts(2,3)] assms(1,2) by blast
  note idle = this
  have finish: "finish_solving (mgr s) = Some (int (length ns), sort ns)" if "sorted_out (start_loop k ?m) s" for k s
    using that finish_solving_sorts [OF idleD(5)] held_new [OF ts(2)]
    by (simp add: sorted_out_def start_loop_def ts(3))
  have loop: "\<exists>s. main_loop False alive (start_loop k ?m) = Some (Stays s) \<and> sorted_out (start_loop k ?m) s" for k
    by (rule main_loop_sorts [OF assms(3) idle])
  show ?thesis
  proof (cases "crash \<and> length ts > 1")
    case True
    have "main_loop True alive (start_loop MAX_CHILDREN_NUMBER ?m) = Some (Crashed (check_point (start_loop MAX_CHILDREN_NUMBER ?m)))"
      using True by (subst main_loop.simps, subst find_slave.simps) (auto simp add: start_loop_def get_queue_size_def)
    then show ?thesis using loop [of 0] finish True by (auto simp: service_def ts(1) mirror)
  next
    case False
    have "main_loop crash alive (start_loop MAX_CHILDREN_NUMBER ?m) = main_loop False alive (start_loop MAX_CHILDREN_NUMBER ?m)"
    proof (cases crash)
      case True
      then have "length ts = 1" using False ts(3) assms(1) by (cases ts) auto
      then show ?thesis using main_loop_ends [OF idle] by (simp add: start_loop_def)
    qed simp
    then show ?thesis using loop [of MAX_CHILDREN_NUMBER] finish by (auto simp: service_def ts(1) mirror)
  qed
qed

text \<open>
  C9: The service sorts. With at least one and at most 16381 numbers, whichever slaves fail, as long as some slave
  answers again and again, and whether or not the first master leaves at its first turn, the output is
  the number of numbers and the sorted input. Without numbers the master follows a null pointer.
\<close>

theorem sort_service_correct:
  "(numbers \<noteq> [] \<longrightarrow> length numbers \<le> 16381 \<longrightarrow> (\<forall>n. \<exists>k\<ge>n. alive k) \<longrightarrow>
      service crash alive numbers = Some (int (length numbers), sort numbers)) \<and>
   service crash alive [] = None"
proof
  show "numbers \<noteq> [] \<longrightarrow> length numbers \<le> 16381 \<longrightarrow> (\<forall>n. \<exists>k\<ge>n. alive k) \<longrightarrow>
      service crash alive numbers = Some (int (length numbers), sort numbers)"
    using service_sorts by (simp add: MAX_PACKET_INTS_def)
  have "next_tasks n [] 0 = []" for n by (subst next_tasks.simps) simp
  then have m: "start_master 2 [] = Some (new_manager\<lparr>m_tasks := []\<rparr>)"
    by (simp add: start_master_def my_part_def new_manager_def)
  have "main_loop crash alive (start_loop k (new_manager\<lparr>m_tasks := []\<rparr>)) =
      Some (Stays (start_loop k (new_manager\<lparr>m_tasks := []\<rparr>)))" for k
    by (subst main_loop.simps) (simp add: start_loop_def get_queue_size_def)
  then show "service crash alive [] = None"
    by (simp add: service_def m start_mirror_def checkpoint_queue start_loop_def finish_solving_def removeTask_def)
qed

theorem sort_service_correct_witness:
  "service True (\<lambda>n. odd n) [3, 1, 2] = Some (3, [1, 2, 3])"
proof -
  have "\<exists>k\<ge>n. odd k" for n :: nat by (rule exI [of _ "2 * n + 1"]) simp
  then show ?thesis
    using sort_service_correct [where numbers = "[3, 1, 2]" and alive = "\<lambda>n. odd n" and crash = True] by simp
qed

text \<open>
  C22: The master's loop ends when some slave answers again and again, and then every task was handed to the first slave,
  which was asked once for each before the next left the queue: the other slaves never work. The loop never
  searches for another slave, so the mirror, whose number of slaves is 0, does not divide by it.
  With two numbers or more and no slave that answers, it does not end.
\<close>

theorem sort_loop_ends:
  assumes "numbers \<noteq> []" and "length numbers \<le> 16381" and "start_master 2 numbers = Some m"
  shows "((\<forall>n. \<exists>k\<ge>n. alive k) \<longrightarrow> (\<exists>s. main_loop False alive (start_loop slaves m) = Some (Stays s) \<and>
      get_queue_size (mgr s) = 1 \<and> sent_to s = replicate (asked s) 0)) \<and>
    ((\<forall>n. \<not> alive n) \<and> length numbers > 1 \<longrightarrow> main_loop False alive (start_loop slaves m) = None)"
proof -
  obtain ts where ts: "start_master 2 numbers = Some (new_manager\<lparr>m_tasks := ts\<rparr>)" "\<forall>t\<in>set ts. packet_task t"
    "concat (map getData ts) = numbers" by (rule start_master_two)
  have m: "m = new_manager\<lparr>m_tasks := ts\<rparr>" using ts(1) assms(3) by simp
  have idle: "idle (start_loop slaves m)" using start_idle [OF ts(2,3)] assms(1,2) by (simp add: m MAX_PACKET_INTS_def)
  have two: "length numbers > 1 \<Longrightarrow> length (m_tasks (mgr (start_loop slaves m))) > 1"
    using queue_of_two [OF ts(3,1)] by (simp add: m start_loop_def)
  have fresh: "asked (start_loop slaves m) = 0" "sent_to (start_loop slaves m) = []" by (simp_all add: start_loop_def)
  have "get_queue_size (mgr s) = 1 \<and> sent_to s = replicate (asked s) 0" if "sorted_out (start_loop slaves m) s" for s
    using that fresh by (auto simp: sorted_out_def get_queue_size_def)
  then show ?thesis using main_loop_sorts [OF _ idle] main_loop_stuck [OF _ idle two] by blast
qed

theorem sort_loop_ends_witness:
  "\<exists>s. main_loop False (\<lambda>n. n = 5 \<or> n > 7) (start_loop 0 (new_manager\<lparr>m_tasks := [new_sort [9, 4], new_sort [8]]\<rparr>)) = Some (Stays s) \<and>
     get_queue_size (mgr s) = 1 \<and> sent_to s = replicate (asked s) 0"
proof -
  have "start_master 2 [9, 4, 8] = Some (new_manager\<lparr>m_tasks := [new_sort [9, 4], new_sort [8]]\<rparr>)" by code_simp
  note ends = sort_loop_ends [OF _ _ this, where alive = "\<lambda>n. n = 5 \<or> n > 7" and slaves = 0]
  have "\<exists>k\<ge>n. k = 5 \<or> k > 7" for n :: nat by (rule exI [of _ "n + 8"]) simp
  then have "\<forall>n. \<exists>k\<ge>n. k = (5::nat) \<or> k > 7" ..
  from conjunct1 [OF ends, THEN mp, OF _ _ this] show ?thesis by simp
qed

end
