(* ===== verification/Ending.thy ===== *)
theory Ending
  imports Base
begin

text \<open>
  What every run of a step relation comes to. \<open>surely step goal c\<close> says that each run from \<open>c\<close> reaches the goal, whatever
  steps are taken; the locales give it from a measure and from what can be seen at the states without a step.
\<close>

inductive surely :: "('s \<Rightarrow> 's \<Rightarrow> bool) \<Rightarrow> ('s \<Rightarrow> bool) \<Rightarrow> 's \<Rightarrow> bool" for step goal where
  there: "goal c \<Longrightarrow> surely step goal c"
| onwards: "step c d \<Longrightarrow> (\<And>c'. step c c' \<Longrightarrow> surely step goal c') \<Longrightarrow> surely step goal c"

lemma surely_reaches: "surely step goal c \<Longrightarrow> \<exists>c'. step\<^sup>*\<^sup>* c c' \<and> goal c'"
proof (induction rule: surely.induct)
  case (there c)
  then show ?case by blast
next
  case (onwards c d)
  then show ?case by (meson converse_rtranclp_into_rtranclp)
qed

lemma surely_mono: "surely step goal c \<Longrightarrow> (\<And>c. goal c \<Longrightarrow> goal' c) \<Longrightarrow> surely step goal' c"
  by (induction rule: surely.induct) (auto intro: surely.intros)

locale ending =
  fixes step :: "'s \<Rightarrow> 's \<Rightarrow> bool"
    and ok :: "'s \<Rightarrow> bool"
    and left :: "'s \<Rightarrow> nat"
  assumes keeps: "ok c \<Longrightarrow> step c c' \<Longrightarrow> ok c'"
    and goes_down: "ok c \<Longrightarrow> step c c' \<Longrightarrow> left c' < left c"
begin

lemma run_keeps: "step\<^sup>*\<^sup>* c c' \<Longrightarrow> ok c \<Longrightarrow> ok c'"
  by (induction rule: rtranclp_induct) (auto intro: keeps)

lemma surely_stops: "ok c \<Longrightarrow> surely step (\<lambda>c'. ok c' \<and> (\<nexists>d. step c' d)) c"
proof (induction "left c" arbitrary: c rule: less_induct)
  case less
  show ?case
  proof (cases "\<exists>d. step c d")
    case True
    then obtain d where "step c d" ..
    then show ?thesis using less goes_down keeps by (blast intro: surely.onwards)
  next
    case False
    then show ?thesis using less.prems by (blast intro: surely.there)
  qed
qed

end

locale arriving = ending +
  fixes goal :: "'s \<Rightarrow> bool"
  assumes arrives: "ok c \<Longrightarrow> \<not> goal c \<Longrightarrow> \<exists>d. step c d"
begin

lemma surely_arrives: "ok c \<Longrightarrow> surely step goal c"
  using surely_mono [OF surely_stops] arrives by blast

end

end
