(* ===== verification/SortTalkCorrect.thy ===== *)
theory SortTalkCorrect
  imports SortTalk SortServiceCorrect Ending
begin

text \<open>
  The talk between master and slave ends in every order of its steps and comes to what the loop over the slaves takes it to be;
  without room for the packet in the message library it never ends. At the end exactly the processes that exist are told to leave.
\<close>

section \<open>The state of a talk\<close>

fun put :: "master_pc \<Rightarrow> nat" where
  "put Sends_header = 0" | "put Sends_size = 1" | "put Sends_task = 2" | "put _ = 3"

fun asked_for :: "master_pc \<Rightarrow> bool" where
  "asked_for Sends_header = False" | "asked_for Sends_size = False" | "asked_for Sends_task = False"
| "asked_for Sent_task = False" | "asked_for Asks = False" | "asked_for _ = True"

fun got :: "master_pc \<Rightarrow> nat" where
  "got Gets_size = 1" | "got (Gets_answer n) = 2" | "got (Has b) = 3" | "got _ = 0"

fun talking :: "slave_pc \<Rightarrow> bool" where
  "talking (Waits n) = False" | "talking (Hears x) = False" | "talking Left = False" | "talking _ = True"

fun taken :: "slave_pc \<Rightarrow> nat" where
  "taken (Waits n) = 0" | "taken (Hears x) = 0" | "taken Takes_header = 0" | "taken Left = 0"
| "taken Takes_size = 1" | "taken (Takes_task n) = 2" | "taken _ = 3"

fun returned :: "slave_pc \<Rightarrow> nat" where
  "returned (Returns_size b) = 1" | "returned (Returns_task b) = 2" | "returned (Returned b) = 3" | "returned Again = 3"
| "returned _ = 0"

text \<open>What the master and the slave have, for a packet \<open>p\<close> with the answer \<open>a\<close>.\<close>

fun master_ok :: "int list \<Rightarrow> talk \<Rightarrow> master_pc \<Rightarrow> bool" where
  "master_ok a c (Polls n) \<longleftrightarrow> head_up c = (if talking (at_slave c) then [0] else [])"
| "master_ok a c Gets_header \<longleftrightarrow> talking (at_slave c)"
| "master_ok a c Gets_size \<longleftrightarrow> talking (at_slave c)"
| "master_ok a c (Gets_answer n) \<longleftrightarrow> talking (at_slave c) \<and> n = int (length a)"
| "master_ok a c (Has b) \<longleftrightarrow> talking (at_slave c) \<and> b = a"
| "master_ok a c Gives_up \<longleftrightarrow> True"
| "master_ok a c _ \<longleftrightarrow> head_up c = []"

fun slave_ok :: "int \<Rightarrow> int list \<Rightarrow> int list \<Rightarrow> talk \<Rightarrow> slave_pc \<Rightarrow> bool" where
  "slave_ok call p a c (Waits n) \<longleftrightarrow> head_down c = (if asked_for (at_master c) then [call] else [])"
| "slave_ok call p a c (Hears x) \<longleftrightarrow> x = call \<and> asked_for (at_master c)"
| "slave_ok call p a c (Takes_task n) \<longleftrightarrow> n = int (length p) \<and> call = 0 \<and> asked_for (at_master c)"
| "slave_ok call p a c (Computes q) \<longleftrightarrow> q = p \<and> call = 0 \<and> asked_for (at_master c)"
| "slave_ok call p a c (Returns_header b) \<longleftrightarrow> b = a \<and> call = 0 \<and> asked_for (at_master c)"
| "slave_ok call p a c (Returns_size b) \<longleftrightarrow> b = a \<and> call = 0 \<and> asked_for (at_master c)"
| "slave_ok call p a c (Returns_task b) \<longleftrightarrow> b = a \<and> call = 0 \<and> asked_for (at_master c)"
| "slave_ok call p a c (Returned b) \<longleftrightarrow> b = a \<and> call = 0 \<and> asked_for (at_master c)"
| "slave_ok call p a c Left \<longleftrightarrow> True"
| "slave_ok call p a c _ \<longleftrightarrow> call = 0 \<and> asked_for (at_master c)"

definition talk_ok :: "int \<Rightarrow> int list \<Rightarrow> int list \<Rightarrow> talk \<Rightarrow> bool" where
  "talk_ok call p a c \<longleftrightarrow>
     data_down c = drop (taken (at_slave c)) (take (put (at_master c)) [[0], [int (length p)], p]) \<and>
     taken (at_slave c) \<le> put (at_master c) \<and> got (at_master c) \<le> returned (at_slave c) \<and>
     data_up c = drop (got (at_master c)) (take (returned (at_slave c)) [[0], [int (length a)], a]) \<and>
     master_ok a c (at_master c) \<and> slave_ok call p a c (at_slave c)"

lemma talk_ok_start: "talk_ok call p a (start_talk polls)"
  by (simp add: talk_ok_def start_talk_def)

lemmas talk_simps = talk_ok_def numeral_2_eq_2 numeral_3_eq_3

lemma talk_ok_step:
  assumes "talk_step limit call p c c'" "talk_ok call p a c" "worker p = Some a"
  shows "talk_ok call p a c'"
  using assms(2, 3) by (cases rule: talk_step.cases [OF assms(1)])
    ((cases "at_slave c"; simp add: talk_simps; fail) | (cases "at_master c"; simp add: talk_simps split: if_splits; fail))+

section \<open>Every talk ends\<close>

text \<open>How much of the talk is left, on both sides.\<close>

fun master_left :: "master_pc \<Rightarrow> nat" where
  "master_left Sends_header = TIMEOUT_SLAVE + 9" | "master_left Sends_size = TIMEOUT_SLAVE + 8" | "master_left Sends_task = TIMEOUT_SLAVE + 7"
| "master_left Sent_task = TIMEOUT_SLAVE + 6" | "master_left Asks = TIMEOUT_SLAVE + 5" | "master_left (Polls n) = n + 4"
| "master_left Gets_header = 3" | "master_left Gets_size = 2" | "master_left (Gets_answer n) = 1" | "master_left _ = 0"

fun slave_left :: "slave_pc \<Rightarrow> nat" where
  "slave_left (Waits n) = n + 10" | "slave_left (Hears x) = 9" | "slave_left Takes_header = 8" | "slave_left Takes_size = 7"
| "slave_left (Takes_task n) = 6" | "slave_left (Computes q) = 5" | "slave_left (Returns_header b) = 4"
| "slave_left (Returns_size b) = 3" | "slave_left (Returns_task b) = 2" | "slave_left (Returned b) = 1" | "slave_left _ = 0"

definition talk_left :: "talk \<Rightarrow> nat" where "talk_left c = master_left (at_master c) + slave_left (at_slave c)"

lemma talk_goes_on: "talk_step limit call p c c' \<Longrightarrow> talk_left c' < talk_left c"
  by (cases rule: talk_step.cases) (auto simp: talk_left_def)

text \<open>The ends of a talk when the library takes the packet.\<close>

definition talk_over :: "int \<Rightarrow> int list \<Rightarrow> talk \<Rightarrow> bool" where
  "talk_over call a c \<longleftrightarrow> (case at_master c of
     Has b \<Rightarrow> call = 0 \<and> b = a \<and> at_slave c = Again
   | Gives_up \<Rightarrow> at_slave c = Left \<or> call = 0 \<and> at_slave c = Again
   | _ \<Rightarrow> False)"

lemma copyData_length: "copyData b off n = Some d \<Longrightarrow> length d = nat n \<and> off + length d \<le> length b"
  by (auto simp: copyData_def split: if_splits)

lemma worker_shrinks: "worker p = Some a \<Longrightarrow> length a \<le> length p"
proof -
  assume w: "worker p = Some a"
  have len: "length (sort_loop d) = length d" "length (merge_loop d e) = length d + length e" for d e
    by (simp add: sort_loop) (metis merge_loop_mset size_mset size_union)
  show "length a \<le> length p"
    using w by (auto simp: worker_def read_task_def len new_sort_def new_merge_def Option.bind_eq_Some_conv
        dest!: copyData_length split: if_splits)
qed

lemma polls_step: "at_master c = Polls n \<Longrightarrow> \<exists>d. talk_step limit call p c d"
  by (cases n) (auto intro: talk_step.intros)

lemma waits_step: "at_slave c = Waits n \<Longrightarrow> \<exists>d. talk_step limit call p c d"
  by (cases n) (auto intro: talk_step.intros)

lemma hears_step: "at_slave c = Hears n \<Longrightarrow> \<exists>d. talk_step limit call p c d"
  by (cases "n = 0") (auto intro: talk_step.intros)

text \<open>What a state without a step is like.\<close>

lemma stuck_talk:
  assumes "\<nexists>d. talk_step limit call p c d" "talk_ok call p a c" "worker p = Some a"
  shows "at_master c = Has a \<or> at_master c = Gives_up \<or> at_master c = Sent_task \<and> limit < length p \<and> at_slave c = Left"
    and "at_slave c = Left \<or> at_slave c = Again \<or> at_slave c = Returned a \<and> limit < length a"
proof -
  have none: "\<exists>d. talk_step limit call p c d \<Longrightarrow> False" using assms(1) by blast
  have no: "talk_step limit call p c d \<Longrightarrow> False" for d using assms(1) by blast
  note master = talk_step.intros(1-11) [THEN no] polls_step [THEN none]
  note slave = talk_step.intros(12-) [THEN no] waits_step [THEN none] hears_step [THEN none]
  have m: "at_master c \<notin> {Sends_header, Sends_size, Sends_task, Asks}" "at_master c \<noteq> Polls n"
    "at_master c = Sent_task \<Longrightarrow> \<not> length p \<le> limit \<and> data_down c \<noteq> []"
    "at_master c = Gets_header \<Longrightarrow> data_up c \<noteq> [x] # r"
    "at_master c = Gets_size \<Longrightarrow> data_up c \<noteq> [y] # r"
    "at_master c = Gets_answer y \<Longrightarrow> data_up c = b # r \<Longrightarrow> \<not> int (length b) \<le> y" for n x r y b
    using master by auto
  have s: "at_slave c \<notin> {Waits n, Hears x, Returns_header b, Returns_size b, Returns_task b}"
    "at_slave c = Takes_header \<Longrightarrow> data_down c \<noteq> [x] # r"
    "at_slave c = Takes_size \<Longrightarrow> data_down c \<noteq> [x] # r"
    "at_slave c = Takes_task x \<Longrightarrow> data_down c = q # r \<Longrightarrow> \<not> int (length q) \<le> x"
    "at_slave c = Computes q \<Longrightarrow> worker q \<noteq> Some b"
    "at_slave c = Returned b \<Longrightarrow> \<not> length b \<le> limit \<and> data_up c \<noteq> []" for n x b r q
    by (auto dest: slave)
  show "at_slave c = Left \<or> at_slave c = Again \<or> at_slave c = Returned a \<and> limit < length a"
    using assms(2,3) m s by (cases "at_slave c"; cases "at_master c"; simp add: talk_simps) blast+
  then show "at_master c = Has a \<or> at_master c = Gives_up \<or> at_master c = Sent_task \<and> limit < length p \<and> at_slave c = Left"
    using assms(2,3) m by (cases "at_master c"; cases "at_slave c"; simp add: talk_simps) blast+
qed

interpretation buffered: arriving "talk_step limit call p"
    "\<lambda>c. talk_ok call p a c \<and> worker p = Some a \<and> length p \<le> limit" talk_left "talk_over call a"
  for limit call p a
proof
  show "\<exists>d. talk_step limit call p c d"
    if c: "talk_ok call p a c \<and> worker p = Some a \<and> length p \<le> limit" "\<not> talk_over call a c" for c
  proof (rule ccontr)
    assume "\<nexists>d. talk_step limit call p c d"
    then show False
      using c stuck_talk [of limit call p c a] worker_shrinks [of p a] by (auto simp: talk_over_def talk_ok_def)
  qed
qed (auto intro: talk_ok_step talk_goes_on)

text \<open>Without room for the packet the master has not called the slave.\<close>

definition unasked :: "int \<Rightarrow> int list \<Rightarrow> int list \<Rightarrow> talk \<Rightarrow> bool" where
  "unasked call p a c \<longleftrightarrow> talk_ok call p a c \<and> \<not> asked_for (at_master c) \<and> at_master c \<noteq> Asks"

lemma unasked_step:
  assumes "talk_step limit call p c c'" "unasked call p a c" "worker p = Some a" "limit < length p"
  shows "unasked call p a c'"
proof -
  have "taken (at_slave c) = 0"
    using assms(2) by (cases "at_slave c") (auto simp: unasked_def talk_ok_def)
  then have "at_master c = Sent_task \<Longrightarrow> data_down c \<noteq> []" using assms(2) by (auto simp: unasked_def talk_ok_def)
  moreover have "talk_ok call p a c'" using talk_ok_step assms(1-3) by (auto simp: unasked_def)
  ultimately show ?thesis
    using assms(2,4) by (cases rule: talk_step.cases [OF assms(1)]) (auto simp: unasked_def)
qed

interpretation unbuffered: arriving "talk_step limit call p"
    "\<lambda>c. unasked call p a c \<and> worker p = Some a \<and> limit < length p" talk_left
    "\<lambda>c. at_master c = Sent_task \<and> at_slave c = Left \<and> (\<nexists>d. talk_step limit call p c d)"
  for limit call p a
proof
  show "\<exists>d. talk_step limit call p c d"
    if c: "unasked call p a c \<and> worker p = Some a \<and> limit < length p"
      "\<not> (at_master c = Sent_task \<and> at_slave c = Left \<and> (\<nexists>d. talk_step limit call p c d))" for c
  proof (rule ccontr)
    assume stuck: "\<nexists>d. talk_step limit call p c d"
    then show False using c stuck_talk(1) [OF stuck, of a] by (auto simp: unasked_def)
  qed
qed (auto intro: unasked_step talk_goes_on)

section \<open>What the loop over the slaves takes the talk to be\<close>

text \<open>
  C23: A task that the message library takes over as a whole is always answered or given up, in every order of the steps of
  both processes: the slave is then back at the top of its loop or gone, and a slave told to fail never answers.\<close>

theorem talk_ends:
  assumes "worker p = Some a" "length p \<le> limit"
  shows "surely (talk_step limit call p) (talk_over call a) (start_talk polls)"
  using assms talk_ok_start by (intro buffered.surely_arrives) auto

theorem talk_ends_witness:
  "surely (talk_step 1024 0 [SORT_TASK, 2, 7, 5]) (talk_over 0 [SORT_TASK, 2, 5, 7]) (start_talk 50)"
  by (rule talk_ends) code_simp+

text \<open>
  C10: However the talk went, one turn of the loop over the slaves is what the master does at the end of the talk.\<close>

theorem talk_refines:
  assumes run: "(talk_step limit call p)\<^sup>*\<^sup>* (start_talk polls) c"
    and packet: "packets s it = Some p" "worker p = Some a" "task_sent s ! it"
    and over: "at_master c = Gives_up \<or> at_master c = Has b"
    and alive: "alive (asked s) \<longleftrightarrow> at_master c \<noteq> Gives_up"
  shows "check_recv alive (it # its) s =
      (let s' = after_talk it (at_master c) (s\<lparr>asked := asked s + 1\<rparr>) in
       if at_master c = Gives_up then Option.bind s' (check_recv alive its) else s') \<and>
    (call \<noteq> 0 \<longrightarrow> at_master c = Gives_up)"
proof -
  have "talk_ok call p a c"
    using run by (induction rule: rtranclp_induct) (auto intro: talk_ok_start talk_ok_step packet)
  then have "at_master c = Has b \<Longrightarrow> b = a \<and> call = 0"
    by (cases "at_slave c") (auto simp: talk_ok_def)
  then show ?thesis
    using over alive packet by (auto simp: slave_answered_def)
qed

definition waiting_master :: "int list \<Rightarrow> master" where
  "waiting_master p = (start_loop 4 new_manager)\<lparr>packets := [0 \<mapsto> p], task_sent := [True, False, False, False]\<rparr>"

theorem talk_refines_witness:
  "\<exists>c. (talk_step 1024 0 [SORT_TASK, 2, 7, 5])\<^sup>*\<^sup>* (start_talk 50) c \<and>
     check_recv (\<lambda>_. at_master c \<noteq> Gives_up) [0] (waiting_master [SORT_TASK, 2, 7, 5]) =
       after_talk 0 (at_master c) ((waiting_master [SORT_TASK, 2, 7, 5])\<lparr>asked := 1\<rparr>)"
proof -
  let ?p = "[SORT_TASK, 2, 7, 5]" and ?a = "[SORT_TASK, 2, 5, 7]"
  have a: "worker ?p = Some ?a" by code_simp
  then obtain c where c: "(talk_step 1024 0 ?p)\<^sup>*\<^sup>* (start_talk 50) c" "talk_over 0 ?a c"
    using surely_reaches [OF buffered.surely_arrives [of 0 ?p ?a "start_talk 50" 1024]] talk_ok_start by auto
  have over: "at_master c = Gives_up \<or> at_master c = Has ?a"
    using c(2) by (auto simp: talk_over_def split: master_pc.splits)
  have s: "packets (waiting_master ?p) 0 = Some ?p" "task_sent (waiting_master ?p) ! 0" "asked (waiting_master ?p) = 0"
    by (simp_all add: waiting_master_def start_loop_def)
  have none: "check_recv alive [] = Some" for alive by (rule ext) simp
  have "check_recv (\<lambda>_. at_master c \<noteq> Gives_up) [0] (waiting_master ?p) =
      after_talk 0 (at_master c) ((waiting_master ?p)\<lparr>asked := 0 + 1\<rparr>)"
    using talk_refines [OF c(1) s(1) a s(2) over, of "\<lambda>_. at_master c \<noteq> Gives_up" "[]"]
    unfolding none s(3) Let_def by simp
  then show ?thesis using c(1) by auto
qed

text \<open>A packet that is longer than what the library takes over is never received: the master waits in its send for a slave
  that has left, because it listens to the call for a while and the call comes after the task.\<close>

theorem talk_stuck:
  assumes "worker p = Some a" "limit < length p"
  shows "surely (talk_step limit call p)
    (\<lambda>c. at_master c = Sent_task \<and> at_slave c = Left \<and> (\<nexists>d. talk_step limit call p c d)) (start_talk polls)"
  using assms talk_ok_start
  by (intro unbuffered.surely_arrives [where a = a]) (auto simp: unasked_def start_talk_def)

theorem talk_stuck_witness:
  "surely (talk_step 3 0 [SORT_TASK, 2, 7, 5])
    (\<lambda>c. at_master c = Sent_task \<and> at_slave c = Left \<and> (\<nexists>d. talk_step 3 0 [SORT_TASK, 2, 7, 5] c d)) (start_talk 50)"
  by (rule talk_stuck [where a = "[SORT_TASK, 2, 5, 7]"]) code_simp+

section \<open>Who is told to leave\<close>

text \<open>The map holds the slaves there are, and for the first master the world.\<close>

definition processes_ok :: "nat \<Rightarrow> processes \<Rightarrow> bool" where
  "processes_ok rank s \<longleftrightarrow>
     set (map fst (existing s)) = set (slaves_comm s) \<union> (if rank = 0 then {MPI_COMM_WORLD} else {}) \<and>
     distinct (map fst (existing s)) \<and> distinct (slaves_comm s) \<and> length (slaves_comm s) = MAX_CHILDREN_NUMBER \<and>
     (\<forall>c \<in> set (slaves_comm s). MPI_COMM_WORLD < c \<and> c < next_comm s) \<and> MPI_COMM_WORLD < next_comm s"

lemma map_insert_keys:
  "set (map fst (map_insert k v m)) = insert k (set (map fst m))"
  "distinct (map fst (map_insert k v m)) = distinct (map fst m)"
proof -
  have "mset (map fst (insort_key fst (k, v) m)) = add_mset k (mset (map fst m))" for m :: "(nat \<times> nat) list"
    by simp
  then have "distinct (map fst (insort_key fst (k, v) m)) \<longleftrightarrow> distinct (k # map fst m)"
    by (metis mset.simps(2) mset_eq_imp_distinct_iff)
  then show "distinct (map fst (map_insert k v m)) = distinct (map fst m)" by (auto simp: map_insert_def)
qed (auto simp: map_insert_def set_insort_key)

lemma map_erase_keys:
  "set (map fst (map_erase k m)) = set (map fst m) - {k}"
  "distinct (map fst m) \<Longrightarrow> distinct (map fst (map_erase k m))"
  by (auto simp: map_erase_def distinct_map_filter case_prod_unfold)

lemma processes_ok_start: "processes_ok rank (spawn_workers rank (rank \<noteq> 0) (start_processes rank))"
  by (cases "rank = 0") (simp_all add: processes_ok_def spawn_workers_def start_processes_def spawn_def map_insert_def
      MPI_COMM_WORLD_def MAX_CHILDREN_NUMBER_def upt_conv_Cons numeral_eq_Suc insert_commute)

lemma distinct_update_new: "distinct xs \<Longrightarrow> x \<notin> set xs \<Longrightarrow> distinct (xs[i := x])"
  by (cases "i < length xs") (auto simp: distinct_list_update)

lemma processes_ok_respawn:
  assumes "processes_ok rank s" "it < MAX_CHILDREN_NUMBER"
  shows "processes_ok rank (respawn it s)"
proof -
  have "next_comm s \<notin> set (slaves_comm s)" "slaves_comm s ! it \<in> set (slaves_comm s)"
    using assms by (auto simp: processes_ok_def)
  then show ?thesis
    using assms unfolding processes_ok_def respawn_def spawn_def
    by (auto simp: map_insert_keys map_erase_keys set_update_distinct distinct_update_new simp del: set_map)
      (metis less_irrefl nth_mem)
qed

text \<open>
  C26: At the end a master tells exactly the slaves there are, one message each, and the first master also its mirror, whichever
  slaves have been replaced; the mirror then ends.\<close>

theorem quit_reaches_all:
  fixes fails :: "nat list" and rank :: nat
  assumes "\<forall>it \<in> set fails. it < MAX_CHILDREN_NUMBER"
  defines "s \<equiv> processes_after rank fails"
  shows "distinct (map in_comm (send_quit_to_slaves s)) \<and>
    set (send_quit_to_slaves s) =
      {\<lparr>in_comm = c, to_rank = 0, with_tag = 2, number = 1\<rparr> | c. c \<in> set (slaves_comm s)} \<union>
      (if rank = 0 then {\<lparr>in_comm = MPI_COMM_WORLD, to_rank = 1, with_tag = 1, number = 1\<rparr>} else {}) \<and>
    distinct (slaves_comm s) \<and> length (slaves_comm s) = MAX_CHILDREN_NUMBER \<and> \<not> mirror_takes_over 1"
proof -
  have "processes_ok rank s"
    using assms(1) unfolding s_def processes_after_def
    by (induction fails rule: rev_induct) (auto intro: processes_ok_start [simplified] processes_ok_respawn)
  then have keys: "fst ` set (existing s) = set (slaves_comm s) \<union> (if rank = 0 then {MPI_COMM_WORLD} else {})"
      "MPI_COMM_WORLD \<notin> set (slaves_comm s)"
    and rest: "distinct (map fst (existing s))" "distinct (slaves_comm s)" "length (slaves_comm s) = MAX_CHILDREN_NUMBER"
    by (auto simp: processes_ok_def)
  let ?to = "\<lambda>c. if c = MPI_COMM_WORLD then \<lparr>in_comm = c, to_rank = 1, with_tag = 1, number = 1\<rparr>
     else \<lparr>in_comm = c, to_rank = 0, with_tag = 2, number = 1\<rparr>"
  have quit: "send_quit_to_slaves s = map (?to \<circ> fst) (existing s)"
    by (auto simp: send_quit_to_slaves_def)
  have "set (send_quit_to_slaves s) = ?to ` (fst ` set (existing s))" unfolding quit set_map image_comp ..
  also have "\<dots> = {\<lparr>in_comm = c, to_rank = 0, with_tag = 2, number = 1\<rparr> | c. c \<in> set (slaves_comm s)} \<union>
      (if rank = 0 then {\<lparr>in_comm = MPI_COMM_WORLD, to_rank = 1, with_tag = 1, number = 1\<rparr>} else {})"
    using keys(2) unfolding keys(1) by (auto simp: image_iff)
  moreover have "map in_comm (send_quit_to_slaves s) = map fst (existing s)" by (auto simp: quit)
  ultimately show ?thesis using rest by (simp add: mirror_takes_over_def)
qed

theorem quit_reaches_all_witness:
  "map in_comm (send_quit_to_slaves (processes_after 0 [0, 2, 0])) = [0, 2, 4, 6, 7] \<and>
   distinct (map in_comm (send_quit_to_slaves (processes_after 0 [0, 2, 0])))"
proof
  show "distinct (map in_comm (send_quit_to_slaves (processes_after 0 [0, 2, 0])))"
    by (rule conjunct1 [OF quit_reaches_all]) (simp add: MAX_CHILDREN_NUMBER_def)
qed code_simp

end
