(* ===== verification/Picture.thy ===== *)
theory Picture
  imports Text
begin

text \<open>
  Pictures of the image-quilting program, \<open>ppm.hpp\<close> and \<open>ppm.cpp\<close>: a picture is an array of pixels, row after row,
  and its text format. The C++ \<open>int\<close>s are integers, and \<open>None\<close> is a result that does not fit one, an access
  outside the array, or a null pointer that is followed. A file is its bytes; memory is enough.
\<close>

section \<open>Loops and integers\<close>

text \<open>A result that fits an \<open>int\<close>.\<close>

definition in_int :: "int \<Rightarrow> int option" where "in_int x = (if int32 x then Some x else None)"

primrec fold_opt :: "('a \<Rightarrow> 's \<Rightarrow> 's option) \<Rightarrow> 'a list \<Rightarrow> 's \<Rightarrow> 's option" where
  "fold_opt f [] s = Some s"
| "fold_opt f (x # xs) s = Option.bind (f x s) (fold_opt f xs)"

text \<open>\<open>for (i = a; i < b; i++)\<close>\<close>

definition for_up :: "int \<Rightarrow> int \<Rightarrow> (int \<Rightarrow> 's \<Rightarrow> 's option) \<Rightarrow> 's \<Rightarrow> 's option" where
  "for_up a b f s = fold_opt f [a..b - 1] s"

section \<open>Pixels and pictures\<close>

record pixel =
  red :: int
  green :: int
  blue :: int

definition black :: pixel where "black = \<lparr>red = 0, green = 0, blue = 0\<rparr>"

definition compare :: "pixel \<Rightarrow> pixel \<Rightarrow> int option" where
  "compare p1 p2 = in_int ((red p1 - red p2) * (red p1 - red p2) + (green p1 - green p2) * (green p1 - green p2) +
     (blue p1 - blue p2) * (blue p1 - blue p2))"

record picture =
  image :: "pixel list"
  width :: int
  height :: int
  max_color :: int

text \<open>\<open>get\<close> and \<open>set\<close> check nothing but are undefined outside the array.\<close>

definition index_of :: "int \<Rightarrow> int \<Rightarrow> picture \<Rightarrow> nat option" where
  "index_of row col p = (let i = row * width p + col in
     if 0 \<le> i \<and> nat i < length (image p) then Some (nat i) else None)"

definition get_pixel :: "int \<Rightarrow> int \<Rightarrow> picture \<Rightarrow> pixel option" where
  "get_pixel row col p = map_option (\<lambda>i. image p ! i) (index_of row col p)"

definition set_pixel :: "int \<Rightarrow> int \<Rightarrow> pixel \<Rightarrow> picture \<Rightarrow> picture option" where
  "set_pixel row col x p = map_option (\<lambda>i. p\<lparr>image := (image p)[i := x]\<rparr>) (index_of row col p)"

text \<open>A new picture is black. The size of a negative area is too big for memory.\<close>

definition new_picture :: "int \<Rightarrow> int \<Rightarrow> int \<Rightarrow> picture option" where
  "new_picture h w color = (if h * w < 0 then None
     else Some \<lparr>image = replicate (nat (h * w)) black, width = w, height = h, max_color = color\<rparr>)"

definition reset :: "int \<Rightarrow> int \<Rightarrow> picture \<Rightarrow> picture option" where
  "reset h w p = new_picture h w (max_color p)"

text \<open>The default constructor leaves \<open>max_color\<close> as it is in memory.\<close>

definition empty_picture :: "int \<Rightarrow> picture" where
  "empty_picture junk = \<lparr>image = [], width = 0, height = 0, max_color = junk\<rparr>"

section \<open>The text format\<close>

definition MAX_LINE :: nat where "MAX_LINE = 128"

text \<open>The delimiters of \<open>strtok\<close>.\<close>

definition delimiter :: "u8 \<Rightarrow> bool" where "delimiter c \<longleftrightarrow> c = 32 \<or> c = 10"

text \<open>\<open>fscanf\<close> with \<open>%d\<close>: a variable keeps its value (\<open>None\<close>: it has none yet) if no number follows.\<close>

definition fscanf_d :: "int option \<Rightarrow> bytes \<Rightarrow> (int option \<times> bytes) option" where
  "fscanf_d old f = (let s = dropWhile is_space f;
     (sign, t) = (case s of [] \<Rightarrow> (1, s) | c # cs \<Rightarrow> if c = 45 then (-1, cs) else if c = 43 then (1, cs) else (1, s)) in
     if takeWhile is_digit t = [] then Some (old, t)
     else map_option (\<lambda>x. (Some x, dropWhile is_digit t)) (in_int (sign * digits 0 t)))"

text \<open>One pixel is read; the three variables are declared outside the loops.\<close>

definition load_pixel :: "int \<Rightarrow> int \<Rightarrow> picture \<times> (int option \<times> int option \<times> int option) \<times> bytes \<Rightarrow>
    (picture \<times> (int option \<times> int option \<times> int option) \<times> bytes) option" where
  "load_pixel i j = (\<lambda>(p, (r, g, b), f). do {
     (r, f) \<leftarrow> fscanf_d r f;
     (g, f) \<leftarrow> fscanf_d g f;
     (b, f) \<leftarrow> fscanf_d b f;
     vr \<leftarrow> r;
     vg \<leftarrow> g;
     vb \<leftarrow> b;
     p \<leftarrow> set_pixel i j \<lparr>red = vr, green = vg, blue = vb\<rparr> p;
     Some (p, (r, g, b), f)
   })"

text \<open>A file that cannot be opened or does not start with \<open>P3\<close> leaves the picture as it was.\<close>

definition load :: "bytes option \<Rightarrow> picture \<Rightarrow> picture option" where
  "load file p = (case file of
     None \<Rightarrow> Some p
   | Some f \<Rightarrow>
     (let (_, buffer, f) = fgets MAX_LINE [] f in
      if buffer \<noteq> ascii ''P3'' @ [10] then Some p
      else let (_, buffer, f) = fgets MAX_LINE buffer f;
               (_, buffer, f) = fgets MAX_LINE buffer f in
        do {
          (t, buffer) \<leftarrow> strtok delimiter buffer;
          w \<leftarrow> in_int (atoi t);
          (t, buffer) \<leftarrow> strtok delimiter buffer;
          h \<leftarrow> in_int (atoi t);
          let (got, buffer, f) = fgets MAX_LINE buffer f;
          color \<leftarrow> (if got then in_int (atoi buffer) else None);
          p \<leftarrow> reset h w (p\<lparr>max_color := color\<rparr>);
          (p, _) \<leftarrow> for_up 0 h (\<lambda>i. for_up 0 w (load_pixel i)) (p, (None, None, None), f);
          Some p
        }))"

definition save_pixel :: "picture \<Rightarrow> int \<Rightarrow> int \<Rightarrow> bytes \<Rightarrow> bytes option" where
  "save_pixel p i j out = do {
     x \<leftarrow> get_pixel i j p;
     Some (out @ dec_int (red x) @ [10] @ dec_int (green x) @ [10] @ dec_int (blue x) @ [10])
   }"

definition save_header :: "picture \<Rightarrow> bytes" where
  "save_header p = ascii ''P3'' @ [10] @
     ascii ''# CREATOR: Dascalu Laurentiu'' @ [39] @ ascii ''s Image Quilting Application'' @ [10] @
     dec_int (width p) @ [32] @ dec_int (height p) @ [10] @ dec_int (max_color p) @ [10]"

definition save :: "picture \<Rightarrow> bytes option" where
  "save p = for_up 0 (height p) (\<lambda>i. for_up 0 (width p) (save_pixel p i)) (save_header p)"

end
