(* ===== verification/Quilt.thy ===== *)
theory Quilt
  imports Picture "HOL-Library.Signed_Division"
begin

text \<open>
  Image quilting, \<open>quilt.cpp\<close> and \<open>ppu.cpp\<close>: a texture is continued downwards and to the right with patches of itself
  that are joined along a seam. \<open>CELL\<close> and \<open>DEBUG\<close> are not defined, so the PPU does all the work. Both directions have the same
  loops over lines of a strip, with rows and columns exchanged: they are written once, over the two functions that read and
  write a pixel by its place along the direction and across it. \<open>rand\<close> is a sequence of numbers.
\<close>

type_synonym reader = "int \<Rightarrow> int \<Rightarrow> picture \<Rightarrow> pixel option"
type_synonym writer = "int \<Rightarrow> int \<Rightarrow> pixel \<Rightarrow> picture \<Rightarrow> picture option"

text \<open>Horizontally the place along the direction is the column.\<close>

definition get_column :: reader where "get_column col row p = get_pixel row col p"
definition set_column :: writer where "set_column col row x p = set_pixel row col x p"

section \<open>Candidates\<close>

text \<open>The difference of two strips that start at \<open>off1\<close> and \<open>off2\<close>.\<close>

definition strip_dif :: "reader \<Rightarrow> picture \<Rightarrow> int \<Rightarrow> int \<Rightarrow> int \<Rightarrow> int \<Rightarrow> int option" where
  "strip_dif rd p off1 off2 fasie across =
     for_up 0 across (\<lambda>i. for_up 0 fasie (\<lambda>j diff. do {
       x \<leftarrow> rd (off1 + j) i p;
       y \<leftarrow> rd (off2 + j) i p;
       d \<leftarrow> compare x y;
       in_int (diff + d)
     })) 0"

definition orizontal_dif :: "picture \<Rightarrow> int \<Rightarrow> int \<Rightarrow> int \<Rightarrow> int \<Rightarrow> int \<Rightarrow> int option" where
  "orizontal_dif p off_candidat off_add fasie bucata h =
     strip_dif get_column p (off_candidat + bucata) (off_add - fasie) fasie h"

definition vertical_dif :: "picture \<Rightarrow> int \<Rightarrow> int \<Rightarrow> int \<Rightarrow> int \<Rightarrow> int \<Rightarrow> int option" where
  "vertical_dif p off_candidat off_add fasie bucata w =
     strip_dif get_pixel p off_candidat (off_add - fasie) fasie w"

text \<open>The candidates of a patch: the least difference so far, its offset, and how often \<open>rand\<close> was called.\<close>

definition try_candidate :: "(nat \<Rightarrow> nat) \<Rightarrow> int \<Rightarrow> (int \<Rightarrow> int option) \<Rightarrow> int \<times> int \<times> nat \<Rightarrow> (int \<times> int \<times> nat) option" where
  "try_candidate rnd bound dif = (\<lambda>(min_dif, off_min, k).
     if bound = 0 then None
     else let off = int (rnd k) smod bound in do {
       curr \<leftarrow> dif off;
       Some (if min_dif > curr then (curr, off, k + 1) else (min_dif, off_min, k + 1))
     })"

definition candidates :: "(nat \<Rightarrow> nat) \<Rightarrow> int \<Rightarrow> int \<Rightarrow> (int \<Rightarrow> int option) \<Rightarrow> int \<Rightarrow> nat \<Rightarrow> (int \<times> int \<times> nat) option" where
  "candidates rnd ncandidati bound dif off_min k =
     for_up 0 ncandidati (\<lambda>_. try_candidate rnd bound dif) (2 ^ 30, off_min, k)"

section \<open>Joining two strips\<close>

definition nth_opt :: "'a list \<Rightarrow> int \<Rightarrow> 'a option" where
  "nth_opt xs i = (if 0 \<le> i \<and> nat i < length xs then Some (xs ! nat i) else None)"

text \<open>The errors; both directions read them by row and column.\<close>

definition strip_errors :: "picture \<Rightarrow> int \<Rightarrow> int \<Rightarrow> int \<Rightarrow> int \<Rightarrow> int list list option" where
  "strip_errors p fasie across candidat1 candidat2 =
     for_up 0 fasie (\<lambda>i rows. do {
       r \<leftarrow> for_up 0 across (\<lambda>j r. do {
         x \<leftarrow> get_pixel i (j + candidat1) p;
         y \<leftarrow> get_pixel i (j + candidat2) p;
         d \<leftarrow> compare x y;
         Some (r @ [d])
       }) [];
       Some (rows @ [r])
     }) []"

text \<open>One row of the matrix \<open>E\<close> from the row before.\<close>

definition energy_cell :: "int \<Rightarrow> int list \<Rightarrow> int \<Rightarrow> int option" where
  "energy_cell across prev j =
     (if j = 0 then do { a \<leftarrow> nth_opt prev 0; b \<leftarrow> nth_opt prev 1; Some (min a b) }
      else if j = across - 1 then do { a \<leftarrow> nth_opt prev (across - 2); b \<leftarrow> nth_opt prev (across - 1); Some (min a b) }
      else do {
        a \<leftarrow> nth_opt prev (j - 1);
        b \<leftarrow> nth_opt prev j;
        c \<leftarrow> nth_opt prev (j + 1);
        Some (min a (min b c))
      })"

definition energy_row :: "int \<Rightarrow> int list \<Rightarrow> int list option" where
  "energy_row across prev = for_up 0 across (\<lambda>j r. do { a \<leftarrow> energy_cell across prev j; Some (r @ [a]) }) []"

definition energy :: "int \<Rightarrow> int \<Rightarrow> int list list \<Rightarrow> int list list option" where
  "energy fasie across e = do {
     first \<leftarrow> nth_opt e 0;
     for_up 1 fasie (\<lambda>i E. do {
       prev \<leftarrow> nth_opt E (i - 1);
       r \<leftarrow> energy_row across prev;
       Some (E @ [r])
     }) [first]
   }"

text \<open>The place of the least number of a row.\<close>

definition min_place :: "int list \<Rightarrow> int \<Rightarrow> int option" where
  "min_place r n = do {
     m \<leftarrow> nth_opt r 0;
     (m, place) \<leftarrow> for_up 1 n (\<lambda>j (m, place). do { x \<leftarrow> nth_opt r j; Some (if m > x then (x, j) else (m, place)) }) (m, 0);
     Some place
   }"

text \<open>One step of the way back through \<open>E\<close>.\<close>

definition seam_step :: "int \<Rightarrow> int list \<Rightarrow> int \<Rightarrow> int option" where
  "seam_step across r place =
     (if place = 0 then do {
        a \<leftarrow> nth_opt r 0;
        b \<leftarrow> nth_opt r 1;
        Some (if min a b = a then 0 else 1)
      }
      else if place = across - 1 then do {
        a \<leftarrow> nth_opt r (across - 2);
        b \<leftarrow> nth_opt r (across - 1);
        Some (if min a b = a then across - 2 else across - 1)
      }
      else do {
        a \<leftarrow> nth_opt r (place - 1);
        b \<leftarrow> nth_opt r place;
        c \<leftarrow> nth_opt r (place + 1);
        let m = min a (min b c);
        Some (if m = a then place - 1 else if m = c then place + 1 else place)
      })"

text \<open>One line of the strip: up to the seam from the candidate, after it from the strip before the patch.\<close>

definition merge_line :: "reader \<Rightarrow> writer \<Rightarrow> int \<Rightarrow> int \<Rightarrow> int \<Rightarrow> int \<Rightarrow> int \<Rightarrow> int \<Rightarrow> int \<Rightarrow> picture \<Rightarrow> picture option" where
  "merge_line rd wr across base off bucata fasie line place p = do {
     p \<leftarrow> for_up 0 place (\<lambda>j p. do { x \<leftarrow> rd (line + off + bucata - fasie) j p; wr (line + base) j x p }) p;
     for_up place across (\<lambda>j p. do { x \<leftarrow> rd (line + base - fasie) j p; wr (line + base) j x p }) p
   }"

primrec merge_lines :: "reader \<Rightarrow> writer \<Rightarrow> int \<Rightarrow> int \<Rightarrow> int \<Rightarrow> int \<Rightarrow> int \<Rightarrow> int list list \<Rightarrow> nat \<Rightarrow> int \<Rightarrow> picture \<Rightarrow> picture option" where
  "merge_lines rd wr across base off bucata fasie E 0 place p = merge_line rd wr across base off bucata fasie 0 place p"
| "merge_lines rd wr across base off bucata fasie E (Suc line) place p = do {
     p \<leftarrow> merge_line rd wr across base off bucata fasie (int (Suc line)) place p;
     r \<leftarrow> nth_opt E (int line);
     place \<leftarrow> seam_step across r place;
     merge_lines rd wr across base off bucata fasie E line place p
   }"

definition strip_merge :: "reader \<Rightarrow> writer \<Rightarrow> int \<Rightarrow> int \<Rightarrow> int \<Rightarrow> int \<Rightarrow> int \<Rightarrow> int \<Rightarrow> picture \<Rightarrow> picture option" where
  "strip_merge rd wr across base candidat1 off bucata fasie p = do {
     e \<leftarrow> strip_errors p fasie across candidat1 off;
     E \<leftarrow> energy fasie across e;
     r \<leftarrow> nth_opt E (fasie - 1);
     place \<leftarrow> min_place r across;
     merge_lines rd wr across base off bucata fasie E (nat (fasie - 1)) place p
   }"

definition orizontal_merge :: "picture \<Rightarrow> int \<Rightarrow> int \<Rightarrow> int \<Rightarrow> int \<Rightarrow> int \<Rightarrow> int \<Rightarrow> picture option" where
  "orizontal_merge p h fasie in_width i bucata off =
     strip_merge get_column set_column h (in_width + i * bucata) (in_width + i * bucata - bucata) off bucata fasie p"

definition vertical_merge :: "picture \<Rightarrow> int \<Rightarrow> int \<Rightarrow> int \<Rightarrow> int \<Rightarrow> int \<Rightarrow> int \<Rightarrow> picture option" where
  "vertical_merge p w fasie in_height i bucata off =
     strip_merge get_pixel set_pixel w (in_height + i * bucata) (in_height + i * bucata - bucata) off bucata fasie p"

section \<open>Patches\<close>

definition copy_patch :: "reader \<Rightarrow> writer \<Rightarrow> int \<Rightarrow> int \<Rightarrow> int \<Rightarrow> int \<Rightarrow> picture \<Rightarrow> picture option" where
  "copy_patch rd wr across base off bucata =
     for_up 0 bucata (\<lambda>j. for_up 0 across (\<lambda>i p. do { x \<leftarrow> rd (j + off) i p; wr (j + base) i x p }))"

definition orizontal_netezire :: "picture \<Rightarrow> int \<Rightarrow> int \<Rightarrow> int \<Rightarrow> int \<Rightarrow> int \<Rightarrow> int \<Rightarrow> picture option" where
  "orizontal_netezire p i in_width h fasie bucata off = do {
     p \<leftarrow> copy_patch get_column set_column h (in_width + i * bucata) off bucata p;
     orizontal_merge p h fasie in_width i bucata off
   }"

definition vertical_netezire :: "picture \<Rightarrow> int \<Rightarrow> int \<Rightarrow> int \<Rightarrow> int \<Rightarrow> int \<Rightarrow> int \<Rightarrow> picture option" where
  "vertical_netezire p i in_height w fasie bucata off = do {
     p \<leftarrow> copy_patch get_pixel set_pixel w (in_height + i * bucata) off bucata p;
     vertical_merge p w fasie in_height i bucata off
   }"

text \<open>The state of the loops over the patches: the picture, the last offset chosen, and the calls of \<open>rand\<close>.\<close>

definition quilt_orizontal :: "(nat \<Rightarrow> nat) \<Rightarrow> int \<Rightarrow> int \<Rightarrow> int \<Rightarrow> int \<Rightarrow> int \<Rightarrow> picture \<times> nat \<Rightarrow> (picture \<times> nat) option" where
  "quilt_orizontal rnd bucata fasie npatches ncandidati in_width = (\<lambda>(p, k). do {
     let h = height p;
     (p, off, k) \<leftarrow> for_up 0 npatches (\<lambda>i (p, off, k). do {
       (m, off, k) \<leftarrow> candidates rnd ncandidati (in_width - fasie)
          (\<lambda>off. orizontal_dif p off (in_width + (i - 1) * bucata) fasie bucata h) off k;
       p \<leftarrow> orizontal_netezire p i in_width h fasie bucata off;
       Some (p, off, k)
     }) (p, - 1, k);
     Some (p, k)
   })"

definition quilt_vertical :: "(nat \<Rightarrow> nat) \<Rightarrow> int \<Rightarrow> int \<Rightarrow> int \<Rightarrow> int \<Rightarrow> int \<Rightarrow> picture \<times> nat \<Rightarrow> (picture \<times> nat) option" where
  "quilt_vertical rnd bucata fasie npatches ncandidati in_height = (\<lambda>(p, k). do {
     let w = width p;
     (p, off, k) \<leftarrow> for_up 0 npatches (\<lambda>i (p, off, k). do {
       (m, off, k) \<leftarrow> candidates rnd ncandidati (in_height - fasie)
          (\<lambda>off. vertical_dif p off (in_height + (i - 1) * bucata) fasie bucata w) off k;
       p \<leftarrow> vertical_netezire p i in_height w fasie bucata off;
       Some (p, off, k)
     }) (p, - 1, k);
     Some (p, k)
   })"

section \<open>The program\<close>

definition c_div :: "int \<Rightarrow> int \<Rightarrow> int option" where
  "c_div a b = (if b = 0 then None else in_int (a sdiv b))"

text \<open>
  \<open>compute_parameters\<close>: what is left of the input picture's sizes, patches and strips, and the new picture. The strip is a
  fraction of the patch in floating point: \<open>strip_height\<close> and \<open>strip_width\<close> are what it is rounded to.
\<close>

record parameters =
  in_height :: int
  in_width :: int
  dim_bucata_height :: int
  dim_bucata_width :: int
  dim_fasie_height :: int
  dim_fasie_width :: int

definition compute_parameters :: "bytes option \<Rightarrow> int \<Rightarrow> int \<Rightarrow> int \<Rightarrow> int \<Rightarrow> (int \<Rightarrow> int) \<Rightarrow> (int \<Rightarrow> int) \<Rightarrow>
    (picture \<times> picture \<times> parameters) option" where
  "compute_parameters file junk zoom nbucati_height nbucati_width strip_height strip_width = do {
     pin \<leftarrow> load file (empty_picture junk);
     out_height \<leftarrow> in_int (height pin * zoom);
     out_width \<leftarrow> in_int (width pin * zoom);
     bw \<leftarrow> c_div (out_width - width pin) nbucati_width;
     out_width \<leftarrow> in_int (bw * nbucati_width + width pin);
     bh \<leftarrow> c_div (out_height - height pin) nbucati_height;
     out_height \<leftarrow> in_int (bh * nbucati_height + height pin);
     pout \<leftarrow> new_picture out_height out_width (max_color pin);
     Some (pin, pout, \<lparr>in_height = height pin, in_width = width pin, dim_bucata_height = bh, dim_bucata_width = bw,
       dim_fasie_height = strip_height bh, dim_fasie_width = strip_width bw\<rparr>)
   }"

text \<open>The filter: nine neighbours, and \<open>p[5]\<close> is replaced.\<close>

definition sum_opt :: "int list \<Rightarrow> int option" where
  "sum_opt xs = fold_opt (\<lambda>x s. in_int (s + x)) xs 0"

definition filter_color :: "(pixel \<Rightarrow> int) \<Rightarrow> pixel list \<Rightarrow> int option" where
  "filter_color color ps = do {
     s \<leftarrow> sum_opt (map color ps);
     t \<leftarrow> in_int (3 * color (ps ! 5));
     u \<leftarrow> in_int (s + t);
     c_div u 12
   }"

definition apply_filter :: "pixel list \<Rightarrow> pixel option" where
  "apply_filter ps = do {
     r \<leftarrow> filter_color red ps;
     g \<leftarrow> filter_color green ps;
     b \<leftarrow> filter_color blue ps;
     Some \<lparr>red = r, green = g, blue = b\<rparr>
   }"

definition filter_at :: "int \<Rightarrow> int \<Rightarrow> picture \<Rightarrow> picture option" where
  "filter_at i j p = do {
     ps \<leftarrow> those (map (\<lambda>(ii, jj). get_pixel (i - ii - 1) (j - jj - 1) p) (List.product [0..2] [0..2]));
     x \<leftarrow> apply_filter ps;
     set_pixel (i - 1 - 1) (j - 2 - 1) x p
   }"

definition filter_image :: "picture \<Rightarrow> picture option" where
  "filter_image p = for_up 3 (height p - 3) (\<lambda>i. for_up 3 (width p - 3) (filter_at i)) p"

definition copy_input :: "picture \<Rightarrow> int \<Rightarrow> int \<Rightarrow> picture \<Rightarrow> picture option" where
  "copy_input pin h w = for_up 0 h (\<lambda>i. for_up 0 w (\<lambda>j p. do {
     x \<leftarrow> get_pixel i j pin;
     set_pixel i j x p
   }))"

text \<open>From the input to the picture before the filter, and the whole program: the file it writes.\<close>

definition quilt :: "(nat \<Rightarrow> nat) \<Rightarrow> int \<Rightarrow> int \<Rightarrow> int \<Rightarrow> picture \<Rightarrow> picture \<Rightarrow> parameters \<Rightarrow> picture option" where
  "quilt rnd nbucati_height nbucati_width ncandidati pin pout c = do {
     p \<leftarrow> copy_input pin (in_height c) (in_width c) pout;
     n \<leftarrow> in_int (ncandidati * 50);
     s \<leftarrow> quilt_vertical rnd (dim_bucata_height c) (dim_fasie_height c) nbucati_height n (in_height c) (p, 0);
     (p, k) \<leftarrow> quilt_orizontal rnd (dim_bucata_width c) (dim_fasie_width c) nbucati_width n (in_width c) s;
     Some p
   }"

definition quilt_main :: "(nat \<Rightarrow> nat) \<Rightarrow> bytes option \<Rightarrow> int \<Rightarrow> int \<Rightarrow> int \<Rightarrow> int \<Rightarrow> (int \<Rightarrow> int) \<Rightarrow> (int \<Rightarrow> int) \<Rightarrow> int \<Rightarrow> bytes option" where
  "quilt_main rnd file junk zoom nbucati_height nbucati_width strip_height strip_width ncandidati = do {
     (pin, pout, c) \<leftarrow> compute_parameters file junk zoom nbucati_height nbucati_width strip_height strip_width;
     p \<leftarrow> quilt rnd nbucati_height nbucati_width ncandidati pin pout c;
     p \<leftarrow> filter_image p;
     save p
   }"

end
