(* ===== verification/Spu.thy ===== *)
theory Spu
  imports Quilt
begin

text \<open>
  The program on the SPUs (\<open>spu/spu.cpp\<close>) and the side of the PPU that talks to it, the branch of \<open>quilt.cpp\<close> with \<open>CELL\<close>: strips
  are packed into main memory, their sizes and addresses are sent as numbers through the mailbox, and the SPU fetches them,
  sums their difference and keeps the sums until it is asked for the least. Main memory is read in words of four bytes and may
  change between two turns; a pixel is three words. \<open>None\<close> is what C++ leaves undefined or a transfer that the hardware refuses.
\<close>

section \<open>Transfers\<close>

type_synonym memory = "int \<Rightarrow> int option"

definition sizeof_pixel :: int where "sizeof_pixel = 12"

text \<open>\<open>mfc_get\<close>: 4 or 8 bytes, or up to 16 KB in lines of 16; both places are aligned. The local buffer is replaced from its start.\<close>

definition mfc_size :: "int \<Rightarrow> int \<Rightarrow> bool" where
  "mfc_size a bytes \<longleftrightarrow> (bytes = 4 \<or> bytes = 8) \<and> a mod bytes = 0 \<or>
     0 \<le> bytes \<and> bytes \<le> 16384 \<and> bytes mod 16 = 0 \<and> a mod 16 = 0"

definition mfc_get :: "memory \<Rightarrow> int \<Rightarrow> int \<Rightarrow> int list \<Rightarrow> int list option" where
  "mfc_get mem a bytes buf =
     (if \<not> mfc_size a bytes \<or> nat (bytes div 4) > length buf then None
      else do {
        ws \<leftarrow> those (map (\<lambda>i. mem (a + 4 * int i)) [0..<nat (bytes div 4)]);
        Some (ws @ drop (length ws) buf)
      })"

definition strip_bytes :: "int \<Rightarrow> int \<Rightarrow> int option" where
  "strip_bytes sz fasie_size = do { n \<leftarrow> in_int (sz * fasie_size); Some (n * sizeof_pixel mod 2 ^ 32) }"

section \<open>The SPU\<close>

record spu =
  values1 :: "int list"
  values2 :: "int list"
  values_aux1 :: "int list"
  values_aux2 :: "int list"
  diff_vect :: "int list"
  answers :: "int list"

definition SPU_WORDS :: nat where "SPU_WORDS = 3 * 1024"

definition new_spu :: spu where
  "new_spu = \<lparr>values1 = replicate SPU_WORDS 0, values2 = replicate SPU_WORDS 0,
     values_aux1 = replicate SPU_WORDS 0, values_aux2 = replicate SPU_WORDS 0, diff_vect = [], answers = []\<rparr>"

definition pixel_at :: "int list \<Rightarrow> int \<Rightarrow> pixel option" where
  "pixel_at buf i = (if 0 \<le> i \<and> 3 * nat i + 2 < length buf
     then Some \<lparr>red = buf ! (3 * nat i), green = buf ! (3 * nat i + 1), blue = buf ! (3 * nat i + 2)\<rparr> else None)"

definition pixel_compare :: "pixel \<Rightarrow> pixel \<Rightarrow> int option" where
  "pixel_compare p1 p2 = in_int ((red p1 - red p2) * (red p1 - red p2) + (green p1 - green p2) * (green p1 - green p2) +
     (blue p1 - blue p2) * (blue p1 - blue p2))"

definition calculate_diff :: "int list \<Rightarrow> int list \<Rightarrow> int \<Rightarrow> int \<Rightarrow> int option" where
  "calculate_diff v1 v2 h fasie =
     for_up 0 h (\<lambda>i. for_up 0 fasie (\<lambda>j diff. do {
       x \<leftarrow> pixel_at v1 (i * fasie + j);
       y \<leftarrow> pixel_at v2 (i * fasie + j);
       d \<leftarrow> pixel_compare x y;
       in_int (diff + d)
     })) 0"

definition push_diff :: "int list \<Rightarrow> int list \<Rightarrow> int \<Rightarrow> int \<Rightarrow> spu \<Rightarrow> spu option" where
  "push_diff v1 v2 h fasie s = do {
     d \<leftarrow> calculate_diff v1 v2 h fasie;
     Some (s\<lparr>diff_vect := diff_vect s @ [d]\<rparr>)
   }"

text \<open>The first strip of a turn is fetched as a whole.\<close>

definition fetch_strips :: "memory \<Rightarrow> int \<Rightarrow> int \<Rightarrow> int \<Rightarrow> int \<Rightarrow> spu \<Rightarrow> spu option" where
  "fetch_strips mem sz fasie_size packet1 packet2 s = do {
     n \<leftarrow> strip_bytes sz fasie_size;
     v1 \<leftarrow> mfc_get mem packet1 n (values1 s);
     v2 \<leftarrow> mfc_get mem packet2 n (values2 s);
     Some (s\<lparr>values1 := v1, values2 := v2\<rparr>)
   }"

text \<open>Of the second strip one word is fetched; then both are summed, with the sizes of the second.\<close>

definition second_strip :: "memory \<Rightarrow> int \<Rightarrow> int \<Rightarrow> int \<Rightarrow> int \<Rightarrow> spu \<Rightarrow> spu option" where
  "second_strip mem sz fasie_size packet_aux1 packet_aux2 s = do {
     a1 \<leftarrow> mfc_get mem packet_aux1 4 (values_aux1 s);
     a2 \<leftarrow> mfc_get mem packet_aux2 4 (values_aux2 s);
     s \<leftarrow> push_diff (values1 s) (values2 s) sz fasie_size (s\<lparr>values_aux1 := a1, values_aux2 := a2\<rparr>);
     push_diff a1 a2 sz fasie_size s
   }"

text \<open>The answer: the least of all sums there are.\<close>

definition write_min :: "spu \<Rightarrow> spu option" where
  "write_min s = (case diff_vect s of
     [] \<Rightarrow> None
   | d # ds \<Rightarrow> Some (s\<lparr>answers := answers s @ [fold (\<lambda>x m. if x < m then x else m) ds d]\<rparr>))"

text \<open>
  The loop over what comes through the mailbox; \<open>mem n\<close> is the memory at turn \<open>n\<close>. A program that finds the mailbox
  empty waits for ever; the PPU takes the answers, so that there is always room for one.
\<close>

datatype spu_end = Quits spu | Blocked spu

fun spu_main :: "(nat \<Rightarrow> memory) \<Rightarrow> nat \<Rightarrow> int list \<Rightarrow> spu \<Rightarrow> spu_end option" where
  "spu_main mem n (addr # msgs) s =
     (if addr = 0 then Some (Quits s)
      else (case msgs of
        sz # fasie_size # packet1 # packet2 # msgs \<Rightarrow> Option.bind (fetch_strips (mem n) sz fasie_size packet1 packet2 s) (\<lambda>s.
          (case msgs of
            addr # msgs \<Rightarrow>
              if addr = 2 then Option.bind (write_min s) (spu_main mem (n + 1) msgs)
              else (case msgs of
                sz # fasie_size # aux1 # aux2 # msgs \<Rightarrow>
                  Option.bind (second_strip (mem n) sz fasie_size aux1 aux2 s) (spu_main mem (n + 1) msgs)
              | _ \<Rightarrow> Some (Blocked s))
          | [] \<Rightarrow> Some (Blocked s)))
      | _ \<Rightarrow> Some (Blocked s)))"
| "spu_main mem n [] s = Some (Blocked s)"

section \<open>The PPU's side\<close>

text \<open>\<open>orizontal_dif\<close> with \<open>CELL\<close>: the two packets, filled in the order of their places, and the messages that go to the next
  SPU; \<open>a1\<close> and \<open>a2\<close> are where the packets were allocated. The function itself gives 0.\<close>

definition fill_packet :: "reader \<Rightarrow> picture \<Rightarrow> int \<Rightarrow> int \<Rightarrow> int \<Rightarrow> pixel list option" where
  "fill_packet rd p off fasie across =
     for_up 0 across (\<lambda>i. for_up 0 fasie (\<lambda>j ps. do { x \<leftarrow> rd (off + j) i p; Some (ps @ [x]) })) []"

definition packet_words :: "pixel list \<Rightarrow> int list" where
  "packet_words ps = concat (map (\<lambda>x. [red x, green x, blue x]) ps)"

definition orizontal_dif_cell :: "picture \<Rightarrow> int \<Rightarrow> int \<Rightarrow> int \<Rightarrow> int \<Rightarrow> int \<Rightarrow> int \<Rightarrow> int \<Rightarrow> (int list \<times> int list \<times> int list) option" where
  "orizontal_dif_cell p off_candidat off_add fasie bucata h a1 a2 = do {
     packet1 \<leftarrow> fill_packet get_column p (off_candidat + bucata) fasie h;
     packet2 \<leftarrow> fill_packet get_column p (off_add - fasie) fasie h;
     Some (packet_words packet1, packet_words packet2, [1, h, fasie, a1, a2])
   }"

text \<open>What \<open>main\<close> sends to every SPU at the end.\<close>

definition quit_message :: "int list" where "quit_message = [0]"

end
