(* ===== verification/PictureCorrect.thy ===== *)
theory PictureCorrect
  imports Picture
begin

text \<open>
  Rules for the counting loops, reading and writing pixels by row and column, and the round trip of the text format.
\<close>

section \<open>Counting loops\<close>

lemma fold_opt_append: "fold_opt f (xs @ ys) s = Option.bind (fold_opt f xs s) (fold_opt f ys)"
  by (induction xs arbitrary: s) (simp_all split: bind_splits)

lemma for_up_none [simp]: "b \<le> a \<Longrightarrow> for_up a b f s = Some s"
  by (simp add: for_up_def)

text \<open>Total correctness: every turn returns and keeps the invariant.\<close>

lemma for_up_inv:
  assumes "a \<le> b" and "I a s" and "\<And>i s. a \<le> i \<Longrightarrow> i < b \<Longrightarrow> I i s \<Longrightarrow> \<exists>s'. f i s = Some s' \<and> I (i + 1) s'"
  shows "\<exists>s'. for_up a b f s = Some s' \<and> I b s'"
proof -
  have "\<exists>s'. fold_opt f [a..a + int n - 1] s = Some s' \<and> I (a + int n) s'" if "a + int n \<le> b" for n
    using that
  proof (induction n)
    case (Suc n)
    then obtain s' where s': "fold_opt f [a..a + int n - 1] s = Some s'" "I (a + int n) s'" by auto
    obtain s'' where "f (a + int n) s' = Some s''" "I (a + int n + 1) s''" using assms(3) [OF _ _ s'(2)] Suc.prems by auto
    moreover have "[a..a + int (Suc n) - 1] = [a..a + int n - 1] @ [a + int n]"
      using upto_rec2 [of a "a + int n"] by (simp add: add.commute)
    ultimately show ?case using s'(1) by (auto simp: fold_opt_append add.commute add.left_commute)
  qed (use assms(2) in simp)
  from this [of "nat (b - a)"] show ?thesis using assms(1) by (simp add: for_up_def)
qed

section \<open>Pixels by row and column\<close>

definition picture_ok :: "picture \<Rightarrow> bool" where
  "picture_ok p \<longleftrightarrow> 0 \<le> width p \<and> 0 \<le> height p \<and> int (length (image p)) = height p * width p"

definition inside :: "int \<Rightarrow> int \<Rightarrow> picture \<Rightarrow> bool" where
  "inside row col p \<longleftrightarrow> 0 \<le> row \<and> row < height p \<and> 0 \<le> col \<and> col < width p"

lemma inside_bound: "0 \<le> row \<Longrightarrow> row < h \<Longrightarrow> 0 \<le> col \<Longrightarrow> col < w \<Longrightarrow> 0 \<le> row * w + col \<and> row * w + col < h * (w :: int)"
proof -
  assume *: "0 \<le> row" "row < h" "0 \<le> col" "col < w"
  then have "(row + 1) * w \<le> h * w" by (intro mult_right_mono) auto
  moreover have "0 \<le> row * w" using * by simp
  ultimately show ?thesis using * by (simp add: distrib_right)
qed

lemma index_inside:
  "picture_ok p \<Longrightarrow> inside row col p \<Longrightarrow> index_of row col p = Some (nat (row * width p + col))"
  using inside_bound [of row "height p" col "width p"]
  by (auto simp: index_of_def picture_ok_def inside_def Let_def nat_less_iff)

lemma index_eq_iff:
  assumes "0 \<le> col" "col < w" "0 \<le> col'" "col' < w"
  shows "row * w + col = row' * w + (col' :: int) \<longleftrightarrow> row = row' \<and> col = col'"
proof
  assume eq: "row * w + col = row' * w + col'"
  have "(row * w + col) div w = row" "(row' * w + col') div w = row'" using assms by simp_all
  then show "row = row' \<and> col = col'" using eq by auto
qed simp

lemma nat_index_eq_iff:
  assumes "picture_ok p" "inside row col p" "inside row' col' p"
  shows "nat (row * width p + col) = nat (row' * width p + col') \<longleftrightarrow> row = row' \<and> col = col'"
proof -
  have "0 \<le> row * width p + col" "0 \<le> row' * width p + col'"
    using assms inside_bound [of row "height p" col "width p"] inside_bound [of row' "height p" col' "width p"]
    by (simp_all add: inside_def)
  then show ?thesis using index_eq_iff [of col "width p" col' row row'] assms by (simp add: inside_def eq_nat_nat_iff)
qed

lemma get_inside: "picture_ok p \<Longrightarrow> inside row col p \<Longrightarrow> \<exists>x\<in>set (image p). get_pixel row col p = Some x"
  using inside_bound [of row "height p" col "width p"]
  by (auto simp: get_pixel_def index_inside inside_def picture_ok_def nat_less_iff)

lemma set_inside:
  assumes "picture_ok p" and "inside row col p"
  shows "\<exists>p'. set_pixel row col x p = Some p' \<and> picture_ok p' \<and> width p' = width p \<and> height p' = height p \<and>
    max_color p' = max_color p \<and> set (image p') \<subseteq> insert x (set (image p)) \<and>
    (\<forall>row' col'. inside row' col' p \<longrightarrow>
       get_pixel row' col' p' = (if row' = row \<and> col' = col then Some x else get_pixel row' col' p))"
proof -
  let ?p = "p\<lparr>image := (image p)[nat (row * width p + col) := x]\<rparr>"
  have "nat (row * width p + col) < length (image p)"
    using assms inside_bound [of row "height p" col "width p"] by (simp add: inside_def picture_ok_def nat_less_iff)
  moreover have "picture_ok ?p" "\<And>r c. inside r c p \<Longrightarrow> inside r c ?p" using assms(1) by (simp_all add: picture_ok_def inside_def)
  ultimately have "get_pixel r c ?p = (if r = row \<and> c = col then Some x else get_pixel r c p)" if "inside r c p" for r c
    using that assms nat_index_eq_iff [OF assms that] by (auto simp: get_pixel_def index_inside)
  then show ?thesis using assms \<open>picture_ok ?p\<close> set_update_subset_insert [of "image p"]
    by (auto simp: set_pixel_def index_inside)
qed

lemma new_picture_ok:
  "0 \<le> h \<Longrightarrow> 0 \<le> w \<Longrightarrow> \<exists>p. new_picture h w color = Some p \<and> picture_ok p \<and> width p = w \<and> height p = h \<and>
     max_color p = color \<and> set (image p) \<subseteq> {black}"
  by (auto simp: new_picture_def picture_ok_def not_less)

section \<open>The text format\<close>

definition pixel_lines :: "pixel \<Rightarrow> bytes" where
  "pixel_lines x = dec_int (red x) @ [10] @ dec_int (green x) @ [10] @ dec_int (blue x) @ [10]"

lemma index_Suc:
  assumes "picture_ok p" and "inside i j p"
  shows "nat (i * width p + (j + 1)) = Suc (nat (i * width p + j))" "nat (i * width p + j) < length (image p)"
  using assms inside_bound [of i "height p" j "width p"]
  by (simp_all add: inside_def picture_ok_def nat_less_iff add.assoc [symmetric] Suc_as_int)

lemma get_pixel_inside:
  "picture_ok p \<Longrightarrow> inside i j p \<Longrightarrow> get_pixel i j p = Some (image p ! nat (i * width p + j))"
  by (simp add: get_pixel_def index_inside)

lemma save_lines:
  assumes "picture_ok p"
  shows "save p = Some (save_header p @ concat (map pixel_lines (image p)))"
proof -
  let ?upto = "\<lambda>k. save_header p @ concat (map pixel_lines (take (nat k) (image p)))"
  have row: "\<exists>out'. for_up 0 (width p) (save_pixel p i) out = Some out' \<and> out' = ?upto ((i + 1) * width p)"
    if "0 \<le> i" "i < height p" "out = ?upto (i * width p)" for i out
  proof -
    have "\<exists>out'. for_up 0 (width p) (save_pixel p i) out = Some out' \<and> out' = ?upto (i * width p + width p)"
    proof (rule for_up_inv [where I = "\<lambda>j out. out = ?upto (i * width p + j)"])
      fix j out assume j: "0 \<le> j" "j < width p" "out = ?upto (i * width p + j)"
      have "inside i j p" using that(1,2) j(1,2) by (simp add: inside_def)
      then show "\<exists>out'. save_pixel p i j out = Some out' \<and> out' = ?upto (i * width p + (j + 1))"
        using j(3) index_Suc [OF assms] by (simp add: save_pixel_def get_pixel_inside [OF assms] take_Suc_conv_app_nth pixel_lines_def)
    qed (use assms that(3) in \<open>auto simp: picture_ok_def\<close>)
    then show ?thesis by (simp add: distrib_right)
  qed
  have "\<exists>out. save p = Some out \<and> out = ?upto (height p * width p)"
    unfolding save_def by (rule for_up_inv [where I = "\<lambda>i out. out = ?upto (i * width p)"]) (use assms row in \<open>auto simp: picture_ok_def\<close>)
  moreover have "take (nat (height p * width p)) (image p) = image p" using assms by (metis nat_int order_refl picture_ok_def take_all)
  ultimately show ?thesis by simp
qed

text \<open>Reading a number back, after white space and before a line end.\<close>

lemma digits_line: "digits 0 (dec_nat n @ 10 # r) = int n"
proof -
  have "digits acc (10 # r) = acc" for acc by (simp add: is_digit_def word_le_nat_alt)
  then show ?thesis using digits_append [OF dec_nat_digits, of 0 n "10 # r"] by (simp add: digits_dec_nat)
qed

lemma take_number: "takeWhile is_digit (dec_nat n @ 10 # r) = dec_nat n" "dropWhile is_digit (dec_nat n @ 10 # r) = 10 # r"
  using dec_nat_digits [of n] by (simp_all add: is_digit_def word_le_nat_alt)

lemma dec_nat_nonempty: "dec_nat n \<noteq> []"
  using dec_nat_Cons [of n] by auto

lemma fscanf_dec:
  assumes "int32 x" and "ws = [] \<or> ws = [10]"
  shows "fscanf_d old (ws @ dec_int x @ 10 # r) = Some (Some x, 10 # r)"
proof (cases "x < 0")
  case True
  have "dropWhile is_space (ws @ 45 # l) = 45 # l" for l using assms(2) by (auto simp: is_space_def word_le_nat_alt)
  then show ?thesis using True assms(1)
    by (simp add: fscanf_d_def dec_int_def take_number digits_line dec_nat_nonempty in_int_def Let_def)
next
  case False
  obtain c cs where c: "dec_nat (nat x) = c # cs" "is_digit c" using dec_nat_Cons by blast
  have d: "dropWhile is_space (ws @ dec_nat (nat x) @ l) = dec_nat (nat x) @ l" for l
    using assms(2) is_digit_not [OF c(2)] by (auto simp: c(1)) (simp_all add: is_space_def)
  show ?thesis using False assms(1) c is_digit_not [OF c(2)] d [of "10 # r"]
      take_number [of "nat x" r] digits_line [of "nat x" r]
    by (simp add: fscanf_d_def dec_int_def in_int_def Let_def)
qed

definition pixel_fits :: "pixel \<Rightarrow> bool" where
  "pixel_fits x \<longleftrightarrow> int32 (red x) \<and> int32 (green x) \<and> int32 (blue x)"

lemma load_pixel_lines:
  assumes "picture_ok p" and "inside i j p" and "pixel_fits x" and "ws = [] \<or> ws = [10]"
  shows "load_pixel i j (p, v, ws @ pixel_lines x @ r) =
    Some (p\<lparr>image := (image p)[nat (i * width p + j) := x]\<rparr>, (Some (red x), Some (green x), Some (blue x)), 10 # r)"
proof -
  have s: "set_pixel i j \<lparr>red = red x, green = green x, blue = blue x\<rparr> p = Some (p\<lparr>image := (image p)[nat (i * width p + j) := x]\<rparr>)"
    using assms(1,2) by (cases x) (simp add: set_pixel_def index_inside)
  obtain v1 v2 v3 where v: "v = (v1, v2, v3)" by (cases v)
  have f: "fscanf_d old (ws @ dec_int (red x) @ 10 # l) = Some (Some (red x), 10 # l)"
      "fscanf_d old (10 # dec_int (green x) @ 10 # l) = Some (Some (green x), 10 # l)"
      "fscanf_d old (10 # dec_int (blue x) @ 10 # l) = Some (Some (blue x), 10 # l)" for old l
    using fscanf_dec [of "red x" ws old l] fscanf_dec [of "green x" "[10]" old l] fscanf_dec [of "blue x" "[10]" old l] assms(3,4)
    by (simp_all add: pixel_fits_def)
  show ?thesis by (simp add: load_pixel_def v pixel_lines_def f s)
qed

text \<open>The loops over the rows, from the state in which \<open>k\<close> pixels have been read.\<close>

definition loaded :: "picture \<Rightarrow> nat \<Rightarrow> picture \<times> (int option \<times> int option \<times> int option) \<times> bytes \<Rightarrow> bool" where
  "loaded p k = (\<lambda>(q, v, f). q = p\<lparr>image := take k (image p) @ replicate (length (image p) - k) black\<rparr> \<and>
     (\<exists>ws. (ws = [] \<or> ws = [10]) \<and> f = ws @ concat (map pixel_lines (drop k (image p)))))"

lemma loaded_step:
  assumes "picture_ok p" and "inside i j p" and "\<forall>x\<in>set (image p). pixel_fits x" and "loaded p (nat (i * width p + j)) s"
  shows "\<exists>s'. load_pixel i j s = Some s' \<and> loaded p (nat (i * width p + (j + 1))) s'"
proof -
  let ?k = "nat (i * width p + j)"
  have k: "?k < length (image p)" "nat (i * width p + (j + 1)) = Suc ?k" using index_Suc [OF assms(1,2)] by simp_all
  obtain q v f where s: "s = (q, v, f)" by (cases s)
  let ?q = "take ?k (image p) @ replicate (length (image p) - ?k) black"
  obtain ws where q: "q = p\<lparr>image := ?q\<rparr>" and ws: "ws = [] \<or> ws = [10]"
    and f: "f = ws @ pixel_lines (image p ! ?k) @ concat (map pixel_lines (drop (Suc ?k) (image p)))"
    using assms(4) k(1) by (auto simp: loaded_def s Cons_nth_drop_Suc [symmetric])
  have "picture_ok q" "inside i j q" "width q = width p" using assms(1,2) k(1) by (auto simp: q picture_ok_def inside_def)
  then have "load_pixel i j s = Some (q\<lparr>image := ?q[?k := image p ! ?k]\<rparr>,
      (Some (red (image p ! ?k)), Some (green (image p ! ?k)), Some (blue (image p ! ?k))),
      10 # concat (map pixel_lines (drop (Suc ?k) (image p))))"
    using load_pixel_lines [OF _ _ _ ws, of q i j "image p ! ?k"] assms(3) k(1) by (simp add: s f q)
  moreover have "?q[?k := image p ! ?k] = take (Suc ?k) (image p) @ replicate (length (image p) - Suc ?k) black"
    using k(1) by (cases "length (image p) - ?k") (simp_all add: list_update_append take_Suc_conv_app_nth)
  ultimately show ?thesis by (auto simp: loaded_def k(2) q)
qed

lemma load_loops:
  assumes "picture_ok p" and "\<forall>x\<in>set (image p). pixel_fits x" and "loaded p 0 s"
  shows "\<exists>s'. for_up 0 (height p) (\<lambda>i. for_up 0 (width p) (load_pixel i)) s = Some s' \<and> loaded p (length (image p)) s'"
proof -
  have row: "\<exists>s'. for_up 0 (width p) (load_pixel i) s = Some s' \<and> loaded p (nat ((i + 1) * width p)) s'"
    if "0 \<le> i" "i < height p" "loaded p (nat (i * width p)) s" for i s
  proof -
    have "\<exists>s'. for_up 0 (width p) (load_pixel i) s = Some s' \<and> loaded p (nat (i * width p + width p)) s'"
      by (rule for_up_inv [where I = "\<lambda>j. loaded p (nat (i * width p + j))"])
        (use assms(1,2) that loaded_step in \<open>auto simp: picture_ok_def inside_def\<close>)
    then show ?thesis by (simp add: distrib_right)
  qed
  have "\<exists>s'. for_up 0 (height p) (\<lambda>i. for_up 0 (width p) (load_pixel i)) s = Some s' \<and> loaded p (nat (height p * width p)) s'"
    by (rule for_up_inv [where I = "\<lambda>i. loaded p (nat (i * width p))"]) (use assms row in \<open>auto simp: picture_ok_def\<close>)
  then show ?thesis using assms(1) by (metis nat_int picture_ok_def)
qed

text \<open>The header: three lines, then the one with the greatest colour.\<close>

lemma dec_int_chars: "c \<in> set (dec_int x) \<Longrightarrow> c = 45 \<or> is_digit c"
  using dec_nat_digits by (auto simp: dec_int_def split: if_splits)

lemma dec_int_clean: "c \<in> set (dec_int x) \<Longrightarrow> c \<noteq> 10 \<and> c \<noteq> 32 \<and> c \<noteq> 0"
  using dec_int_chars [of c x] by (auto simp: is_digit_def)

lemma dec_int_not_Nil: "dec_int x \<noteq> []"
  by (simp add: dec_int_def dec_nat_nonempty)

lemma length_dec_int: "int32 x \<Longrightarrow> length (dec_int x) \<le> 11"
  using length_dec_nat [of "nat x" 9] length_dec_nat [of "nat (- x)" 9] by (auto simp: dec_int_def int32_def nat_less_iff)

lemma atoi_line: "atoi (dec_int x @ [10]) = x"
proof (cases "x < 0")
  case True
  have "dropWhile is_space (45 # l) = 45 # l" for l by (simp add: is_space_def word_le_nat_alt)
  then show ?thesis using True by (simp add: atoi_def dec_int_def digits_line)
next
  case False
  obtain c cs where c: "dec_nat (nat x) = c # cs" "is_digit c" using dec_nat_Cons by blast
  then show ?thesis using False is_digit_not [OF c(2)] digits_line [of "nat x" "[]"] by (simp add: atoi_def dec_int_def)
qed

lemma strtok_sizes:
  "strtok delimiter (dec_int w @ 32 # dec_int h @ [10]) = Some (dec_int w, dec_int h @ [10])"
  "strtok delimiter (dec_int h @ [10]) = Some (dec_int h, [])"
  by (rule strtok_token [where ds = "[]", simplified]; use dec_int_clean in \<open>auto simp: dec_int_not_Nil delimiter_def\<close>)+

lemma atoi_dec: "atoi (dec_int x) = x"
  by (rule atoi_dec_int)

definition picture_fits :: "picture \<Rightarrow> bool" where
  "picture_fits p \<longleftrightarrow> picture_ok p \<and> int32 (width p) \<and> int32 (height p) \<and> int32 (max_color p) \<and>
     (\<forall>x\<in>set (image p). pixel_fits x)"

lemma load_header:
  assumes "picture_fits p"
  shows "load (Some (save_header p @ r)) q = do {
     b \<leftarrow> new_picture (height p) (width p) (max_color p);
     (p, _) \<leftarrow> for_up 0 (height p) (\<lambda>i. for_up 0 (width p) (load_pixel i)) (b, (None, None, None), r);
     Some p
   }"
proof -
  let ?c = "ascii ''# CREATOR: Dascalu Laurentiu'' @ [39] @ ascii ''s Image Quilting Application''"
  let ?s = "dec_int (width p) @ 32 # dec_int (height p)"
  have hdr: "save_header p @ r = ascii ''P3'' @ 10 # ?c @ 10 # ?s @ 10 # dec_int (max_color p) @ 10 # r"
    by (simp add: save_header_def)
  have p3: "fgets MAX_LINE old (ascii ''P3'' @ 10 # f) = (True, ascii ''P3'' @ [10], f)" for old f
    by (rule fgets_line) (simp_all add: ascii_def MAX_LINE_def)
  have c: "fgets MAX_LINE old (?c @ 10 # f) = (True, ?c @ [10], f)" for old f
    by (rule fgets_line) (simp_all add: ascii_def MAX_LINE_def)
  have s: "fgets MAX_LINE old (?s @ 10 # f) = (True, ?s @ [10], f)" for old f
    using assms dec_int_clean length_dec_int [of "width p"] length_dec_int [of "height p"]
    by (intro fgets_line) (auto simp: picture_fits_def MAX_LINE_def)
  have m: "fgets MAX_LINE old (dec_int (max_color p) @ 10 # f) = (True, dec_int (max_color p) @ [10], f)" for old f
    using assms dec_int_clean length_dec_int [of "max_color p"] by (intro fgets_line) (auto simp: picture_fits_def MAX_LINE_def)
  have i: "in_int (width p) = Some (width p)" "in_int (height p) = Some (height p)" "in_int (max_color p) = Some (max_color p)"
    using assms by (simp_all add: in_int_def picture_fits_def)
  show ?thesis
    unfolding hdr load_def by (simp only: option.case Let_def p3 c s m prod.case)
      (simp add: strtok_sizes atoi_dec atoi_line i reset_def)
qed

lemma save_then_load:
  assumes "picture_fits p"
  shows "Option.bind (save p) (\<lambda>f. load (Some f) q) = Some p"
proof -
  have ok: "picture_ok p" and px: "\<forall>x\<in>set (image p). pixel_fits x" using assms by (simp_all add: picture_fits_def)
  let ?b = "p\<lparr>image := replicate (length (image p)) black\<rparr>"
  have n: "nat (height p * width p) = length (image p)" using ok by (metis nat_int picture_ok_def)
  then have b: "new_picture (height p) (width p) (max_color p) = Some ?b"
    using ok by (cases p) (auto simp: new_picture_def picture_ok_def not_less)
  have "loaded p 0 (?b, (None, None, None), concat (map pixel_lines (image p)))" by (simp add: loaded_def)
  then obtain s' where s': "for_up 0 (height p) (\<lambda>i. for_up 0 (width p) (load_pixel i))
      (?b, (None, None, None), concat (map pixel_lines (image p))) = Some s'" "loaded p (length (image p)) s'"
    using load_loops [OF ok px] by blast
  obtain q' v f where s: "s' = (q', v, f)" by (cases s')
  have "q' = p" using s'(2) by (cases p) (simp add: loaded_def s)
  then show ?thesis by (simp add: save_lines [OF ok] load_header [OF assms] b s'(1) s)
qed



end
