(* ===== verification/QuiltCorrect.thy ===== *)
theory QuiltCorrect
  imports Quilt PictureCorrect
begin

text \<open>
  Image quilting: within its bounds the program never leaves the picture, keeps the input, and fills the rest with pixels of
  the input. Both directions meet the contract \<open>axis\<close>, under which the loops over strips and patches are treated once.
\<close>

section \<open>Colours and differences\<close>

definition color_ok :: "int \<Rightarrow> pixel \<Rightarrow> bool" where
  "color_ok m x \<longleftrightarrow> red x \<in> {0..m} \<and> green x \<in> {0..m} \<and> blue x \<in> {0..m}"

lemma square_bound: "x \<in> {0..m} \<Longrightarrow> y \<in> {0..m} \<Longrightarrow> 0 \<le> (x - y) * (x - y) \<and> (x - y) * (x - y) \<le> m * (m :: int)"
proof -
  assume "x \<in> {0..m}" "y \<in> {0..m}"
  then have "\<bar>x - y\<bar> \<le> m" by auto
  then have "\<bar>x - y\<bar> * \<bar>x - y\<bar> \<le> m * m" by (intro mult_mono) auto
  then show ?thesis by (simp add: abs_mult_self_eq)
qed

lemma compare_bound:
  assumes "color_ok m x" and "color_ok m y" and "3 * (m * m) < 2 ^ 31"
  shows "\<exists>d. compare x y = Some d \<and> 0 \<le> d \<and> d \<le> 3 * (m * m)"
proof -
  let ?s = "\<lambda>c. (c x - c y) * (c x - c y) :: int"
  have "0 \<le> ?s red \<and> ?s red \<le> m * m" "0 \<le> ?s green \<and> ?s green \<le> m * m" "0 \<le> ?s blue \<and> ?s blue \<le> m * m"
    using assms(1,2) square_bound by (simp_all add: color_ok_def)
  then have d: "0 \<le> ?s red + ?s green + ?s blue" "?s red + ?s green + ?s blue \<le> 3 * (m * m)" by linarith+
  then have "int32 (?s red + ?s green + ?s blue)" using assms(3) unfolding int32_def by linarith
  then show ?thesis using d by (simp add: compare_def in_int_def)
qed

section \<open>The choice of a candidate\<close>

definition offset_of :: "(nat \<Rightarrow> nat) \<Rightarrow> int \<Rightarrow> nat \<Rightarrow> int" where "offset_of rnd bound k = int (rnd k) smod bound"

lemma offset_bounds: "0 < bound \<Longrightarrow> 0 \<le> offset_of rnd bound k \<and> offset_of rnd bound k < bound"
  by (simp add: offset_of_def smod_int_alt_def)

text \<open>The offset chosen is among those tried, and no other of them has a smaller difference.\<close>

lemma candidates_choose:
  assumes "0 < bound" and "0 < n" and dif: "\<And>off. 0 \<le> off \<Longrightarrow> off < bound \<Longrightarrow> \<exists>d. dif off = Some d \<and> d < 2 ^ 30"
  shows "\<exists>m off. candidates rnd n bound dif off0 k = Some (m, off, k + nat n) \<and>
    (\<exists>t<nat n. off = offset_of rnd bound (k + t)) \<and> dif off = Some m \<and>
    (\<forall>t<nat n. \<exists>d. dif (offset_of rnd bound (k + t)) = Some d \<and> m \<le> d)"
proof -
  let ?off = "\<lambda>t. offset_of rnd bound (k + t)"
  let ?I = "\<lambda>j (m, off, k'). k' = k + nat j \<and> (j = 0 \<longrightarrow> m = 2 ^ 30) \<and>
    (0 < j \<longrightarrow> dif off = Some m \<and> (\<exists>t<nat j. off = ?off t)) \<and> (\<forall>t<nat j. \<exists>d. dif (?off t) = Some d \<and> m \<le> d)"
  have "\<exists>s. candidates rnd n bound dif off0 k = Some s \<and> ?I n s"
    unfolding candidates_def
  proof (rule for_up_inv)
    fix j s assume j: "0 \<le> j" "j < n" and I: "?I j s"
    obtain m off k' where s: "s = (m, off, k')" by (cases s)
    obtain d where d: "dif (?off (nat j)) = Some d" "d < 2 ^ 30" using dif offset_bounds [OF assms(1)] by blast
    have less: "t < nat (j + 1) \<longleftrightarrow> t < nat j \<or> t = nat j" for t using j(1) by auto
    show "\<exists>s'. try_candidate rnd bound dif s = Some s' \<and> ?I (j + 1) s'"
    proof (cases "m > d")
      case True
      then show ?thesis using I d(1) assms(1) j(1)
        by (auto simp: s try_candidate_def less offset_of_def nat_add_distrib less_Suc_eq)
    next
      case False
      then have "0 < j" using I d(2) j(1) by (cases "j = 0") (auto simp: s)
      then show ?thesis using False I d(1) assms(1) by (auto simp: s try_candidate_def less offset_of_def nat_add_distrib less_Suc_eq)
    qed
  qed (use assms(2) in auto)
  then show ?thesis using assms(2) by auto
qed

section \<open>The energy matrix\<close>

lemma nth_opt_Some: "0 \<le> i \<Longrightarrow> i < int (length xs) \<Longrightarrow> nth_opt xs i = Some (xs ! nat i)"
  by (simp add: nth_opt_def nat_less_iff)

lemma nth_upto_map: "0 \<le> i \<Longrightarrow> i < n \<Longrightarrow> nth_opt (map g [0..n - 1]) i = Some (g i)"
  by (simp add: nth_opt_def nat_less_iff nth_upto)

text \<open>A loop that appends its results.\<close>

lemma for_up_collect:
  assumes "0 \<le> n" and "\<And>j. 0 \<le> j \<Longrightarrow> j < n \<Longrightarrow> f j = Some (g j)"
  shows "for_up 0 n (\<lambda>j r. Option.bind (f j) (\<lambda>a. Some (r @ [a]))) [] = Some (map g [0..n - 1])"
proof -
  have "\<exists>r. for_up 0 n (\<lambda>j r. Option.bind (f j) (\<lambda>a. Some (r @ [a]))) [] = Some r \<and> r = map g [0..n - 1]"
    by (rule for_up_inv [where I = "\<lambda>j r. r = map g [0..j - 1]"]) (use assms upto_rec2 [of 0] in auto)
  then show ?thesis by simp
qed

text \<open>The least error of the first row within \<open>i\<close> places of \<open>j\<close>.\<close>

definition window_min :: "int list \<Rightarrow> int \<Rightarrow> int \<Rightarrow> int" where
  "window_min r i j = Min ((\<lambda>k. r ! nat k) ` {max 0 (j - i)..min (int (length r) - 1) (j + i)})"

lemma window_union:
  assumes "A \<union> B = {max 0 (j - i)..min (int (length r) - 1) (j + i)}" "A \<noteq> {}" "B \<noteq> {}" "finite A" "finite B"
  shows "window_min r i j = min (Min ((\<lambda>k. r ! nat k) ` A)) (Min ((\<lambda>k. r ! nat k) ` B))"
  unfolding window_min_def assms(1) [symmetric] image_Un using assms(2-5) by (intro Min_Un) simp_all

lemma energy_cell_window:
  assumes "2 \<le> w" and "w = int (length r)" and "0 \<le> i" and "0 \<le> j" and "j < w"
  shows "energy_cell w (map (window_min r i) [0..w - 1]) j = Some (window_min r (i + 1) j)"
proof -
  note at = nth_upto_map [of _ w "window_min r i"]
  let ?W = "\<lambda>i j. {max 0 (j - i)..min (int (length r) - 1) (j + i)}"
  have two: "window_min r (i + 1) j = min (window_min r i a) (window_min r i b)"
    if "0 \<le> a" "a < w" "0 \<le> b" "b < w" "?W i a \<union> ?W i b = ?W (i + 1) j" for a b
    unfolding window_min_def [of r i] by (rule window_union) (use that assms in auto)
  consider "j = 0" | "j \<noteq> 0" "j = w - 1" | "j \<noteq> 0" "j \<noteq> w - 1" by blast
  then show ?thesis
  proof cases
    case 1
    have "window_min r (i + 1) j = min (window_min r i 0) (window_min r i 1)" by (rule two) (use 1 assms in auto)
    then show ?thesis using 1 assms at [of 0] at [of 1] by (simp add: energy_cell_def)
  next
    case 2
    have "window_min r (i + 1) j = min (window_min r i (w - 2)) (window_min r i (w - 1))" by (rule two) (use 2 assms in auto)
    then show ?thesis using 2 assms at [of "w - 2"] at [of "w - 1"] by (simp add: energy_cell_def)
  next
    case 3
    have sub: "?W i j \<union> ?W i (j + 1) = {max 0 (j - i)..min (int (length r) - 1) (j + (i + 1))}"
      using 3 assms by auto (use assms(3) in linarith)
    have "min (window_min r i j) (window_min r i (j + 1)) = Min ((\<lambda>k. r ! nat k) ` (?W i j \<union> ?W i (j + 1)))"
      unfolding window_min_def image_Un by (rule Min_Un [symmetric]) (use 3 assms in auto)
    moreover have "window_min r (i + 1) j = min (window_min r i (j - 1)) (Min ((\<lambda>k. r ! nat k) ` (?W i j \<union> ?W i (j + 1))))"
      unfolding window_min_def [of r i] sub by (rule window_union) (use 3 assms in auto)
    ultimately have "window_min r (i + 1) j = min (window_min r i (j - 1)) (min (window_min r i j) (window_min r i (j + 1)))"
      by (simp only:)
    moreover have "energy_cell w (map (window_min r i) [0..w - 1]) j =
        Some (min (window_min r i (j - 1)) (min (window_min r i j) (window_min r i (j + 1))))"
      using 3 assms(1,4,5) at [of "j - 1"] at [of j] at [of "j + 1"] by (simp add: energy_cell_def)
    ultimately show ?thesis by (simp only:)
  qed
qed

lemma window_min_0: "map (window_min r 0) [0..int (length r) - 1] = r"
  by (rule nth_equalityI) (simp_all add: window_min_def nth_upto)

lemma energy_row_window:
  "2 \<le> w \<Longrightarrow> w = int (length r) \<Longrightarrow> 0 \<le> i \<Longrightarrow>
    energy_row w (map (window_min r i) [0..w - 1]) = Some (map (window_min r (i + 1)) [0..w - 1])"
  unfolding energy_row_def by (rule for_up_collect) (use energy_cell_window in auto)

text \<open>The matrix only depends on the first row of the errors.\<close>

definition window_rows :: "int list \<Rightarrow> int \<Rightarrow> int list list" where
  "window_rows r n = map (\<lambda>i. map (window_min r i) [0..int (length r) - 1]) [0..n - 1]"

lemma energy_windows:
  assumes "1 \<le> f" and "2 \<le> length r" and "int (length r) = w"
  shows "energy f w (r # e) = Some (window_rows r f)"
proof -
  let ?rows = "\<lambda>n. window_rows r n"
  have "\<exists>E. for_up 1 f (\<lambda>i E. do { prev \<leftarrow> nth_opt E (i - 1); r \<leftarrow> energy_row w prev; Some (E @ [r]) }) [r] = Some E \<and> E = ?rows f"
  proof (rule for_up_inv [where I = "\<lambda>i E. E = ?rows i"])
    fix i E assume i: "1 \<le> i" "i < f" "E = ?rows i"
    have "nth_opt E (i - 1) = Some (map (window_min r (i - 1)) [0..w - 1])"
      using i nth_upto_map [of "i - 1" i] by (simp add: window_rows_def assms(3))
    moreover have "energy_row w (map (window_min r (i - 1)) [0..w - 1]) = Some (map (window_min r i) [0..w - 1])"
      using energy_row_window [of w r "i - 1"] assms(2) i(1) by (simp add: assms(3) [symmetric])
    moreover have "[0..i] = [0..i - 1] @ [i]" using i(1) upto_rec2 [of 0 i] by simp
    ultimately show "\<exists>E'. (do { prev \<leftarrow> nth_opt E (i - 1); r \<leftarrow> energy_row w prev; Some (E @ [r]) }) = Some E' \<and> E' = ?rows (i + 1)"
      by (simp add: i(3) window_rows_def assms(3))
  qed (use assms window_min_0 [of r] in \<open>auto simp: window_rows_def\<close>)
  then show ?thesis by (simp add: energy_def nth_opt_def)
qed

text \<open>Every row has a place for every pixel across, and the seam stays inside and moves by at most one.\<close>

lemma window_rows_at:
  "0 \<le> i \<Longrightarrow> i < n \<Longrightarrow> \<exists>row. nth_opt (window_rows r n) i = Some row \<and> length row = length r"
  by (simp add: window_rows_def nth_upto_map)

lemma min_place_inside:
  assumes "1 \<le> n" and "int (length r) = n"
  shows "\<exists>place. min_place r n = Some place \<and> 0 \<le> place \<and> place < n"
proof -
  have "\<exists>s. for_up 1 n (\<lambda>j (m, place). do { x \<leftarrow> nth_opt r j; Some (if m > x then (x, j) else (m, place)) }) (r ! 0, 0) = Some s \<and>
      0 \<le> snd s \<and> snd s < n"
    by (rule for_up_inv [where I = "\<lambda>_ s. 0 \<le> snd s \<and> snd s < n"])
      (use assms in \<open>auto simp: nth_opt_Some split: prod.splits\<close>)
  then show ?thesis using assms by (auto simp: min_place_def nth_opt_Some)
qed

lemma seam_step_inside:
  assumes "2 \<le> n" and "int (length r) = n" and "0 \<le> place" and "place < n"
  shows "\<exists>place'. seam_step n r place = Some place' \<and> 0 \<le> place' \<and> place' < n \<and> \<bar>place' - place\<bar> \<le> 1"
proof -
  consider "place = 0" | "place \<noteq> 0" "place = n - 1" | "place \<noteq> 0" "place \<noteq> n - 1" by blast
  then show ?thesis
  proof cases
    case 3
    obtain a b c where "nth_opt r (place - 1) = Some a" "nth_opt r place = Some b" "nth_opt r (place + 1) = Some c"
      using 3 assms nth_opt_Some [of "place - 1" r] nth_opt_Some [of place r] nth_opt_Some [of "place + 1" r] by simp
    then have "seam_step n r place = Some (if min a (min b c) = a then place - 1 else if min a (min b c) = c then place + 1 else place)"
      using 3 by (simp only: seam_step_def Let_def if_False Option.bind.bind_lunit)
    then show ?thesis using 3 assms(3,4) by (cases "min a (min b c) = a"; cases "min a (min b c) = c") simp_all
  next
    case 1
    have "nth_opt r 0 = Some (r ! nat 0)" "nth_opt r 1 = Some (r ! nat 1)" using assms(1,2) by (intro nth_opt_Some; linarith)+
    then show ?thesis using 1 assms(1) by (simp add: seam_step_def)
  next
    case 2
    have "nth_opt r (n - 2) = Some (r ! nat (n - 2))" "nth_opt r (n - 1) = Some (r ! nat (n - 1))"
      using assms(1,2) by (intro nth_opt_Some; linarith)+
    then show ?thesis using 2 assms(1) by (simp add: seam_step_def)
  qed
qed

text \<open>The errors: pixels by row and column, read along the array.\<close>

lemma get_linear:
  assumes "picture_ok p" and "0 \<le> i * width p + j" and "i * width p + j < height p * width p"
  shows "\<exists>x\<in>set (image p). get_pixel i j p = Some x"
  using assms by (auto simp: get_pixel_def index_of_def picture_ok_def nat_less_iff)

lemma strip_errors_rows:
  assumes "picture_ok p" and "\<forall>x\<in>set (image p). color_ok m x" and "3 * (m * m) < 2 ^ 31" and "0 \<le> f" and "0 \<le> w"
    and "0 \<le> c1" "0 \<le> c2" "f * width p + w + c1 \<le> (height p + 1) * width p" "f * width p + w + c2 \<le> (height p + 1) * width p"
  shows "\<exists>e. strip_errors p f w c1 c2 = Some e \<and> int (length e) = f \<and> (\<forall>r\<in>set e. int (length r) = w)"
proof -
  have px: "\<exists>x\<in>set (image p). get_pixel i (j + c) p = Some x"
    if "0 \<le> i" "i < f" "0 \<le> j" "j < w" "0 \<le> c" "f * width p + w + c \<le> (height p + 1) * width p" for i j c
  proof (rule get_linear [OF assms(1)])
    have w: "0 \<le> width p" using assms(1) by (simp add: picture_ok_def)
    then show "0 \<le> i * width p + (j + c)" using that by simp
    have "(i + 1) * width p \<le> f * width p" using that w by (intro mult_right_mono) auto
    then show "i * width p + (j + c) < height p * width p" using that by (simp add: distrib_right)
  qed
  have cell: "\<exists>d. (do { x \<leftarrow> get_pixel i (j + c1) p; y \<leftarrow> get_pixel i (j + c2) p; compare x y }) = Some d"
    if "0 \<le> i" "i < f" "0 \<le> j" "j < w" for i j
    using px [OF that assms(6,8)] px [OF that assms(7,9)] compare_bound [OF _ _ assms(3)] assms(2) by fastforce
  then obtain g where g: "\<And>i j. 0 \<le> i \<Longrightarrow> i < f \<Longrightarrow> 0 \<le> j \<Longrightarrow> j < w \<Longrightarrow>
      (do { x \<leftarrow> get_pixel i (j + c1) p; y \<leftarrow> get_pixel i (j + c2) p; compare x y }) = Some (g i j)" by metis
  have assoc: "(do { x \<leftarrow> get_pixel i (j + c1) p; y \<leftarrow> get_pixel i (j + c2) p; d \<leftarrow> compare x y; Some (r @ [d]) }) =
      Option.bind (do { x \<leftarrow> get_pixel i (j + c1) p; y \<leftarrow> get_pixel i (j + c2) p; compare x y }) (\<lambda>d. Some (r @ [d]))" for i j r
    by (cases "get_pixel i (j + c1) p"; cases "get_pixel i (j + c2) p") simp_all
  have row: "for_up 0 w (\<lambda>j r. do { x \<leftarrow> get_pixel i (j + c1) p; y \<leftarrow> get_pixel i (j + c2) p; d \<leftarrow> compare x y; Some (r @ [d]) }) [] =
      Some (map (g i) [0..w - 1])" if "0 \<le> i" "i < f" for i
    unfolding assoc by (rule for_up_collect) (use assms(5) g that in auto)
  have "strip_errors p f w c1 c2 = Some (map (\<lambda>i. map (g i) [0..w - 1]) [0..f - 1])"
    unfolding strip_errors_def by (rule for_up_collect) (use assms(4) row in auto)
  then show ?thesis using assms(4,5) by auto
qed

section \<open>One direction\<close>

definition same_frame :: "picture \<Rightarrow> picture \<Rightarrow> bool" where
  "same_frame p p' \<longleftrightarrow> width p' = width p \<and> height p' = height p \<and> max_color p' = max_color p"

lemma same_frame_refl [simp]: "same_frame p p"
  by (simp add: same_frame_def)

lemma same_frame_trans: "same_frame p q \<Longrightarrow> same_frame q r \<Longrightarrow> same_frame p r"
  by (simp add: same_frame_def)

text \<open>The contract of a direction: pixels by their place along it and across it.\<close>

locale axis =
  fixes rd :: reader and wr :: writer and len across :: "picture \<Rightarrow> int"
  assumes rd_inside: "picture_ok p \<Longrightarrow> 0 \<le> a \<Longrightarrow> a < len p \<Longrightarrow> 0 \<le> c \<Longrightarrow> c < across p \<Longrightarrow>
      \<exists>x\<in>set (image p). rd a c p = Some x"
    and wr_inside: "picture_ok p \<Longrightarrow> 0 \<le> a \<Longrightarrow> a < len p \<Longrightarrow> 0 \<le> c \<Longrightarrow> c < across p \<Longrightarrow>
      \<exists>p'. wr a c x p = Some p' \<and> picture_ok p' \<and> same_frame p p' \<and> set (image p') \<subseteq> insert x (set (image p)) \<and>
        (\<forall>a' c'. 0 \<le> a' \<longrightarrow> a' < len p \<longrightarrow> 0 \<le> c' \<longrightarrow> c' < across p \<longrightarrow>
           rd a' c' p' = (if a' = a \<and> c' = c then Some x else rd a' c' p))"
    and sizes: "picture_ok p \<Longrightarrow> len p + across p = width p + height p"
      "same_frame p p' \<Longrightarrow> len p' = len p" "same_frame p p' \<Longrightarrow> across p' = across p"
begin

text \<open>
  A picture in the making: it has its frame and its colours, its first \<open>L\<close> lines hold pixels that are allowed at their place
  across, and its first \<open>n\<close> lines are those of the picture the direction began with.
\<close>

definition holds_at :: "(int \<Rightarrow> pixel \<Rightarrow> bool) \<Rightarrow> picture \<Rightarrow> int \<Rightarrow> int \<Rightarrow> bool" where
  "holds_at P p a c \<longleftrightarrow> (\<exists>x. rd a c p = Some x \<and> P c x)"

definition making :: "int \<Rightarrow> (int \<Rightarrow> pixel \<Rightarrow> bool) \<Rightarrow> picture \<Rightarrow> int \<Rightarrow> int \<Rightarrow> picture \<Rightarrow> bool" where
  "making m P p0 n L p \<longleftrightarrow> picture_ok p \<and> same_frame p0 p \<and> (\<forall>x\<in>set (image p). color_ok m x) \<and>
     n \<le> L \<and> L \<le> len p0 \<and> (\<forall>a c. 0 \<le> a \<longrightarrow> a < L \<longrightarrow> 0 \<le> c \<longrightarrow> c < across p0 \<longrightarrow> holds_at P p a c) \<and>
     (\<forall>a c. 0 \<le> a \<longrightarrow> a < n \<longrightarrow> 0 \<le> c \<longrightarrow> c < across p0 \<longrightarrow> rd a c p = rd a c p0)"

lemma making_sizes: "making m P p0 n L p \<Longrightarrow> len p = len p0 \<and> across p = across p0"
  using sizes by (simp add: making_def)

text \<open>Copying one pixel from a finished line to a line after the input.\<close>

lemma copy_one:
  assumes p: "making m P p0 n L p" and "0 \<le> src" "src < L" "0 \<le> c" "c < across p0" "n \<le> dst" "0 \<le> dst" "dst < len p0"
  shows "\<exists>p'. (do { x \<leftarrow> rd src c p; wr dst c x p }) = Some p' \<and> making m P p0 n L p' \<and> holds_at P p' dst c \<and>
    (\<forall>a c'. 0 \<le> a \<longrightarrow> a < len p0 \<longrightarrow> 0 \<le> c' \<longrightarrow> c' < across p0 \<longrightarrow> holds_at P p a c' \<longrightarrow> holds_at P p' a c')"
proof -
  have sz: "len p = len p0" "across p = across p0" using making_sizes [OF p] by simp_all
  have ok: "picture_ok p" "L \<le> len p0" using p by (simp_all add: making_def)
  obtain x where x: "rd src c p = Some x" "P c x" using p assms(2-5) unfolding making_def holds_at_def by blast
  have "x \<in> set (image p)" using rd_inside [OF ok(1), of src c] x(1) assms(2-5) sz ok(2) by auto
  then have col: "color_ok m x" using p by (simp add: making_def)
  obtain p' where p': "wr dst c x p = Some p'" "picture_ok p'" "same_frame p p'" "set (image p') \<subseteq> insert x (set (image p))"
    and at: "\<And>a' c'. 0 \<le> a' \<Longrightarrow> a' < len p0 \<Longrightarrow> 0 \<le> c' \<Longrightarrow> c' < across p0 \<Longrightarrow>
      rd a' c' p' = (if a' = dst \<and> c' = c then Some x else rd a' c' p)"
    using wr_inside [OF ok(1), of dst c x] assms(4-8) sz by auto
  have holds: "holds_at P p' a c'" if "0 \<le> a" "a < len p0" "0 \<le> c'" "c' < across p0" "holds_at P p a c' \<or> a = dst \<and> c' = c" for a c'
    using that x(2) by (auto simp: holds_at_def at)
  have "same_frame p0 p'" using p p'(3) same_frame_trans unfolding making_def by blast
  moreover have "\<forall>x\<in>set (image p'). color_ok m x" using p p'(4) col by (auto simp: making_def)
  moreover have "\<forall>a c'. 0 \<le> a \<longrightarrow> a < n \<longrightarrow> 0 \<le> c' \<longrightarrow> c' < across p0 \<longrightarrow> rd a c' p' = rd a c' p0"
    using p assms(6) by (auto simp: making_def at)
  moreover have "\<forall>a c'. 0 \<le> a \<longrightarrow> a < L \<longrightarrow> 0 \<le> c' \<longrightarrow> c' < across p0 \<longrightarrow> holds_at P p' a c'"
    using p holds by (auto simp: making_def)
  ultimately have "making m P p0 n L p'" using p p'(2) by (simp add: making_def)
  then show ?thesis using x(1) p'(1) holds assms(4,5,7,8) by simp
qed

text \<open>A line copied, and then a patch: each line comes from a line before it.\<close>

lemma copy_line:
  assumes "making m P p0 n L p" and "0 \<le> src" "src < L" "n \<le> dst" "0 \<le> dst" "dst < len p0" "0 \<le> b" "b \<le> e" "e \<le> across p0"
  shows "\<exists>p'. for_up b e (\<lambda>i p. do { x \<leftarrow> rd src i p; wr dst i x p }) p = Some p' \<and> making m P p0 n L p' \<and>
    (\<forall>c. b \<le> c \<longrightarrow> c < e \<longrightarrow> holds_at P p' dst c)"
proof -
  let ?I = "\<lambda>i p. making m P p0 n L p \<and> (\<forall>c. b \<le> c \<longrightarrow> c < i \<longrightarrow> holds_at P p dst c)"
  have "\<exists>p'. for_up b e (\<lambda>i p. do { x \<leftarrow> rd src i p; wr dst i x p }) p = Some p' \<and> ?I e p'"
  proof (rule for_up_inv)
    fix i q assume i: "b \<le> i" "i < e" "?I i q"
    have "0 \<le> i" "i < across p0" using i(1,2) assms(7,9) by simp_all
    then obtain q' where q': "(do { x \<leftarrow> rd src i q; wr dst i x q }) = Some q'" "making m P p0 n L q'" "holds_at P q' dst i"
      and keep: "\<And>c. 0 \<le> c \<Longrightarrow> c < across p0 \<Longrightarrow> holds_at P q dst c \<Longrightarrow> holds_at P q' dst c"
      using copy_one [of m P p0 n L q src i dst] i(3) assms(2-6) by blast
    have "holds_at P q' dst c" if "b \<le> c" "c < i + 1" for c
      using that i q'(3) keep [of c] assms(7,9) by (cases "c = i") auto
    then show "\<exists>q'. (do { x \<leftarrow> rd src i q; wr dst i x q }) = Some q' \<and> ?I (i + 1) q'" using q'(1,2) by blast
  qed (use assms in auto)
  then show ?thesis by blast
qed

lemma making_more:
  assumes "making m P p0 n L p" and "\<forall>c. 0 \<le> c \<longrightarrow> c < across p0 \<longrightarrow> holds_at P p L c" and "L < len p0"
  shows "making m P p0 n (L + 1) p"
proof -
  have "holds_at P p a c" if "0 \<le> a" "a < L + 1" "0 \<le> c" "c < across p0" for a c
    using that assms(1,2) by (cases "a = L") (auto simp: making_def)
  then show ?thesis using assms(1,3) by (simp add: making_def)
qed

lemma copy_patch_making:
  assumes "making m P p0 n base p" and "0 \<le> off" "off < n" "0 \<le> b" "base + b \<le> len p0" "0 \<le> across p0"
  shows "\<exists>p'. copy_patch rd wr (across p0) base off b p = Some p' \<and> making m P p0 n (base + b) p'"
  unfolding copy_patch_def
proof (rule for_up_inv)
  fix j q assume j: "0 \<le> j" "j < b" "making m P p0 n (base + j) q"
  have nb: "n \<le> base" using assms(1) by (simp add: making_def)
  obtain q' where q': "for_up 0 (across p0) (\<lambda>i p. do { x \<leftarrow> rd (j + off) i p; wr (j + base) i x p }) q = Some q'"
    "making m P p0 n (base + j) q'" "\<forall>c. 0 \<le> c \<longrightarrow> c < across p0 \<longrightarrow> holds_at P q' (j + base) c"
    using copy_line [OF j(3), of "j + off" "j + base" 0 "across p0"] j(1,2) nb assms(2-6) by auto
  have "making m P p0 n (base + j + 1) q'" using making_more [OF q'(2)] q'(3) j(2) assms(5) by (simp add: add.commute)
  then show "\<exists>q'. for_up 0 (across p0) (\<lambda>i p. do { x \<leftarrow> rd (j + off) i p; wr (j + base) i x p }) q = Some q' \<and>
      making m P p0 n (base + (j + 1)) q'" using q'(1) by (simp add: add.assoc)
qed (use assms in auto)

text \<open>The strip is joined within the finished lines and changes none before the patch.\<close>

definition seam_rows :: "int \<Rightarrow> int list list \<Rightarrow> int \<Rightarrow> bool" where
  "seam_rows w E f \<longleftrightarrow> (\<forall>i. 0 \<le> i \<longrightarrow> i < f \<longrightarrow> (\<exists>r. nth_opt E i = Some r \<and> int (length r) = w))"

lemma merge_line_making:
  assumes "making m P p0 n L p" and "n \<le> base" "0 \<le> line" "line + base < L" "0 \<le> line + base - f" "line + base - f < L"
    "0 \<le> line + off + b - f" "line + off + b - f < L" "0 \<le> place" "place \<le> across p0" "0 \<le> n"
  shows "\<exists>p'. merge_line rd wr (across p0) base off b f line place p = Some p' \<and> making m P p0 n L p'"
proof -
  have len: "line + base < len p0" using assms(1,4) by (simp add: making_def)
  obtain q where "for_up 0 place (\<lambda>j p. do { x \<leftarrow> rd (line + off + b - f) j p; wr (line + base) j x p }) p = Some q"
    "making m P p0 n L q" using copy_line [OF assms(1), of "line + off + b - f" "line + base" 0 place] assms len by auto
  moreover obtain q' where "for_up place (across p0) (\<lambda>j p. do { x \<leftarrow> rd (line + base - f) j p; wr (line + base) j x p }) q = Some q'"
    "making m P p0 n L q'" using copy_line [OF calculation(2), of "line + base - f" "line + base" place "across p0"] assms len by auto
  ultimately show ?thesis by (simp add: merge_line_def)
qed

lemma merge_lines_making:
  assumes "making m P p0 n L p" and "n \<le> base" "int k + base < L" "f \<le> base" "0 \<le> f" "f \<le> b" "0 \<le> off" "int k + off + b - f < L"
    "0 \<le> place" "place < across p0" "0 \<le> n" "2 \<le> across p0" and "seam_rows (across p0) E (int k)"
  shows "\<exists>p'. merge_lines rd wr (across p0) base off b f E k place p = Some p' \<and> making m P p0 n L p'"
  using assms
proof (induction k arbitrary: place p)
  case 0
  then show ?case using merge_line_making [of m P p0 n L p base 0 f off b place] by simp
next
  case (Suc k)
  obtain q where q: "merge_line rd wr (across p0) base off b f (int (Suc k)) place p = Some q" "making m P p0 n L q"
    using merge_line_making [of m P p0 n L p base "int (Suc k)" f off b place] Suc.prems by auto
  obtain r where r: "nth_opt E (int k) = Some r" "int (length r) = across p0"
    using Suc.prems(13) [unfolded seam_rows_def, rule_format, of "int k"] by auto
  obtain place' where s: "seam_step (across p0) r place = Some place'" "0 \<le> place'" "place' < across p0"
    using seam_step_inside [OF Suc.prems(12) r(2) Suc.prems(9,10)] by blast
  have "seam_rows (across p0) E (int k)" using Suc.prems(13) by (simp add: seam_rows_def)
  then obtain p' where "merge_lines rd wr (across p0) base off b f E k place' q = Some p'" "making m P p0 n L p'"
    using Suc.IH [OF q(2) Suc.prems(2) _ Suc.prems(4-7) _ s(2,3) Suc.prems(11,12)] Suc.prems(3,8) by auto
  then show ?case using q(1) r(1) s(1) by simp
qed

text \<open>The bounds of a direction: \<open>n\<close> lines of input, patches of \<open>b\<close> lines and strips of \<open>f\<close>.\<close>

definition bounds_ok :: "int \<Rightarrow> picture \<Rightarrow> int \<Rightarrow> int \<Rightarrow> int \<Rightarrow> bool" where
  "bounds_ok m p n b f \<longleftrightarrow> 0 < f \<and> f \<le> b \<and> b + f \<le> n \<and> 2 \<le> across p \<and>
     f * width p + height p \<le> height p * width p \<and> 0 \<le> m \<and> 3 * (m * m) * (f * across p) < 2 ^ 30"

lemma color_room:
  assumes "bounds_ok m p n b f"
  shows "3 * (m * m) < 2 ^ 31"
proof -
  have "1 \<le> f * across p" using assms mult_mono [of 1 f 1 "across p"] by (simp add: bounds_ok_def)
  then have "3 * (m * m) * 1 \<le> 3 * (m * m) * (f * across p)" by (intro mult_left_mono) auto
  then show ?thesis using assms by (simp add: bounds_ok_def)
qed

lemma strip_merge_making:
  assumes p: "making m P p0 n (base + b) p" and b: "bounds_ok m p0 n b f" and "n \<le> base" "0 \<le> off" "off < n - f"
  shows "\<exists>p'. strip_merge rd wr (across p0) base (base - b) off b f p = Some p' \<and> making m P p0 n (base + b) p'"
proof -
  note b' = b [unfolded bounds_ok_def]
  have ok: "picture_ok p" "width p = width p0" "height p = height p0" "\<forall>x\<in>set (image p). color_ok m x" "base + b \<le> len p0"
    using p by (auto simp: making_def same_frame_def)
  have sum: "len p0 + across p0 = width p0 + height p0" using sizes(1) [OF ok(1)] making_sizes [OF p] ok(2,3) by simp
  have "f * width p + across p0 + c \<le> (height p + 1) * width p" if "c < len p0" for c
    using that sum ok(2,3) b' by (simp add: distrib_right)
  then obtain e where e: "strip_errors p f (across p0) (base - b) off = Some e" "int (length e) = f" "\<forall>r\<in>set e. int (length r) = across p0"
    using strip_errors_rows [OF ok(1,4) color_room [OF b], of f "across p0" "base - b" off] b' assms(3-5) ok(5) by auto
  then obtain r0 e' where e0: "e = r0 # e'" using b' by (cases e) auto
  then have r0: "int (length r0) = across p0" using e(3) by simp
  let ?E = "window_rows r0 f"
  have E: "energy f (across p0) e = Some ?E" unfolding e0 using energy_windows [of f r0] r0 b' by simp
  have rows: "\<exists>r. nth_opt ?E i = Some r \<and> int (length r) = across p0" if "0 \<le> i" "i < f" for i
    using window_rows_at [OF that, of r0] r0 by auto
  obtain r where r: "nth_opt ?E (f - 1) = Some r" "int (length r) = across p0" using rows [of "f - 1"] b' by auto
  obtain place where "min_place r (across p0) = Some place" "0 \<le> place" "place < across p0"
    using min_place_inside [OF _ r(2)] b' by auto
  moreover have "seam_rows (across p0) ?E (int (nat (f - 1)))" using rows by (simp add: seam_rows_def)
  ultimately obtain p' where "merge_lines rd wr (across p0) base off b f ?E (nat (f - 1)) place p = Some p'" "making m P p0 n (base + b) p'"
    using merge_lines_making [OF p assms(3), of "nat (f - 1)" f b off place ?E] b' assms(3-5) by auto
  then show ?thesis using e(1) E r(1) \<open>min_place r (across p0) = Some place\<close> by (simp add: strip_merge_def)
qed

text \<open>The difference of two strips is found and small.\<close>

lemma strip_dif_small:
  assumes p: "making m P p0 n L p" and b: "bounds_ok m p0 n b f" and "0 \<le> off1" "off1 + f \<le> len p0" "0 \<le> off2" "off2 + f \<le> len p0"
  shows "\<exists>d. strip_dif rd p off1 off2 f (across p0) = Some d \<and> d < 2 ^ 30"
proof -
  let ?B = "3 * (m * m)"
  note b' = b [unfolded bounds_ok_def]
  have ok: "picture_ok p" "\<forall>x\<in>set (image p). color_ok m x" "len p = len p0" "across p = across p0"
    using p making_sizes [OF p] by (auto simp: making_def)
  have B: "0 \<le> ?B" by simp
  have top: "i * (f * ?B) + (j + 1) * ?B < 2 ^ 30" if "0 \<le> i" "i < across p0" "0 \<le> j" "j < f" for i j
  proof -
    have "(j + 1) * ?B \<le> f * ?B" using that B by (intro mult_right_mono) auto
    moreover have "(i + 1) * (f * ?B) \<le> across p0 * (f * ?B)" using that B b' by (intro mult_right_mono) auto
    moreover have "across p0 * (f * ?B) = ?B * (f * across p0)" by (simp add: ac_simps)
    ultimately show ?thesis using b' by (simp add: distrib_right)
  qed
  let ?turn = "\<lambda>i j diff. do { x \<leftarrow> rd (off1 + j) i p; y \<leftarrow> rd (off2 + j) i p; d \<leftarrow> compare x y; in_int (diff + d) }"
  have turn: "\<exists>d'. ?turn i j d = Some d' \<and> 0 \<le> d' \<and> d' \<le> i * (f * ?B) + (j + 1) * ?B"
    if ij: "0 \<le> i" "i < across p0" "0 \<le> j" "j < f" "0 \<le> d" "d \<le> i * (f * ?B) + j * ?B" for i j d
  proof -
    obtain x y where x: "rd (off1 + j) i p = Some x" "color_ok m x" and y: "rd (off2 + j) i p = Some y" "color_ok m y"
      using rd_inside [OF ok(1), of "off1 + j" i] rd_inside [OF ok(1), of "off2 + j" i] ij ok(2-4) assms(3-6) by auto
    obtain c where c: "compare x y = Some c" "0 \<le> c" "c \<le> ?B" using compare_bound [OF x(2) y(2) color_room [OF b]] by blast
    have up: "d + c \<le> i * (f * ?B) + (j + 1) * ?B" using ij(6) c(3) by (simp add: distrib_right)
    have "int32 (d + c)" using up order.strict_trans1 [OF up top [OF ij(1-4)]] ij(5) c(2) by (simp add: int32_def)
    then show ?thesis using x(1) y(1) c(1,2) up ij(5) by (simp add: in_int_def)
  qed
  have line: "\<exists>d'. for_up 0 f (?turn i) d = Some d' \<and> 0 \<le> d' \<and> d' \<le> (i + 1) * (f * ?B)"
    if "0 \<le> i" "i < across p0" "0 \<le> d" "d \<le> i * (f * ?B)" for i d
  proof -
    have "\<exists>d'. for_up 0 f (?turn i) d = Some d' \<and> 0 \<le> d' \<and> d' \<le> i * (f * ?B) + f * ?B"
      by (rule for_up_inv [where I = "\<lambda>j d. 0 \<le> d \<and> d \<le> i * (f * ?B) + j * ?B"]) (use that turn b' in auto)
    then show ?thesis by (simp only: distrib_right mult_1)
  qed
  have "\<exists>d. strip_dif rd p off1 off2 f (across p0) = Some d \<and> 0 \<le> d \<and> d \<le> across p0 * (f * ?B)"
    unfolding strip_dif_def
    by (rule for_up_inv [where I = "\<lambda>i d. 0 \<le> d \<and> d \<le> i * (f * ?B)"]) (use line b' in auto)
  moreover have "across p0 * (f * ?B) = ?B * (f * across p0)" by (simp add: ac_simps)
  ultimately show ?thesis using b' by (metis le_less_trans)
qed

text \<open>All patches of a direction.\<close>

lemma patches_making:
  assumes "making m P p0 n n p" and b: "bounds_ok m p0 n b f" and "n + np * b \<le> len p0" "0 < nc" "0 \<le> np"
    and dif: "\<And>i off L q. 0 \<le> i \<Longrightarrow> i < np \<Longrightarrow> making m P p0 n L q \<Longrightarrow> 0 \<le> off \<Longrightarrow> off < n - f \<Longrightarrow> \<exists>d. dif i q off = Some d \<and> d < 2 ^ 30"
  shows "\<exists>q off' k'. for_up 0 np (\<lambda>i (p, off, k). do {
      (d, off, k) \<leftarrow> candidates rnd nc (n - f) (dif i p) off k;
      p \<leftarrow> copy_patch rd wr (across p0) (n + i * b) off b p;
      p \<leftarrow> strip_merge rd wr (across p0) (n + i * b) (n + i * b - b) off b f p;
      Some (p, off, k) }) (p, off, k) = Some (q, off', k') \<and> making m P p0 n (n + np * b) q"
proof -
  note b' = b [unfolded bounds_ok_def]
  have "\<exists>s. for_up 0 np (\<lambda>i (p, off, k). do {
      (d, off, k) \<leftarrow> candidates rnd nc (n - f) (dif i p) off k;
      p \<leftarrow> copy_patch rd wr (across p0) (n + i * b) off b p;
      p \<leftarrow> strip_merge rd wr (across p0) (n + i * b) (n + i * b - b) off b f p;
      Some (p, off, k) }) (p, off, k) = Some s \<and> making m P p0 n (n + np * b) (fst s)"
  proof (rule for_up_inv [where I = "\<lambda>i s. making m P p0 n (n + i * b) (fst s)"])
    fix i and s :: "picture \<times> int \<times> nat" assume i: "0 \<le> i" "i < np" "making m P p0 n (n + i * b) (fst s)"
    obtain q off k where s: "s = (q, off, k)" by (cases s)
    have q: "making m P p0 n (n + i * b) q" using i(3) by (simp add: s)
    have "(i + 1) * b \<le> np * b" using i b' by (intro mult_right_mono) auto
    then have room: "n + i * b + b \<le> len p0" using assms(3) by (simp add: distrib_right)
    have base: "n \<le> n + i * b" using i(1) b' by simp
    have "0 < n - f" using b' by simp
    then obtain d off' k' where c: "candidates rnd nc (n - f) (dif i q) off k = Some (d, off', k')" "0 \<le> off'" "off' < n - f"
      using candidates_choose [of "n - f" nc "dif i q" rnd off k] dif [OF i(1,2) q] assms(4) offset_bounds [of "n - f" rnd] by metis
    obtain q1 where q1: "copy_patch rd wr (across p0) (n + i * b) off' b q = Some q1" "making m P p0 n (n + i * b + b) q1"
      using copy_patch_making [OF q, of off' b] c(2,3) room b' by auto
    obtain q2 where q2: "strip_merge rd wr (across p0) (n + i * b) (n + i * b - b) off' b f q1 = Some q2"
        "making m P p0 n (n + i * b + b) q2"
      using strip_merge_making [OF q1(2) b base c(2,3)] by blast
    have "n + (i + 1) * b = n + i * b + b" by (simp add: distrib_right)
    then show "\<exists>s'. (case s of (p, off, k) \<Rightarrow> do {
        (d, off, k) \<leftarrow> candidates rnd nc (n - f) (dif i p) off k;
        p \<leftarrow> copy_patch rd wr (across p0) (n + i * b) off b p;
        p \<leftarrow> strip_merge rd wr (across p0) (n + i * b) (n + i * b - b) off b f p;
        Some (p, off, k) }) = Some s' \<and> making m P p0 n (n + (i + 1) * b) (fst s')"
      using c(1) q1(1) q2 by (simp add: s add.assoc)
  qed (use assms in auto)
  then show ?thesis by auto
qed

end

section \<open>The two directions\<close>

lemma get_column_inside: "picture_ok p \<Longrightarrow> inside row col p \<Longrightarrow> \<exists>x\<in>set (image p). get_column col row p = Some x"
  by (simp add: get_column_def get_inside)

interpretation rows: axis get_pixel set_pixel height width
proof
  fix p a c assume p: "picture_ok p" "0 \<le> a" "a < height p" "0 \<le> c" "c < width p"
  then have i: "inside a c p" by (simp add: inside_def)
  show "\<exists>x\<in>set (image p). get_pixel a c p = Some x" using get_inside p(1) i by blast
  show "\<exists>p'. set_pixel a c x p = Some p' \<and> picture_ok p' \<and> same_frame p p' \<and> set (image p') \<subseteq> insert x (set (image p)) \<and>
      (\<forall>a' c'. 0 \<le> a' \<longrightarrow> a' < height p \<longrightarrow> 0 \<le> c' \<longrightarrow> c' < width p \<longrightarrow>
        get_pixel a' c' p' = (if a' = a \<and> c' = c then Some x else get_pixel a' c' p))" for x
    using set_inside [OF p(1) i, of x] by (fastforce simp: same_frame_def inside_def)
qed (simp_all add: same_frame_def)

interpretation columns: axis get_column set_column width height
proof
  fix p a c assume p: "picture_ok p" "0 \<le> a" "a < width p" "0 \<le> c" "c < height p"
  then have i: "inside c a p" by (simp add: inside_def)
  show "\<exists>x\<in>set (image p). get_column a c p = Some x" using get_column_inside p(1) i by blast
  show "\<exists>p'. set_column a c x p = Some p' \<and> picture_ok p' \<and> same_frame p p' \<and> set (image p') \<subseteq> insert x (set (image p)) \<and>
      (\<forall>a' c'. 0 \<le> a' \<longrightarrow> a' < width p \<longrightarrow> 0 \<le> c' \<longrightarrow> c' < height p \<longrightarrow>
        get_column a' c' p' = (if a' = a \<and> c' = c then Some x else get_column a' c' p))" for x
    using set_inside [OF p(1) i, of x] by (fastforce simp: same_frame_def inside_def get_column_def set_column_def)
qed (simp_all add: same_frame_def)

lemma quilt_vertical_making:
  assumes p: "rows.making m P p0 n n p" and b: "rows.bounds_ok m p0 n b f" and "n + np * b \<le> height p0" "0 < nc" "0 \<le> np"
  shows "\<exists>q k'. quilt_vertical rnd b f np nc n (p, k) = Some (q, k') \<and> rows.making m P p0 n (n + np * b) q"
proof -
  have w: "width p = width p0" using p by (simp add: rows.making_def same_frame_def)
  note b' = b [unfolded rows.bounds_ok_def]
  have dif: "\<exists>d. vertical_dif q off (n + (i - 1) * b) f b (width p0) = Some d \<and> d < 2 ^ 30"
    if "0 \<le> i" "i < np" "rows.making m P p0 n L q" "0 \<le> off" "off < n - f" for i off L q
  proof -
    have "0 \<le> i * b" "i * b \<le> np * b" "(i - 1) * b = i * b - b" "0 < f" "f \<le> b" "b + f \<le> n"
      using that b' by (auto intro: mult_right_mono simp: left_diff_distrib)
    then show ?thesis unfolding vertical_dif_def using that(4,5) assms(3)
      by (intro rows.strip_dif_small [OF that(3) b]; linarith)
  qed
  obtain q off' k' where "for_up 0 np (\<lambda>i (p, off, k). do {
      (d, off, k) \<leftarrow> candidates rnd nc (n - f) (\<lambda>off. vertical_dif p off (n + (i - 1) * b) f b (width p0)) off k;
      p \<leftarrow> copy_patch get_pixel set_pixel (width p0) (n + i * b) off b p;
      p \<leftarrow> strip_merge get_pixel set_pixel (width p0) (n + i * b) (n + i * b - b) off b f p;
      Some (p, off, k) }) (p, - 1, k) = Some (q, off', k')" "rows.making m P p0 n (n + np * b) q"
    using rows.patches_making [OF p b assms(3-5), of "\<lambda>i q off. vertical_dif q off (n + (i - 1) * b) f b (width p0)" rnd "- 1" k]
      dif by blast
  then show ?thesis by (simp add: quilt_vertical_def vertical_netezire_def vertical_merge_def w)
qed

lemma quilt_orizontal_making:
  assumes p: "columns.making m P p0 n n p" and b: "columns.bounds_ok m p0 n b f" and "n + np * b \<le> width p0" "0 < nc" "0 \<le> np"
  shows "\<exists>q k'. quilt_orizontal rnd b f np nc n (p, k) = Some (q, k') \<and> columns.making m P p0 n (n + np * b) q"
proof -
  have h: "height p = height p0" using p by (simp add: columns.making_def same_frame_def)
  note b' = b [unfolded columns.bounds_ok_def]
  have dif: "\<exists>d. orizontal_dif q off (n + (i - 1) * b) f b (height p0) = Some d \<and> d < 2 ^ 30"
    if "0 \<le> i" "i < np" "columns.making m P p0 n L q" "0 \<le> off" "off < n - f" for i off L q
  proof -
    have "0 \<le> i * b" "i * b \<le> np * b" "(i - 1) * b = i * b - b" "0 < f" "f \<le> b" "b + f \<le> n"
      using that b' by (auto intro: mult_right_mono simp: left_diff_distrib)
    moreover have "1 * b \<le> np * b" using that b' by (intro mult_right_mono) auto
    ultimately show ?thesis unfolding orizontal_dif_def using that(4,5) assms(3)
      by (intro columns.strip_dif_small [OF that(3) b]; linarith)
  qed
  obtain q off' k' where "for_up 0 np (\<lambda>i (p, off, k). do {
      (d, off, k) \<leftarrow> candidates rnd nc (n - f) (\<lambda>off. orizontal_dif p off (n + (i - 1) * b) f b (height p0)) off k;
      p \<leftarrow> copy_patch get_column set_column (height p0) (n + i * b) off b p;
      p \<leftarrow> strip_merge get_column set_column (height p0) (n + i * b) (n + i * b - b) off b f p;
      Some (p, off, k) }) (p, - 1, k) = Some (q, off', k')" "columns.making m P p0 n (n + np * b) q"
    using columns.patches_making [OF p b assms(3-5), of "\<lambda>i q off. orizontal_dif q off (n + (i - 1) * b) f b (height p0)" rnd "- 1" k]
      dif by blast
  then show ?thesis by (simp add: quilt_orizontal_def orizontal_netezire_def orizontal_merge_def h)
qed

section \<open>The program\<close>

text \<open>Copying the input into the new picture.\<close>

lemma copy_input_places:
  assumes "picture_ok pin" and p: "picture_ok p0" "\<forall>x\<in>set (image p0). x = black"
    and sz: "height pin \<le> height p0" "width pin \<le> width p0"
  shows "\<exists>p. copy_input pin (height pin) (width pin) p0 = Some p \<and> picture_ok p \<and> same_frame p0 p \<and>
    (\<forall>r c. inside r c p0 \<longrightarrow> get_pixel r c p = (if inside r c pin then get_pixel r c pin else Some black))"
proof -
  let ?h = "height pin" and ?w = "width pin"
  let ?I = "\<lambda>i j p. picture_ok p \<and> same_frame p0 p \<and> (\<forall>r c. inside r c p0 \<longrightarrow>
    get_pixel r c p = (if inside r c pin \<and> (r < i \<or> r = i \<and> c < j) then get_pixel r c pin else Some black))"
  have start: "get_pixel r c p0 = Some black" if "inside r c p0" for r c using get_inside [OF p(1) that] p(2) by auto
  have cell: "\<exists>p'. (do { x \<leftarrow> get_pixel i j pin; set_pixel i j x p }) = Some p' \<and> ?I i (j + 1) p'"
    if "0 \<le> i" "i < ?h" "0 \<le> j" "j < ?w" and I: "?I i j p" for i j p
  proof -
    have ins: "inside i j pin" "inside i j p" "\<And>r c. inside r c p = inside r c p0"
      using that sz by (auto simp: inside_def same_frame_def)
    obtain x where x: "get_pixel i j pin = Some x" using get_inside [OF assms(1) ins(1)] by blast
    obtain p' where p': "set_pixel i j x p = Some p'" "picture_ok p'" "width p' = width p" "height p' = height p" "max_color p' = max_color p"
      "\<And>r c. inside r c p0 \<Longrightarrow> get_pixel r c p' = (if r = i \<and> c = j then Some x else get_pixel r c p)"
      using set_inside [of p i j x] I ins by auto
    have "get_pixel r c p' = (if inside r c pin \<and> (r < i \<or> r = i \<and> c < j + 1) then get_pixel r c pin else Some black)"
      if "inside r c p0" for r c
      using that I p'(6) [OF that] x ins(1) by (cases "r = i \<and> c = j") auto
    then show ?thesis using x p'(1-5) I by (auto simp: same_frame_def)
  qed
  have line: "\<exists>p'. for_up 0 ?w (\<lambda>j p. do { x \<leftarrow> get_pixel i j pin; set_pixel i j x p }) p = Some p' \<and> ?I (i + 1) 0 p'"
    if "0 \<le> i" "i < ?h" "?I i 0 p" for i p
  proof -
    have "\<exists>p'. for_up 0 ?w (\<lambda>j p. do { x \<leftarrow> get_pixel i j pin; set_pixel i j x p }) p = Some p' \<and> ?I i ?w p'"
      by (rule for_up_inv [where I = "?I i"]) (use that cell assms(1) in \<open>auto simp: picture_ok_def\<close>)
    moreover have "?I i ?w p' \<Longrightarrow> ?I (i + 1) 0 p'" for p' by (auto simp: inside_def)
    ultimately show ?thesis by blast
  qed
  have "\<exists>p. copy_input pin ?h ?w p0 = Some p \<and> ?I ?h 0 p"
    unfolding copy_input_def
    by (rule for_up_inv [where I = "\<lambda>i. ?I i 0"]) (use line p(1) start assms(1) in \<open>auto simp: picture_ok_def inside_def\<close>)
  then show ?thesis by (auto simp: inside_def)
qed

text \<open>When the sizes fit: patches and strips within the input, and no difference too big for the search.\<close>

definition direction_fits :: "int \<Rightarrow> int \<Rightarrow> int \<Rightarrow> int \<Rightarrow> int \<Rightarrow> int \<Rightarrow> bool" where
  "direction_fits m n b f w h \<longleftrightarrow> 0 < f \<and> f \<le> b \<and> b + f \<le> n \<and> 2 \<le> w \<and> 2 \<le> h \<and> f * w + h \<le> h * w \<and> 0 \<le> m \<and>
     3 * (m * m) * (f * w) < 2 ^ 30 \<and> 3 * (m * m) * (f * h) < 2 ^ 30"

definition quilt_fits :: "picture \<Rightarrow> int \<Rightarrow> int \<Rightarrow> parameters \<Rightarrow> bool" where
  "quilt_fits pin nh nw c \<longleftrightarrow> picture_ok pin \<and> (\<forall>x\<in>set (image pin). color_ok (max_color pin) x) \<and>
     in_height c = height pin \<and> in_width c = width pin \<and> 0 \<le> nh \<and> 0 \<le> nw \<and>
     (let h = height pin + nh * dim_bucata_height c; w = width pin + nw * dim_bucata_width c in
       direction_fits (max_color pin) (height pin) (dim_bucata_height c) (dim_fasie_height c) w h \<and>
       direction_fits (max_color pin) (width pin) (dim_bucata_width c) (dim_fasie_width c) w h)"

lemma image_inside:
  assumes "picture_ok p" and "x \<in> set (image p)"
  obtains r c where "inside r c p" "get_pixel r c p = Some x"
proof -
  obtain k where k: "k < length (image p)" "image p ! k = x" using assms(2) by (auto simp: in_set_conv_nth)
  have len: "int k < height p * width p" "0 \<le> width p" "0 \<le> height p" using assms(1) k(1) by (auto simp: picture_ok_def)
  then have w: "0 < width p" by (cases "width p = 0") auto
  let ?r = "int k div width p" and ?c = "int k mod width p"
  have "?r < height p"
  proof (rule ccontr)
    assume "\<not> ?r < height p"
    then have "height p * width p \<le> ?r * width p" using len(2) by (intro mult_right_mono) auto
    moreover have "?r * width p + int k mod width p = int k" by simp
    ultimately show False using len(1) pos_mod_sign [OF w, of "int k"] by linarith
  qed
  then have i: "inside ?r ?c p" using w by (simp add: inside_def pos_imp_zdiv_nonneg_iff)
  have "?r * width p + ?c = int k" by simp
  then have "get_pixel ?r ?c p = Some x" using get_pixel_inside [OF assms(1) i] k(2) by simp
  then show thesis using that i by blast
qed

lemma quilt_fitsD:
  assumes "quilt_fits pin nh nw c"
  shows "picture_ok pin" "\<forall>x\<in>set (image pin). color_ok (max_color pin) x" "in_height c = height pin" "in_width c = width pin"
    "0 \<le> nh" "0 \<le> nw" "0 \<le> height pin" "0 \<le> width pin" "0 \<le> max_color pin"
    "0 \<le> nh * dim_bucata_height c" "0 \<le> nw * dim_bucata_width c"
    "direction_fits (max_color pin) (height pin) (dim_bucata_height c) (dim_fasie_height c)
      (width pin + nw * dim_bucata_width c) (height pin + nh * dim_bucata_height c)"
    "direction_fits (max_color pin) (width pin) (dim_bucata_width c) (dim_fasie_width c)
      (width pin + nw * dim_bucata_width c) (height pin + nh * dim_bucata_height c)"
  using assms by (auto simp: quilt_fits_def Let_def direction_fits_def)

text \<open>The pixels allowed in a column while rows are added: those of the input, and anything right of it.\<close>

definition left_from :: "picture \<Rightarrow> int \<Rightarrow> pixel \<Rightarrow> bool" where
  "left_from pin c x \<longleftrightarrow> (c < width pin \<longrightarrow> x \<in> set (image pin))"

lemma copied_making:
  assumes "quilt_fits pin nh nw c" and new: "new_picture (height pin + nh * dim_bucata_height c)
      (width pin + nw * dim_bucata_width c) (max_color pin) = Some pout"
  obtains p1 where "copy_input pin (height pin) (width pin) pout = Some p1" "same_frame pout p1"
    "width p1 = width pin + nw * dim_bucata_width c" "height p1 = height pin + nh * dim_bucata_height c"
    "rows.making (max_color pin) (left_from pin) p1 (height pin) (height pin) p1"
    "\<And>row col. inside row col pin \<Longrightarrow> get_pixel row col p1 = get_pixel row col pin"
proof -
  let ?m = "max_color pin" and ?h = "height pin" and ?w = "width pin"
  note F = quilt_fitsD [OF assms(1)]
  have pout: "picture_ok pout" "width pout = ?w + nw * dim_bucata_width c" "height pout = ?h + nh * dim_bucata_height c"
    "\<forall>x\<in>set (image pout). x = black"
    using new new_picture_ok [of "?h + nh * dim_bucata_height c" "?w + nw * dim_bucata_width c" ?m] F(7-11) by auto
  obtain p1 where p1: "copy_input pin ?h ?w pout = Some p1" "picture_ok p1" "same_frame pout p1"
    and at: "\<And>r c. inside r c pout \<Longrightarrow> get_pixel r c p1 = (if inside r c pin then get_pixel r c pin else Some black)"
    using copy_input_places [OF F(1) pout(1,4)] pout(2,3) F(10,11) by auto
  have ins: "inside r c p1 = inside r c pout" "inside r c pin \<Longrightarrow> inside r c pout" for r c
    using p1(3) pout(2,3) F(10,11) by (auto simp: inside_def same_frame_def)
  have "color_ok ?m x" if x: "x \<in> set (image p1)" for x
  proof -
    obtain r c where "inside r c p1" "get_pixel r c p1 = Some x" using image_inside [OF p1(2) x] by blast
    then show ?thesis using at [of r c] ins get_inside [OF F(1), of r c] F(2,9)
      by (auto simp: color_ok_def black_def split: if_splits)
  qed
  moreover have "rows.holds_at (left_from pin) p1 a c" if "0 \<le> a" "a < ?h" "0 \<le> c" "c < width p1" for a c
    using at [of a c] that p1(3) pout F(10) get_inside [OF F(1), of a c]
    by (auto simp: rows.holds_at_def inside_def left_from_def same_frame_def split: if_splits)
  ultimately have "rows.making ?m (left_from pin) p1 ?h ?h p1"
    using p1(2,3) pout(3) F(10) by (simp add: rows.making_def same_frame_def)
  then show thesis using that p1(1,3) pout(2,3) at ins(2) by (simp add: same_frame_def)
qed

lemma quilt_makes:
  assumes fits: "quilt_fits pin nh nw c" and new: "new_picture (height pin + nh * dim_bucata_height c)
      (width pin + nw * dim_bucata_width c) (max_color pin) = Some pout" and nc: "1 \<le> nc" "nc \<le> 10 ^ 7"
  shows "\<exists>p. quilt rnd nh nw nc pin pout c = Some p \<and> picture_ok p \<and> same_frame pout p \<and>
    (\<forall>row col. inside row col pin \<longrightarrow> get_pixel row col p = get_pixel row col pin) \<and> set (image p) \<subseteq> set (image pin)"
proof -
  let ?m = "max_color pin" and ?h = "height pin" and ?w = "width pin" and ?Q = "\<lambda>_ x. x \<in> set (image pin)"
  note F = quilt_fitsD [OF fits]
  obtain p1 where p1: "copy_input pin ?h ?w pout = Some p1" "same_frame pout p1"
    "width p1 = ?w + nw * dim_bucata_width c" "height p1 = ?h + nh * dim_bucata_height c"
    "rows.making ?m (left_from pin) p1 ?h ?h p1"
    and at: "\<And>row col. inside row col pin \<Longrightarrow> get_pixel row col p1 = get_pixel row col pin"
    using copied_making [OF fits new] by blast
  have "rows.bounds_ok ?m p1 ?h (dim_bucata_height c) (dim_fasie_height c)"
    using F(12) p1(3,4) by (simp add: rows.bounds_ok_def direction_fits_def)
  then obtain p2 k2 where p2: "quilt_vertical rnd (dim_bucata_height c) (dim_fasie_height c) nh (nc * 50) ?h (p1, 0) = Some (p2, k2)"
    "rows.making ?m (left_from pin) p1 ?h (height p1) p2"
    using quilt_vertical_making [OF p1(5), of "dim_bucata_height c" "dim_fasie_height c" nh "nc * 50" rnd 0] p1(4) nc(1) F(5) by auto
  have sz2: "width p2 = width p1" "height p2 = height p1" "same_frame p1 p2" "picture_ok p2" "\<forall>x\<in>set (image p2). color_ok ?m x"
    using p2(2) by (simp_all add: rows.making_def same_frame_def)
  have "columns.holds_at ?Q p2 a c" if "0 \<le> a" "a < ?w" "0 \<le> c" "c < height p1" for a c
    using p2(2) that p1(3) F(11) by (fastforce simp: rows.making_def rows.holds_at_def columns.holds_at_def get_column_def left_from_def)
  then have m2: "columns.making ?m ?Q p2 ?w ?w p2" using sz2 p1(3) F(11) by (simp add: columns.making_def)
  have "columns.bounds_ok ?m p2 ?w (dim_bucata_width c) (dim_fasie_width c)"
    using F(13) sz2 p1(3,4) by (simp add: columns.bounds_ok_def direction_fits_def)
  then obtain p3 k3 where p3: "quilt_orizontal rnd (dim_bucata_width c) (dim_fasie_width c) nw (nc * 50) ?w (p2, k2) = Some (p3, k3)"
    "columns.making ?m ?Q p2 ?w (width p1) p3"
    using quilt_orizontal_making [OF m2, of "dim_bucata_width c" "dim_fasie_width c" nw "nc * 50" rnd k2] sz2(1) p1(3) nc(1) F(6) by auto
  have ok3: "picture_ok p3" "same_frame p2 p3" using p3(2) by (auto simp: columns.making_def)
  have "get_pixel row col p3 = get_pixel row col pin" if "inside row col pin" for row col
  proof -
    have i: "0 \<le> row" "row < ?h" "0 \<le> col" "col < ?w" using that by (simp_all add: inside_def)
    have "get_pixel row col p3 = get_pixel row col p2"
      using p3(2) i sz2(2) p1(4) F(10) by (simp add: columns.making_def get_column_def)
    also have "\<dots> = get_pixel row col p1" using p2(2) i p1(3) F(11) by (simp add: rows.making_def)
    finally show ?thesis using at [OF that] by simp
  qed
  moreover have "x \<in> set (image pin)" if x: "x \<in> set (image p3)" for x
  proof -
    obtain r c where rc: "inside r c p3" "get_pixel r c p3 = Some x" using image_inside [OF ok3(1) x] by blast
    then have "columns.holds_at ?Q p3 c r" using p3(2) sz2(1,2) ok3(2) by (simp add: columns.making_def inside_def same_frame_def)
    then show ?thesis using rc(2) by (simp add: columns.holds_at_def get_column_def)
  qed
  moreover have "in_int (nc * 50) = Some (nc * 50)" using nc by (simp add: in_int_def int32_def)
  ultimately show ?thesis using p1(1) p2(1) p3(1) ok3 F(3,4) same_frame_trans [OF p1(2) same_frame_trans [OF sz2(3) ok3(2)]]
    by (auto simp: quilt_def)
qed

section \<open>The filter\<close>

lemma sum_opt_small:
  assumes "\<forall>x\<in>set xs. 0 \<le> x \<and> x \<le> m" and "0 \<le> s" and "s + int (length xs) * m < 2 ^ 31"
  shows "\<exists>t. fold_opt (\<lambda>x s. in_int (s + x)) xs s = Some t \<and> s \<le> t \<and> t \<le> s + int (length xs) * m"
  using assms
proof (induction xs arbitrary: s)
  case (Cons x xs)
  have x: "0 \<le> x" "x \<le> m" using Cons.prems(1) by auto
  have l: "0 \<le> int (length xs) * m" "int (length (x # xs)) * m = m + int (length xs) * m" using x by (simp_all add: distrib_right)
  have "s + x < 2 ^ 31" using l Cons.prems(3) x by linarith
  then have i: "int32 (s + x)" using Cons.prems(2) x by (simp add: int32_def)
  have up: "s + x + int (length xs) * m \<le> s + int (length (x # xs)) * m" using x by (simp add: distrib_right)
  then obtain t where "fold_opt (\<lambda>x s. in_int (s + x)) xs (s + x) = Some t" "s + x \<le> t" "t \<le> s + x + int (length xs) * m"
    using Cons.IH [of "s + x"] Cons.prems x by auto
  then show ?case using i x(1) up by (auto simp: in_int_def)
qed simp

text \<open>A weighted mean stays within the colours.\<close>

lemma filter_color_range:
  assumes "length ps = 9" and "\<forall>p\<in>set ps. 0 \<le> color p \<and> color p \<le> m" and "12 * m < 2 ^ 31" and "0 \<le> m"
  shows "\<exists>v. filter_color color ps = Some v \<and> v \<in> {0..m}"
proof -
  obtain s where s: "sum_opt (map color ps) = Some s" "0 \<le> s" "s \<le> 9 * m"
    using sum_opt_small [of "map color ps" m 0] assms by (auto simp: sum_opt_def)
  have c: "0 \<le> color (ps ! 5)" "color (ps ! 5) \<le> m" using assms(1,2) by simp_all
  let ?u = "s + 3 * color (ps ! 5)"
  have i: "int32 (3 * color (ps ! 5))" "int32 ?u" using s c assms(3) by (simp_all add: int32_def)
  have u: "0 \<le> ?u" "?u \<le> 12 * m" using s c by simp_all
  then have d: "?u sdiv 12 = ?u div 12" by (simp add: signed_divide_int_def sgn_if)
  have v: "0 \<le> ?u div 12" "?u div 12 \<le> m" using u by (simp_all add: pos_imp_zdiv_nonneg_iff)
  then have "int32 (?u div 12)" using assms(3) by (simp add: int32_def)
  then show ?thesis using s(1) i v d by (simp add: filter_color_def c_div_def in_int_def)
qed

lemma apply_filter_range:
  assumes "length ps = 9" and "\<forall>p\<in>set ps. color_ok m p" and "12 * m < 2 ^ 31" and "0 \<le> m"
  shows "\<exists>x. apply_filter ps = Some x \<and> color_ok m x"
proof -
  have *: "\<exists>v. filter_color color ps = Some v \<and> v \<in> {0..m}" if "color \<in> {red, green, blue}" for color
    using that assms by (intro filter_color_range) (auto simp: color_ok_def)
  obtain r g b where "filter_color red ps = Some r" "filter_color green ps = Some g" "filter_color blue ps = Some b"
    "r \<in> {0..m}" "g \<in> {0..m}" "b \<in> {0..m}" using *[of red] *[of green] *[of blue] by auto
  then show ?thesis by (simp add: apply_filter_def color_ok_def)
qed

definition colored :: "int \<Rightarrow> picture \<Rightarrow> picture \<Rightarrow> bool" where
  "colored m p0 p \<longleftrightarrow> picture_ok p \<and> same_frame p0 p \<and> (\<forall>x\<in>set (image p). color_ok m x)"

lemma filter_at_colored:
  assumes "colored m p0 p" and "3 \<le> i" "i < height p0 - 3" "3 \<le> j" "j < width p0 - 3" and "12 * m < 2 ^ 31" "0 \<le> m"
  shows "\<exists>p'. filter_at i j p = Some p' \<and> colored m p0 p'"
proof -
  have ok: "picture_ok p" and col: "\<forall>x\<in>set (image p). color_ok m x" using assms(1) by (simp_all add: colored_def)
  have ins: "inside (i - ii - 1) (j - jj - 1) p" if "0 \<le> ii" "ii \<le> 2" "0 \<le> jj" "jj \<le> 2" for ii jj
    using that assms(1-5) by (simp add: colored_def same_frame_def inside_def)
  let ?at = "\<lambda>(ii, jj). get_pixel (i - ii - 1) (j - jj - 1) p"
  have "\<exists>x. ?at q = Some x \<and> x \<in> set (image p)" if "q \<in> set (List.product [0..2] [0..2])" for q
    using that get_inside [OF ok ins [of "fst q" "snd q"]] by (auto simp del: upto.simps)
  then obtain g where g: "\<And>q. q \<in> set (List.product [0..2] [0..2]) \<Longrightarrow> ?at q = Some (g q) \<and> g q \<in> set (image p)" by metis
  have those: "those (map ?at qs) = Some (map g qs)" if "set qs \<subseteq> set (List.product [0..2] [0..2])" for qs
    using that g by (induction qs) auto
  let ?ps = "map g (List.product [0..2] [0..2])"
  have "\<forall>x\<in>set ?ps. color_ok m x" using g col by auto
  moreover have "length ?ps = 9" by (simp add: length_product)
  ultimately obtain x where x: "apply_filter ?ps = Some x" "color_ok m x" using apply_filter_range assms(6,7) by blast
  obtain p' where "set_pixel (i - 1 - 1) (j - 2 - 1) x p = Some p'" "picture_ok p'" "same_frame p p'" "set (image p') \<subseteq> insert x (set (image p))"
    using set_inside [OF ok ins [of 1 2], of x] by (auto simp: same_frame_def)
  moreover have "those (map ?at (List.product [0..2] [0..2])) = Some ?ps" by (rule those) simp
  ultimately show ?thesis using x assms(1) col by (auto simp: filter_at_def colored_def intro: same_frame_trans)
qed

lemma filter_image_colored:
  assumes "colored m p p" and "12 * m < 2 ^ 31" "0 \<le> m"
  shows "\<exists>p'. filter_image p = Some p' \<and> colored m p p'"
proof -
  have line: "\<exists>q'. for_up 3 (width p - 3) (filter_at i) q = Some q' \<and> colored m p q'"
    if "3 \<le> i" "i < height p - 3" "colored m p q" for i q
  proof (cases "3 \<le> width p - 3")
    case True
    show ?thesis by (rule for_up_inv [where I = "\<lambda>_. colored m p"]) (use True that filter_at_colored assms(2,3) in auto)
  qed (use that in simp)
  show ?thesis
  proof (cases "3 \<le> height p - 3")
    case True
    show ?thesis unfolding filter_image_def
      by (rule for_up_inv [where I = "\<lambda>_. colored m p"]) (use True line assms in auto)
  qed (use assms(1) in \<open>simp add: filter_image_def\<close>)
qed

section \<open>What the program gives\<close>


definition texture :: picture where
  "texture = \<lparr>image = [\<lparr>red = 9, green = 0, blue = 3\<rparr>, \<lparr>red = 1, green = 2, blue = 3\<rparr>,
     \<lparr>red = 5, green = 5, blue = 5\<rparr>, \<lparr>red = 0, green = 7, blue = 1\<rparr>], width = 2, height = 2, max_color = 255\<rparr>"

definition texture_sizes :: parameters where
  "texture_sizes = \<lparr>in_height = 2, in_width = 2, dim_bucata_height = 1, dim_bucata_width = 1, dim_fasie_height = 1, dim_fasie_width = 1\<rparr>"

lemma texture_fits: "quilt_fits texture 2 2 texture_sizes"
  by (simp add: quilt_fits_def texture_def texture_sizes_def picture_ok_def color_ok_def direction_fits_def)


text \<open>
  C25: The matrix the seam is taken from. The comment gives \<open>E(i, j) = e(i, j) + min\<close>, but the code leaves \<open>e(i, j)\<close> out: row \<open>i\<close>
  of the matrix is the least error of the first row within \<open>i\<close> places, whatever the other rows of errors are. The seam found in it
  stays inside and moves by at most one place per line.
\<close>

theorem quilt_energy:
  assumes "1 \<le> fasie" and "2 \<le> length first" and "int (length first) = across"
  shows "(\<exists>E. energy fasie across (first # others) = Some E \<and> int (length E) = fasie \<and>
      (\<forall>i j. 0 \<le> i \<and> i < fasie \<and> 0 \<le> j \<and> j < across \<longrightarrow>
        Option.bind (nth_opt E i) (\<lambda>r. nth_opt r j) = Some (Min ((\<lambda>k. first ! nat k) ` {max 0 (j - i)..min (across - 1) (j + i)})))) \<and>
    (\<forall>place. 0 \<le> place \<and> place < across \<longrightarrow>
       (\<exists>place'. seam_step across first place = Some place' \<and> 0 \<le> place' \<and> place' < across \<and> \<bar>place' - place\<bar> \<le> 1))"
proof (intro conjI)
  have "Option.bind (nth_opt (window_rows first fasie) i) (\<lambda>r. nth_opt r j) = Some (window_min first i j)"
    if "0 \<le> i" "i < fasie" "0 \<le> j" "j < across" for i j
    using that assms(3) by (simp add: window_rows_def nth_upto_map)
  then show "\<exists>E. energy fasie across (first # others) = Some E \<and> int (length E) = fasie \<and>
      (\<forall>i j. 0 \<le> i \<and> i < fasie \<and> 0 \<le> j \<and> j < across \<longrightarrow>
        Option.bind (nth_opt E i) (\<lambda>r. nth_opt r j) = Some (Min ((\<lambda>k. first ! nat k) ` {max 0 (j - i)..min (across - 1) (j + i)})))"
    using energy_windows [OF assms] assms(1) by (simp add: window_min_def assms(3)) (simp add: window_rows_def)
  show "\<forall>place. 0 \<le> place \<and> place < across \<longrightarrow>
       (\<exists>place'. seam_step across first place = Some place' \<and> 0 \<le> place' \<and> place' < across \<and> \<bar>place' - place\<bar> \<le> 1)"
    using seam_step_inside [OF _ assms(3)] assms(2,3) by auto
qed

theorem quilt_energy_witness:
  "energy 3 4 [[5, 1, 7, 9], [100, 0, 0, 0], [0, 0, 0, 0]] = Some [[5, 1, 7, 9], [1, 1, 1, 7], [1, 1, 1, 1]] \<and>
   (\<exists>E. energy 3 4 [[5, 1, 7, 9], [100, 0, 0, 0], [0, 0, 0, 0]] = Some E \<and> Option.bind (nth_opt E 1) (\<lambda>r. nth_opt r 3) = Some 7)"
proof
  show "energy 3 4 [[5, 1, 7, 9], [100, 0, 0, 0], [0, 0, 0, 0]] = Some [[5, 1, 7, 9], [1, 1, 1, 7], [1, 1, 1, 1]]" by code_simp
  show "\<exists>E. energy 3 4 [[5, 1, 7, 9], [100, 0, 0, 0], [0, 0, 0, 0]] = Some E \<and> Option.bind (nth_opt E 1) (\<lambda>r. nth_opt r 3) = Some 7"
  proof -
    obtain E where E: "energy 3 4 [[5, 1, 7, 9], [100, 0, 0, 0], [0, 0, 0, 0]] = Some E"
      "\<And>i j. 0 \<le> i \<and> i < 3 \<and> 0 \<le> j \<and> j < 4 \<Longrightarrow> Option.bind (nth_opt E i) (\<lambda>r. nth_opt r j) =
        Some (Min ((\<lambda>k. [5, 1, 7, 9] ! nat k) ` {max 0 (j - i)..min (4 - 1) (j + i)}))"
      using quilt_energy [of 3 "[5, 1, 7, 9]" 4 "[[100, 0, 0, 0], [0, 0, 0, 0]]"] by auto
    have "{max 0 (3 - 1)..min (4 - 1) (3 + 1)} = {2, 3::int}" by auto
    then have "Option.bind (nth_opt E 1) (\<lambda>r. nth_opt r 3) = Some 7" using E(2) [of 1 3] by simp
    then show ?thesis using E(1) by blast
  qed
qed

lemma compute_parameters_new:
  assumes "compute_parameters file junk zoom nh nw sh sw = Some (pin, pout, c)"
  shows "new_picture (height pin + nh * dim_bucata_height c) (width pin + nw * dim_bucata_width c) (max_color pin) = Some pout"
    "load file (empty_picture junk) = Some pin"
  using assms by (auto simp: compute_parameters_def in_int_def add.commute mult.commute split: bind_splits if_splits)

lemma compute_parameters_int32:
  assumes "compute_parameters file junk zoom nh nw sh sw = Some (pin, pout, c)"
  shows "int32 (width pout)" "int32 (height pout)"
  using assms by (auto simp: compute_parameters_def in_int_def new_picture_def split: bind_splits if_splits)



end
