(* ===== verification/SpuCorrect.thy ===== *)
theory SpuCorrect
  imports Spu QuiltCorrect
begin

text \<open>
  What the SPU computes of a packed strip is what the PPU computes of the picture; and what the protocol makes of it.
\<close>

section \<open>Loops\<close>

lemma fold_opt_cong: "(\<And>x s. x \<in> set xs \<Longrightarrow> f x s = g x s) \<Longrightarrow> fold_opt f xs s = fold_opt g xs s"
  by (induction xs arbitrary: s) (auto split: bind_splits)

lemma for_up_cong: "(\<And>i s. a \<le> i \<Longrightarrow> i < b \<Longrightarrow> f i s = g i s) \<Longrightarrow> for_up a b f s = for_up a b g s"
  unfolding for_up_def by (rule fold_opt_cong) auto

text \<open>Partial correctness: what the turns that return keep.\<close>

lemma for_up_result:
  assumes "for_up a b f s = Some s'" "a \<le> b" "I a s"
    and "\<And>i s s'. a \<le> i \<Longrightarrow> i < b \<Longrightarrow> I i s \<Longrightarrow> f i s = Some s' \<Longrightarrow> I (i + 1) s'"
  shows "I b s'"
proof -
  have "fold_opt f [a..a + int n - 1] s = Some s'' \<Longrightarrow> I (a + int n) s''" if "a + int n \<le> b" for n s''
    using that
  proof (induction n arbitrary: s'')
    case (Suc n)
    have "[a..a + int (Suc n) - 1] = [a..a + int n - 1] @ [a + int n]"
      using upto_rec2 [of a "a + int n"] by (simp add: add.commute)
    then obtain s1 where "fold_opt f [a..a + int n - 1] s = Some s1" "f (a + int n) s1 = Some s''"
      using Suc.prems(1) by (auto simp: fold_opt_append split: bind_splits)
    then show ?case using Suc assms(4) [of "a + int n" s1 s''] by (simp add: ac_simps)
  qed (use assms(3) in simp)
  from this [of "nat (b - a)" s'] show ?thesis using assms(1,2) by (simp add: for_up_def)
qed

section \<open>Packets\<close>

definition packs :: "reader \<Rightarrow> picture \<Rightarrow> int \<Rightarrow> int \<Rightarrow> pixel list \<Rightarrow> bool" where
  "packs rd p off fasie ps \<longleftrightarrow>
     (\<forall>k < length ps. rd (off + int k mod fasie) (int k div fasie) p = Some (ps ! k))"

lemma fill_packet_packs:
  assumes "fill_packet rd p off fasie across = Some ps" "0 \<le> fasie" "0 \<le> across"
  shows "int (length ps) = across * fasie \<and> packs rd p off fasie ps"
proof -
  let ?I = "\<lambda>i j ps. int (length ps) = i * fasie + j \<and> packs rd p off fasie ps"
  have row: "?I i fasie ps'" if "for_up 0 fasie (\<lambda>j ps. do { x \<leftarrow> rd (off + j) i p; Some (ps @ [x]) }) ps = Some ps'"
      "?I i 0 ps" "0 \<le> i" for i ps ps'
    using that(1) assms(2) that(2)
  proof (rule for_up_result [where I = "?I i"])
    fix j ps ps'
    assume j: "0 \<le> j" "j < fasie" and I: "?I i j ps" and turn: "do { x \<leftarrow> rd (off + j) i p; Some (ps @ [x]) } = Some ps'"
    then have "int (length ps) mod fasie = j" "int (length ps) div fasie = i" by auto
    then show "?I i (j + 1) ps'"
      using I turn by (auto simp: packs_def nth_append less_Suc_eq split: bind_splits)
  qed
  have "?I across 0 ps"
    using assms(1) unfolding fill_packet_def
  proof (rule for_up_result [where I = "\<lambda>i. ?I i 0"])
    show "?I (i + 1) 0 qs'" if "0 \<le> i" "i < across" "?I i 0 qs"
      "for_up 0 fasie (\<lambda>j ps. do { x \<leftarrow> rd (off + j) i p; Some (ps @ [x]) }) qs = Some qs'" for i qs qs'
      using row [OF that(4,3,1)] by (simp add: distrib_right)
  qed (use assms in \<open>auto simp: packs_def\<close>)
  then show ?thesis by simp
qed

lemma packet_words_length [simp]: "length (packet_words ps) = 3 * length ps"
  by (induction ps) (auto simp: packet_words_def)

lemma packet_words_nth:
  "i < length ps \<Longrightarrow> packet_words ps ! (3 * i) = red (ps ! i) \<and> packet_words ps ! (3 * i + 1) = green (ps ! i) \<and>
     packet_words ps ! (3 * i + 2) = blue (ps ! i)"
proof (induction ps arbitrary: i)
  case (Cons x ps)
  then show ?case by (cases i) (auto simp: packet_words_def)
qed simp

lemma pixel_at_packet:
  assumes "0 \<le> i" "nat i < length ps"
  shows "pixel_at (packet_words ps @ rest) i = Some (ps ! nat i)"
  using assms packet_words_nth [of "nat i" ps]
  by (auto simp: pixel_at_def nth_append)

lemma calculate_diff_packets:
  assumes "int (length ps) = h * fasie" "packs get_column p off1 fasie ps"
    and "int (length qs) = h * fasie" "packs get_column p off2 fasie qs"
  shows "calculate_diff (packet_words ps @ r1) (packet_words qs @ r2) h fasie = strip_dif get_column p off1 off2 fasie h"
  unfolding calculate_diff_def strip_dif_def
proof (intro for_up_cong)
  fix i j diff
  assume ij: "0 \<le> i" "i < h" "0 \<le> j" "j < fasie"
  then have k: "0 \<le> i * fasie + j" "i * fasie + j < h * fasie" using inside_bound [of i h j fasie] by auto
  then have "nat (i * fasie + j) < length ps" "nat (i * fasie + j) < length qs" using assms(1,3) by auto
  moreover have "(i * fasie + j) mod fasie = j" "(i * fasie + j) div fasie = i" using ij by auto
  ultimately have "get_column (off1 + j) i p = Some (ps ! nat (i * fasie + j))" "get_column (off2 + j) i p = Some (qs ! nat (i * fasie + j))"
    "pixel_at (packet_words ps @ r1) (i * fasie + j) = Some (ps ! nat (i * fasie + j))"
    "pixel_at (packet_words qs @ r2) (i * fasie + j) = Some (qs ! nat (i * fasie + j))"
    using assms(2,4) k(1) pixel_at_packet by (auto simp: packs_def dest!: spec [of _ "nat (i * fasie + j)"])
  then show "do { x \<leftarrow> pixel_at (packet_words ps @ r1) (i * fasie + j); y \<leftarrow> pixel_at (packet_words qs @ r2) (i * fasie + j);
      d \<leftarrow> pixel_compare x y; in_int (diff + d) } =
    do { x \<leftarrow> get_column (off1 + j) i p; y \<leftarrow> get_column (off2 + j) i p; d \<leftarrow> compare x y; in_int (diff + d) }"
    by (simp add: pixel_compare_def compare_def)
qed

section \<open>Transfers\<close>

text \<open>The words \<open>ws\<close> are in memory from address \<open>a\<close>.\<close>

definition in_memory :: "memory \<Rightarrow> int \<Rightarrow> int list \<Rightarrow> bool" where
  "in_memory mem a ws \<longleftrightarrow> (\<forall>i < length ws. mem (a + 4 * int i) = Some (ws ! i))"

lemma those_map_Some: "(\<And>x. x \<in> set xs \<Longrightarrow> f x = Some (g x)) \<Longrightarrow> those (map f xs) = Some (map g xs)"
  by (induction xs) auto

lemma mfc_get_words:
  assumes "in_memory mem a ws" "mfc_size a bytes" "nat (bytes div 4) \<le> length ws" "nat (bytes div 4) \<le> length buf"
  shows "mfc_get mem a bytes buf = Some (take (nat (bytes div 4)) ws @ drop (nat (bytes div 4)) buf)"
proof -
  have "those (map (\<lambda>i. mem (a + 4 * int i)) [0..<nat (bytes div 4)]) = Some (map ((!) ws) [0..<nat (bytes div 4)])"
    by (rule those_map_Some) (use assms(1,3) in \<open>auto simp: in_memory_def\<close>)
  moreover have "map ((!) ws) [0..<nat (bytes div 4)] = take (nat (bytes div 4)) ws"
    using assms(3) by (intro nth_equalityI) auto
  ultimately show ?thesis using assms(2-4) by (simp add: mfc_get_def not_less)
qed

text \<open>The strips that can be sent: at most 1024 pixels, in lines of 16 bytes, at aligned places.\<close>

definition can_send :: "int \<Rightarrow> int \<Rightarrow> int \<Rightarrow> int \<Rightarrow> bool" where
  "can_send h fasie a1 a2 \<longleftrightarrow> 0 < h \<and> 0 < fasie \<and> h * fasie \<le> 1024 \<and> h * fasie mod 4 = 0 \<and> a1 mod 16 = 0 \<and> a2 mod 16 = 0"

lemma fetch_strips_words:
  assumes send: "can_send h fasie a1 a2"
    and mem: "in_memory mem a1 w1" "in_memory mem a2 w2"
    and len: "int (length w1) = 3 * (h * fasie)" "int (length w2) = 3 * (h * fasie)"
    and buf: "length (values1 s) = SPU_WORDS" "length (values2 s) = SPU_WORDS"
  shows "fetch_strips mem h fasie a1 a2 s =
    Some (s\<lparr>values1 := w1 @ drop (length w1) (values1 s), values2 := w2 @ drop (length w2) (values2 s)\<rparr>)"
proof -
  define n where "n = h * fasie"
  have n: "0 \<le> n" "n \<le> 1024" "n mod 4 = 0" using send by (auto simp: can_send_def n_def)
  then obtain m where m: "n = 4 * m" by (auto simp: mod_eq_0_iff_dvd)
  have bytes: "strip_bytes h fasie = Some (12 * n)"
    unfolding strip_bytes_def n_def [symmetric] using n by (simp add: in_int_def int32_def sizeof_pixel_def mult.commute [of 12])
  have "mfc_size a1 (12 * n)" "mfc_size a2 (12 * n)" using n send by (auto simp: mfc_size_def can_send_def m)
  moreover have "nat (12 * n div 4) = length w1" "nat (12 * n div 4) = length w2" "length w1 \<le> SPU_WORDS"
    using len n by (auto simp: n_def [symmetric] SPU_WORDS_def)
  ultimately show ?thesis
    using mfc_get_words [OF mem(1)] mfc_get_words [OF mem(2)] buf by (simp add: fetch_strips_def bytes)
qed

section \<open>The difference\<close>

lemma cell_packets:
  assumes "orizontal_dif_cell p off_candidat off_add fasie bucata h a1 a2 = Some (w1, w2, msgs)" "0 \<le> h" "0 \<le> fasie"
  shows "msgs = [1, h, fasie, a1, a2] \<and> int (length w1) = 3 * (h * fasie) \<and> int (length w2) = 3 * (h * fasie) \<and>
    calculate_diff (w1 @ r1) (w2 @ r2) h fasie = orizontal_dif p off_candidat off_add fasie bucata h"
proof -
  obtain ps qs where f: "fill_packet get_column p (off_candidat + bucata) fasie h = Some ps"
      "fill_packet get_column p (off_add - fasie) fasie h = Some qs"
    and w: "w1 = packet_words ps" "w2 = packet_words qs" "msgs = [1, h, fasie, a1, a2]"
    using assms(1) by (auto simp: orizontal_dif_cell_def split: bind_splits)
  note pq = fill_packet_packs [OF f(1) assms(3,2)] fill_packet_packs [OF f(2) assms(3,2)]
  then show ?thesis
    using calculate_diff_packets [of ps h fasie p "off_candidat + bucata" qs "off_add - fasie"]
    by (simp add: w orizontal_dif_def mult.assoc)
qed


section \<open>What the protocol makes of it\<close>

text \<open>Of buffers that are 0 behind their first word only the red of the first pixel counts.\<close>

lemma pixel_at_stale:
  assumes "0 \<le> i" "nat i < 1024"
  shows "pixel_at (w # replicate (SPU_WORDS - Suc 0) 0) i = Some \<lparr>red = if i = 0 then w else 0, green = 0, blue = 0\<rparr>"
  using assms by (auto simp: pixel_at_def SPU_WORDS_def nth_Cons split: nat.splits)

lemma calculate_diff_stale:
  assumes "0 < h" "0 < fasie" "h * fasie \<le> 1024" "int32 ((x - y) * (x - y))"
  shows "calculate_diff (x # replicate (SPU_WORDS - Suc 0) 0) (y # replicate (SPU_WORDS - Suc 0) 0) h fasie = Some ((x - y) * (x - y))"
proof -
  let ?e = "(x - y) * (x - y)" and ?x = "x # replicate (SPU_WORDS - Suc 0) 0" and ?y = "y # replicate (SPU_WORDS - Suc 0) 0"
  let ?turn = "\<lambda>i j diff. do { a \<leftarrow> pixel_at ?x (i * fasie + j); b \<leftarrow> pixel_at ?y (i * fasie + j);
      d \<leftarrow> pixel_compare a b; in_int (diff + d) }"
  let ?I = "\<lambda>i j d. d = (if i * fasie + j = 0 then 0 else ?e)"
  have zero: "int32 0" by (simp add: int32_def)
  have turn: "?turn i j d = Some ?e" if "0 \<le> i" "i < h" "0 \<le> j" "j < fasie" "?I i j d" for i j d
  proof -
    have "0 \<le> i * fasie + j" "i * fasie + j < 1024" using inside_bound [of i h j fasie] that assms(3) by auto
    then have "nat (i * fasie + j) < 1024" by auto
    then show ?thesis
      using \<open>0 \<le> i * fasie + j\<close> that(5) assms(4)
      by (auto simp: pixel_at_stale pixel_compare_def zero in_int_def)
  qed
  have line: "\<exists>d'. for_up 0 fasie (?turn i) d = Some d' \<and> ?I (i + 1) 0 d'" if "0 \<le> i" "i < h" "?I i 0 d" for i d
  proof -
    have "\<exists>d'. for_up 0 fasie (?turn i) d = Some d' \<and> ?I i fasie d'"
      by (rule for_up_inv [where I = "?I i"]) (use that turn assms(2) in \<open>auto simp: add_nonneg_eq_0_iff\<close>)
    moreover have "i * fasie + fasie = (i + 1) * fasie + 0" by (simp add: distrib_right)
    ultimately show ?thesis by simp
  qed
  have "\<exists>d. for_up 0 h (\<lambda>i. for_up 0 fasie (?turn i)) 0 = Some d \<and> ?I h 0 d"
    by (rule for_up_inv [where I = "\<lambda>i. ?I i 0"]) (use line assms in auto)
  then show ?thesis using assms(1,2) by (auto simp: calculate_diff_def)
qed

lemma second_strip_words:
  assumes send: "can_send h fasie b1 b2"
    and mem: "in_memory mem b1 x1" "in_memory mem b2 x2" "x1 \<noteq> []" "x2 \<noteq> []"
    and aux: "values_aux1 s = replicate SPU_WORDS 0" "values_aux2 s = replicate SPU_WORDS 0"
    and first: "calculate_diff (values1 s) (values2 s) h fasie = Some d"
    and e: "int32 ((x1 ! 0 - x2 ! 0) * (x1 ! 0 - x2 ! 0))"
  shows "\<exists>s'. second_strip mem h fasie b1 b2 s = Some s' \<and> answers s' = answers s \<and>
    diff_vect s' = diff_vect s @ [d, (x1 ! 0 - x2 ! 0) * (x1 ! 0 - x2 ! 0)]"
proof -
  have "mfc_size b1 4" "mfc_size b2 4" using send by (auto simp: can_send_def mfc_size_def)
  moreover have "1 \<le> length x1" "1 \<le> length x2" using mem(3,4) by (auto simp: Suc_le_eq)
  moreover have "take (Suc 0) x1 = [x1 ! 0]" "take (Suc 0) x2 = [x2 ! 0]" using mem(3,4) by (auto simp: take_Suc hd_conv_nth)
  ultimately have "mfc_get mem b1 4 (values_aux1 s) = Some (x1 ! 0 # replicate (SPU_WORDS - Suc 0) 0)"
      "mfc_get mem b2 4 (values_aux2 s) = Some (x2 ! 0 # replicate (SPU_WORDS - Suc 0) 0)"
    using mfc_get_words [OF mem(1), of 4 "values_aux1 s"] mfc_get_words [OF mem(2), of 4 "values_aux2 s"] aux
    by (auto simp: SPU_WORDS_def)
  moreover note calculate_diff_stale [OF _ _ _ e, of h fasie]
  ultimately show ?thesis
    using send first by (simp add: second_strip_def push_diff_def can_send_def)
qed

text \<open>The SPU ends when it is told to. Asked after one strip it has nothing to answer from, because a strip is only summed when
  the next one comes; of two strips the first is summed as it should be, of the second only the red of its first pixel counts;
  and the question that follows them is taken for a third strip.\<close>

theorem spu_requests:
  assumes packets: "orizontal_dif_cell p oc1 off_add fasie bucata h a1 a2 = Some (w1, w2, m1)"
      "orizontal_dif_cell p oc2 off_add fasie bucata h b1 b2 = Some (x1, x2, m2)"
    and send: "can_send h fasie a1 a2" "can_send h fasie b1 b2"
    and mem: "in_memory (mem 0) a1 w1" "in_memory (mem 0) a2 w2" "in_memory (mem 0) b1 x1" "in_memory (mem 0) b2 x2"
    and first: "orizontal_dif p oc1 off_add fasie bucata h = Some d"
    and small: "int32 ((x1 ! 0 - x2 ! 0) * (x1 ! 0 - x2 ! 0))"
  shows "spu_main mem 0 quit_message new_spu = Some (Quits new_spu) \<and>
    spu_main mem 0 (m1 @ [2]) new_spu = None \<and>
    (\<exists>s. spu_main mem 0 (m1 @ m2) new_spu = Some (Blocked s) \<and> diff_vect s = [d, (x1 ! 0 - x2 ! 0) * (x1 ! 0 - x2 ! 0)] \<and>
      spu_main mem 0 (m1 @ m2 @ [2]) new_spu = Some (Blocked s) \<and> answers s = [])"
proof -
  have pos: "0 < h" "0 < fasie" "0 < h * fasie" using send by (auto simp: can_send_def)
  note c1 = cell_packets [OF packets(1) less_imp_le [OF pos(1)] less_imp_le [OF pos(2)]]
  note c2 = cell_packets [OF packets(2) less_imp_le [OF pos(1)] less_imp_le [OF pos(2)]]
  have x: "x1 \<noteq> []" "x2 \<noteq> []" using c2 pos by auto
  have m: "m1 = [1, h, fasie, a1, a2]" "m2 = [1, h, fasie, b1, b2]" using c1 c2 by simp_all
  let ?s = "new_spu\<lparr>values1 := w1 @ drop (length w1) (values1 new_spu), values2 := w2 @ drop (length w2) (values2 new_spu)\<rparr>"
  have fetch: "fetch_strips (mem 0) h fasie a1 a2 new_spu = Some ?s"
    using c1 by (intro fetch_strips_words [OF send(1) mem(1,2)]) (auto simp: new_spu_def)
  have "calculate_diff (values1 ?s) (values2 ?s) h fasie = Some d" using c1 first by simp
  then obtain s' where s': "second_strip (mem 0) h fasie b1 b2 ?s = Some s'" "answers s' = []"
      "diff_vect s' = [d, (x1 ! 0 - x2 ! 0) * (x1 ! 0 - x2 ! 0)]"
    using second_strip_words [OF send(2) mem(3,4) x _ _ _ small, of ?s d] by (auto simp: new_spu_def)
  have "write_min ?s = None" by (simp add: write_min_def new_spu_def)
  then have "spu_main mem 0 (m1 @ [2]) new_spu = None" by (simp add: m fetch)
  moreover have "spu_main mem 0 (m1 @ m2) new_spu = Some (Blocked s')" "spu_main mem 0 (m1 @ m2 @ [2]) new_spu = Some (Blocked s')"
    by (simp_all add: m fetch s')
  ultimately show ?thesis using s' by (auto simp: quit_message_def)
qed

section \<open>Examples\<close>

text \<open>Four rows of six pixels, strips of one column, and the packets one after the other in memory.\<close>

definition spu_picture :: picture where
  "spu_picture = \<lparr>image = map (\<lambda>i. \<lparr>red = int i, green = 1, blue = 2\<rparr>) [0..<24], width = 6, height = 4, max_color = 255\<rparr>"

definition spu_packet :: "int \<Rightarrow> int list" where
  "spu_packet col = [col, 1, 2, col + 6, 1, 2, col + 12, 1, 2, col + 18, 1, 2]"

definition spu_memory :: memory where
  "spu_memory a = (let ws = spu_packet 1 @ spu_packet 4 @ spu_packet 2 @ spu_packet 4 in
     if 0 \<le> a \<and> nat (a div 4) < length ws then Some (ws ! nat (a div 4)) else None)"

lemma spu_cells:
  "orizontal_dif_cell spu_picture 0 5 1 1 4 0 48 = Some (spu_packet 1, spu_packet 4, [1, 4, 1, 0, 48])"
  "orizontal_dif_cell spu_picture 1 5 1 1 4 96 144 = Some (spu_packet 2, spu_packet 4, [1, 4, 1, 96, 144])"
  by code_simp+

lemma spu_in_memory:
  "in_memory spu_memory 0 (spu_packet 1)" "in_memory spu_memory 48 (spu_packet 4)"
  "in_memory spu_memory 96 (spu_packet 2)" "in_memory spu_memory 144 (spu_packet 4)"
  by code_simp+

lemma spu_can_send: "can_send 4 1 0 48" "can_send 4 1 96 144"
  by code_simp+


theorem spu_requests_witness:
  "\<exists>s. spu_main (\<lambda>_. spu_memory) 0 ([1, 4, 1, 0, 48] @ [1, 4, 1, 96, 144]) new_spu = Some (Blocked s) \<and> diff_vect s = [36, 4]"
proof -
  have "orizontal_dif spu_picture 0 5 1 1 4 = Some 36" "int32 ((spu_packet 2 ! 0 - spu_packet 4 ! 0) * (spu_packet 2 ! 0 - spu_packet 4 ! 0))"
    by code_simp+
  from spu_requests [where mem = "\<lambda>_. spu_memory", OF spu_cells spu_can_send spu_in_memory this]
  show ?thesis by (auto simp: spu_packet_def)
qed

end
