(* ===== verification/RemoteShell.thy ===== *)
theory RemoteShell
  imports Text
begin

text \<open>
  The remote shell over RPC, \<open>src/RemoteShellRPC\<close>: the client, which cuts a line into commands, and the server, which runs
  them. The stubs and the transport are generated: a call reaches the server's function with the same command, and its answer
  comes back. What a program prints and returns is an answer of \<open>popen\<close>. Strings are their bytes
  without the final NUL; \<open>None\<close> is a string that does not fit its array, an assertion that fails, or too many commands.
\<close>

definition MAX_LEN :: nat where "MAX_LEN = 1024"
definition MAX_CMDS :: nat where "MAX_CMDS = 16"
definition LINE_LEN :: nat where "LINE_LEN = 128"

section \<open>The server\<close>

datatype flavor = AUTH_UNIX | AUTH_OTHER

record svc_req =
  rq_proc :: nat
  oa_flavor :: flavor

definition NULLPROC :: nat where "NULLPROC = 0"

definition check_unix :: "svc_req \<Rightarrow> bool" where
  "check_unix req \<longleftrightarrow> (if rq_proc req = NULLPROC then False else case oa_flavor req of AUTH_UNIX \<Rightarrow> True | AUTH_OTHER \<Rightarrow> False)"

text \<open>\<open>UNIX_AUTH\<close> is defined.\<close>

definition check :: "svc_req \<Rightarrow> bool" where "check req = check_unix req"

text \<open>The output of a program, line by line into a buffer that is checked after each line.\<close>

function collect :: "bytes \<Rightarrow> bytes \<Rightarrow> bytes option" where
  "collect buffer out = (case fgets LINE_LEN [] out of
     (False, l, out) \<Rightarrow> Some buffer
   | (True, l, out) \<Rightarrow>
     (let buffer = buffer @ takeWhile (\<lambda>c. c \<noteq> 0) l in
      if length buffer \<ge> MAX_LEN then None
      else if length buffer \<ge> MAX_LEN - 1 then Some buffer
      else collect buffer out))"
  by pat_completeness auto
termination
  by (relation "measure (\<lambda>(buffer, out). length out)")
    (auto simp: fgets_def LINE_LEN_def Let_def split: if_splits)

declare collect.simps [simp del]

text \<open>The programs that started so far; the \<open>n\<close>th \<open>popen\<close> gives output and status, or fails.\<close>

type_synonym runner = "nat \<Rightarrow> bytes \<Rightarrow> (bytes \<times> int) option"

definition execute_string_command :: "runner \<Rightarrow> bytes \<Rightarrow> bytes list \<Rightarrow> (bytes \<times> bytes list) option" where
  "execute_string_command run c started =
     (let c = c @ ascii '' 2>&1'' in
      if length c \<ge> MAX_LEN then None
      else case run (length started) c of
        None \<Rightarrow> Some (ascii ''command execution failed!'', started @ [c])
      | Some (out, result) \<Rightarrow> do {
          buffer \<leftarrow> collect [] out;
          Some (take (MAX_LEN - 2) (ascii ''['' @ dec_int result @ ascii ''] '' @ buffer @ [10]), started @ [c])
        })"

text \<open>Every command writes its result over the one before.\<close>

fun execute_each :: "runner \<Rightarrow> bytes list \<Rightarrow> bytes \<Rightarrow> bytes list \<Rightarrow> (bytes \<times> bytes list) option" where
  "execute_each run [] reponse started = Some (reponse, started)"
| "execute_each run (c # cs) reponse started = do {
     (reponse, started) \<leftarrow> execute_string_command run c started;
     execute_each run cs reponse started
   }"

definition execute_command :: "runner \<Rightarrow> bytes list \<Rightarrow> bytes list \<Rightarrow> (bytes \<times> bytes list) option" where
  "execute_command run cmds started = execute_each run cmds [] started"

definition execute_simple_command_1_svc :: "runner \<Rightarrow> svc_req \<Rightarrow> bytes list \<Rightarrow> bytes list \<Rightarrow> (bytes \<times> bytes list) option" where
  "execute_simple_command_1_svc run req cmds started = (if \<not> check req then Some ([], started) else execute_command run cmds started)"

definition execute_command_1_svc :: "runner \<Rightarrow> svc_req \<Rightarrow> bytes list \<Rightarrow> bytes list \<Rightarrow> (bytes \<times> bytes list) option" where
  "execute_command_1_svc run req cmds started = (if \<not> check req then Some ([], started) else execute_command run cmds started)"

definition get_remote_pwd_1_svc :: "bytes \<Rightarrow> bytes option" where
  "get_remote_pwd_1_svc cwd = (if length cwd \<ge> MAX_LEN then None else Some cwd)"

section \<open>The client\<close>

record rclient =
  line :: bytes
  stdin :: bytes
  shown :: bytes

definition prompt :: "bytes \<Rightarrow> bool \<Rightarrow> bytes" where
  "prompt reponse type = (if \<not> type then reponse @ [32] else reponse @ [10])"

definition separator :: "u8 \<Rightarrow> bool" where "separator c \<longleftrightarrow> c = 59 \<or> c = 10"

function split_commands :: "bytes \<Rightarrow> bytes list" where
  "split_commands s = (case strtok separator s of None \<Rightarrow> [] | Some (t, r) \<Rightarrow> t # split_commands r)"
  by pat_completeness auto
termination by (relation "measure length") (auto dest: strtok_shorter)

declare split_commands.simps [simp del]

text \<open>\<open>strtok\<close> ends the first command in the line with a NUL.\<close>

definition cut_line :: "bytes \<Rightarrow> bytes" where
  "cut_line s = takeWhile separator s @ takeWhile (\<lambda>c. \<not> separator c) (dropWhile separator s)"

definition to_lower :: "u8 \<Rightarrow> u8" where "to_lower c = (if 65 \<le> c \<and> c \<le> 90 then c + 32 else c)"

definition parse_command :: "bytes \<Rightarrow> (bytes \<times> bytes list option) option" where
  "parse_command s =
     (let cmds = split_commands s; s = cut_line s in
      if map to_lower s = ascii ''quit'' then Some (s, None)
      else if map to_lower s = ascii ''exit'' then Some (s, None)
      else if length cmds > MAX_CMDS \<or> (\<exists>c\<in>set cmds. length c \<ge> MAX_LEN) then None
      else Some (s, Some cmds))"

datatype command_type = COMMAND | SIMPLE_COMMAND

definition get_command_type :: "bytes list \<Rightarrow> command_type" where
  "get_command_type cmds = (if length cmds = 1 then SIMPLE_COMMAND else COMMAND)"

text \<open>One turn of the client's loop; at the end of the input the line is what it was.\<close>

datatype client_turn = Quits rclient | Goes_on rclient "bytes list"

definition client_step :: "runner \<Rightarrow> svc_req \<Rightarrow> bytes \<Rightarrow> rclient \<Rightarrow> bytes list \<Rightarrow> client_turn option" where
  "client_step run req cwd s started = do {
     reponse \<leftarrow> get_remote_pwd_1_svc cwd;
     let s = s\<lparr>shown := shown s @ prompt reponse False\<rparr>;
     let (got, l, rest) = fgets MAX_LEN (line s) (stdin s);
     let s = s\<lparr>line := takeWhile (\<lambda>c. c \<noteq> 0) l, stdin := rest\<rparr>;
     (l, cmds) \<leftarrow> parse_command (line s);
     let s = s\<lparr>line := l\<rparr>;
     (case cmds of
        None \<Rightarrow> Some (Quits s)
      | Some cmds \<Rightarrow> do {
          (reponse, started) \<leftarrow> (case get_command_type cmds of
             COMMAND \<Rightarrow> execute_command_1_svc run req cmds started
           | SIMPLE_COMMAND \<Rightarrow> execute_simple_command_1_svc run req cmds started);
          Some (Goes_on (s\<lparr>shown := shown s @ prompt reponse True\<rparr>) started)
        })
   }"

text \<open>\<open>n\<close> turns of the loop.\<close>

primrec client_turns :: "runner \<Rightarrow> svc_req \<Rightarrow> bytes \<Rightarrow> nat \<Rightarrow> rclient \<Rightarrow> bytes list \<Rightarrow> client_turn option" where
  "client_turns run req cwd 0 s started = Some (Goes_on s started)"
| "client_turns run req cwd (Suc n) s started = do {
     t \<leftarrow> client_step run req cwd s started;
     (case t of Quits s \<Rightarrow> Some (Quits s) | Goes_on s started \<Rightarrow> client_turns run req cwd n s started)
   }"

end
