(* ===== verification/RemoteShellCorrect.thy ===== *)
theory RemoteShellCorrect
  imports RemoteShell
begin

text \<open>
  The remote shell: a line of commands is run as it was written but answered by its last command only, output that
  fits arrives whole, and at the end of its input the client repeats its last first command for ever.
\<close>

section \<open>Collecting output\<close>

definition line_len :: "bytes \<Rightarrow> nat" where
  "line_len out = min (LINE_LEN - 1) (Suc (length (takeWhile (\<lambda>c. c \<noteq> 10) out)))"

lemma collect_Nil: "collect buf [] = Some buf"
  by (subst collect.simps) (simp add: fgets_def)

lemma collect_line:
  assumes "out \<noteq> []" and "0 \<notin> set out"
  shows "collect buf out = (let buf = buf @ take (line_len out) out in
    if length buf \<ge> MAX_LEN then None else if length buf \<ge> MAX_LEN - 1 then Some buf else collect buf (drop (line_len out) out))"
proof -
  have g: "fgets LINE_LEN [] out = (True, take (line_len out) out, drop (line_len out) out)"
    using assms(1) by (simp only: fgets_def line_len_def Let_def if_False)
  have whole: "takeWhile (\<lambda>c. c \<noteq> 0) (take (line_len out) out) = take (line_len out) out"
    using assms(2) by (subst takeWhile_eq_all_conv) (auto dest: in_set_takeD)
  show ?thesis by (subst collect.simps) (simp only: g prod.case bool.case whole)
qed

lemma collect_whole: "0 \<notin> set out \<Longrightarrow> length buf + length out < MAX_LEN \<Longrightarrow> collect buf out = Some (buf @ out)"
proof (induction "length out" arbitrary: buf out rule: less_induct)
  case less
  let ?b = "buf @ take (line_len out) out" and ?r = "drop (line_len out) out"
  have fits: "length ?b + length ?r < MAX_LEN" using less.prems(2) by simp
  show ?case
  proof (cases "out = []")
    case False
    have shorter: "length ?r < length out" using False by (simp add: line_len_def LINE_LEN_def)
    show ?thesis
    proof (cases "length ?b \<ge> MAX_LEN - 1")
      case True
      then have "length ?r = 0" using fits by arith
      then have "?b = buf @ out" by simp
      then show ?thesis using collect_line [OF False less.prems(1), of buf] True fits by (simp add: Let_def)
    next
      case nearly: False
      have "0 \<notin> set ?r" using less.prems(1) by (auto dest: in_set_dropD)
      then have "collect ?b ?r = Some (?b @ ?r)" using less.hyps [OF shorter] fits by blast
      then show ?thesis using collect_line [OF False less.prems(1), of buf] nearly fits by (simp add: Let_def)
    qed
  qed (simp add: collect_Nil)
qed

text \<open>A single line that is too long runs over the buffer: the lines are of 127 bytes, and 1023 is none of their multiples.\<close>

lemma collect_overrun:
  assumes "0 \<notin> set out" and "10 \<notin> set out" and "MAX_LEN \<le> 127 * k + length out" and "k \<le> 8" and "length buf = 127 * k"
  shows "collect buf out = None"
  using assms
proof (induction "8 - k" arbitrary: k buf out)
  case 0
  have n: "out \<noteq> []" using 0 by (auto simp: MAX_LEN_def)
  have "takeWhile (\<lambda>c. c \<noteq> 10) out = out" using "0.prems"(2) by (subst takeWhile_eq_all_conv) auto
  then have "length (takeWhile (\<lambda>c. c \<noteq> 10) out) = length out" by (simp only:)
  then have "length (buf @ take (line_len out) out) \<ge> MAX_LEN" using 0 by (simp add: line_len_def LINE_LEN_def MAX_LEN_def)
  then show ?case using collect_line [OF n "0.prems"(1), of buf] by (simp only: Let_def if_True)
next
  case (Suc j)
  have n: "out \<noteq> []" "127 < length out" using Suc by (auto simp: MAX_LEN_def)
  have "takeWhile (\<lambda>c. c \<noteq> 10) out = out" using Suc.prems(2) by (subst takeWhile_eq_all_conv) auto
  then have "length (takeWhile (\<lambda>c. c \<noteq> 10) out) = length out" by (simp only:)
  then have k: "line_len out = 127" using n(2) by (simp add: line_len_def LINE_LEN_def)
  have "collect (buf @ take 127 out) (drop 127 out) = None"
    using Suc.prems Suc.hyps(2) n(2) by (intro Suc.hyps(1) [of "Suc k"]) (auto dest: in_set_dropD)
  moreover have "length (buf @ take 127 out) < MAX_LEN - 1" using Suc n(2) by (simp add: MAX_LEN_def)
  ultimately show ?case using collect_line [OF n(1) Suc.prems(1), of buf] by (simp add: k Let_def)
qed

section \<open>Cutting a line\<close>

fun joined :: "bytes list \<Rightarrow> bytes" where
  "joined [] = []"
| "joined [c] = c"
| "joined (c # d # cs) = c @ 59 # joined (d # cs)"

definition plain :: "bytes \<Rightarrow> bool" where "plain c \<longleftrightarrow> c \<noteq> [] \<and> (\<forall>x\<in>set c. \<not> separator x \<and> x \<noteq> 0)"

lemma joined_set: "\<forall>c\<in>set cs. plain c \<Longrightarrow> 0 \<notin> set (joined cs) \<and> 10 \<notin> set (joined cs)"
  by (induction cs rule: joined.induct) (auto simp: plain_def separator_def)

lemma strtok_plain: "plain c \<Longrightarrow> separator d \<Longrightarrow> d \<noteq> 0 \<Longrightarrow> 0 \<notin> set r \<Longrightarrow> strtok separator (c @ d # r) = Some (c, r)"
  using strtok_token [of c separator d r "[]"] by (simp add: plain_def)

lemma split_joined: "\<forall>c\<in>set cs. plain c \<Longrightarrow> cs \<noteq> [] \<Longrightarrow> split_commands (joined cs @ [10]) = cs"
proof (induction cs rule: joined.induct)
  case (2 c)
  have "split_commands [] = []" by (subst split_commands.simps) (simp add: strtok_def)
  then show ?case using 2 strtok_plain [of c 10 "[]"] by (subst split_commands.simps) (simp add: separator_def)
next
  case (3 c d cs)
  have "0 \<notin> set (joined (d # cs) @ [10])" using joined_set [of "d # cs"] 3 by simp
  then have "strtok separator (c @ 59 # joined (d # cs) @ [10]) = Some (c, joined (d # cs) @ [10])"
    using 3 by (intro strtok_plain) (auto simp: separator_def)
  then show ?case using 3 by (subst split_commands.simps) simp
qed simp

lemma cut_joined:
  assumes "plain c"
  shows "cut_line (joined (c # cs) @ [10]) = c" "cut_line c = c"
proof -
  obtain x xs where c: "c = x # xs" "\<not> separator x" using assms by (cases c) (auto simp: plain_def)
  have 1: "cut_line (c @ d # r) = c" if "separator d" for d r
  proof -
    have "takeWhile (\<lambda>x. \<not> separator x) (c @ d # r) = c" using assms that by (simp add: plain_def takeWhile_append)
    then show ?thesis using c by (simp add: cut_line_def)
  qed
  show "cut_line (joined (c # cs) @ [10]) = c" by (cases cs) (simp_all add: 1 separator_def)
  have "takeWhile (\<lambda>x. \<not> separator x) c = c" using assms by (subst takeWhile_eq_all_conv) (auto simp: plain_def)
  then show "cut_line c = c" using c by (simp add: cut_line_def)
qed

section \<open>Running commands\<close>

definition ends_line :: "bytes \<Rightarrow> bool" where
  "ends_line c \<longleftrightarrow> map to_lower c = ascii ''quit'' \<or> map to_lower c = ascii ''exit''"

definition for_shell :: "bytes \<Rightarrow> bytes" where "for_shell c = c @ ascii '' 2>&1''"

definition reply :: "bytes \<Rightarrow> int \<Rightarrow> bytes" where
  "reply out status = take 1022 (ascii ''['' @ dec_int status @ ascii ''] '' @ out @ [10])"

definition answers :: "runner \<Rightarrow> nat \<Rightarrow> bytes \<Rightarrow> bool" where
  "answers run n c \<longleftrightarrow> (case run n (for_shell c) of None \<Rightarrow> False | Some (out, status) \<Rightarrow> 0 \<notin> set out \<and> length out < MAX_LEN)"

definition reply_of :: "runner \<Rightarrow> nat \<Rightarrow> bytes \<Rightarrow> bytes" where
  "reply_of run n c = (case run n (for_shell c) of None \<Rightarrow> [] | Some (out, status) \<Rightarrow> reply out status)"

lemma execute_string:
  assumes "length c \<le> 1018" and "answers run (length started) c"
  shows "execute_string_command run c started = Some (reply_of run (length started) c, started @ [for_shell c])"
proof -
  obtain out status where r: "run (length started) (for_shell c) = Some (out, status)" "0 \<notin> set out" "length out < MAX_LEN"
    using assms(2) by (auto simp: answers_def split: option.splits)
  have "\<not> length (c @ ascii '' 2>&1'') \<ge> MAX_LEN" using assms(1) by (simp add: ascii_def MAX_LEN_def)
  then show ?thesis using r collect_whole [of out "[]"]
    by (simp add: execute_string_command_def for_shell_def reply_of_def reply_def MAX_LEN_def)
qed

lemma execute_each_runs:
  "cs \<noteq> [] \<Longrightarrow> \<forall>c\<in>set cs. length c \<le> 1018 \<Longrightarrow> \<forall>k<length cs. answers run (length started + k) (cs ! k) \<Longrightarrow>
    execute_each run cs r started = Some (reply_of run (length started + length cs - 1) (last cs), started @ map for_shell cs)"
proof (induction cs arbitrary: r started)
  case (Cons c cs)
  have first: "execute_string_command run c started = Some (reply_of run (length started) c, started @ [for_shell c])"
    using execute_string [of c run started] Cons.prems(2,3) by fastforce
  show ?case
  proof (cases "cs = []")
    case True
    then show ?thesis using first by simp
  next
    case False
    have "answers run (Suc (length started) + k) (cs ! k)" if "k < length cs" for k
      using Cons.prems(3) [rule_format, of "Suc k"] that by simp
    then show ?thesis using Cons.IH [of "started @ [for_shell c]"] Cons.prems(2) False first by simp
  qed
qed simp

lemma both_services: "(case get_command_type cmds of COMMAND \<Rightarrow> execute_command_1_svc run req cmds started
    | SIMPLE_COMMAND \<Rightarrow> execute_simple_command_1_svc run req cmds started) =
    (if check req then execute_command run cmds started else Some ([], started))"
  by (cases "get_command_type cmds") (simp_all add: execute_command_1_svc_def execute_simple_command_1_svc_def)

text \<open>A turn of the client, from the line that was read.\<close>

lemma client_step_line:
  assumes "length cwd < MAX_LEN" and "fgets MAX_LEN (line s) (stdin s) = (got, l, rest)"
    and "parse_command (takeWhile (\<lambda>c. c \<noteq> 0) l) = Some (l', Some cmds)"
    and "(if check req then execute_command run cmds started else Some ([], started)) = Some (r, started')"
  shows "client_step run req cwd s started =
    Some (Goes_on (s\<lparr>line := l', stdin := rest, shown := shown s @ cwd @ [32] @ r @ [10]\<rparr>) started')"
  using assms by (simp add: client_step_def get_remote_pwd_1_svc_def both_services prompt_def)

text \<open>
  C19: What a turn of the client does with a line of commands. At most 16 commands, separated by \<open>;\<close>, each of at most
  1018 bytes, on a line that fits the buffer and does not begin with \<open>quit\<close> or \<open>exit\<close>: the server starts
  exactly these, once each and in order, and for a user with Unix credentials the client shows the directory and
  the status and output of the last command; what the others printed is lost. With other credentials no command is started.
\<close>

theorem rshell_runs_line:
  assumes "cmds \<noteq> []" and "length cmds \<le> 16" and "\<forall>c\<in>set cmds. plain c \<and> length c \<le> 1018"
    and "length (joined cmds) \<le> 1022" and "\<not> ends_line (hd cmds)" and "length cwd \<le> 1023"
    and "stdin s = joined cmds @ [10] @ rest" and "\<forall>k<length cmds. answers run (length started + k) (cmds ! k)"
  shows "client_step run req cwd s started =
    (if rq_proc req \<noteq> 0 \<and> oa_flavor req = AUTH_UNIX
     then Some (Goes_on (s\<lparr>line := hd cmds, stdin := rest,
            shown := shown s @ cwd @ [32] @ reply_of run (length started + length cmds - 1) (last cmds) @ [10]\<rparr>)
          (started @ map for_shell cmds))
     else Some (Goes_on (s\<lparr>line := hd cmds, stdin := rest, shown := shown s @ cwd @ [32, 10]\<rparr>) started))"
proof -
  obtain c cs where cmds: "cmds = c # cs" using assms(1) by (cases cmds) auto
  have plain: "\<forall>c\<in>set cmds. plain c" and clean: "0 \<notin> set (joined cmds)" "10 \<notin> set (joined cmds)"
    using assms(3) joined_set [of cmds] by auto
  have got: "fgets MAX_LEN (line s) (stdin s) = (True, joined cmds @ [10], rest)"
    using fgets_line [OF clean(2)] assms(4,7) by (simp add: MAX_LEN_def)
  have whole: "takeWhile (\<lambda>c. c \<noteq> 0) (joined cmds @ [10]) = joined cmds @ [10]"
    using clean(1) by (subst takeWhile_eq_all_conv) auto
  have "\<not> (\<exists>c\<in>set cmds. length c \<ge> MAX_LEN)" using assms(3) by (auto simp: MAX_LEN_def)
  then have fits: "\<not> (length cmds > MAX_CMDS \<or> (\<exists>c\<in>set cmds. length c \<ge> MAX_LEN))" using assms(2) by (simp add: MAX_CMDS_def)
  have "cut_line (joined cmds @ [10]) = c" unfolding cmds by (rule cut_joined(1)) (use plain cmds in simp)
  moreover have "\<not> ends_line c" using assms(5) cmds by simp
  ultimately have parse: "parse_command (joined cmds @ [10]) = Some (c, Some cmds)"
    unfolding parse_command_def split_joined [OF plain assms(1)] Let_def ends_line_def using fits by simp
  have parse': "parse_command (takeWhile (\<lambda>c. c \<noteq> 0) (joined cmds @ [10])) = Some (c, Some cmds)"
    by (simp only: whole parse)
  have run: "execute_command run cmds started =
      Some (reply_of run (length started + length cmds - 1) (last cmds), started @ map for_shell cmds)"
    using execute_each_runs [OF assms(1)] assms(3,8) by (simp add: execute_command_def)
  have cwd: "length cwd < MAX_LEN" using assms(6) by (simp add: MAX_LEN_def)
  have auth: "check req \<longleftrightarrow> rq_proc req \<noteq> 0 \<and> oa_flavor req = AUTH_UNIX"
    by (cases "oa_flavor req") (simp_all add: check_def check_unix_def NULLPROC_def)
  show ?thesis
  proof (cases "check req")
    case True
    then have "(if check req then execute_command run cmds started else Some ([], started)) =
        Some (reply_of run (length started + length cmds - 1) (last cmds), started @ map for_shell cmds)" using run by (simp only: if_True)
    from client_step_line [OF cwd got parse' this] show ?thesis using True auth by (simp add: cmds)
  next
    case False
    then have "(if check req then execute_command run cmds started else Some ([], started)) = Some ([], started)" by (simp only: if_False)
    from client_step_line [OF cwd got parse' this] show ?thesis using False auth by (auto simp: cmds)
  qed
qed

text \<open>Programs that print what they were called with.\<close>

definition echo :: runner where "echo n c = Some (c, int n)"

theorem rshell_runs_line_witness:
  "client_step echo \<lparr>rq_proc = 2, oa_flavor = AUTH_UNIX\<rparr> (ascii ''/'')
     \<lparr>line = [], stdin = ascii ''ls;ps'' @ [10], shown = []\<rparr> [] =
   Some (Goes_on \<lparr>line = ascii ''ls'', stdin = [],
       shown = ascii ''/ [1] ps 2>&1'' @ [10, 10]\<rparr> [ascii ''ls 2>&1'', ascii ''ps 2>&1''])"
proof -
  let ?cmds = "[ascii ''ls'', ascii ''ps'']"
  have p: "\<forall>c\<in>set ?cmds. plain c \<and> length c \<le> 1018" by (simp add: plain_def separator_def ascii_def)
  have q: "\<not> ends_line (hd ?cmds)" by (simp add: ends_line_def ascii_def)
  have a: "\<forall>k<length ?cmds. answers echo (length [] + k) (?cmds ! k)"
    by (auto simp: answers_def echo_def for_shell_def ascii_def MAX_LEN_def less_Suc_eq)
  have d: "dec_int 1 = ascii ''1''" by (simp add: dec_int_def dec_nat.simps digit_def ascii_def)
  show ?thesis
    using rshell_runs_line [OF _ _ p _ q _ _ a, of "ascii ''/''" "\<lparr>line = [], stdin = ascii ''ls;ps'' @ [10], shown = []\<rparr>" "[]"
        "\<lparr>rq_proc = 2, oa_flavor = AUTH_UNIX\<rparr>"]
    by (simp add: ascii_def for_shell_def reply_of_def echo_def reply_def d [unfolded ascii_def])
qed

section \<open>The end of the input\<close>

lemma client_step_again:
  assumes "length cwd < MAX_LEN" and "check req" and "stdin s = []" and "line s = c" and "plain c" "length c \<le> 1018" "\<not> ends_line c"
    and "answers run (length started) c"
  shows "\<exists>s'. client_step run req cwd s started = Some (Goes_on s' (started @ [for_shell c])) \<and> stdin s' = [] \<and> line s' = c"
proof -
  have whole: "takeWhile (\<lambda>c. c \<noteq> 0) c = c" using assms(5) by (subst takeWhile_eq_all_conv) (auto simp: plain_def)
  have "takeWhile (\<lambda>x. \<not> separator x) c = c" using assms(5) by (subst takeWhile_eq_all_conv) (auto simp: plain_def)
  moreover have "dropWhile separator c = c" using assms(5) by (cases c) (auto simp: plain_def)
  moreover have "dropWhile (\<lambda>x. \<not> separator x) c = []" "c \<noteq> []" using assms(5) by (simp_all add: plain_def)
  ultimately have "strtok separator c = Some (c, [])" by (simp only: strtok_def whole Let_def if_False) simp
  moreover have "split_commands [] = []" by (subst split_commands.simps) (simp add: strtok_def)
  ultimately have split: "split_commands c = [c]" by (subst split_commands.simps) simp
  have "length c < MAX_LEN" using assms(6) by (simp add: MAX_LEN_def)
  then have "parse_command c = Some (c, Some [c])"
    using assms(7) unfolding parse_command_def split cut_joined(2) [OF assms(5)] Let_def ends_line_def by (simp add: MAX_CMDS_def)
  then have parse: "parse_command (takeWhile (\<lambda>c. c \<noteq> 0) c) = Some (c, Some [c])" by (simp only: whole)
  have got: "fgets MAX_LEN (line s) (stdin s) = (False, c, [])" using assms(3,4) by (simp add: fgets_def)
  have "(if check req then execute_command run [c] started else Some ([], started)) =
      Some (reply_of run (length started) c, started @ [for_shell c])"
    using execute_string [OF assms(6,8)] assms(2) by (simp add: execute_command_def)
  from client_step_line [OF assms(1) got parse this] show ?thesis by simp
qed

text \<open>
  At the end of its input the client does not stop. With the last line's first command left in its buffer
  it starts that command again in every turn, for as many turns as it is given.
\<close>

theorem rshell_repeats_at_eof:
  assumes "stdin s = []" and "line s = c" and "plain c" and "length c \<le> 1018" and "\<not> ends_line c" and "length cwd \<le> 1023"
    and "rq_proc req \<noteq> 0" and "oa_flavor req = AUTH_UNIX" and "\<forall>k. answers run (length started + k) c"
  shows "\<exists>s'. client_turns run req cwd n s started = Some (Goes_on s' (started @ replicate n (for_shell c))) \<and>
    stdin s' = [] \<and> line s' = c"
  using assms(1,2,9)
proof (induction n arbitrary: s started)
  case (Suc n)
  have "check req" using assms(7,8) by (simp add: check_def check_unix_def NULLPROC_def)
  moreover have "answers run (length started) c" using Suc.prems(3) by (metis add.right_neutral)
  ultimately obtain s' where s': "client_step run req cwd s started = Some (Goes_on s' (started @ [for_shell c]))"
    "stdin s' = []" "line s' = c"
    using client_step_again [OF _ _ Suc.prems(1,2) assms(3-5), of cwd req run started] assms(6) by (auto simp: MAX_LEN_def)
  have "\<forall>k. answers run (length (started @ [for_shell c]) + k) c" using Suc.prems(3) by (metis add_Suc_shift length_append_singleton)
  from Suc.IH [OF s'(2,3) this] show ?case using s'(1) by simp
qed simp

theorem rshell_repeats_at_eof_witness:
  "\<exists>s'. client_turns echo \<lparr>rq_proc = 2, oa_flavor = AUTH_UNIX\<rparr> (ascii ''/'') 1000
      \<lparr>line = ascii ''reboot'', stdin = [], shown = []\<rparr> [] = Some (Goes_on s' (replicate 1000 (ascii ''reboot 2>&1'')))"
proof -
  have p: "plain (ascii ''reboot'')" by (simp add: plain_def separator_def ascii_def)
  have q: "\<not> ends_line (ascii ''reboot'')" by (simp add: ends_line_def ascii_def)
  have a: "\<forall>k. answers echo (length [] + k) (ascii ''reboot'')"
    by (simp add: answers_def echo_def for_shell_def ascii_def MAX_LEN_def)
  show ?thesis
    using rshell_repeats_at_eof [OF _ _ p _ q _ _ _ a, of "\<lparr>line = ascii ''reboot'', stdin = [], shown = []\<rparr>" "ascii ''/''"
        "\<lparr>rq_proc = 2, oa_flavor = AUTH_UNIX\<rparr>" 1000]
    by (auto simp: for_shell_def ascii_def)
qed

text \<open>
  The output of a program. Up to 1023 bytes are collected whole, without a NUL among them; a single line of more runs over the
  server's buffer, which is checked only after a line was added.
\<close>

theorem rshell_output:
  "(0 \<notin> set out \<and> length out \<le> 1023 \<longrightarrow> collect [] out = Some out) \<and>
   (0 \<notin> set out \<and> 10 \<notin> set out \<and> length out > 1023 \<longrightarrow> collect [] out = None)"
  using collect_whole [of out "[]"] collect_overrun [of out 0 "[]"] by (auto simp: MAX_LEN_def)

theorem rshell_output_witness:
  "collect [] (replicate 1023 97) = Some (replicate 1023 97) \<and> collect [] (replicate 1024 97) = None"
  using rshell_output [of "replicate 1023 97"] rshell_output [of "replicate 1024 97"] by simp

end
