(* ===== verification/IpcObjects.thy ===== *)
theory IpcObjects
  imports IpcHash
begin

text \<open>
  The named objects of the shared hash table: the queue, the semaphores and the shared memory, which outlive the processes.
  The calls of the two programs that open, close and remove them, in their order; which of them fail is an argument.
\<close>

section \<open>Calls and names\<close>

datatype sys_call = Daemon | Mq_open | Mq_attach | Sem_open nat | Shm_open | Shm_attach | Ftruncate | Mmap
  | Clear_table | Check_queue | Munmap | Close_shm | Shm_unlink | Mq_close | Mq_unlink | Sem_close nat | Sem_unlink nat

text \<open>The queue with its messages, the semaphores with their counts, the memory; and whether the process has the queue.\<close>

record names =
  mq :: "bytes list option"
  sems :: "nat \<Rightarrow> nat option"
  shm :: "store option"
  has_queue :: bool

text \<open>Creating something that exists leaves it as it is.\<close>

fun effect :: "sys_call \<Rightarrow> names \<Rightarrow> names" where
  "effect Mq_open n = n\<lparr>mq := (case mq n of None \<Rightarrow> Some [] | Some q \<Rightarrow> Some q), has_queue := True\<rparr>"
| "effect Mq_attach n = n\<lparr>has_queue := True\<rparr>"
| "effect (Sem_open i) n = n\<lparr>sems := (sems n)(i := (case sems n i of None \<Rightarrow> Some 0 | Some v \<Rightarrow> Some v))\<rparr>"
| "effect Shm_open n = n\<lparr>shm := (case shm n of None \<Rightarrow> Some (\<lambda>_. 0) | Some m \<Rightarrow> Some m)\<rparr>"
| "effect Clear_table n = n\<lparr>shm := map_option (\<lambda>m. poke m 0 (replicate SHARED_MEMORY_SIZE 0)) (shm n)\<rparr>"
| "effect Shm_unlink n = n\<lparr>shm := None\<rparr>"
| "effect Mq_unlink n = n\<lparr>mq := None\<rparr>"
| "effect (Sem_unlink i) n = n\<lparr>sems := (sems n)(i := None)\<rparr>"
| "effect c n = n"

text \<open>A call fails if the system says so, or if what it is to attach to is not there; the queue is looked at later.\<close>

definition fails_at :: "(sys_call \<Rightarrow> bool) \<Rightarrow> names \<Rightarrow> sys_call \<Rightarrow> bool" where
  "fails_at fails n c \<longleftrightarrow> fails c \<or> c = Mq_attach \<and> mq n = None \<or> c = Shm_attach \<and> shm n = None"

definition exits_at :: "(sys_call \<Rightarrow> bool) \<Rightarrow> names \<Rightarrow> sys_call \<Rightarrow> bool" where
  "exits_at fails n c \<longleftrightarrow> (case c of
     Mq_open \<Rightarrow> False | Mq_attach \<Rightarrow> False | Clear_table \<Rightarrow> False
   | Check_queue \<Rightarrow> \<not> has_queue n
   | _ \<Rightarrow> fails_at fails n c)"

fun run_calls :: "(sys_call \<Rightarrow> bool) \<Rightarrow> sys_call list \<Rightarrow> names \<Rightarrow> names \<times> bool" where
  "run_calls fails [] n = (n, True)"
| "run_calls fails (c # cs) n =
     (if exits_at fails n c then (n, False)
      else run_calls fails cs (if fails_at fails n c then n else effect c n))"

section \<open>The server\<close>

definition server_opening :: "sys_call list" where
  "server_opening = Daemon # Mq_open # map Sem_open [0..<BUCKET_COUNT] @ [Shm_open, Ftruncate, Mmap, Clear_table, Check_queue]"

definition server_closing :: "sys_call list" where
  "server_closing = [Munmap, Close_shm, Shm_unlink, Mq_close, Mq_unlink] @ map Sem_close [0..<BUCKET_COUNT] @
     map Sem_unlink [0..<BUCKET_COUNT]"

datatype ended = Exit_success | Exit_failure | Waiting

definition server_main :: "(sys_call \<Rightarrow> bool) \<Rightarrow> bytes list \<Rightarrow> names \<Rightarrow> (names \<times> ended) option" where
  "server_main fails msgs n =
     (case run_calls fails server_opening (n\<lparr>has_queue := False\<rparr>) of
        (n, False) \<Rightarrow> Some (n, Exit_failure)
      | (n, True) \<Rightarrow> do {
          m \<leftarrow> shm n;
          s \<leftarrow> server_run msgs \<lparr>hash_table = m, sem = (\<lambda>i. case sems n i of None \<Rightarrow> 0 | Some v \<Rightarrow> v), queue = [], stopped = False\<rparr>;
          let n = n\<lparr>shm := Some (hash_table s), sems := (\<lambda>i. map_option (\<lambda>_. sem s i) (sems n i))\<rparr>;
          (if \<not> stopped s then Some (n, Waiting)
           else case run_calls fails server_closing n of
             (n, ok) \<Rightarrow> Some (n, if ok then Exit_success else Exit_failure))
        })"

section \<open>The client\<close>

definition client_opening :: "sys_call list" where
  "client_opening = Mq_attach # map Sem_open [0..<BUCKET_COUNT] @ [Shm_attach, Mmap, Check_queue]"

definition client_closing :: "sys_call list" where
  "client_closing = [Munmap, Close_shm, Mq_close] @ map Sem_close [0..<BUCKET_COUNT]"

text \<open>\<open>mysleep\<close> and the restart after a signal: what is still to be slept after each, \<open>None\<close> if the sleep was not interrupted.\<close>

fun nsleep :: "int \<times> int \<Rightarrow> (int \<times> int) option list \<Rightarrow> (int \<times> int) list" where
  "nsleep req [] = [req]"
| "nsleep req (None # later) = [req]"
| "nsleep req (Some left # later) = req # nsleep left later"

definition mysleep :: "u32 \<Rightarrow> (int \<times> int) option list \<Rightarrow> (int \<times> int) list" where
  "mysleep milisec interrupts =
     (let sec = uint milisec div 1000; milisec = uint milisec - sec * 1000 in nsleep (sec, milisec * 1000000) interrupts)"

section \<open>What stays behind\<close>

lemma run_calls_append:
  "run_calls fails (cs @ ds) n = (case run_calls fails cs n of (n, True) \<Rightarrow> run_calls fails ds n | (n, False) \<Rightarrow> (n, False))"
  by (induction cs arbitrary: n) (simp_all split: prod.splits bool.splits)

text \<open>Opening removes nothing, and keeps the counts and messages of what was there.\<close>

definition kept :: "names \<Rightarrow> names \<Rightarrow> bool" where
  "kept n n' \<longleftrightarrow> (\<forall>i v. sems n i = Some v \<longrightarrow> sems n' i = Some v) \<and> (\<forall>q. mq n = Some q \<longrightarrow> mq n' = Some q) \<and>
     (shm n \<noteq> None \<longrightarrow> shm n' \<noteq> None)"

definition opens :: "sys_call \<Rightarrow> bool" where
  "opens c \<longleftrightarrow> (case c of Shm_unlink \<Rightarrow> False | Mq_unlink \<Rightarrow> False | Sem_unlink i \<Rightarrow> False | _ \<Rightarrow> True)"

lemma effect_kept: "opens c \<Longrightarrow> kept n (effect c n)"
  by (cases c) (auto simp: kept_def opens_def split: option.splits)

lemma kept_trans: "kept a b \<Longrightarrow> kept b c \<Longrightarrow> kept a c"
  by (auto simp: kept_def)

lemma run_calls_kept: "\<forall>c\<in>set cs. opens c \<Longrightarrow> kept n (fst (run_calls fails cs n))"
proof (induction cs arbitrary: n)
  case (Cons c cs)
  have "kept n (if fails_at fails n c then n else effect c n)" using effect_kept [of c n] Cons.prems by (simp add: kept_def)
  then show ?case using Cons kept_trans by (auto simp: kept_def)
qed (simp add: kept_def)

lemma opening_opens: "\<forall>c\<in>set server_opening. opens c" "\<forall>c\<in>set client_opening. opens c"
  by (auto simp: server_opening_def client_opening_def opens_def)

text \<open>Semaphores opened and removed one by one.\<close>

lemma run_sem_open:
  "\<forall>i. \<not> fails (Sem_open i) \<Longrightarrow> run_calls fails (map Sem_open is) n =
    (n\<lparr>sems := (\<lambda>i. if i \<in> set is \<and> sems n i = None then Some 0 else sems n i)\<rparr>, True)"
proof (induction "is" arbitrary: n)
  case (Cons i "is")
  have "\<not> exits_at fails n (Sem_open i)" "\<not> fails_at fails n (Sem_open i)"
    using Cons.prems by (simp_all add: exits_at_def fails_at_def)
  then show ?case using Cons by (auto simp: fun_eq_iff split: option.splits)
qed simp

lemma run_sem_close: "\<forall>i. \<not> fails (Sem_close i) \<Longrightarrow> run_calls fails (map Sem_close is) n = (n, True)"
  by (induction "is" arbitrary: n) (simp_all add: exits_at_def fails_at_def)

lemma run_sem_unlink:
  "\<forall>i. \<not> fails (Sem_unlink i) \<Longrightarrow> run_calls fails (map Sem_unlink is) n =
    (n\<lparr>sems := (\<lambda>i. if i \<in> set is then None else sems n i)\<rparr>, True)"
  by (induction "is" arbitrary: n) (auto simp: exits_at_def fails_at_def fun_eq_iff)

lemma server_closes:
  assumes "\<forall>c. \<not> fails c"
  shows "run_calls fails server_closing n =
    (n\<lparr>shm := None, mq := None, sems := (\<lambda>i. if i < BUCKET_COUNT then None else sems n i)\<rparr>, True)"
  using assms by (simp add: server_closing_def run_calls_append run_sem_close run_sem_unlink exits_at_def fails_at_def cong: if_cong)

lemma server_opens:
  assumes "\<forall>c. \<not> fails c"
  shows "run_calls fails server_opening n = (n\<lparr>mq := (case mq n of None \<Rightarrow> Some [] | Some q \<Rightarrow> Some q), has_queue := True,
    sems := (\<lambda>i. if i < BUCKET_COUNT \<and> sems n i = None then Some 0 else sems n i),
    shm := Some (poke (case shm n of None \<Rightarrow> (\<lambda>_. 0) | Some m \<Rightarrow> m) 0 (replicate SHARED_MEMORY_SIZE 0))\<rparr>, True)"
  using assms by (cases "mq n"; cases "shm n")
    (simp_all add: server_opening_def run_calls_append run_sem_open exits_at_def fails_at_def cong: if_cong)

lemma client_needs_server:
  assumes "mq n = None" and "shm n = None" and "\<forall>i. \<not> fails (Sem_open i)"
  shows "run_calls fails client_opening n =
    (n\<lparr>sems := (\<lambda>i. if i < BUCKET_COUNT \<and> sems n i = None then Some 0 else sems n i)\<rparr>, False)"
  using assms by (simp add: client_opening_def run_calls_append run_sem_open exits_at_def fails_at_def)

lemma mysleep_valid: "hd (mysleep milisec interrupts) = (s, ns) \<Longrightarrow> 0 \<le> s \<and> 0 \<le> ns \<and> ns < 1000000000 \<and> s * 1000000000 + ns = uint milisec * 1000000"
proof -
  have "hd (nsleep req xs) = req" for req xs by (cases "(req, xs)" rule: nsleep.cases) auto
  moreover have "uint milisec - uint milisec div 1000 * 1000 = uint milisec mod 1000" by (simp add: minus_div_mult_eq_mod)
  moreover assume "hd (mysleep milisec interrupts) = (s, ns)"
  ultimately have s: "s = uint milisec div 1000" "ns = (uint milisec mod 1000) * 1000000" by (auto simp: mysleep_def Let_def)
  have "uint milisec = 1000 * (uint milisec div 1000) + uint milisec mod 1000" by simp
  then have "s * 1000000000 + ns = uint milisec * 1000000" unfolding s by linarith
  moreover have "0 \<le> uint milisec mod 1000" "uint milisec mod 1000 < 1000" by simp_all
  moreover have "0 \<le> s" unfolding s(1) by (simp add: pos_imp_zdiv_nonneg_iff)
  ultimately show ?thesis unfolding s(2) by linarith
qed


definition clean :: names where "clean = \<lparr>mq = None, sems = (\<lambda>_. None), shm = None, has_queue = False\<rparr>"


end
