(* ===== verification/Spec2Isabelle.thy ===== *)
theory Spec2Isabelle
  imports RaidDriver FwLinuxRuns VirtualMemoryCorrect FwWindowsCorrect SciWindowsCorrect IpcRuns
    UartLinuxCorrect UartWindowsCorrect FilesSockets MonitorRuns ReadersWritersCorrect MiniShellCorrect
    SortTalkCorrect SpuCorrect RemoteShellCorrect IpcObjects
begin

text \<open>
  WorkAtUPB is a collection of systems programs. They share no code, so the development has a group
  of theories per program over the common prelude \<open>Base\<close> (machine types, byte stores, little-endian
  images, lists) and \<open>Text\<close> (numbers as text). Where two programs rely on the same contract it is a locale, interpreted on both.

  \<^item> RAID driver for Windows, \<open>src/SimpleRAIDDriverWindows\<close>. \<open>Crc32\<close> models \<open>crc32.c\<close>: the table and
    the unrolled loop compute the bitwise CRC-32, and a changed burst of four bytes is found.
    \<open>SimpleRaid\<close> models the requests of \<open>ssr.c\<close>: two disks are byte stores, the answers of the lower
    driver are a list in the state that a request consumes. Reading gives the last write, both handlers
    refine a specification on the contents of the disks, bad copies are repaired, and no request leaves its
    sector and checksum sector. \<open>RaidDriver\<close> follows the kernel objects through loading and unloading;
    the loop of \<open>DriverUnload\<close> gets as fuel the number of devices, each turn deletes one.
  \<^item> Packet filter for Linux, \<open>src/NetworkFirewallLinux\<close>. \<open>RuleStore\<close> is the contract of the rule lists.
    \<open>FwLinux\<close> models \<open>rules.c\<close> and \<open>ip_firewall.c\<close>: doubly linked lists by address, hooks, device
    calls, timers. \<open>FwLinuxCorrect\<close> proves the lists against the contract and the hooks against a
    specification on rule lists; \<open>FwLinuxRuns\<close> has the runs of the module: which packets get in after which
    went out, that no handler fails or meets a freed block, and loading and unloading. Copying to the user is restarted as often as the list of
    answers says.
  \<^item> Virtual memory, \<open>src/VirtualMemoryLinux\<close>. \<open>VirtualMemory\<close> models the fault handler with its page
    records, the frames and the swap file; a touch faults at most twice, the fuel of \<open>fault_until\<close>.
    \<open>VirtualMemoryCorrect\<close> shows when pages behave as memory, and when they do not.
  \<^item> Packet filter for Windows, \<open>src/NetworkFirewallWindows\<close>. \<open>FwWindows\<close> has singly linked lists as
    nodes that can be freed (walks are partial functions) and the filter over chains of buffers;
    \<open>FwWindowsCorrect\<close> proves the lists against \<open>RuleStore\<close>, the filter against its specification,
    and that emptying a list reads freed nodes.
  \<^item> System call monitors, \<open>src/SystemCallMonitorLinux\<close> and \<open>src/SyscallMonitorWindows\<close>. \<open>SciLinux\<close> and
    \<open>SciWindows\<close> model the modules over an abstract table of calls; the lists of processes meet the
    contract \<open>pid_bag\<close>. Invariants over all reachable states give the contents of the table, what
    unloading restores, what is logged, and how the Windows monitor gets stuck.
  \<^item> Shared hash table, \<open>src/LinuxIPC\<close>. \<open>IpcHash\<close> models the bytes of the shared memory, the server's
    loop and a client as a list of actions; \<open>IpcHashCorrect\<close> has the invariant of the table;
    \<open>IpcRuns\<close> shows that the server implements a set of words, and when a client waits for it;
    \<open>IpcObjects\<close> what is left of queue, semaphores and memory when calls fail.
  \<^item> Serial drivers, \<open>src/SerialPortDriverLinux\<close> and \<open>src/SerialPortDriverWindows\<close>. \<open>Uart\<close> has the chip,
    the port macros and the loops both share; \<open>RxHandoff\<close> is the contract by which an interrupt handler
    hands bytes to a reader, \<open>UartLinux\<close> and \<open>UartWindows\<close> the drivers. \<open>UartLinuxCorrect\<close> and
    \<open>UartWindowsCorrect\<close> meet the contract, so that reads give the bytes received, and show what
    becomes of writes and of loading and unloading.
  \<^item> File server, \<open>src/FilesServerLinux\<close>. \<open>FilesProtocol\<close> models the packets, client and server;
    \<open>FilesProtocolCorrect\<close> the round trip of a listing. Reading a listing ends with its packet. \<open>FilesSockets\<close> has
    the calls of \<open>os_wrapper.c\<close> and the run of the client; what a split request does to the server.
  \<^item> Thread monitor, \<open>src/ThreadsMonitorLinux\<close>. \<open>Monitor\<close> models \<open>LibMonitor.cpp\<close> as steps between which
    other threads run; \<open>MonitorCorrect\<close> has the invariants of semaphores, queues and callbacks,
    \<open>MonitorRuns\<close> when threads exclude each other. \<open>ReadersWriters\<close> models \<open>LibRW.cpp\<close> on top;
    \<open>MonitorRule\<close> is the rule for programs with a monitor, applied in \<open>ReadersWritersCorrect\<close>.
  \<^item> Mini shell, \<open>src/MiniShellLinux\<close>. \<open>MiniShell\<close> executes the tree the parser gives: processes with
    descriptors, forks as events that contain what the child does. \<open>MiniShellCorrect\<close> shows who holds the
    ends of a pipe, what a program is started with, and which results get lost.

  \<^item> Sorting service, \<open>src/FaultTolerantService\<close>. \<open>SortTasks\<close> has the tasks, their packets, the manager and its
    check-point file, \<open>SortService\<close> the slave, the master's loop and the mirror. The loop and its search for a
    slave may not end, so both are partial functions. \<open>SortTasksCorrect\<close> shows that sorting and merging sort, and what
    packets and the file give back; \<open>SortServiceCorrect\<close> that no number is lost when slaves or the
    first master fail, and when the loop ends. 16381 numbers are what a packet for a merge holds.
    \<open>SortTalk\<close> has the messages and polls of master and slave as a step relation, and the processes that are spawned and
    told to leave. \<open>Ending\<close> is the contract of a relation whose runs all come to a goal; \<open>SortTalkCorrect\<close> meets it twice:
    with room for the packet in the message library a talk ends as the loop over the slaves takes it to, without it in a wait.

  \<^item> Image quilting, \<open>src/Image QuiltingCellArchitecture\<close>. \<open>Picture\<close> has pictures and their text format, \<open>Quilt\<close> the
    choice of patches, the seam and the program, once for both directions. \<open>PictureCorrect\<close> has the round trip of the
    format and the rule for counting loops; \<open>QuiltCorrect\<close> the contract \<open>axis\<close> of a direction, met by rows and
    columns, under which the picture is never left and is filled from the input. The bounds are those at which no difference
    reaches \<open>2 ^ 30\<close>, where the search for a candidate begins. \<open>Spu\<close> has the program on the SPUs with its transfers and the
    packets the PPU makes for it, \<open>SpuCorrect\<close> that it computes the same differences, and what its protocol loses.

  \<^item> Remote shell, \<open>src/RemoteShellRPC\<close>. \<open>RemoteShell\<close> models client and server; the generated stubs carry calls
    unchanged. \<open>RemoteShellCorrect\<close> shows what becomes of a line of commands, of output, and of the end of the input.

  Conventions. Kernels, hardware, users and memory are arguments: their answers are booleans, status
  values or lists of answers. A pointer is an address or an index; \<open>None\<close> is a step that C leaves
  undefined (a freed node, an index out of bounds). Words are kept at 32, 16 and 8 bits. Loops that
  run over data are recursions on it; the others carry a measure or fuel as said above.

  Not modelled: code in Java, the generated parser of the shell, test programs and generators, printing and logging, the
  branch for MPI ports and the choice of the PPU with \<open>CELL\<close>, which are not compiled, and per program what the theories say
  at their head.
\<close>

end
